(* ===== verification/Prelude.thy ===== *)
theory Prelude
  imports Main "HOL-Library.List_Lexorder" "HOL-Library.Char_ord"
    "HOL-Library.Product_Lexorder" "HOL-Library.Option_ord"
begin

text \<open>
  Shared vocabulary of the development: the collections of rewrite rules the component
  theories add to, an ordered map that stands for Rust's \<open>BTreeMap\<close>, and the generic
  list lemmas more than one component needs.
\<close>

named_theorems gate_simps "defining equations of the small gate predicates"
named_theorems state_frames "fields an operation leaves alone"
named_theorems str_simps "evaluation rules for the string routines"

section \<open>Ordered maps\<close>

text \<open>
  A \<open>BTreeMap\<close> is its iteration order: an association list with strictly ascending keys.
  Strings are compared bytewise, tuples lexicographically and \<open>None\<close> below \<open>Some\<close>, which is
  what the instances of \<open>List_Lexorder\<close>, \<open>Char_ord\<close>, \<open>Product_Lexorder\<close> and \<open>Option_ord\<close> say.
\<close>

type_synonym ('k, 'v) btree = "('k \<times> 'v) list"

fun bt_insert :: "'k::linorder \<Rightarrow> 'v \<Rightarrow> ('k, 'v) btree \<Rightarrow> ('k, 'v) btree" where
  "bt_insert k v [] = [(k, v)]"
| "bt_insert k v (e # es) =
     (if fst e < k then e # bt_insert k v es
      else if k < fst e then (k, v) # e # es
      else (k, v) # es)"

fun bt_remove :: "'k::linorder \<Rightarrow> ('k, 'v) btree \<Rightarrow> ('k, 'v) btree" where
  "bt_remove k [] = []"
| "bt_remove k (e # es) = (if fst e = k then es else e # bt_remove k es)"

definition bt_ok :: "('k::linorder, 'v) btree \<Rightarrow> bool" where
  "bt_ok m \<longleftrightarrow> sorted_wrt (<) (map fst m)"

lemma set_keys_bt_insert [simp]: "set (map fst (bt_insert k v m)) = insert k (set (map fst m))"
  by (induction m) auto

lemma bt_ok_Nil [simp]: "bt_ok []"
  by (simp add: bt_ok_def)

lemma bt_ok_Cons [simp]: "bt_ok (e # es) \<longleftrightarrow> (\<forall>k \<in> set (map fst es). fst e < k) \<and> bt_ok es"
  by (auto simp: bt_ok_def)

lemma bt_ok_insert: "bt_ok m \<Longrightarrow> bt_ok (bt_insert k v m)"
proof (induction m)
  case (Cons e es)
  then show ?case
    using set_keys_bt_insert [of k v es] by (auto simp del: set_keys_bt_insert)
qed simp

lemma set_bt_remove_subset: "set (bt_remove k m) \<subseteq> set m"
  by (induction m) auto

lemma bt_ok_remove: "bt_ok m \<Longrightarrow> bt_ok (bt_remove k m)"
proof (induction m)
  case (Cons e es)
  then show ?case using set_bt_remove_subset [of k es] by (auto split: if_splits)
qed simp

lemma bt_ok_distinct: "bt_ok m \<Longrightarrow> distinct (map fst m)"
  by (induction m) auto

lemma map_of_bt_insert: "map_of (bt_insert k v m) = (map_of m)(k \<mapsto> v)"
  by (induction m) (auto simp: fun_eq_iff)

lemma map_of_bt_remove: "bt_ok m \<Longrightarrow> map_of (bt_remove k m) = (map_of m)(k := None)"
proof (induction m)
  case (Cons e es)
  have "fst e \<notin> fst ` set es" using Cons.prems by auto
  then have "map_of es (fst e) = None" by (simp add: map_of_eq_None_iff)
  with Cons show ?case by (cases "fst e = k") (auto simp: fun_eq_iff)
qed simp

lemma length_bt_insert:
  "bt_ok m \<Longrightarrow> length (bt_insert k v m) = (if k \<in> fst ` set m then length m else Suc (length m))"
  by (induction m) auto

lemma length_bt_remove:
  "length (bt_remove k m) = (if k \<in> fst ` set m then length m - 1 else length m)"
proof (induction m)
  case (Cons e es)
  have "k \<in> fst ` set es \<Longrightarrow> es \<noteq> []" by auto
  with Cons show ?case by (cases "length es") auto
qed simp

text \<open>Two ordered maps with the same lookup function are the same list of entries.\<close>

lemma bt_ok_map_of_inject:
  assumes "bt_ok m" and "bt_ok n" and "map_of m = map_of n"
  shows "m = n"
proof -
  have "set m = set n"
    using assms by (metis bt_ok_distinct map_of_inject_set)
  moreover have "sorted_wrt (\<lambda>a b. fst a < fst b) m" "sorted_wrt (\<lambda>a b. fst a < fst b) n"
    using assms(1,2) by (simp_all add: bt_ok_def sorted_wrt_map)
  moreover have "distinct m" "distinct n"
    using assms(1,2) by (metis bt_ok_distinct distinct_map)+
  ultimately show ?thesis
  proof (induction m arbitrary: n)
    case (Cons a m)
    show ?case
    proof (cases n)
      case Nil
      with Cons.prems show ?thesis by simp
    next
      case (Cons b n')
      have ab: "a = b"
      proof (rule ccontr)
        assume "a \<noteq> b"
        then have "a \<in> set n'" "b \<in> set m"
          using Cons Cons.prems(1) by auto
        then have "fst b < fst a" "fst a < fst b"
          using Cons Cons.prems(2,3) by auto
        then show False by simp
      qed
      have "set m = set n'"
        using Cons Cons.prems ab by auto
      then show ?thesis
        using Cons Cons.prems ab Cons.IH [of n'] by simp
    qed
  qed simp
qed

text \<open>The interface the policy store and the JSON objects rely on.\<close>

locale ordered_map =
  fixes look :: "'m \<Rightarrow> 'k \<Rightarrow> 'v option"
    and ins :: "'k \<Rightarrow> 'v \<Rightarrow> 'm \<Rightarrow> 'm"
    and del :: "'k \<Rightarrow> 'm \<Rightarrow> 'm"
    and ok :: "'m \<Rightarrow> bool"
  assumes look_ins: "look (ins k v m) = (look m)(k \<mapsto> v)"
    and look_del: "ok m \<Longrightarrow> look (del k m) = (look m)(k := None)"
    and ok_ins: "ok m \<Longrightarrow> ok (ins k v m)"
    and ok_del: "ok m \<Longrightarrow> ok (del k m)"
    and ok_ext: "ok m \<Longrightarrow> ok n \<Longrightarrow> look m = look n \<Longrightarrow> m = n"
begin

lemma ins_ins: "ok m \<Longrightarrow> ins k v (ins k w m) = ins k v m"
  by (rule ok_ext) (simp_all add: ok_ins look_ins)

lemma del_ins: "ok m \<Longrightarrow> look m k = None \<Longrightarrow> del k (ins k v m) = m"
  by (rule ok_ext) (auto simp: ok_ins ok_del look_ins look_del fun_eq_iff)

lemma ins_swap: "ok m \<Longrightarrow> k \<noteq> l \<Longrightarrow> ins k v (ins l w m) = ins l w (ins k v m)"
  by (rule ok_ext) (auto simp: ok_ins look_ins fun_eq_iff)

lemma ins_same: "ok m \<Longrightarrow> look m k = Some v \<Longrightarrow> ins k v m = m"
  by (rule ok_ext) (auto simp: ok_ins look_ins fun_eq_iff)

lemma del_absent: "ok m \<Longrightarrow> look m k = None \<Longrightarrow> del k m = m"
  by (rule ok_ext) (auto simp: ok_del look_del fun_eq_iff)

end

interpretation btm: ordered_map map_of bt_insert bt_remove bt_ok
  by unfold_locales (auto simp: map_of_bt_insert map_of_bt_remove bt_ok_insert bt_ok_remove
      intro: bt_ok_map_of_inject)

section \<open>List routines\<close>

text \<open>Splitting at every element that satisfies a predicate, empty pieces kept.\<close>

fun split_on :: "('a \<Rightarrow> bool) \<Rightarrow> 'a list \<Rightarrow> 'a list list" where
  "split_on P [] = [[]]"
| "split_on P (x # xs) =
     (if P x then [] # split_on P xs
      else (case split_on P xs of [] \<Rightarrow> [[x]] | w # ws \<Rightarrow> (x # w) # ws))"

lemma split_on_not_Nil [simp]: "split_on P xs \<noteq> []"
  by (induction xs) (auto split: list.splits)

lemma split_on_pieces: "w \<in> set (split_on P xs) \<Longrightarrow> x \<in> set w \<Longrightarrow> x \<in> set xs \<and> \<not> P x"
proof (induction xs arbitrary: w)
  case (Cons y ys)
  then show ?case by (cases "split_on P ys") (fastforce split: if_splits)+
qed simp

lemma split_on_none: "(\<And>x. x \<in> set xs \<Longrightarrow> \<not> P x) \<Longrightarrow> split_on P xs = [xs]"
  by (induction xs) auto

lemma split_on_append_sep:
  "(\<And>x. x \<in> set xs \<Longrightarrow> \<not> P x) \<Longrightarrow> P s \<Longrightarrow> split_on P (xs @ s # ys) = xs # split_on P ys"
  by (induction xs) auto

definition windows :: "nat \<Rightarrow> 'a list \<Rightarrow> 'a list list" where
  "windows n xs = (if length xs < n then [] else map (\<lambda>i. take n (drop i xs)) [0..<Suc (length xs - n)])"

text \<open>A window of a list is a contiguous sublist of that length.\<close>

lemma in_windows: "w \<in> set (windows n xs) \<longleftrightarrow> length w = n \<and> (\<exists>us vs. xs = us @ w @ vs)"
proof
  assume "w \<in> set (windows n xs)"
  then obtain i where w: "w = take n (drop i xs)" and i: "i + n \<le> length xs"
    by (auto simp: windows_def less_Suc_eq_le le_diff_conv split: if_splits
        simp del: upt_Suc)
  have "xs = take i xs @ w @ drop (i + n) xs"
    unfolding w by (metis add.commute append_take_drop_id drop_drop)
  moreover have "length w = n" using w i by simp
  ultimately show "length w = n \<and> (\<exists>us vs. xs = us @ w @ vs)" by blast
next
  assume "length w = n \<and> (\<exists>us vs. xs = us @ w @ vs)"
  then obtain us vs where "xs = us @ w @ vs" "length w = n" by auto
  then show "w \<in> set (windows n xs)"
    by (auto simp: windows_def intro!: image_eqI [where x = "length us"])
qed

lemma append_sep_inject:
  assumes "u @ s # v = u' @ s # v'" and "s \<notin> set u" and "s \<notin> set u'"
  shows "u = u' \<and> v = v'"
  using assms by (induction u arbitrary: u') (case_tac u'; auto)+

end
