(* ===== verification/RustStr.thy ===== *)
theory RustStr
  imports Prelude
begin

text \<open>
  The part of Rust's \<open>str\<close> API the modelled code uses. A Rust string is its UTF-8 bytes, and a
  HOL \<open>char\<close> is one byte, so \<open>as_bytes\<close>, byte order, \<open>starts_with\<close>, \<open>contains\<close> and
  \<open>to_ascii_lowercase\<close> act on the list itself. A Rust \<open>char\<close> is the short byte string that
  encodes it; \<open>chars\<close> cuts a string into these. The Unicode table behind
  \<open>char::is_alphanumeric\<close> beyond ASCII is a parameter (\<open>ua\<close>) of the functions that consult it, in
  the same way the standard library consults it for non-ASCII characters only.
\<close>

type_synonym rchar = string

abbreviation code :: "char \<Rightarrow> nat" where
  "code c \<equiv> of_char c"

section \<open>Characters\<close>

definition utf8_width :: "char \<Rightarrow> nat" where
  "utf8_width c = (if code c < 192 then 1 else if code c < 224 then 2
                   else if code c < 240 then 3 else 4)"

function (sequential) chars :: "string \<Rightarrow> rchar list" where
  "chars [] = []"
| "chars (b # bs) = (b # take (utf8_width b - 1) bs) # chars (drop (utf8_width b - 1) bs)"
  by pat_completeness auto
termination by (relation "measure length") auto

definition is_ascii :: "char \<Rightarrow> bool" where
  "is_ascii c \<longleftrightarrow> code c < 128"

definition ascii_string :: "string \<Rightarrow> bool" where
  "ascii_string s \<longleftrightarrow> list_all is_ascii s"

definition ascii_upper :: "char \<Rightarrow> bool" where
  "ascii_upper c \<longleftrightarrow> 65 \<le> code c \<and> code c \<le> 90"

definition ascii_lower :: "char \<Rightarrow> bool" where
  "ascii_lower c \<longleftrightarrow> 97 \<le> code c \<and> code c \<le> 122"

definition ascii_digit :: "char \<Rightarrow> bool" where
  "ascii_digit c \<longleftrightarrow> 48 \<le> code c \<and> code c \<le> 57"

definition ascii_alnum :: "char \<Rightarrow> bool" where
  "ascii_alnum c \<longleftrightarrow> ascii_upper c \<or> ascii_lower c \<or> ascii_digit c"

definition lower_byte :: "char \<Rightarrow> char" where
  "lower_byte c = (if ascii_upper c then char_of (code c + 32) else c)"

definition to_ascii_lowercase :: "string \<Rightarrow> string" where
  "to_ascii_lowercase s = map lower_byte s"

definition is_alphanumeric :: "(rchar \<Rightarrow> bool) \<Rightarrow> rchar \<Rightarrow> bool" where
  "is_alphanumeric ua c =
     (case c of [b] \<Rightarrow> if is_ascii b then ascii_alnum b else ua c | _ \<Rightarrow> ua c)"

text \<open>The Unicode \<open>White_Space\<close> characters, all of them, as \<open>char::is_whitespace\<close> has them.\<close>

definition whitespace_chars :: "rchar list" where
  "whitespace_chars =
     map (\<lambda>n. [char_of n]) [9, 10, 11, 12, 13, 32 :: nat]
     @ [[CHR 0xC2, CHR 0x85], [CHR 0xC2, CHR 0xA0], [CHR 0xE1, CHR 0x9A, CHR 0x80]]
     @ map (\<lambda>n. [CHR 0xE2, CHR 0x80, char_of n]) [128, 129, 130, 131, 132, 133, 134, 135, 136,
         137, 138, 168, 169, 175 :: nat]
     @ [[CHR 0xE2, CHR 0x81, CHR 0x9F], [CHR 0xE3, CHR 0x80, CHR 0x80]]"

definition is_whitespace :: "rchar \<Rightarrow> bool" where
  "is_whitespace c \<longleftrightarrow> c \<in> set whitespace_chars"

lemma concat_chars [simp]: "concat (chars s) = s"
  by (induction s rule: chars.induct) auto

lemma chars_ascii: "ascii_string s \<Longrightarrow> chars s = map (\<lambda>c. [c]) s"
  by (induction s) (auto simp: ascii_string_def is_ascii_def utf8_width_def)

lemma chars_ascii_Cons: "is_ascii c \<Longrightarrow> chars (c # s) = [c] # chars s"
  by (simp add: is_ascii_def utf8_width_def)

lemmas chars_eval [str_simps] = chars.simps(1) chars_ascii_Cons
declare chars.simps [simp del]
declare chars_eval(1) [simp]

text \<open>Evaluation rules on literal bytes.\<close>

lemma code_Char: "code (Char b0 b1 b2 b3 b4 b5 b6 b7) =
    of_bool b0 + 2 * of_bool b1 + 4 * of_bool b2 + 8 * of_bool b3 + 16 * of_bool b4
    + 32 * of_bool b5 + 64 * of_bool b6 + 128 * of_bool b7"
  by (simp add: of_char_def)

lemma is_ascii_Char [simp, code]: "is_ascii (Char b0 b1 b2 b3 b4 b5 b6 b7) \<longleftrightarrow> \<not> b7"
  unfolding is_ascii_def code_Char
  by (cases b0; cases b1; cases b2; cases b3; cases b4; cases b5; cases b6; cases b7; simp)

lemma lower_byte_Char [str_simps]:
  "lower_byte (Char b0 b1 b2 b3 b4 b5 b6 b7) =
     (if ascii_upper (Char b0 b1 b2 b3 b4 b5 b6 b7) then Char b0 b1 b2 b3 b4 True b6 b7
      else Char b0 b1 b2 b3 b4 b5 b6 b7)"
  unfolding lower_byte_def ascii_upper_def code_Char
  by (cases b0; cases b1; cases b2; cases b3; cases b4; cases b5; cases b6; cases b7;
      simp add: char_of_def bit_0)

definition ascii_ws :: "char \<Rightarrow> bool" where
  "ascii_ws c \<longleftrightarrow> c \<in> {CHR 0x09, CHR 0x0A, CHR 0x0B, CHR 0x0C, CHR 0x0D, CHR '' ''}"

lemma whitespace_chars_eval:
  "whitespace_chars = [[CHR 0x09], [CHR 0x0A], [CHR 0x0B], [CHR 0x0C], [CHR 0x0D], [CHR '' ''],
     [CHR 0xC2, CHR 0x85], [CHR 0xC2, CHR 0xA0], [CHR 0xE1, CHR 0x9A, CHR 0x80],
     [CHR 0xE2, CHR 0x80, CHR 0x80], [CHR 0xE2, CHR 0x80, CHR 0x81], [CHR 0xE2, CHR 0x80, CHR 0x82],
     [CHR 0xE2, CHR 0x80, CHR 0x83], [CHR 0xE2, CHR 0x80, CHR 0x84], [CHR 0xE2, CHR 0x80, CHR 0x85],
     [CHR 0xE2, CHR 0x80, CHR 0x86], [CHR 0xE2, CHR 0x80, CHR 0x87], [CHR 0xE2, CHR 0x80, CHR 0x88],
     [CHR 0xE2, CHR 0x80, CHR 0x89], [CHR 0xE2, CHR 0x80, CHR 0x8A], [CHR 0xE2, CHR 0x80, CHR 0xA8],
     [CHR 0xE2, CHR 0x80, CHR 0xA9], [CHR 0xE2, CHR 0x80, CHR 0xAF], [CHR 0xE2, CHR 0x81, CHR 0x9F],
     [CHR 0xE3, CHR 0x80, CHR 0x80]]"
  by code_simp

lemma is_whitespace_byte: "is_whitespace [c] \<longleftrightarrow> ascii_ws c"
  by (auto simp: is_whitespace_def whitespace_chars_eval ascii_ws_def)

lemmas ascii_case [str_simps] = ascii_alnum_def ascii_upper_def ascii_lower_def ascii_digit_def
  to_ascii_lowercase_def is_alphanumeric_def

section \<open>Prefixes, substrings and trimming\<close>

definition starts_with :: "string \<Rightarrow> string \<Rightarrow> bool" where
  "starts_with p s \<longleftrightarrow> take (length p) s = p"

definition ends_with :: "string \<Rightarrow> string \<Rightarrow> bool" where
  "ends_with p s \<longleftrightarrow> length p \<le> length s \<and> drop (length s - length p) s = p"

definition strip_prefix :: "string \<Rightarrow> string \<Rightarrow> string option" where
  "strip_prefix p s = (if starts_with p s then Some (drop (length p) s) else None)"

fun str_contains :: "string \<Rightarrow> string \<Rightarrow> bool" where
  "str_contains [] p = (p = [])"
| "str_contains (c # cs) p = (starts_with p (c # cs) \<or> str_contains cs p)"

text \<open>\<open>s.split(pat).next()\<close>: the text before the first match, all of it without one.\<close>

fun before_match :: "string \<Rightarrow> string \<Rightarrow> string" where
  "before_match p [] = []"
| "before_match p (c # cs) = (if starts_with p (c # cs) then [] else c # before_match p cs)"

text \<open>\<open>s.split_once(pat)\<close>.\<close>

fun split_once :: "string \<Rightarrow> string \<Rightarrow> (string \<times> string) option" where
  "split_once p [] = (if p = [] then Some ([], []) else None)"
| "split_once p (c # cs) =
     (if starts_with p (c # cs) then Some ([], drop (length p) (c # cs))
      else map_option (\<lambda>(a, b). (c # a, b)) (split_once p cs))"

definition trim_list :: "('a \<Rightarrow> bool) \<Rightarrow> 'a list \<Rightarrow> 'a list" where
  "trim_list P xs = rev (dropWhile P (rev (dropWhile P xs)))"

definition trim :: "string \<Rightarrow> string" where
  "trim s = concat (trim_list is_whitespace (chars s))"

definition trim_end_matches :: "char list \<Rightarrow> string \<Rightarrow> string" where
  "trim_end_matches cs s = rev (dropWhile (\<lambda>c. c \<in> set cs) (rev s))"

definition split_whitespace :: "string \<Rightarrow> string list" where
  "split_whitespace s = map concat (filter (\<lambda>w. w \<noteq> []) (split_on is_whitespace (chars s)))"

definition split_spaces :: "string \<Rightarrow> string list" where
  "split_spaces s = filter (\<lambda>w. w \<noteq> []) (split_on (\<lambda>c. c = CHR '' '') s)"

fun join :: "string \<Rightarrow> string list \<Rightarrow> string" where
  "join sep [] = []"
| "join sep [w] = w"
| "join sep (w # ws) = w @ sep @ join sep ws"

text \<open>On ASCII text the character-level routines work byte by byte.\<close>

lemma split_on_map: "split_on P (map f xs) = map (map f) (split_on (P \<circ> f) xs)"
  by (induction xs) (auto split: list.splits)

lemma split_whitespace_ascii [str_simps]:
  "ascii_string s \<Longrightarrow> split_whitespace s = filter (\<lambda>w. w \<noteq> []) (split_on ascii_ws s)"
  by (simp add: split_whitespace_def chars_ascii split_on_map filter_map comp_def is_whitespace_byte)

lemma trim_ascii [str_simps]: "ascii_string s \<Longrightarrow> trim s = trim_list ascii_ws s"
proof -
  have dw: "dropWhile is_whitespace (map (\<lambda>c. [c]) t) = map (\<lambda>c. [c]) (dropWhile ascii_ws t)" for t
    by (simp add: dropWhile_map comp_def is_whitespace_byte)
  show "ascii_string s \<Longrightarrow> ?thesis"
    by (simp add: trim_def trim_list_def chars_ascii dw rev_map)
qed

lemmas ascii_eval [str_simps] = ascii_string_def ascii_ws_def

lemma starts_with_append [simp]: "starts_with p (p @ s)"
  by (simp add: starts_with_def)

lemma starts_with_iff: "starts_with p s \<longleftrightarrow> (\<exists>t. s = p @ t)"
  by (auto simp: starts_with_def) (metis append_take_drop_id)

lemma strip_prefix_append [simp]: "strip_prefix p (p @ s) = Some s"
  by (simp add: strip_prefix_def)

lemma strip_prefix_Some: "strip_prefix p s = Some t \<longleftrightarrow> s = p @ t"
  by (auto simp: strip_prefix_def starts_with_iff split: if_splits)

lemma str_contains_iff: "str_contains s p \<longleftrightarrow> (\<exists>u v. s = u @ p @ v)"
proof (induction s)
  case (Cons c cs)
  have "(\<exists>u v. c # cs = u @ p @ v) \<longleftrightarrow> (\<exists>t. c # cs = p @ t) \<or> (\<exists>u v. cs = u @ p @ v)"
    by (metis Cons_eq_append_conv append_Cons append_Nil)
  with Cons show ?case by (simp add: starts_with_iff)
qed simp

lemma ends_with_iff: "ends_with p s \<longleftrightarrow> (\<exists>t. s = t @ p)"
  by (auto simp: ends_with_def) (metis append_take_drop_id)

lemma split_once_Some: "split_once p s = Some (a, b) \<Longrightarrow> s = a @ p @ b"
proof (induction s arbitrary: a)
  case (Cons c cs)
  then show ?case by (auto simp: starts_with_iff split: if_splits)
qed (simp split: if_splits)

lemma split_once_char: "c \<notin> set a \<Longrightarrow> split_once [c] (a @ c # b) = Some (a, b)"
  by (induction a) (auto simp: starts_with_def)

lemma trim_list_id:
  "xs \<noteq> [] \<Longrightarrow> \<not> P (hd xs) \<Longrightarrow> \<not> P (last xs) \<Longrightarrow> trim_list P xs = xs"
  by (cases xs) (auto simp: trim_list_def hd_append hd_rev dropWhile_eq_self_iff split: if_splits)

text \<open>
  Well-formed text: every character has all its bytes. \<open>word\<close> is a non-empty piece of such text
  without white space; joining words with spaces and splitting again gives the words back.
\<close>

definition complete :: "rchar \<Rightarrow> bool" where
  "complete c \<longleftrightarrow> c \<noteq> [] \<and> length c = utf8_width (hd c)"

definition utf8_valid :: "string \<Rightarrow> bool" where
  "utf8_valid s \<longleftrightarrow> list_all complete (chars s)"

definition word :: "string \<Rightarrow> bool" where
  "word w \<longleftrightarrow> w \<noteq> [] \<and> utf8_valid w \<and> (\<forall>c \<in> set (chars w). \<not> is_whitespace c)"

lemma utf8_width_pos: "0 < utf8_width c"
  by (simp add: utf8_width_def)

lemma chars_complete: "complete c \<Longrightarrow> chars (c @ s) = c # chars s"
  by (cases c) (auto simp: complete_def chars.simps)

lemma chars_concat: "list_all complete cs \<Longrightarrow> chars (concat cs @ s) = cs @ chars s"
  by (induction cs) (auto simp: chars_complete)

lemma chars_concat_only: "list_all complete cs \<Longrightarrow> chars (concat cs) = cs"
  using chars_concat [of cs "[]"] by simp

lemma utf8_valid_concat: "list_all complete cs \<Longrightarrow> utf8_valid (concat cs)"
  by (simp add: utf8_valid_def chars_concat_only)

lemma utf8_valid_ascii: "ascii_string s \<Longrightarrow> utf8_valid s"
  by (induction s) (auto simp: utf8_valid_def complete_def chars_ascii ascii_string_def is_ascii_def
      utf8_width_def)

text \<open>A character of a string is complete, or it is cut off at the end of the string.\<close>

lemma chars_piece: "chars s = xs @ c # rest \<Longrightarrow> complete c \<or> rest = [] \<and> chars c = [c]"
proof (induction s arbitrary: xs rule: chars.induct)
  case (2 b bs)
  show ?case
  proof (cases xs)
    case Nil
    then have c: "c = b # take (utf8_width b - 1) bs" "rest = chars (drop (utf8_width b - 1) bs)"
      using 2(2) by (auto simp: chars.simps)
    then show ?thesis
      using utf8_width_pos [of b] by (cases "utf8_width b - 1 \<le> length bs") (auto simp: complete_def chars.simps)
  next
    case (Cons x xs')
    then have "chars (drop (utf8_width b - 1) bs) = xs' @ c # rest" using 2(2) by (simp add: chars.simps)
    then show ?thesis by (rule 2(1))
  qed
qed simp

lemma dropWhile_start:
  assumes "dropWhile P xs \<noteq> []"
  shows "\<exists>x ys. dropWhile P xs = x # ys \<and> \<not> P x \<and> xs = takeWhile P xs @ x # ys"
proof -
  obtain x ys where d: "dropWhile P xs = x # ys" using assms by (cases "dropWhile P xs") auto
  then show ?thesis using takeWhile_dropWhile_id [of P xs] by (auto simp: dropWhile_eq_Cons_conv)
qed

lemma trim_list_keeps: "\<not> P x \<Longrightarrow> trim_list P (x # xs) \<noteq> []"
  by (simp add: trim_list_def)

lemma chars_not_Nil: "c \<in> set (chars s) \<Longrightarrow> c \<noteq> []"
  by (induction s rule: chars.induct) (auto simp: chars.simps)

lemma trim_list_start:
  assumes "trim_list P xs \<noteq> []"
  shows "\<exists>x ys zs us. trim_list P xs = x # ys \<and> \<not> P x \<and> xs = us @ x # ys @ zs"
proof -
  have "dropWhile P xs \<noteq> []" using assms unfolding trim_list_def by (metis dropWhile.simps(1) rev.simps(1))
  then obtain x ys us where d: "dropWhile P xs = x # ys" "\<not> P x" "xs = us @ x # ys"
    using dropWhile_start by metis
  have "rev (x # ys) = takeWhile P (rev (x # ys)) @ dropWhile P (rev (x # ys))" by simp
  then have "x # ys = trim_list P xs @ rev (takeWhile P (rev (x # ys)))"
    unfolding trim_list_def d(1) by (metis rev_append rev_rev_ident)
  moreover obtain y zs where "trim_list P xs = y # zs" using assms by (cases "trim_list P xs") auto
  ultimately show ?thesis using d by (metis append_Cons list.inject)
qed

lemma trim_twice_not_Nil:
  assumes "trim s \<noteq> []"
  shows "trim (trim s) \<noteq> []"
proof -
  have "trim_list is_whitespace (chars s) \<noteq> []" using assms by (auto simp: trim_def)
  then obtain c ys zs us where c: "trim_list is_whitespace (chars s) = c # ys" "\<not> is_whitespace c" "chars s = us @ c # ys @ zs"
    using trim_list_start by metis
  have "\<exists>r. chars (concat (c # ys)) = c # r"
    using chars_piece [OF c(3)] by (auto simp: chars_complete)
  then obtain r where "chars (trim s) = c # r" by (auto simp: trim_def c(1))
  then have "trim_list is_whitespace (chars (trim s)) \<noteq> []" using trim_list_keeps [of is_whitespace c r] c(2) by simp
  then obtain d vs us zs where d: "trim_list is_whitespace (chars (trim s)) = d # vs" "chars (trim s) = us @ d # vs @ zs"
    using trim_list_start by metis
  then have "d \<noteq> []" using chars_not_Nil [of d "trim s"] by simp
  then show ?thesis using d(1) by (simp add: trim_def)
qed

lemma chars_append_space: "utf8_valid w \<Longrightarrow> chars (w @ CHR '' '' # s) = chars w @ '' '' # chars s"
  using chars_concat [of "chars w" "CHR '' '' # s"] by (simp add: utf8_valid_def chars_ascii_Cons)

lemma space_is_whitespace: "is_whitespace '' ''"
  by (simp add: is_whitespace_byte ascii_ws_def)

lemma split_whitespace_words:
  "utf8_valid s \<Longrightarrow> \<forall>w \<in> set (split_whitespace s). word w"
proof
  fix w assume s: "utf8_valid s" and "w \<in> set (split_whitespace s)"
  then obtain g where g: "g \<in> set (split_on is_whitespace (chars s))" "g \<noteq> []" "w = concat g"
    by (auto simp: split_whitespace_def)
  have parts: "c \<in> set (chars s) \<and> \<not> is_whitespace c" if "c \<in> set g" for c
    using split_on_pieces [OF g(1) that] .
  have "list_all complete g"
    using parts s by (auto simp: utf8_valid_def list_all_iff)
  moreover from this g have "w \<noteq> []" by (cases g) (auto simp: complete_def)
  ultimately show "word w"
    using parts g by (simp add: word_def chars_concat_only utf8_valid_concat)
qed

lemma split_whitespace_join:
  "\<forall>w \<in> set ws. word w \<Longrightarrow> split_whitespace (join '' '' ws) = ws"
proof (induction "'' ''" ws rule: join.induct)
  case (2 w)
  then show ?case
    by (cases "chars w") (auto simp: split_whitespace_def word_def split_on_none dest: arg_cong [of _ _ concat])
next
  case (3 w v ws)
  then have w: "word w" by simp
  then have "chars w \<noteq> []" by (auto simp: word_def dest: arg_cong [of _ _ concat])
  then show ?case
    using 3 w split_on_append_sep [of "chars w" is_whitespace "'' ''"]
    by (simp add: split_whitespace_def word_def chars_append_space space_is_whitespace)
qed (simp add: split_whitespace_def)

text \<open>Punctuation of the daemon's messages: the em dash in UTF-8, and single quotes.\<close>

definition dash :: string where
  "dash = [CHR 0xE2, CHR 0x80, CHR 0x94]"

definition quoted :: "string \<Rightarrow> string" where
  "quoted s = CHR 0x27 # s @ [CHR 0x27]"

section \<open>Numbers\<close>

fun nat_digits :: "nat \<Rightarrow> string" where
  "nat_digits n = (if n < 10 then [char_of (48 + n)] else nat_digits (n div 10) @ [char_of (48 + n mod 10)])"

declare nat_digits.simps [simp del]

definition int_string :: "int \<Rightarrow> string" where
  "int_string i = (if i < 0 then CHR ''-'' # nat_digits (nat (- i)) else nat_digits (nat i))"

fun read_digits :: "nat \<Rightarrow> string \<Rightarrow> nat option" where
  "read_digits acc [] = Some acc"
| "read_digits acc (c # cs) = (if ascii_digit c then read_digits (acc * 10 + (code c - 48)) cs else None)"

definition parse_nat :: "string \<Rightarrow> nat option" where
  "parse_nat s = (if s = [] then None else read_digits 0 s)"

text \<open>\<open>str::parse::<i64>\<close>: an optional sign, decimal digits, in range.\<close>

definition i64_in_range :: "int \<Rightarrow> bool" where
  "i64_in_range i \<longleftrightarrow> - (2 ^ 63) \<le> i \<and> i < 2 ^ 63"

definition parse_i64 :: "string \<Rightarrow> int option" where
  "parse_i64 s =
     (case (case s of [] \<Rightarrow> None
            | c # cs \<Rightarrow> if c = CHR ''-'' then map_option (\<lambda>n. - int n) (parse_nat cs)
                       else if c = CHR ''+'' then map_option int (parse_nat cs)
                       else map_option int (parse_nat s))
      of None \<Rightarrow> None | Some i \<Rightarrow> if i64_in_range i then Some i else None)"

lemma code_char_of [simp]: "n < 256 \<Longrightarrow> code (char_of n) = (n :: nat)"
  by (simp add: of_char_of)

lemma ascii_digit_char_of: "d < 10 \<Longrightarrow> ascii_digit (char_of (48 + d :: nat))"
  by (simp add: ascii_digit_def)

lemma read_digits_append:
  "read_digits acc (s @ t) = (case read_digits acc s of None \<Rightarrow> None | Some a \<Rightarrow> read_digits a t)"
  by (induction s arbitrary: acc) auto

lemma read_nat_digits: "read_digits 0 (nat_digits n) = Some n"
proof (induction n rule: nat_digits.induct)
  case (1 n)
  show ?case
    using 1 by (subst nat_digits.simps)
      (auto simp: read_digits_append ascii_digit_char_of)
qed

lemma nat_digits_not_Nil [simp]: "nat_digits n \<noteq> []"
  by (subst nat_digits.simps) simp

lemma nat_digits_ascii_digit: "c \<in> set (nat_digits n) \<Longrightarrow> ascii_digit c"
proof (induction n rule: nat_digits.induct)
  case (1 n)
  then show ?case
    by (subst (asm) (2) nat_digits.simps) (auto simp: ascii_digit_char_of split: if_splits)
qed

lemma parse_nat_digits: "parse_nat (nat_digits n) = Some n"
  by (simp add: parse_nat_def read_nat_digits)

lemma parse_i64_int_string: "i64_in_range i \<Longrightarrow> parse_i64 (int_string i) = Some i"
proof (cases "i < 0")
  case True
  then show "i64_in_range i \<Longrightarrow> ?thesis"
    by (simp add: parse_i64_def int_string_def parse_nat_digits)
next
  case False
  obtain c cs where d: "nat_digits (nat i) = c # cs"
    by (cases "nat_digits (nat i)") auto
  then have "ascii_digit c" using nat_digits_ascii_digit [of c "nat i"] by simp
  then have "c \<noteq> CHR ''-''" "c \<noteq> CHR ''+''" by (auto simp: ascii_digit_def)
  moreover have "parse_nat (c # cs) = Some (nat i)" using parse_nat_digits [of "nat i"] d by simp
  ultimately show "i64_in_range i \<Longrightarrow> ?thesis"
    using False d by (simp add: parse_i64_def int_string_def)
qed

section \<open>Further iterator and string routines\<close>

text \<open>\<open>Iterator::find_map\<close>.\<close>

fun find_map :: "('a \<Rightarrow> 'b option) \<Rightarrow> 'a list \<Rightarrow> 'b option" where
  "find_map f [] = None"
| "find_map f (x # xs) = (case f x of Some y \<Rightarrow> Some y | None \<Rightarrow> find_map f xs)"

lemma find_map_Some: "find_map f xs = Some y \<Longrightarrow> \<exists>x \<in> set xs. f x = Some y"
  by (induction xs) (auto split: option.splits)

text \<open>\<open>str::trim_end\<close>.\<close>

definition trim_end :: "string \<Rightarrow> string" where
  "trim_end s = concat (rev (dropWhile is_whitespace (rev (chars s))))"

lemma trim_end_start: "\<exists>r. s = trim_end s @ r"
proof -
  have "rev (chars s) = takeWhile is_whitespace (rev (chars s)) @ dropWhile is_whitespace (rev (chars s))" by simp
  then have "chars s = rev (dropWhile is_whitespace (rev (chars s))) @ rev (takeWhile is_whitespace (rev (chars s)))"
    by (metis rev_append rev_rev_ident)
  then have "concat (chars s) = trim_end s @ concat (rev (takeWhile is_whitespace (rev (chars s))))"
    unfolding trim_end_def by (metis concat_append)
  then show ?thesis by (metis concat_chars)
qed

definition strip_suffix :: "string \<Rightarrow> string \<Rightarrow> string option" where
  "strip_suffix p s = (if ends_with p s then Some (take (length s - length p) s) else None)"

lemma strip_suffix_start: "strip_suffix p s = Some b \<Longrightarrow> \<exists>r. s = b @ r"
  by (auto simp: strip_suffix_def split: if_splits intro: exI [of _ "drop (length s - length p) s"])

text \<open>Pieces of formatted replies: a string in double quotes, and a count.\<close>

definition dquoted :: "string \<Rightarrow> string" where
  "dquoted s = [CHR 0x22] @ s @ [CHR 0x22]"

definition nat_text :: "nat \<Rightarrow> string" where
  "nat_text n = int_string (int n)"

definition apos :: "string \<Rightarrow> string \<Rightarrow> string" where
  "apos a b = a @ [CHR 0x27] @ b"

lemma trim_list_part: "\<exists>ys zs. xs = ys @ trim_list P xs @ zs"
proof -
  let ?d = "dropWhile P xs"
  have "rev ?d = takeWhile P (rev ?d) @ dropWhile P (rev ?d)" by simp
  then have "?d = trim_list P xs @ rev (takeWhile P (rev ?d))"
    unfolding trim_list_def by (metis rev_append rev_rev_ident)
  then show ?thesis by (metis takeWhile_dropWhile_id)
qed

lemma trim_part: "\<exists>a b. s = a @ trim s @ b"
  by (metis trim_list_part [of "chars s" is_whitespace] concat_append concat_chars trim_def)

lemma trim_length: "length (trim s) \<le> length s"
  using trim_part [of s] by (metis add.left_commute le_add1 length_append)

end
