(* ===== verification/JsonValue.thy ===== *)
theory JsonValue
  imports RustStr "HOL-Library.Word"
begin

text \<open>
  JSON values as \<open>serde_json::Value\<close> has them (its object type is the ordered \<open>BTreeMap\<close>, since
  \<open>preserve_order\<close> is off in \<open>daemon/Cargo.toml\<close>), the accessors the modelled code uses, and the
  functions of third-party crates the model takes as parameters.
\<close>

datatype json =
    JNull
  | JBool bool
  | JInt int
  | JFloat "64 word"
  | JStr string
  | JArr "json list"
  | JObj "(string \<times> json) list"

text \<open>\<open>value.get(key)\<close> for a string key.\<close>

definition jget :: "json \<Rightarrow> string \<Rightarrow> json option" where
  "jget v k = (case v of JObj m \<Rightarrow> map_of m k | _ \<Rightarrow> None)"

definition as_str :: "json \<Rightarrow> string option" where
  "as_str v = (case v of JStr s \<Rightarrow> Some s | _ \<Rightarrow> None)"

definition as_bool :: "json \<Rightarrow> bool option" where
  "as_bool v = (case v of JBool b \<Rightarrow> Some b | _ \<Rightarrow> None)"

definition as_array :: "json \<Rightarrow> json list option" where
  "as_array v = (case v of JArr xs \<Rightarrow> Some xs | _ \<Rightarrow> None)"

definition is_object :: "json \<Rightarrow> bool" where
  "is_object v \<longleftrightarrow> (case v of JObj _ \<Rightarrow> True | _ \<Rightarrow> False)"

definition jget_str :: "json \<Rightarrow> string \<Rightarrow> string option" where
  "jget_str v k = Option.bind (jget v k) as_str"

text \<open>The record of third-party functions: SHA-256, hexadecimal printing, the JSON printer and the
  Unicode alphanumeric table.\<close>

record externals =
  sha256 :: "string \<Rightarrow> string"
  hex :: "string \<Rightarrow> string"
  json_text :: "json \<Rightarrow> string"
  ualnum :: "rchar \<Rightarrow> bool"

text \<open>The short digest \<open>hex::encode(&digest[..8])\<close> that names plans and parked actions.\<close>

definition short_digest :: "externals \<Rightarrow> string \<Rightarrow> string" where
  "short_digest E s = hex E (take 8 (sha256 E s))"

definition NUL :: char where
  "NUL = CHR 0x00"

lemma NUL_ascii: "is_ascii NUL"
  by (simp add: is_ascii_def NUL_def)

text \<open>Joining NUL-free pieces with NUL loses nothing: splitting at NUL is the inverse.\<close>

lemma split_join_NUL:
  "ws \<noteq> [] \<Longrightarrow> \<forall>w \<in> set ws. NUL \<notin> set w \<Longrightarrow> split_on (\<lambda>c. c = NUL) (join [NUL] ws) = ws"
proof (induction ws)
  case (Cons w ws)
  have w: "\<And>x. x \<in> set w \<Longrightarrow> x \<noteq> NUL" using Cons.prems by auto
  show ?case
  proof (cases ws)
    case Nil
    then show ?thesis using w by (simp add: split_on_none)
  next
    case (Cons v vs)
    have "split_on (\<lambda>c. c = NUL) (w @ NUL # join [NUL] ws) = w # ws"
      using split_on_append_sep [of w "\<lambda>c. c = NUL" NUL] w Cons.prems Cons.IH Cons by simp
    then show ?thesis using Cons by simp
  qed
qed simp

definition clean_name :: "string \<Rightarrow> bool" where
  "clean_name w \<longleftrightarrow> w \<noteq> [] \<and> NUL \<notin> set w"

lemma join_NUL_empty: "\<forall>w \<in> set ws. clean_name w \<Longrightarrow> join [NUL] ws = [] \<longleftrightarrow> ws = []"
  by (cases "([NUL], ws)" rule: join.cases) (auto simp: clean_name_def)

lemma join_NUL_inject:
  assumes us: "\<forall>w \<in> set us. clean_name w" and ws: "\<forall>w \<in> set ws. clean_name w"
    and eq: "join [NUL] us = join [NUL] ws"
  shows "us = ws"
proof (cases "us = [] \<or> ws = []")
  case True
  then show ?thesis using eq join_NUL_empty [OF us] join_NUL_empty [OF ws] by auto
next
  case False
  have "split_on (\<lambda>c. c = NUL) (join [NUL] us) = us"
    using us False by (intro split_join_NUL) (auto simp: clean_name_def)
  moreover have "split_on (\<lambda>c. c = NUL) (join [NUL] ws) = ws"
    using ws False by (intro split_join_NUL) (auto simp: clean_name_def)
  ultimately show ?thesis using eq by metis
qed

text \<open>A concrete instance of the third-party functions, for the evaluated examples only.\<close>

definition demo_externals :: externals where
  "demo_externals = \<lparr> sha256 = (\<lambda>s. s), hex = (\<lambda>s. s), json_text = (\<lambda>_. ''{}''), ualnum = (\<lambda>_. False) \<rparr>"

end
