(* ===== verification/PlanBind.thy ===== *)
theory PlanBind
  imports JsonValue "HOL-Library.Multiset"
begin

text \<open>
  The structured, state-bound plans of \<open>daemon/src/plan.rs\<close>: the two per-tool planners, the
  snapshot of the relevant state each plan is bound to, and the decision taken when a parked
  plan is compared with a recomputed one.
\<close>

record change =
  chg_resource :: string
  chg_before :: string
  chg_after :: string

record plan =
  plan_tool :: string
  plan_summary :: string
  plan_changes :: "change list"
  state_hash :: string

definition hash_state :: "externals \<Rightarrow> string \<Rightarrow> string" where
  "hash_state E snapshot = short_digest E snapshot"

definition field :: "json \<Rightarrow> string \<Rightarrow> string" where
  "field input key = trim (case jget_str input key of None \<Rightarrow> [] | Some s \<Rightarrow> s)"

definition connector_snapshot :: "string list \<Rightarrow> string" where
  "connector_snapshot names = ''mcp.servers'' @ [NUL] @ join [NUL] (sort names)"

definition standing_snapshot :: "string list \<Rightarrow> string" where
  "standing_snapshot goals = ''standing.missions'' @ [NUL] @ join [NUL] (sort goals)"

definition connector_args :: "json \<Rightarrow> string list" where
  "connector_args input =
     (case Option.bind (jget input ''args'') as_array of
        None \<Rightarrow> []
      | Some a \<Rightarrow> List.map_filter as_str a)"

definition connector_after :: "json \<Rightarrow> string option" where
  "connector_after input =
     (let transport = field input ''transport'';
          inert = '' '' @ dash @ '' INERT (agents=[], every tool gated)'' in
      if transport = ''http'' then Some (''https endpoint '' @ field input ''url'' @ inert)
      else if transport = ''stdio'' then
        (let command = field input ''command''; args = connector_args input in
         Some ((if args = [] then ''command '' @ command
                else ''command '' @ command @ '' '' @ join '' '' args) @ inert))
      else None)"

definition plan_connector_add :: "externals \<Rightarrow> json \<Rightarrow> string list \<Rightarrow> plan option" where
  "plan_connector_add E input existing_names =
     (let name = field input ''name''; transport = field input ''transport'' in
      if name = [] then None
      else (case connector_after input of
         None \<Rightarrow> None
       | Some aft \<Rightarrow> Some \<lparr> plan_tool = ''connector_add'',
           plan_summary = ''Add MCP connector '' @ quoted name @ '' ('' @ transport @ '') '' @ dash @
             '' added inert; no capability granted'',
           plan_changes = [\<lparr> chg_resource = ''config/darwin.toml [[mcp.servers]] '' @ quoted name,
             chg_before = ''(absent)'', chg_after = aft \<rparr>],
           state_hash = hash_state E (connector_snapshot existing_names) \<rparr>))"

definition plan_standing_create :: "externals \<Rightarrow> json \<Rightarrow> string list \<Rightarrow> plan option" where
  "plan_standing_create E input existing_goals =
     (let goal = field input ''goal''; schedule = field input ''schedule'';
          on = (if schedule = [] then [] else '' on '' @ schedule) in
      if goal = [] then None
      else Some \<lparr> plan_tool = ''standing_create'',
           plan_summary = ''Establish a standing mission: '' @ goal,
           plan_changes = [\<lparr> chg_resource = ''standing missions'',
             chg_before = nat_digits (length existing_goals) @ '' mission(s)'',
             chg_after = ''+1 '' @ quoted goal @ on @ '' '' @ dash @
               '' recurring autonomy (each run still parks)'' \<rparr>],
           state_hash = hash_state E (standing_snapshot existing_goals) \<rparr>)"

text \<open>
  What the impure entry points read: the \<open>[plan]\<close> switch, the configured MCP server names and the
  goals of the standing missions (\<open>None\<close> when the mission store cannot be read).
\<close>

record plan_env =
  plan_enabled :: bool
  server_names :: "string list"
  mission_goals :: "string list option"

definition build_plan :: "externals \<Rightarrow> plan_env \<Rightarrow> string \<Rightarrow> json \<Rightarrow> plan option" where
  "build_plan E P tool input =
     (if tool = ''connector_add'' then plan_connector_add E input (server_names P)
      else if tool = ''standing_create'' then
        Option.bind (mission_goals P) (plan_standing_create E input)
      else None)"

definition plan_for :: "externals \<Rightarrow> plan_env \<Rightarrow> string \<Rightarrow> json \<Rightarrow> plan option" where
  "plan_for E P tool input = (if plan_enabled P then build_plan E P tool input else None)"

definition recompute_plan :: "externals \<Rightarrow> plan_env \<Rightarrow> string \<Rightarrow> json \<Rightarrow> plan option" where
  "recompute_plan E P tool input = build_plan E P tool input"

section \<open>The state bind\<close>

datatype state_bind = Fresh | Drifted plan | Unplanned

fun bind_state :: "plan option \<Rightarrow> plan option \<Rightarrow> state_bind" where
  "bind_state None _ = Unplanned"
| "bind_state (Some p) (Some f) = (if state_hash p = state_hash f then Fresh else Drifted f)"
| "bind_state (Some p) None = Drifted p"

fun_cases bind_FreshE: "bind_state p f = Fresh"

lemma bind_state_Fresh:
  "bind_state p f = Fresh \<longleftrightarrow> (\<exists>a b. p = Some a \<and> f = Some b \<and> state_hash a = state_hash b)"
  by (cases "(p, f)" rule: bind_state.cases) auto

text \<open>A snapshot determines the multiset of names it was taken over.\<close>

lemma sorted_join_inject:
  assumes "\<forall>w \<in> set us \<union> set ws. clean_name w"
  shows "join [NUL] (sort us) = join [NUL] (sort ws) \<longleftrightarrow> mset us = mset ws"
proof
  assume "join [NUL] (sort us) = join [NUL] (sort ws)"
  then have "sort us = sort ws"
    using assms by (intro join_NUL_inject) auto
  then show "mset us = mset ws" by (metis mset_sort)
next
  assume "mset us = mset ws"
  then have "sort us = sort ws"
    by (metis mset_sort properties_for_sort sorted_sort)
  then show "join [NUL] (sort us) = join [NUL] (sort ws)" by simp
qed

lemma connector_snapshot_eq:
  "\<forall>w \<in> set us \<union> set ws. clean_name w \<Longrightarrow>
    connector_snapshot us = connector_snapshot ws \<longleftrightarrow> mset us = mset ws"
  by (simp add: connector_snapshot_def sorted_join_inject)

lemma standing_snapshot_eq:
  "\<forall>w \<in> set us \<union> set ws. clean_name w \<Longrightarrow>
    standing_snapshot us = standing_snapshot ws \<longleftrightarrow> mset us = mset ws"
  by (simp add: standing_snapshot_def sorted_join_inject)

lemma plan_connector_add_hash:
  "plan_connector_add E input names = Some p \<Longrightarrow> state_hash p = hash_state E (connector_snapshot names)"
  by (auto simp: plan_connector_add_def Let_def split: if_splits option.splits)

lemma plan_standing_create_hash:
  "plan_standing_create E input goals = Some p \<Longrightarrow> state_hash p = hash_state E (standing_snapshot goals)"
  by (auto simp: plan_standing_create_def Let_def split: if_splits)

text \<open>The planners plan or do not plan by the input alone, never by the state.\<close>

lemma plan_connector_add_defined:
  "plan_connector_add E input us = None \<longleftrightarrow> plan_connector_add E input ws = None"
  by (auto simp: plan_connector_add_def Let_def split: if_splits option.splits)

text \<open>Two different strings with the same short digest.\<close>

definition collides :: "externals \<Rightarrow> string \<Rightarrow> string \<Rightarrow> bool" where
  "collides E a b \<longleftrightarrow> a \<noteq> b \<and> short_digest E a = short_digest E b"

lemma hash_state_eq: "hash_state E a = hash_state E b \<longleftrightarrow> a = b \<or> collides E a b"
  by (auto simp: hash_state_def collides_def)

text \<open>The specification: what each planner's plan is bound to.\<close>

definition relevant_state :: "string \<Rightarrow> plan_env \<Rightarrow> string list option" where
  "relevant_state tool P = (if tool = ''connector_add'' then Some (server_names P) else mission_goals P)"

definition state_snapshot :: "string \<Rightarrow> string list \<Rightarrow> string" where
  "state_snapshot tool names =
     (if tool = ''connector_add'' then connector_snapshot names else standing_snapshot names)"

lemma state_snapshot_eq:
  "\<forall>w \<in> set us \<union> set ws. clean_name w \<Longrightarrow>
    state_snapshot tool us = state_snapshot tool ws \<longleftrightarrow> mset us = mset ws"
  by (simp add: state_snapshot_def connector_snapshot_eq standing_snapshot_eq)

lemma build_plan_Some:
  assumes "build_plan E P tool input = Some p"
  obtains names where "relevant_state tool P = Some names"
    and "state_hash p = hash_state E (state_snapshot tool names)"
    and "tool = ''connector_add'' \<or> tool = ''standing_create''"
  using assms plan_connector_add_hash plan_standing_create_hash
  by (auto simp: build_plan_def relevant_state_def state_snapshot_def bind_eq_Some_conv split: if_splits)

lemma build_plan_again:
  assumes "build_plan E P tool input = Some p" and "relevant_state tool Q = Some names"
  obtains q where "build_plan E Q tool input = Some q"
    and "state_hash q = hash_state E (state_snapshot tool names)"
proof -
  have "\<exists>q. build_plan E Q tool input = Some q"
    using assms by (auto simp: build_plan_def relevant_state_def plan_connector_add_def
        plan_standing_create_def Let_def bind_eq_Some_conv split: if_splits option.splits)
  then obtain q where "build_plan E Q tool input = Some q" ..
  with that build_plan_Some [OF this] assms(2) show thesis by fastforce
qed

text \<open>
  C22. A plan shown to the user is confirmed as fresh exactly when the state it is bound to can
  still be read and holds the same names, up to their order, unless two different states share
  a digest. An unreadable state is never fresh.
\<close>

theorem plan_drift_detected:
  assumes plan: "plan_for E P tool input = Some p"
    and before: "relevant_state tool P = Some us"
    and names: "\<forall>w \<in> set us \<union> set (case relevant_state tool Q of None \<Rightarrow> [] | Some ws \<Rightarrow> ws). clean_name w"
  shows "bind_state (Some p) (recompute_plan E Q tool input) = Fresh \<longleftrightarrow>
    (\<exists>ws. relevant_state tool Q = Some ws \<and>
      (mset us = mset ws \<or> collides E (state_snapshot tool us) (state_snapshot tool ws)))"
proof (cases "relevant_state tool Q")
  case None
  then have "recompute_plan E Q tool input = None"
    using build_plan_Some by (cases "recompute_plan E Q tool input") (fastforce simp: recompute_plan_def)+
  then show ?thesis using None by simp
next
  case (Some ws)
  have p: "build_plan E P tool input = Some p"
    using plan by (simp add: plan_for_def split: if_splits)
  then have hp: "state_hash p = hash_state E (state_snapshot tool us)"
    using before build_plan_Some [OF p] by fastforce
  obtain q where q: "recompute_plan E Q tool input = Some q"
    and hq: "state_hash q = hash_state E (state_snapshot tool ws)"
    using build_plan_again [OF p Some] by (auto simp: recompute_plan_def)
  show ?thesis
    using names Some q hp hq by (simp add: hash_state_eq state_snapshot_eq)
qed

theorem plan_drift_detected_witness:
  "let input = JObj [(''goal'', JStr ''brief me'')];
       P = \<lparr> plan_enabled = True, server_names = [], mission_goals = Some [''b'', ''a''] \<rparr>;
       Q = P\<lparr> mission_goals := Some [''a'', ''b''] \<rparr>;
       p = the (plan_for demo_externals P ''standing_create'' input)
   in plan_for demo_externals P ''standing_create'' input \<noteq> None
     \<and> bind_state (Some p) (recompute_plan demo_externals Q ''standing_create'' input) = Fresh"
proof -
  let ?input = "JObj [(''goal'', JStr ''brief me'')]"
  let ?P = "\<lparr> plan_enabled = True, server_names = [], mission_goals = Some [''b'', ''a''] \<rparr>"
  let ?Q = "?P\<lparr> mission_goals := Some [''a'', ''b''] \<rparr>"
  have "plan_for demo_externals ?P ''standing_create'' ?input \<noteq> None" by code_simp
  then obtain p where p: "plan_for demo_externals ?P ''standing_create'' ?input = Some p" by blast
  have r: "relevant_state ''standing_create'' ?P = Some [''b'', ''a'']"
    "relevant_state ''standing_create'' ?Q = Some [''a'', ''b'']" by (simp_all add: relevant_state_def)
  have "mset [''b'', ''a''] = mset [''a'', ''b'']" by simp
  then have "bind_state (Some p) (recompute_plan demo_externals ?Q ''standing_create'' ?input) = Fresh"
    using plan_drift_detected [OF p r(1), of ?Q] r(2) by (simp add: clean_name_def NUL_def)
  with p show ?thesis by (simp add: Let_def)
qed

end
