(* ===== verification/ConfirmGate.thy ===== *)
theory ConfirmGate
  imports PlanBind
begin

text \<open>
  The cross-turn spoken confirmation gate of \<open>daemon/src/confirm.rs\<close>: the single-slot store of the
  parked action with the id of the last prompt a human heard, every operation on the two, and the
  classifier of spoken replies. An \<open>Instant\<close> is its nanoseconds; \<open>duration_since\<close> saturates at
  zero, as subtraction on \<open>nat\<close> does.
\<close>

type_synonym instant = nat

definition PENDING_TTL :: nat where
  "PENDING_TTL = 120 * 10 ^ 9"

datatype confirm_reply = Affirm | Deny | Unrelated

record pending =
  p_agent :: string
  p_tool :: string
  p_input :: json
  p_allowed :: "string list"
  p_preview :: string
  p_created :: instant
  p_id :: string
  p_plan :: "plan option"

definition pending_preimage :: "externals \<Rightarrow> string \<Rightarrow> string \<Rightarrow> json \<Rightarrow> string" where
  "pending_preimage E ag tn inp = ag @ [NUL] @ tn @ [NUL] @ json_text E inp"

definition derive_pending_id :: "externals \<Rightarrow> string \<Rightarrow> string \<Rightarrow> json \<Rightarrow> string" where
  "derive_pending_id E ag tn inp = short_digest E (pending_preimage E ag tn inp)"

definition content_id :: "externals \<Rightarrow> pending \<Rightarrow> string" where
  "content_id E p = derive_pending_id E (p_agent p) (p_tool p) (p_input p)"

text \<open>The process globals \<open>PENDING\<close> and \<open>PROMPTED\<close>.\<close>

record confirm_state =
  slot :: "pending option"
  prompted :: "string option"

definition confirm_init :: confirm_state where
  "confirm_init = \<lparr> slot = None, prompted = None \<rparr>"

definition CONSEQUENTIAL_TOOLS :: "string list" where
  "CONSEQUENTIAL_TOOLS = [''github_comment_issue'', ''github_open_pr'', ''slack_post_message'',
     ''gcal_create_event'', ''gmail_send'', ''gdrive_upload_text'', ''x_post'', ''linkedin_post'',
     ''gads_pause_campaign'', ''gads_enable_campaign'', ''gads_set_budget'',
     ''meta_pause_campaign'', ''meta_resume_campaign'', ''meta_set_budget'', ''dume_control'',
     ''standing_create'', ''shell_run'', ''ui_actuate'', ''connector_add'',
     ''open_settings_pane'', ''pasteboard_put'', ''forge_app'']"

definition is_consequential_tool :: "string \<Rightarrow> bool" where
  "is_consequential_tool name \<longleftrightarrow> name \<in> set CONSEQUENTIAL_TOOLS"

section \<open>The store\<close>

definition strip_dry_run :: "string \<Rightarrow> string" where
  "strip_dry_run pv =
     trim_end_matches [CHR ''.'', CHR '' '']
       (before_match '' Enable consequential actions''
         (case strip_prefix ''[dry run] '' pv of None \<Rightarrow> pv | Some r \<Rightarrow> r))"

definition confirmation_prompt :: "string \<Rightarrow> string" where
  "confirmation_prompt pv = strip_dry_run pv @ '' '' @ dash @ '' say '' @ quoted ''confirm'' @
     '' to proceed or '' @ quoted ''cancel'' @ '' to drop it.''"

definition live_at :: "instant \<Rightarrow> pending \<Rightarrow> bool" where
  "live_at now p \<longleftrightarrow> now - p_created p \<le> PENDING_TTL"

definition park_inner :: "externals \<Rightarrow> pending \<Rightarrow> bool \<Rightarrow> confirm_state \<Rightarrow> confirm_state \<times> string" where
  "park_inner E p reaches_user s =
     (let q = p\<lparr> p_id := content_id E p \<rparr>;
          prompt = confirmation_prompt (p_preview q);
          s' = (if reaches_user then s\<lparr> prompted := Some (p_id q) \<rparr> else s)
      in (s'\<lparr> slot := Some q \<rparr>, prompt))"

definition park_ctx :: "externals \<Rightarrow> bool \<Rightarrow> pending \<Rightarrow> confirm_state \<Rightarrow> confirm_state \<times> string" where
  "park_ctx E reaches_user p s = park_inner E p reaches_user s"

definition retire_slot :: "confirm_state \<Rightarrow> confirm_state" where
  "retire_slot s = s\<lparr> slot := None, prompted := None \<rparr>"

definition is_live :: "instant \<Rightarrow> confirm_state \<Rightarrow> confirm_state \<times> bool" where
  "is_live now s =
     (case slot s of
        Some p \<Rightarrow> if live_at now p then (s, True) else (retire_slot s, False)
      | None \<Rightarrow> (s, False))"

definition take_live :: "instant \<Rightarrow> confirm_state \<Rightarrow> confirm_state \<times> pending option" where
  "take_live now s =
     (let matches_prompt =
        (case (slot s, prompted s) of (Some p, Some i) \<Rightarrow> p_id p = i | _ \<Rightarrow> False)
      in if \<not> matches_prompt then (s, None)
         else (s\<lparr> slot := None, prompted := None \<rparr>,
               case slot s of
                 Some p \<Rightarrow> if live_at now p then Some p else None
               | None \<Rightarrow> None))"

definition confirm_clear :: "confirm_state \<Rightarrow> confirm_state" where
  "confirm_clear s = s\<lparr> slot := None, prompted := None \<rparr>"

record pending_view =
  view_id :: string
  view_agent :: string
  view_tool :: string
  view_preview :: string

definition view_of :: "pending \<Rightarrow> pending_view" where
  "view_of p = \<lparr> view_id = p_id p, view_agent = p_agent p, view_tool = p_tool p, view_preview = p_preview p \<rparr>"

definition peek_pending :: "instant \<Rightarrow> confirm_state \<Rightarrow> confirm_state \<times> pending_view option" where
  "peek_pending now s =
     (case slot s of
        Some p \<Rightarrow> if live_at now p then (s, Some (view_of p)) else (retire_slot s, None)
      | None \<Rightarrow> (s, None))"

datatype by_id_confirm = Matched pending | NoMatch

definition confirm_by_id :: "string \<Rightarrow> instant \<Rightarrow> confirm_state \<Rightarrow> confirm_state \<times> by_id_confirm" where
  "confirm_by_id i now s =
     (case slot s of
        Some p \<Rightarrow>
          if live_at now p \<and> p_id p = i then (s\<lparr> slot := None, prompted := None \<rparr>, Matched p)
          else if live_at now p then (s, NoMatch)
          else (retire_slot s, NoMatch)
      | None \<Rightarrow> (s, NoMatch))"

definition deny_by_id :: "string \<Rightarrow> instant \<Rightarrow> confirm_state \<Rightarrow> confirm_state \<times> bool" where
  "deny_by_id i now s =
     (case slot s of
        Some p \<Rightarrow>
          if live_at now p \<and> p_id p = i then (retire_slot s, True)
          else if live_at now p then (s, False)
          else (retire_slot s, False)
      | None \<Rightarrow> (s, False))"

section \<open>The reply classifier\<close>

definition DENY_PHRASES :: "string list" where
  "DENY_PHRASES = [''no'', ''nope'', ''nah'', ''cancel'', ''stop'', ''dont'', ''do not'',
     ''nevermind'', ''never mind'', ''not yet'', ''hold on'', ''hold off'', ''abort'',
     ''scratch that'', ''forget it'', ''drop it'', ''negative'', ''undo'']"

definition QUALIFY_PHRASES :: "string list" where
  "QUALIFY_PHRASES = [''but'', ''change'', ''instead'', ''except'', ''however'', ''actually'',
     ''rather'', ''different'', ''edit'', ''make it'', ''use'', ''to'', ''add'']"

definition AFFIRM_PHRASES :: "string list" where
  "AFFIRM_PHRASES = [''yes'', ''yeah'', ''yep'', ''yup'', ''ya'', ''yse'', ''confirm'',
     ''confirmed'', ''do it'', ''go ahead'', ''go for it'', ''proceed'', ''send it'', ''ship it'',
     ''send'', ''post it'', ''post'', ''affirmative'', ''sure'', ''ok'', ''okay'', ''k'',
     ''please do'', ''please'', ''absolutely'', ''definitely'', ''fire it'', ''approved'',
     ''approve'', ''let'' @ [CHR 0x27] @ ''s go'', ''lets go'', ''make it so'']"

definition FILLER :: "string list" where
  "FILLER = [''it'', ''that'', ''now'', ''then'', ''and'', ''go'', ''just'', ''right'', ''all'']"

definition curly_quote :: rchar where
  "curly_quote = [CHR 0xE2, CHR 0x80, CHR 0x99]"

definition normalize_reply :: "(rchar \<Rightarrow> bool) \<Rightarrow> string \<Rightarrow> string" where
  "normalize_reply ua utterance =
     concat (map (\<lambda>c. if is_alphanumeric ua c then to_ascii_lowercase c else '' '')
       (filter (\<lambda>c. c \<noteq> [CHR 0x27] \<and> c \<noteq> curly_quote) (chars utterance)))"

definition contains_phrase :: "string list \<Rightarrow> string \<Rightarrow> bool" where
  "contains_phrase tokens needle =
     (let parts = split_whitespace needle in
      if parts = [] then False else parts \<in> set (windows (length parts) tokens))"

definition longest_affirm_at :: "string list \<Rightarrow> nat option" where
  "longest_affirm_at tokens =
     foldl (\<lambda>best phrase.
        let parts = split_whitespace phrase in
        if length parts \<le> length tokens \<and> take (length parts) tokens = parts
        then Some (case best of None \<Rightarrow> length parts | Some b \<Rightarrow> max b (length parts))
        else best) None AFFIRM_PHRASES"

text \<open>The phrase tables, as token lists.\<close>

definition affirm_table :: "string list list" where
  "affirm_table = map split_whitespace AFFIRM_PHRASES"

lemma affirm_tokens:
  "affirm_table = [[''yes''], [''yeah''], [''yep''], [''yup''], [''ya''], [''yse''],
     [''confirm''], [''confirmed''], [''do'', ''it''], [''go'', ''ahead''], [''go'', ''for'', ''it''],
     [''proceed''], [''send'', ''it''], [''ship'', ''it''], [''send''], [''post'', ''it''], [''post''],
     [''affirmative''], [''sure''], [''ok''], [''okay''], [''k''], [''please'', ''do''], [''please''],
     [''absolutely''], [''definitely''], [''fire'', ''it''], [''approved''], [''approve''],
     [''let'' @ [CHR 0x27] @ ''s'', ''go''], [''lets'', ''go''], [''make'', ''it'', ''so'']]"
  by (simp add: affirm_table_def AFFIRM_PHRASES_def str_simps)

definition longer_match :: "string list \<Rightarrow> nat option \<Rightarrow> string list \<Rightarrow> nat option" where
  "longer_match tokens best parts =
     (if length parts \<le> length tokens \<and> take (length parts) tokens = parts
      then Some (case best of None \<Rightarrow> length parts | Some b \<Rightarrow> max b (length parts)) else best)"

lemma longest_affirm_at_table:
  "longest_affirm_at tokens = foldl (longer_match tokens) None affirm_table"
  by (simp add: longest_affirm_at_def longer_match_def [abs_def] affirm_table_def foldl_map Let_def)

text \<open>The fold returns the length of a table entry the tokens start with, and the greatest one.\<close>

lemma foldl_longer_match:
  "(\<forall>n. foldl (longer_match tokens) best table = Some n \<longrightarrow>
      best = Some n \<or> (\<exists>p \<in> set table. length p = n \<and> take n tokens = p))
   \<and> (\<forall>b. best = Some b \<longrightarrow> (\<exists>n \<ge> b. foldl (longer_match tokens) best table = Some n))
   \<and> (\<forall>p \<in> set table. take (length p) tokens = p \<longrightarrow>
        (\<exists>n \<ge> length p. foldl (longer_match tokens) best table = Some n))"
proof (induction table arbitrary: best)
  case (Cons q table)
  let ?best = "longer_match tokens best q"
  note IH = Cons.IH [of ?best]
  have new: "take (length q) tokens = q \<Longrightarrow> \<exists>n \<ge> length q. ?best = Some n"
    by (auto simp: longer_match_def split: option.splits)
      (metis length_take min.cobounded1)+
  have old: "best = Some b \<Longrightarrow> \<exists>n \<ge> b. ?best = Some n" for b
    by (auto simp: longer_match_def)
  have orig: "?best = Some n \<Longrightarrow> best = Some n \<or> (length q = n \<and> take n tokens = q)" for n
    by (auto simp: longer_match_def max_def split: if_splits option.splits)
  show ?case
  proof (intro conjI allI impI ballI)
    fix n assume "foldl (longer_match tokens) best (q # table) = Some n"
    then show "best = Some n \<or> (\<exists>p \<in> set (q # table). length p = n \<and> take n tokens = p)"
      using IH orig by auto
  next
    fix b assume "best = Some b"
    then obtain n where "b \<le> n" "?best = Some n" using old by blast
    then show "\<exists>n \<ge> b. foldl (longer_match tokens) best (q # table) = Some n"
      using IH by (metis foldl_Cons le_trans)
  next
    fix p assume "p \<in> set (q # table)" and p: "take (length p) tokens = p"
    then consider "p = q" | "p \<in> set table" by auto
    then show "\<exists>n \<ge> length p. foldl (longer_match tokens) best (q # table) = Some n"
    proof cases
      case 1
      then obtain n where "length p \<le> n" "?best = Some n" using new p by blast
      then show ?thesis using IH by (metis foldl_Cons le_trans)
    next
      case 2
      then show ?thesis using IH p by simp
    qed
  qed
qed simp

lemma longest_affirm_at_sound:
  "longest_affirm_at tokens = Some n \<Longrightarrow> \<exists>p \<in> set affirm_table. length p = n \<and> tokens = p @ drop n tokens"
  unfolding longest_affirm_at_table
  using foldl_longer_match [of tokens None affirm_table] by (metis append_take_drop_id option.distinct(1))

lemma longest_affirm_at_complete:
  "p \<in> set affirm_table \<Longrightarrow> \<exists>n \<ge> length p. longest_affirm_at (p @ rest) = Some n"
  unfolding longest_affirm_at_table
  using foldl_longer_match [of "p @ rest" None affirm_table] by auto

lemma affirm_table_nonempty: "p \<in> set affirm_table \<Longrightarrow> p \<noteq> []"
  by (auto simp only: affirm_tokens set_simps)

lemma longest_affirm_at_pos: "longest_affirm_at tokens = Some n \<Longrightarrow> 0 < n"
  using longest_affirm_at_sound affirm_table_nonempty by blast

text \<open>The walk of \<open>is_clean_affirm\<close>: the loop index becomes the remaining tokens.\<close>

function clean_walk :: "bool \<Rightarrow> string list \<Rightarrow> bool" where
  "clean_walk matched_any tokens =
     (if tokens = [] then matched_any
      else (case longest_affirm_at tokens of
         Some len \<Rightarrow> clean_walk True (drop len tokens)
       | None \<Rightarrow> if hd tokens \<in> set FILLER then clean_walk matched_any (tl tokens) else False))"
  by pat_completeness auto
termination
  by (relation "measure (length \<circ> snd)") (auto dest: longest_affirm_at_pos)

declare clean_walk.simps [simp del]

definition is_clean_affirm :: "string \<Rightarrow> bool" where
  "is_clean_affirm joined =
     (let tokens = split_whitespace joined in
      if tokens = [] then False else clean_walk False tokens)"

definition classify_tokens :: "string list \<Rightarrow> confirm_reply" where
  "classify_tokens tokens =
     (if tokens = [] then Unrelated
      else let joined = join '' '' tokens in
        if list_ex (contains_phrase tokens) DENY_PHRASES then Deny
        else if contains_phrase tokens ''wait'' \<and> \<not> is_clean_affirm joined then Deny
        else if is_clean_affirm joined then Affirm
        else if list_ex (contains_phrase tokens) AFFIRM_PHRASES \<and>
                list_ex (contains_phrase tokens) QUALIFY_PHRASES then Unrelated
        else Unrelated)"

definition classify_confirmation :: "(rchar \<Rightarrow> bool) \<Rightarrow> string \<Rightarrow> confirm_reply" where
  "classify_confirmation ua utterance = classify_tokens (split_whitespace (normalize_reply ua utterance))"

datatype resolution = Replay pending | Cancelled string | PassThrough

definition resolve_reply :: "(rchar \<Rightarrow> bool) \<Rightarrow> pending \<Rightarrow> string \<Rightarrow> (string \<Rightarrow> string) \<Rightarrow> resolution" where
  "resolve_reply ua p utterance cancel_phrase =
     (case classify_confirmation ua utterance of
        Affirm \<Rightarrow> Replay p
      | Deny \<Rightarrow> Cancelled (cancel_phrase (p_tool p))
      | Unrelated \<Rightarrow> PassThrough)"

end
