(* ===== verification/ConfirmReply.thy ===== *)
theory ConfirmReply
  imports ConfirmGate
begin

text \<open>
  What the reply classifier of \<open>daemon/src/confirm.rs\<close> accepts: the greedy longest-match walk is
  compared with a grammar of affirmative replies, and deny markers are shown to win.
\<close>

section \<open>The grammar of affirmative replies\<close>

text \<open>
  \<open>reading ts b\<close>: the tokens are a sequence of affirm phrases and filler words, and \<open>b\<close> says
  whether a phrase is among them.
\<close>

inductive reading :: "string list \<Rightarrow> bool \<Rightarrow> bool" where
  empty: "reading [] False"
| phrase: "p \<in> set affirm_table \<Longrightarrow> reading ts b \<Longrightarrow> reading (p @ ts) True"
| filler: "f \<in> set FILLER \<Longrightarrow> reading ts b \<Longrightarrow> reading (f # ts) b"

lemma reading_ConsE:
  assumes "reading (t # ts) b"
  obtains (phrase) c us b' where "b" and "t # c \<in> set affirm_table" and "ts = c @ us" and "reading us b'"
  | (filler) "t \<in> set FILLER" and "reading ts b"
  using assms
proof cases
  case (phrase p us b')
  then obtain c where "p = t # c" "ts = c @ us"
    using affirm_table_nonempty [OF phrase(3)] by (cases p) auto
  with phrase that(1) show ?thesis by auto
qed (use that(2) in auto)

lemma phrase_heads:
  "t # c \<in> set affirm_table \<Longrightarrow> t \<notin> {''it'', ''ahead'', ''for''}"
  "''do'' # c \<in> set affirm_table \<Longrightarrow> c = [''it'']"
  by (auto simp: affirm_tokens)

lemma prefix_phrases:
  assumes "p \<in> set affirm_table" and "p @ c \<in> set affirm_table" and "c \<noteq> []"
  shows "c = [''it''] \<or> c = [''do'']"
proof -
  have "\<forall>p \<in> set affirm_table. \<forall>q \<in> set affirm_table. take (length p) q = p \<longrightarrow>
      drop (length p) q \<in> {[], [''it''], [''do'']}"
    by (simp add: affirm_tokens)
  then have "drop (length p) (p @ c) \<in> {[], [''it''], [''do'']}"
    using assms(1,2) by (metis append_eq_conv_conj)
  with assms(3) show ?thesis by auto
qed

lemma filler_phrases:
  "f \<in> set FILLER \<Longrightarrow> f # c \<in> set affirm_table \<Longrightarrow> c = [''ahead''] \<or> c = [''for'', ''it'']"
  by (auto simp: affirm_tokens FILLER_def)

lemma reading_it: "reading (''it'' # ts) b \<Longrightarrow> reading ts b"
  by (erule reading_ConsE) (auto dest: phrase_heads(1))

lemma reading_do: "reading (''do'' # ts) b \<Longrightarrow> \<exists>b'. reading ts b'"
proof (erule reading_ConsE)
  fix c us b' assume "''do'' # c \<in> set affirm_table" and c: "ts = c @ us" "reading us b'"
  then have "c = [''it'']" using phrase_heads(2) by simp
  then show ?thesis using c reading.filler [of "''it''"] by (auto simp: FILLER_def)
qed (auto simp: FILLER_def)

lemma no_reading_after_go: "\<not> reading (''ahead'' # ts) b" "\<not> reading (''for'' # ts) b"
  by (auto elim!: reading_ConsE simp: FILLER_def dest: phrase_heads(1))

text \<open>The greedy walk accepts exactly the readings with a phrase in them.\<close>

lemma clean_walk_reading: "reading ts b \<Longrightarrow> clean_walk m ts = (m \<or> b)"
proof (induction ts arbitrary: m b rule: length_induct)
  case (1 ts)
  have IH: "length us < length ts \<Longrightarrow> reading us b' \<Longrightarrow> clean_walk m' us = (m' \<or> b')" for us m' b'
    using 1 by blast
  from "1.prems" show ?case
  proof cases
    case empty
    then show ?thesis by (simp add: clean_walk.simps)
  next
    case (phrase p us b')
    from phrase(3) obtain n where n: "length p \<le> n" "longest_affirm_at ts = Some n"
      using longest_affirm_at_complete phrase(1) by blast
    then obtain q where q: "q \<in> set affirm_table" "length q = n" "ts = q @ drop n ts"
      using longest_affirm_at_sound by blast
    define rest where "rest = drop n ts"
    have "p @ us = q @ rest" "length p \<le> length q"
      using q n(1) phrase(1) rest_def by auto
    then obtain c where c: "q = p @ c" "us = c @ rest"
      by (auto simp: append_eq_append_conv2)
    have "\<exists>b''. reading rest b''"
    proof (cases "c = []")
      case True
      then show ?thesis using c phrase by auto
    next
      case False
      then consider "c = [''it'']" | "c = [''do'']" using prefix_phrases phrase q c by metis
      then show ?thesis
        using reading_it reading_do phrase c by cases auto
    qed
    then obtain b'' where b'': "reading rest b''" ..
    have "ts \<noteq> []" using phrase(1,3) affirm_table_nonempty by auto
    moreover have "0 < n" using n(2) longest_affirm_at_pos by blast
    ultimately have "length rest < length ts" by (simp add: rest_def)
    then have "clean_walk True rest" using IH [OF _ b''] by simp
    then show ?thesis
      using n(2) phrase(2) \<open>ts \<noteq> []\<close> by (simp add: clean_walk.simps [of m ts] rest_def)
  next
    case (filler f us)
    show ?thesis
    proof (cases "longest_affirm_at ts")
      case None
      then show ?thesis using filler IH [of us b m] by (simp add: clean_walk.simps [of m "f # us"])
    next
      case (Some n)
      then obtain q rest where q: "q \<in> set affirm_table" "ts = q @ rest"
        using longest_affirm_at_sound by blast
      obtain a c where "q = a # c" using affirm_table_nonempty [OF q(1)] by (cases q) simp_all
      then have "q = f # c" "us = c @ rest" using filler(1) q(2) by simp_all
      then have False
        using filler_phrases [of f c] filler q no_reading_after_go by fastforce
      then show ?thesis ..
    qed
  qed
qed

lemma clean_walk_sound: "clean_walk m ts \<Longrightarrow> \<exists>b. reading ts b \<and> (m \<or> b)"
proof (induction m ts rule: clean_walk.induct)
  case (1 m ts)
  show ?case
  proof (cases "ts = []")
    case True
    then show ?thesis using "1.prems" reading.empty by (auto simp: clean_walk.simps)
  next
    case False
    show ?thesis
    proof (cases "longest_affirm_at ts")
      case None
      then show ?thesis
        using 1 False reading.filler [of "hd ts" "tl ts"]
        by (auto simp: clean_walk.simps [of m ts] split: if_splits)
    next
      case (Some n)
      then obtain p where p: "p \<in> set affirm_table" "ts = p @ drop n ts"
        using longest_affirm_at_sound by blast
      have "clean_walk True (drop n ts)"
        using "1.prems" False Some by (simp add: clean_walk.simps [of m ts])
      then obtain b where "reading (drop n ts) b"
        using "1.IH"(2) [OF False Some] by blast
      then show ?thesis using reading.phrase [OF p(1)] p(2) by metis
    qed
  qed
qed

lemma clean_walk_iff: "clean_walk False ts \<longleftrightarrow> reading ts True"
  using clean_walk_sound [of False ts] clean_walk_reading [of ts True False] by auto

text \<open>The vocabulary of a reading, and why no deny marker occurs in one.\<close>

lemma reading_vocabulary:
  "reading ts b \<Longrightarrow> t \<in> set ts \<Longrightarrow> t \<in> \<Union> (set ` set affirm_table) \<union> set FILLER"
  by (induction rule: reading.induct) auto

lemma contains_phrase_tokens:
  "contains_phrase ts p \<Longrightarrow> set (split_whitespace p) \<subseteq> set ts"
  by (auto simp: contains_phrase_def Let_def in_windows split: if_splits)

lemma deny_tokens:
  "map split_whitespace (''wait'' # DENY_PHRASES) =
     [[''wait''], [''no''], [''nope''], [''nah''], [''cancel''], [''stop''], [''dont''], [''do'', ''not''],
      [''nevermind''], [''never'', ''mind''], [''not'', ''yet''], [''hold'', ''on''], [''hold'', ''off''],
      [''abort''], [''scratch'', ''that''], [''forget'', ''it''], [''drop'', ''it''], [''negative''],
      [''undo'']]"
  by (simp add: DENY_PHRASES_def str_simps)

definition reply_vocabulary :: "string list" where
  "reply_vocabulary = concat affirm_table @ FILLER"

lemma deny_tokens_foreign:
  "list_all (list_ex (\<lambda>t. \<not> list_ex ((=) t) reply_vocabulary)) (map split_whitespace (''wait'' # DENY_PHRASES))"
  unfolding deny_tokens reply_vocabulary_def affirm_tokens FILLER_def by simp

lemma deny_markers_foreign:
  assumes "p \<in> set DENY_PHRASES \<union> {''wait''}"
  shows "\<exists>t \<in> set (split_whitespace p). t \<notin> \<Union> (set ` set affirm_table) \<union> set FILLER"
proof -
  have "split_whitespace p \<in> set (map split_whitespace (''wait'' # DENY_PHRASES))"
    using assms by auto
  then have "list_ex (\<lambda>t. \<not> list_ex ((=) t) reply_vocabulary) (split_whitespace p)"
    using deny_tokens_foreign by (simp only: list_all_iff)
  then show ?thesis by (auto simp: list_ex_iff reply_vocabulary_def)
qed

lemma reading_no_deny:
  assumes "reading ts b" and "p \<in> set DENY_PHRASES \<union> {''wait''}"
  shows "\<not> contains_phrase ts p"
proof
  assume "contains_phrase ts p"
  moreover obtain t where "t \<in> set (split_whitespace p)"
    and foreign: "t \<notin> \<Union> (set ` set affirm_table) \<union> set FILLER"
    using deny_markers_foreign [OF assms(2)] ..
  ultimately have "t \<in> set ts" using contains_phrase_tokens by blast
  with reading_vocabulary [OF assms(1)] foreign show False by blast
qed

section \<open>The classifier\<close>

lemma utf8_valid_normalize:
  assumes "utf8_valid u"
  shows "utf8_valid (normalize_reply ua u)"
proof -
  have low: "complete (to_ascii_lowercase c)" if "complete c" for c
  proof (cases c)
    case (Cons b bs)
    have "utf8_width (lower_byte b) = utf8_width b"
      by (simp add: lower_byte_def ascii_upper_def utf8_width_def)
    with that Cons show ?thesis by (simp add: complete_def to_ascii_lowercase_def)
  qed (use that in \<open>simp add: complete_def\<close>)
  have "complete '' ''" by (simp add: complete_def utf8_width_def)
  with assms low show ?thesis
    unfolding normalize_reply_def
    by (intro utf8_valid_concat) (auto simp: utf8_valid_def list_all_iff)
qed

lemma reading_nonempty: "reading ts True \<Longrightarrow> ts \<noteq> []"
  by (induction ts True rule: reading.induct) (auto dest: affirm_table_nonempty)

lemma classify_tokens_Affirm:
  assumes "\<forall>w \<in> set ts. word w"
  shows "classify_tokens ts = Affirm \<longleftrightarrow> reading ts True"
proof -
  have clean: "is_clean_affirm (join '' '' ts) \<longleftrightarrow> reading ts True"
    using assms by (simp add: is_clean_affirm_def Let_def split_whitespace_join clean_walk_iff [symmetric])
      (simp add: clean_walk.simps)
  show ?thesis
  proof (cases "reading ts True")
    case True
    then have "\<not> list_ex (contains_phrase ts) DENY_PHRASES"
      using reading_no_deny by (auto simp: list_ex_iff)
    moreover have "ts \<noteq> []" using True reading_nonempty by blast
    ultimately show ?thesis using True clean by (simp add: classify_tokens_def)
  next
    case False
    then show ?thesis using clean by (simp add: classify_tokens_def Let_def)
  qed
qed

text \<open>
  C14. A spoken reply counts as a confirmation exactly when, after normalisation, it is a sequence
  of affirm phrases and filler words with at least one affirm phrase: the greedy longest-match
  walk neither misses such a reading nor accepts anything else.
\<close>

theorem affirm_exactly_readings:
  assumes "utf8_valid utterance"
  shows "classify_confirmation ua utterance = Affirm \<longleftrightarrow>
    reading (split_whitespace (normalize_reply ua utterance)) True"
  unfolding classify_confirmation_def
  using assms by (intro classify_tokens_Affirm split_whitespace_words utf8_valid_normalize)

theorem affirm_exactly_readings_witness:
  "classify_confirmation (\<lambda>_. False) ''Yes, send it.'' = Affirm"
proof -
  have "utf8_valid ''Yes, send it.''" by (simp add: utf8_valid_ascii ascii_string_def)
  moreover have "split_whitespace (normalize_reply (\<lambda>_. False) ''Yes, send it.'') =
      [''yes''] @ [''send'', ''it''] @ []"
    by (simp add: normalize_reply_def curly_quote_def str_simps)
  moreover have "reading ([''yes''] @ [''send'', ''it''] @ []) True"
    by (rule reading.phrase [where b = True], simp add: affirm_tokens,
      rule reading.phrase [OF _ reading.empty], simp add: affirm_tokens)
  ultimately show ?thesis using affirm_exactly_readings by metis
qed

text \<open>
  A deny marker anywhere in the reply wins: whatever else was said, a reply that contains one
  is a denial.
\<close>

theorem deny_marker_wins:
  assumes "p \<in> set DENY_PHRASES"
    and "contains_phrase (split_whitespace (normalize_reply ua utterance)) p"
  shows "classify_confirmation ua utterance = Deny"
proof -
  let ?ts = "split_whitespace (normalize_reply ua utterance)"
  have "list_ex (contains_phrase ?ts) DENY_PHRASES" using assms by (auto simp: list_ex_iff)
  moreover have "?ts \<noteq> []"
    using assms(2) by (auto simp: contains_phrase_def Let_def in_windows split: if_splits)
  ultimately show ?thesis by (simp add: classify_confirmation_def classify_tokens_def)
qed

theorem deny_marker_wins_witness:
  "classify_confirmation (\<lambda>_. False) ''yes but do not'' = Deny"
  by (rule deny_marker_wins [of "''do not''"])
    (simp_all add: DENY_PHRASES_def contains_phrase_def windows_def normalize_reply_def
      curly_quote_def str_simps)

end
