(* ===== verification/ConfirmMachine.thy ===== *)
theory ConfirmMachine
  imports ConfirmGate "HOL-Library.Sublist"
begin

text \<open>
  The store of \<open>daemon/src/confirm.rs\<close> as a machine: any interleaving of parks, spoken takes, polls,
  HUD confirmations and denials, and clears. The lemmas relate what is fired to the history of
  parks: which action a spoken yes fires, that nothing fires twice, and what a HUD decision by id
  hits.
\<close>

datatype confirm_event =
  Park bool pending | Take instant | Live instant | Peek instant
| ConfirmId string instant | DenyId string instant | Clear

fun confirm_step :: "externals \<Rightarrow> confirm_event \<Rightarrow> confirm_state \<Rightarrow> confirm_state \<times> pending option" where
  "confirm_step E (Park heard p) s = (fst (park_ctx E heard p s), None)"
| "confirm_step E (Take t) s = take_live t s"
| "confirm_step E (Live t) s = (fst (is_live t s), None)"
| "confirm_step E (Peek t) s = (fst (peek_pending t s), None)"
| "confirm_step E (ConfirmId i t) s =
     (case confirm_by_id i t s of (s', Matched p) \<Rightarrow> (s', Some p) | (s', NoMatch) \<Rightarrow> (s', None))"
| "confirm_step E (DenyId i t) s = (fst (deny_by_id i t s), None)"
| "confirm_step E Clear s = (confirm_clear s, None)"

definition confirm_run :: "externals \<Rightarrow> confirm_event list \<Rightarrow> confirm_state \<Rightarrow> confirm_state" where
  "confirm_run E evs s = foldl (\<lambda>s e. fst (confirm_step E e s)) s evs"

fun fired :: "externals \<Rightarrow> confirm_event list \<Rightarrow> confirm_state \<Rightarrow> pending list" where
  "fired E [] s = []"
| "fired E (e # es) s =
     (case snd (confirm_step E e s) of None \<Rightarrow> [] | Some p \<Rightarrow> [p]) @ fired E es (fst (confirm_step E e s))"

text \<open>The parks of a history, each with the id \<open>park_inner\<close> gives it.\<close>

definition with_id :: "externals \<Rightarrow> pending \<Rightarrow> pending" where
  "with_id E p = p\<lparr> p_id := content_id E p \<rparr>"

fun parked :: "externals \<Rightarrow> confirm_event list \<Rightarrow> pending list" where
  "parked E [] = []"
| "parked E (Park heard p # es) = with_id E p # parked E es"
| "parked E (_ # es) = parked E es"

text \<open>The last action whose prompt a human heard, forgotten when the store is cleared.\<close>

fun heard_last :: "externals \<Rightarrow> pending option \<Rightarrow> confirm_event list \<Rightarrow> pending option" where
  "heard_last E h [] = h"
| "heard_last E h (Park True p # es) = heard_last E (Some (with_id E p)) es"
| "heard_last E h (Clear # es) = heard_last E None es"
| "heard_last E h (_ # es) = heard_last E h es"

lemma with_id_simps [simp]:
  "p_id (with_id E p) = content_id E p" "content_id E (with_id E p) = content_id E p"
  by (simp_all add: with_id_def content_id_def)

lemma confirm_run_Nil [simp]: "confirm_run E [] s = s"
  by (simp add: confirm_run_def)

lemma confirm_run_snoc [simp]:
  "confirm_run E (evs @ [e]) s = fst (confirm_step E e (confirm_run E evs s))"
  by (simp add: confirm_run_def)

lemma heard_last_snoc [simp]:
  "heard_last E h (evs @ [e]) =
     (case e of Park True p \<Rightarrow> Some (with_id E p) | Clear \<Rightarrow> None | _ \<Rightarrow> heard_last E h evs)"
  by (induction E h evs rule: heard_last.induct) (auto split: confirm_event.splits bool.splits)

lemma parked_append [simp]: "parked E (xs @ ys) = parked E xs @ parked E ys"
  by (induction E xs rule: parked.induct) auto

section \<open>The invariant of the store\<close>

lemmas store_ops = park_ctx_def park_inner_def is_live_def peek_pending_def confirm_by_id_def
  deny_by_id_def confirm_clear_def retire_slot_def take_live_def Let_def

definition store_inv :: "externals \<Rightarrow> confirm_event list \<Rightarrow> confirm_state \<Rightarrow> bool" where
  "store_inv E evs s \<longleftrightarrow>
     (slot s = None \<longrightarrow> prompted s = None)
   \<and> (\<forall>p. slot s = Some p \<longrightarrow> parked E evs \<noteq> [] \<and> p = last (parked E evs) \<and> p_id p = content_id E p)
   \<and> (\<forall>i. prompted s = Some i \<longrightarrow> (\<exists>q. heard_last E None evs = Some q \<and> p_id q = i))"

text \<open>Each operation that is not a park leaves the store alone or empties both fields.\<close>

lemma step_not_park:
  assumes "\<forall>heard p. e \<noteq> Park heard p"
  shows "fst (confirm_step E e s) = s \<or> fst (confirm_step E e s) = confirm_init \<and> slot s \<noteq> None
    \<or> e = Clear \<and> fst (confirm_step E e s) = confirm_init"
  using assms by (cases e; cases s)
    (auto simp: store_ops confirm_init_def split: option.splits)

lemma store_inv_init: "store_inv E evs confirm_init"
  by (simp add: store_inv_def confirm_init_def)

lemma store_inv_park:
  "store_inv E evs s \<Longrightarrow> store_inv E (evs @ [Park heard p]) (fst (confirm_step E (Park heard p) s))"
  by (cases heard) (auto simp: store_inv_def store_ops with_id_def content_id_def)

lemma store_inv_run: "store_inv E evs (confirm_run E evs confirm_init)"
proof (induction evs rule: rev_induct)
  case (snoc e evs)
  show ?case
  proof (cases "\<exists>heard p. e = Park heard p")
    case True
    then show ?thesis using store_inv_park [OF snoc] by auto
  next
    case False
    then consider "fst (confirm_step E e (confirm_run E evs confirm_init)) = confirm_run E evs confirm_init" "e \<noteq> Clear"
      | "fst (confirm_step E e (confirm_run E evs confirm_init)) = confirm_init"
      using step_not_park [of e E "confirm_run E evs confirm_init"]
      by (cases e) (auto simp: store_ops confirm_init_def)
    then show ?thesis
    proof cases
      case 1
      then show ?thesis using snoc False by (cases e) (auto simp: store_inv_def)
    qed (simp add: store_inv_init)
  qed
qed (simp add: store_inv_init)

lemma take_live_Some:
  assumes "take_live now s = (s', Some p)"
  shows "slot s = Some p" "prompted s = Some (p_id p)" "live_at now p" "s' = confirm_init"
  using assms by (cases s; auto simp: take_live_def confirm_init_def Let_def split: option.splits if_splits)+

section \<open>What a yes fires\<close>

text \<open>Two actions with one content id are the same action unless two preimages collide.\<close>

definition same_action :: "externals \<Rightarrow> pending \<Rightarrow> pending \<Rightarrow> bool" where
  "same_action E p q \<longleftrightarrow> p_agent p = p_agent q \<and> p_tool p = p_tool q \<and>
     json_text E (p_input p) = json_text E (p_input q)"

definition action_preimage :: "externals \<Rightarrow> pending \<Rightarrow> string" where
  "action_preimage E p = pending_preimage E (p_agent p) (p_tool p) (p_input p)"

definition nul_free :: "pending \<Rightarrow> bool" where
  "nul_free p \<longleftrightarrow> NUL \<notin> set (p_agent p) \<and> NUL \<notin> set (p_tool p)"

lemma content_id_eq:
  assumes "content_id E p = content_id E q" and "nul_free p" and "nul_free q"
  shows "same_action E p q \<or> collides E (action_preimage E p) (action_preimage E q)"
proof (cases "action_preimage E p = action_preimage E q")
  case True
  then have "p_agent p @ NUL # (p_tool p @ NUL # json_text E (p_input p)) =
      p_agent q @ NUL # (p_tool q @ NUL # json_text E (p_input q))"
    by (simp add: action_preimage_def pending_preimage_def)
  with assms(2,3) show ?thesis
    unfolding same_action_def nul_free_def by (metis append_sep_inject)
next
  case False
  with assms(1) show ?thesis
    by (simp add: collides_def content_id_def derive_pending_id_def action_preimage_def)
qed

text \<open>
  C7. Whatever parks, polls, denials and clears came before, an action that a spoken yes takes out
  of the store is the last one parked, is not older than the time limit, and is the action of the
  last prompt a human heard (unless two digests collide), with no clear since that prompt. Taking
  it leaves the store empty.
\<close>

theorem spoken_yes_fires_prompted_action:
  assumes take: "take_live now (confirm_run E evs confirm_init) = (s', Some p)"
    and nul: "\<forall>heard q. Park heard q \<in> set evs \<longrightarrow> nul_free q"
  shows "p = last (parked E evs) \<and> live_at now p \<and> s' = confirm_init \<and>
    (\<exists>q. heard_last E None evs = Some q \<and>
      (same_action E p q \<or> collides E (action_preimage E p) (action_preimage E q)))"
proof -
  have inv: "store_inv E evs (confirm_run E evs confirm_init)" by (rule store_inv_run)
  note t = take_live_Some [OF take]
  obtain q where q: "heard_last E None evs = Some q" "p_id q = p_id p"
    using inv t(1,2) by (auto simp: store_inv_def)
  have p: "parked E evs \<noteq> []" "p = last (parked E evs)" "p_id p = content_id E p"
    using inv t(1) by (auto simp: store_inv_def)
  have parks: "nul_free r" if "r \<in> set (parked E evs)" for r
    using nul that by (induction E evs rule: parked.induct) (auto simp: nul_free_def with_id_def)
  have heard: "\<forall>r. h = Some r \<longrightarrow> nul_free r \<and> p_id r = content_id E r \<Longrightarrow>
      heard_last E h evs = Some r \<Longrightarrow> nul_free r \<and> p_id r = content_id E r" for h r
    using nul by (induction E h evs rule: heard_last.induct) (auto simp: nul_free_def with_id_def content_id_def)
  have "nul_free p" using parks p by simp
  moreover have "nul_free q" "content_id E q = content_id E p"
    using heard [of None] q p(3) by auto
  ultimately show ?thesis
    using content_id_eq [of E p q] p t q by metis
qed

definition demo_pending :: "nat \<Rightarrow> string \<Rightarrow> pending" where
  "demo_pending t tool = \<lparr> p_agent = ''gmail'', p_tool = tool, p_input = JObj [], p_allowed = [],
     p_preview = ''Send it.'', p_created = t, p_id = [], p_plan = None \<rparr>"

theorem spoken_yes_fires_prompted_action_witness:
  "let evs = [Park True (demo_pending 5 ''gmail_send''), Live 6] in
   \<exists>p. snd (take_live 7 (confirm_run demo_externals evs confirm_init)) = Some p
     \<and> live_at 7 p \<and> p = last (parked demo_externals evs)"
proof -
  let ?evs = "[Park True (demo_pending 5 ''gmail_send''), Live 6]"
  have "snd (take_live 7 (confirm_run demo_externals ?evs confirm_init)) \<noteq> None"
    by (simp add: confirm_run_def store_ops confirm_init_def demo_pending_def live_at_def PENDING_TTL_def)
  then obtain s' p where "take_live 7 (confirm_run demo_externals ?evs confirm_init) = (s', Some p)"
    by (metis not_None_eq prod.collapse)
  moreover have "\<forall>heard q. Park heard q \<in> set ?evs \<longrightarrow> nul_free q"
    by (auto simp: nul_free_def demo_pending_def NUL_def)
  ultimately show ?thesis
    using spoken_yes_fires_prompted_action [of 7 demo_externals ?evs s' p] by (auto simp: Let_def)
qed

lemma step_fires:
  assumes "\<nexists>heard p. e = Park heard p"
  shows "snd (confirm_step E e s) = None \<and>
      (slot (fst (confirm_step E e s)) = slot s \<or> slot (fst (confirm_step E e s)) = None)
    \<or> slot s = snd (confirm_step E e s) \<and> slot (fst (confirm_step E e s)) = None"
  using assms by (cases e; cases "slot s"; auto simp: store_ops split: option.splits)

text \<open>
  Actions fire in the order they were parked and each park fires at most once, whichever way
  (voice or HUD) it is confirmed and whatever is polled, denied or cleared in between.
\<close>

theorem fires_at_most_once:
  "subseq (fired E evs confirm_init) (parked E evs)"
proof -
  have "subseq (fired E evs s) ((case slot s of None \<Rightarrow> [] | Some p \<Rightarrow> [p]) @ parked E evs)" for s
  proof (induction evs arbitrary: s)
    case (Cons e es)
    let ?s = "fst (confirm_step E e s)" and ?f = "snd (confirm_step E e s)"
    have IH: "subseq (fired E es ?s) ((case slot ?s of None \<Rightarrow> [] | Some p \<Rightarrow> [p]) @ parked E es)"
      by (rule Cons.IH)
    show ?case
    proof (cases "\<exists>heard p. e = Park heard p")
      case True
      then obtain heard p where e: "e = Park heard p" by blast
      then have "slot ?s = Some (with_id E p)" "?f = None"
        by (auto simp: store_ops with_id_def)
      with IH e show ?thesis by (auto split: option.splits)
    next
      case False
      then have par: "parked E (e # es) = parked E es" by (cases e) auto
      consider "?f = None" "slot ?s = slot s" | "?f = None" "slot ?s = None"
        | "slot s = ?f" "slot ?s = None"
        using step_fires [OF False, of E s] by argo
      then show ?thesis
      proof cases
        case 2
        then show ?thesis using IH par by (auto intro: list_emb_append2)
      qed (use IH par in \<open>simp_all split: option.splits\<close>)
    qed
  qed simp
  from this [of confirm_init] show ?thesis by (simp add: confirm_init_def)
qed

text \<open>
  A HUD decision is by exact id: it hits exactly a live parked action with that id, and either verb
  leaves only a live action with another id parked.
\<close>

lemma by_id_exact:
  "snd (confirm_by_id i now s) = Matched p \<longleftrightarrow> slot s = Some p \<and> live_at now p \<and> p_id p = i"
  "snd (deny_by_id i now s) \<longleftrightarrow> (\<exists>p. snd (confirm_by_id i now s) = Matched p)"
  "slot (fst (confirm_by_id i now s)) = Option.bind (slot s) (\<lambda>p. if live_at now p \<and> p_id p \<noteq> i then Some p else None)"
  "fst (deny_by_id i now s) = fst (confirm_by_id i now s)"
  by (auto simp: store_ops split: option.splits if_splits)

text \<open>
  C23. The time limit is that of the park, not of the prompt: an action whose prompt was heard, that
  was displaced by another background park and then parked again in the background with the same
  content, is fired by a yes given more than the limit after the only prompt that was heard. (The
  comment on \<open>retire_slot\<close> says a background park can never be fired by a leftover prompt; the
  overwrite in \<open>park_inner\<close> leaves \<open>PROMPTED\<close> standing.)
\<close>

theorem stale_prompt_fires_later_park:
  assumes ids: "content_id E a = content_id E a'" and "content_id E b \<noteq> content_id E a"
    and late: "live_at now a'" and expired: "\<not> live_at now a"
  shows "fired E [Park True a, Park False b, Park False a', Take now] confirm_init = [with_id E a']
    \<and> heard_last E None [Park True a, Park False b, Park False a'] = Some (with_id E a)
    \<and> \<not> live_at now (with_id E a)"
  using assms by (auto simp: store_ops confirm_init_def with_id_def live_at_def content_id_def)

theorem stale_prompt_fires_later_park_witness:
  "fired demo_externals
     [Park True (demo_pending 0 ''gmail_send''), Park False (demo_pending 1 ''x_post''),
      Park False (demo_pending (200 * 10 ^ 9) ''gmail_send''), Take (201 * 10 ^ 9)] confirm_init
   = [with_id demo_externals (demo_pending (200 * 10 ^ 9) ''gmail_send'')]"
  by (rule stale_prompt_fires_later_park [THEN conjunct1])
    (simp_all add: content_id_def derive_pending_id_def pending_preimage_def short_digest_def
      demo_pending_def demo_externals_def live_at_def PENDING_TTL_def)

end
