(* ===== verification/Disk.thy ===== *)
theory Disk
  imports RustStr
begin

text \<open>
  The file system as the daemon's stores use it: whole files read, written and removed by path.
  What a write leaves behind is up to the system (\<open>write_effect\<close>: the data on success, anything
  on a failed or partial write), and so is whether a removal succeeds.
\<close>

record disk =
  files :: "string \<Rightarrow> string option"
  write_effect :: "string \<Rightarrow> string \<Rightarrow> string option"
  removable :: "string \<Rightarrow> bool"

definition read_file :: "disk \<Rightarrow> string \<Rightarrow> string option" where
  "read_file d p = files d p"

definition file_exists :: "disk \<Rightarrow> string \<Rightarrow> bool" where
  "file_exists d p \<longleftrightarrow> files d p \<noteq> None"

definition write_file :: "string \<Rightarrow> string \<Rightarrow> disk \<Rightarrow> disk" where
  "write_file p s d = d\<lparr> files := (files d)(p := write_effect d p s) \<rparr>"

definition remove_file :: "string \<Rightarrow> disk \<Rightarrow> disk" where
  "remove_file p d = (if removable d p then d\<lparr> files := (files d)(p := None) \<rparr> else d)"

lemma write_file_frame [simp, state_frames]:
  "write_effect (write_file p s d) = write_effect d" "removable (write_file p s d) = removable d"
  "p \<noteq> q \<Longrightarrow> read_file (write_file p s d) q = read_file d q"
  "read_file (write_file p s d) p = write_effect d p s"
  by (simp_all add: write_file_def read_file_def)

lemma remove_file_frame [simp, state_frames]:
  "write_effect (remove_file p d) = write_effect d" "removable (remove_file p d) = removable d"
  "p \<noteq> q \<Longrightarrow> read_file (remove_file p d) q = read_file d q"
  by (simp_all add: remove_file_def read_file_def)

lemma file_exists_simps [simp]:
  "file_exists (write_file p s d) p \<longleftrightarrow> write_effect d p s \<noteq> None"
  "removable d p \<Longrightarrow> \<not> file_exists (remove_file p d) p"
  by (simp_all add: write_file_def remove_file_def file_exists_def)

definition demo_disk :: disk where
  "demo_disk = \<lparr> files = (\<lambda>_. None), write_effect = (\<lambda>_ s. Some s), removable = (\<lambda>_. True) \<rparr>"

end
