(* ===== verification/PolicyStore.thy ===== *)
theory PolicyStore
  imports Disk
begin

text \<open>
  The user-set policy store of \<open>daemon/src/policy.rs\<close>: rules keyed by (tool, agent, recipient) in a
  \<open>BTreeMap\<close>, their evaluation for one action, the mutators with the cap on new rules, and the
  policy file the store is loaded from and persisted to. The serde encoding of the file is a
  parameter (\<open>policy_codec\<close>).
\<close>

datatype decision = Always | Never | Ask

definition decision_str :: "decision \<Rightarrow> string" where
  "decision_str d = (case d of Always \<Rightarrow> ''always'' | Never \<Rightarrow> ''never'' | Ask \<Rightarrow> ''ask'')"

definition NEVER_AUTO_APPROVE_TOOLS :: "string list" where
  "NEVER_AUTO_APPROVE_TOOLS = [''ui_actuate'', ''shell_run'']"

definition is_never_auto_approve :: "string \<Rightarrow> bool" where
  "is_never_auto_approve tool \<longleftrightarrow> tool \<in> set NEVER_AUTO_APPROVE_TOOLS"

record policy_scope =
  sc_tool :: string
  sc_agent :: "string option"
  sc_recipient :: "string option"

definition tool_scope :: "string \<Rightarrow> policy_scope" where
  "tool_scope tool = \<lparr> sc_tool = tool, sc_agent = None, sc_recipient = None \<rparr>"

definition scope_matches :: "policy_scope \<Rightarrow> string \<Rightarrow> string \<Rightarrow> string \<Rightarrow> bool" where
  "scope_matches sc tool agent target =
     (if sc_tool sc \<noteq> tool then False
      else if (case sc_agent sc of Some a \<Rightarrow> a \<noteq> agent | None \<Rightarrow> False) then False
      else if (case sc_recipient sc of Some r \<Rightarrow> \<not> str_contains target r | None \<Rightarrow> False) then False
      else True)"

type_synonym rule_key = "string \<times> string option \<times> string option"

definition scope_key :: "policy_scope \<Rightarrow> rule_key" where
  "scope_key sc = (sc_tool sc, sc_agent sc, sc_recipient sc)"

record policy_rule =
  rule_scope :: policy_scope
  rule_decision :: decision

definition MAX_RULES :: nat where
  "MAX_RULES = 256"

record policy_file =
  pf_version :: nat
  pf_rules :: "policy_rule list"

definition POLICY_VERSION :: nat where
  "POLICY_VERSION = 1"

record policy_codec =
  encode_policy :: "policy_file \<Rightarrow> string option"
  decode_policy :: "string \<Rightarrow> policy_file option"

record policy_store =
  rule_map :: "(rule_key, policy_rule) btree"
  store_path :: "string option"

definition empty_store :: policy_store where
  "empty_store = \<lparr> rule_map = [], store_path = None \<rparr>"

definition load_rules :: "policy_rule list \<Rightarrow> (rule_key, policy_rule) btree" where
  "load_rules rs = foldl (\<lambda>m r. bt_insert (scope_key (rule_scope r)) r m) [] (take MAX_RULES rs)"

definition policy_load :: "policy_codec \<Rightarrow> disk \<Rightarrow> string \<Rightarrow> policy_store" where
  "policy_load C d path =
     (let store = \<lparr> rule_map = [], store_path = Some path \<rparr> in
      case read_file d path of
        Some raw \<Rightarrow>
          (case decode_policy C raw of
             Some pf \<Rightarrow> store\<lparr> rule_map := load_rules (pf_rules pf) \<rparr>
           | None \<Rightarrow> store)
      | None \<Rightarrow> store)"

definition store_rules :: "policy_store \<Rightarrow> policy_rule list" where
  "store_rules S = map snd (rule_map S)"

fun evaluate_rules :: "bool \<Rightarrow> policy_rule list \<Rightarrow> string \<Rightarrow> string \<Rightarrow> string \<Rightarrow> decision" where
  "evaluate_rules saw_always [] tool agent target =
     (if saw_always \<and> \<not> is_never_auto_approve tool then Always else Ask)"
| "evaluate_rules saw_always (r # rs) tool agent target =
     (if scope_matches (rule_scope r) tool agent target
      then (case rule_decision r of
              Never \<Rightarrow> Never
            | Always \<Rightarrow> evaluate_rules True rs tool agent target
            | Ask \<Rightarrow> evaluate_rules saw_always rs tool agent target)
      else evaluate_rules saw_always rs tool agent target)"

definition evaluate :: "policy_store \<Rightarrow> string \<Rightarrow> string \<Rightarrow> string \<Rightarrow> decision" where
  "evaluate S tool agent target = evaluate_rules False (store_rules S) tool agent target"

definition policy_len :: "policy_store \<Rightarrow> nat" where
  "policy_len S = length (rule_map S)"

definition persist :: "policy_codec \<Rightarrow> policy_store \<Rightarrow> disk \<Rightarrow> disk" where
  "persist C S d =
     (case store_path S of
        None \<Rightarrow> d
      | Some path \<Rightarrow>
          (case encode_policy C \<lparr> pf_version = POLICY_VERSION, pf_rules = store_rules S \<rparr> of
             Some js \<Rightarrow> write_file path js d
           | None \<Rightarrow> d))"

definition policy_set ::
  "policy_codec \<Rightarrow> policy_scope \<Rightarrow> decision \<Rightarrow> policy_store \<Rightarrow> disk \<Rightarrow> policy_store \<times> disk \<times> bool" where
  "policy_set C sc dec S d =
     (let key = scope_key sc; replaced = map_of (rule_map S) key \<noteq> None in
      if \<not> replaced \<and> MAX_RULES \<le> length (rule_map S) then (S, d, False)
      else let S' = S\<lparr> rule_map := bt_insert key \<lparr> rule_scope = sc, rule_decision = dec \<rparr> (rule_map S) \<rparr>
           in (S', persist C S' d, replaced))"

definition policy_clear ::
  "policy_codec \<Rightarrow> policy_scope \<Rightarrow> policy_store \<Rightarrow> disk \<Rightarrow> policy_store \<times> disk \<times> bool" where
  "policy_clear C sc S d =
     (let removed = map_of (rule_map S) (scope_key sc) \<noteq> None;
          S' = S\<lparr> rule_map := bt_remove (scope_key sc) (rule_map S) \<rparr>
      in (S', if removed then persist C S' d else d, removed))"

definition policy_clear_all :: "policy_codec \<Rightarrow> policy_store \<Rightarrow> disk \<Rightarrow> policy_store \<times> disk" where
  "policy_clear_all C S d = (let S' = S\<lparr> rule_map := [] \<rparr> in (S', persist C S' d))"

section \<open>The invariant\<close>

definition keyed :: "(rule_key, policy_rule) btree \<Rightarrow> bool" where
  "keyed m \<longleftrightarrow> bt_ok m \<and> (\<forall>(k, r) \<in> set m. k = scope_key (rule_scope r))"

definition policy_ok :: "policy_store \<Rightarrow> bool" where
  "policy_ok S \<longleftrightarrow> keyed (rule_map S) \<and> length (rule_map S) \<le> MAX_RULES"

lemma set_bt_insert_subset: "set (bt_insert k v m) \<subseteq> insert (k, v) (set m)"
  by (induction m) auto

lemma keyed_insert: "keyed m \<Longrightarrow> keyed (bt_insert (scope_key (rule_scope r)) r m)"
  using set_bt_insert_subset [of "scope_key (rule_scope r)" r m]
  by (auto simp: keyed_def bt_ok_insert)

lemma keyed_remove: "keyed m \<Longrightarrow> keyed (bt_remove k m)"
  using set_bt_remove_subset [of k m] by (auto simp: keyed_def bt_ok_remove)

lemma load_rules_inv:
  "keyed m \<Longrightarrow> keyed (foldl (\<lambda>m r. bt_insert (scope_key (rule_scope r)) r m) m rs)
    \<and> length (foldl (\<lambda>m r. bt_insert (scope_key (rule_scope r)) r m) m rs) \<le> length m + length rs"
proof (induction rs arbitrary: m)
  case (Cons r rs)
  have "length (bt_insert (scope_key (rule_scope r)) r m) \<le> Suc (length m)"
    using Cons.prems by (simp add: length_bt_insert keyed_def)
  with Cons.IH [OF keyed_insert [OF Cons.prems, of r]] show ?case by auto
qed simp

lemma policy_ok_load: "policy_ok (policy_load C d path)"
proof -
  have "keyed (load_rules rs) \<and> length (load_rules rs) \<le> MAX_RULES" for rs
    using load_rules_inv [of "[]" "take MAX_RULES rs"] by (simp add: load_rules_def keyed_def)
  then show ?thesis
    by (simp add: policy_load_def policy_ok_def Let_def keyed_def split: option.split)
qed

lemma policy_ok_set: "policy_ok S \<Longrightarrow> policy_ok (fst (policy_set C sc dec S d))"
  using keyed_insert [of "rule_map S" "\<lparr> rule_scope = sc, rule_decision = dec \<rparr>"]
  by (auto simp: policy_set_def policy_ok_def Let_def keyed_def length_bt_insert map_of_eq_None_iff)

lemma policy_ok_clear: "policy_ok S \<Longrightarrow> policy_ok (fst (policy_clear C sc S d))"
  by (auto simp: policy_clear_def policy_ok_def Let_def keyed_remove length_bt_remove)

lemma policy_ok_clear_all: "policy_ok (fst (policy_clear_all C S d))"
  by (simp add: policy_clear_all_def policy_ok_def keyed_def Let_def)

lemmas policy_ok_ops = policy_ok_load policy_ok_set policy_ok_clear policy_ok_clear_all

section \<open>Evaluation\<close>

lemma evaluate_rules_Never:
  "evaluate_rules saw rs tool agent target = Never \<longleftrightarrow>
     (\<exists>r \<in> set rs. scope_matches (rule_scope r) tool agent target \<and> rule_decision r = Never)"
  by (induction rs arbitrary: saw) (auto split: decision.splits)

lemma evaluate_rules_Always:
  "evaluate_rules saw rs tool agent target = Always \<longleftrightarrow>
     evaluate_rules saw rs tool agent target \<noteq> Never \<and> \<not> is_never_auto_approve tool \<and>
     (saw \<or> (\<exists>r \<in> set rs. scope_matches (rule_scope r) tool agent target \<and> rule_decision r = Always))"
  by (induction rs arbitrary: saw) (auto split: decision.splits)

text \<open>
  The precedence of the store: a matching never-rule decides, else a matching always-rule
  decides unless the tool is one of the two that are never auto-approved, else the action asks. The
  order of the rules plays no part.
\<close>

theorem evaluate_precedence:
  "evaluate S tool agent target =
     (let hits = {r \<in> set (store_rules S). scope_matches (rule_scope r) tool agent target} in
      if Never \<in> rule_decision ` hits then Never
      else if Always \<in> rule_decision ` hits \<and> \<not> is_never_auto_approve tool then Always
      else Ask)"
proof -
  let ?hits = "{r \<in> set (store_rules S). scope_matches (rule_scope r) tool agent target}"
  have never: "evaluate S tool agent target = Never \<longleftrightarrow> Never \<in> rule_decision ` ?hits"
    using evaluate_rules_Never [of False "store_rules S" tool agent target]
    by (auto simp: evaluate_def image_iff)
  have always: "evaluate S tool agent target = Always \<longleftrightarrow>
      Never \<notin> rule_decision ` ?hits \<and> Always \<in> rule_decision ` ?hits \<and> \<not> is_never_auto_approve tool"
    using evaluate_rules_Always [of False "store_rules S" tool agent target] never
    by (auto simp: evaluate_def image_iff)
  show ?thesis
    using never always by (cases "evaluate S tool agent target") (auto simp: Let_def)
qed

section \<open>Persistence\<close>

lemma load_rules_store_rules:
  assumes "policy_ok S"
  shows "load_rules (store_rules S) = rule_map S"
proof -
  have grow: "foldl (\<lambda>m r. bt_insert (scope_key (rule_scope r)) r m) m (map snd es) = m @ es"
    if "keyed (m @ es)" for m es
    using that
  proof (induction es arbitrary: m)
    case (Cons e es)
    have snoc: "bt_insert (fst e) (snd e) xs = xs @ [e]"
      if "\<forall>k \<in> set (map fst xs). k < fst e" for xs
      using that by (induction xs) auto
    have "fst e = scope_key (rule_scope (snd e))" using Cons.prems by (auto simp: keyed_def split: prod.splits)
    moreover have "\<forall>k \<in> set (map fst m). k < fst e"
      using Cons.prems by (auto simp: keyed_def bt_ok_def sorted_wrt_append)
    ultimately show ?case using Cons snoc [of m] by simp
  qed simp
  have "keyed (rule_map S)" "length (store_rules S) \<le> MAX_RULES"
    using assms by (auto simp: policy_ok_def store_rules_def)
  then show ?thesis
    using grow [of "[]" "rule_map S"] by (simp add: load_rules_def store_rules_def)
qed

text \<open>
  Durability: when a rule is set in a store backed by a file and the write lands, loading the
  file again gives back exactly the store in memory, every rule and no other.
\<close>

theorem set_survives_reload:
  assumes ok: "policy_ok S" and path: "store_path S = Some path"
    and set: "policy_set C sc dec S d = (S', d', replaced)" and stored: "map_of (rule_map S') (scope_key sc) \<noteq> None"
    and encoded: "encode_policy C \<lparr> pf_version = POLICY_VERSION, pf_rules = store_rules S' \<rparr> = Some js"
    and codec: "decode_policy C js = Some \<lparr> pf_version = POLICY_VERSION, pf_rules = store_rules S' \<rparr>"
    and written: "write_effect d path js = Some js"
  shows "policy_load C d' path = S' \<and> map_of (rule_map S') (scope_key sc) = Some \<lparr> rule_scope = sc, rule_decision = dec \<rparr>"
proof -
  have ok': "policy_ok S'" using policy_ok_set [OF ok, of C sc dec d] set by simp
  have S': "S' = S\<lparr> rule_map := bt_insert (scope_key sc) \<lparr> rule_scope = sc, rule_decision = dec \<rparr> (rule_map S) \<rparr>"
    and d': "d' = persist C S' d"
    using set stored by (auto simp: policy_set_def Let_def split: if_splits)
  have p': "store_path S' = Some path" using path S' by simp
  then have "read_file d' path = Some js" using d' encoded written by (simp add: persist_def)
  then have "policy_load C d' path = S'"
    using codec load_rules_store_rules [OF ok'] p' by (simp add: policy_load_def)
  then show ?thesis using S' by (simp add: btm.look_ins)
qed

definition demo_store :: policy_store where
  "demo_store = \<lparr> rule_map = [], store_path = Some ''policy.json'' \<rparr>"

definition demo_rule :: policy_rule where
  "demo_rule = \<lparr> rule_scope = tool_scope ''gmail_send'', rule_decision = Never \<rparr>"

definition demo_codec :: policy_codec where
  "demo_codec = \<lparr> encode_policy = (\<lambda>f. if pf_rules f = [demo_rule] then Some ''one'' else None),
     decode_policy = (\<lambda>s. if s = ''one'' then Some \<lparr> pf_version = POLICY_VERSION, pf_rules = [demo_rule] \<rparr> else None) \<rparr>"

theorem set_survives_reload_witness:
  "let r = policy_set demo_codec (tool_scope ''gmail_send'') Never demo_store demo_disk in
   policy_load demo_codec (fst (snd r)) ''policy.json'' = fst r"
proof -
  let ?r = "policy_set demo_codec (tool_scope ''gmail_send'') Never demo_store demo_disk"
  obtain S' d' b where r: "?r = (S', d', b)" by (cases ?r)
  have S': "S' = demo_store\<lparr> rule_map := [(scope_key (tool_scope ''gmail_send''), demo_rule)] \<rparr>"
    using r by (auto simp: policy_set_def demo_store_def demo_rule_def MAX_RULES_def Let_def)
  have "policy_load demo_codec d' ''policy.json'' = S'"
    by (rule set_survives_reload [OF _ _ r, THEN conjunct1])
      (simp_all add: S' demo_store_def policy_ok_def keyed_def MAX_RULES_def demo_codec_def store_rules_def demo_disk_def)
  then show ?thesis using r by simp
qed

end
