(* ===== verification/FleetFloor.thy ===== *)
theory FleetFloor
  imports PolicyStore
begin

text \<open>
  The signed fleet baseline of \<open>daemon/src/fleet.rs\<close>: a floor of strictness over a device's own
  decision. The locale \<open>strictness_floor\<close> is the contract the policy layer relies on; the baseline
  and the empty floor are its instances. Sealing and opening (AES-GCM) are outside the model; the
  parsed bundle is the input of \<open>deserialize_baseline\<close>.
\<close>

datatype fleet_decision = FleetNever | FleetAsk

definition as_decision :: "fleet_decision \<Rightarrow> decision" where
  "as_decision f = (case f of FleetNever \<Rightarrow> Never | FleetAsk \<Rightarrow> Ask)"

definition fleet_decision_str :: "fleet_decision \<Rightarrow> string" where
  "fleet_decision_str f = (case f of FleetNever \<Rightarrow> ''never'' | FleetAsk \<Rightarrow> ''ask'')"

definition strictness :: "decision \<Rightarrow> nat" where
  "strictness d = (case d of Never \<Rightarrow> 2 | Ask \<Rightarrow> 1 | Always \<Rightarrow> 0)"

definition combine :: "decision \<Rightarrow> fleet_decision \<Rightarrow> decision" where
  "combine loc f =
     (let fleet = as_decision f in if strictness loc < strictness fleet then fleet else loc)"

record fleet_rule =
  fr_tool :: string
  fr_decision :: fleet_decision

record fleet_baseline =
  fb_version :: nat
  fb_device_id :: string
  fb_created :: string
  fb_rules :: "fleet_rule list"

definition BASELINE_VERSION :: nat where
  "BASELINE_VERSION = 1"

definition MAX_FLEET_RULES :: nat where
  "MAX_FLEET_RULES = 256"

definition hardening_for :: "fleet_baseline \<Rightarrow> string \<Rightarrow> fleet_decision option" where
  "hardening_for b tool = map_option fr_decision (find (\<lambda>r. fr_tool r = tool) (rev (fb_rules b)))"

definition harden :: "fleet_baseline \<Rightarrow> decision \<Rightarrow> string \<Rightarrow> decision" where
  "harden b loc tool = (case hardening_for b tool of Some f \<Rightarrow> combine loc f | None \<Rightarrow> loc)"

text \<open>The version check and the bound on the rules of a parsed bundle (\<open>None\<close>: it did not parse).\<close>

definition deserialize_baseline :: "fleet_baseline option \<Rightarrow> fleet_baseline option" where
  "deserialize_baseline parsed =
     (case parsed of
        None \<Rightarrow> None
      | Some b \<Rightarrow>
          if fb_version b \<noteq> BASELINE_VERSION then None
          else if MAX_FLEET_RULES < length (fb_rules b)
          then Some (b\<lparr> fb_rules := take MAX_FLEET_RULES (fb_rules b) \<rparr>)
          else Some b)"

definition fleet_install :: "fleet_baseline \<Rightarrow> fleet_baseline option \<Rightarrow> fleet_baseline option" where
  "fleet_install b active = (case active of None \<Rightarrow> Some b | Some a \<Rightarrow> Some a)"

definition harden_global :: "fleet_baseline option \<Rightarrow> decision \<Rightarrow> string \<Rightarrow> decision" where
  "harden_global active loc tool = (case active of Some b \<Rightarrow> harden b loc tool | None \<Rightarrow> loc)"

section \<open>The contract of a floor\<close>

text \<open>Decisions are ordered by strictness.\<close>

instantiation decision :: linorder
begin

definition less_eq_decision :: "decision \<Rightarrow> decision \<Rightarrow> bool" where
  "less_eq_decision a b \<longleftrightarrow> strictness a \<le> strictness b"

definition less_decision :: "decision \<Rightarrow> decision \<Rightarrow> bool" where
  "less_decision a b \<longleftrightarrow> strictness a < strictness b"

instance
proof
  fix a b c :: decision
  show "a < b \<longleftrightarrow> a \<le> b \<and> \<not> b \<le> a" by (auto simp: less_eq_decision_def less_decision_def)
  show "a \<le> a" "a \<le> b \<or> b \<le> a" by (auto simp: less_eq_decision_def)
  show "a \<le> b \<Longrightarrow> b \<le> c \<Longrightarrow> a \<le> c" by (simp add: less_eq_decision_def)
  show "a \<le> b \<Longrightarrow> b \<le> a \<Longrightarrow> a = b"
    by (cases a; cases b; simp add: less_eq_decision_def strictness_def)
qed

end

lemma decision_order [gate_simps]:
  "Always \<le> d" "d \<le> Never" "Ask \<le> d \<longleftrightarrow> d \<noteq> Always" "d \<le> Ask \<longleftrightarrow> d \<noteq> Never"
  by (cases d; simp add: less_eq_decision_def strictness_def)+

lemma combine_max: "combine loc f = max loc (as_decision f)"
  by (simp add: combine_def Let_def max_def less_eq_decision_def)
    (cases loc; cases f; simp add: strictness_def as_decision_def)

locale strictness_floor =
  fixes floor_of :: "string \<Rightarrow> decision option"
    and apply_floor :: "decision \<Rightarrow> string \<Rightarrow> decision"
  assumes floor_strict: "floor_of tool = Some d \<Longrightarrow> d \<noteq> Always"
    and apply_floor: "apply_floor loc tool = (case floor_of tool of None \<Rightarrow> loc | Some d \<Rightarrow> max loc d)"
begin

lemma never_loosens: "loc \<le> apply_floor loc tool"
  by (simp add: apply_floor split: option.split)

lemma respects_floor: "floor_of tool = Some d \<Longrightarrow> d \<le> apply_floor loc tool"
  by (simp add: apply_floor)

lemma least: "loc \<le> e \<Longrightarrow> (\<And>d. floor_of tool = Some d \<Longrightarrow> d \<le> e) \<Longrightarrow> apply_floor loc tool \<le> e"
  by (simp add: apply_floor split: option.split)

lemma monotone: "a \<le> b \<Longrightarrow> apply_floor a tool \<le> apply_floor b tool"
  by (auto simp: apply_floor max_def split: option.split)

lemma idempotent: "apply_floor (apply_floor loc tool) tool = apply_floor loc tool"
  by (simp add: apply_floor split: option.split)

lemma never_stays: "apply_floor Never tool = Never"
  using never_loosens [of Never tool] by (simp add: gate_simps antisym)

lemma always_iff: "apply_floor loc tool = Always \<longleftrightarrow> loc = Always \<and> floor_of tool = None"
proof (cases "floor_of tool")
  case (Some d)
  then have "Ask \<le> apply_floor loc tool"
    using respects_floor [OF Some, of loc] floor_strict [OF Some] by (simp add: gate_simps order_trans)
      (metis decision_order(3) order_trans)
  with Some show ?thesis by (simp add: gate_simps)
qed (simp add: apply_floor)

end

definition baseline_floor :: "fleet_baseline option \<Rightarrow> string \<Rightarrow> decision option" where
  "baseline_floor active tool =
     (case active of None \<Rightarrow> None | Some b \<Rightarrow> map_option as_decision (hardening_for b tool))"

interpretation fleet: strictness_floor "baseline_floor active" "harden_global active" for active
proof
  fix tool d loc
  show "baseline_floor active tool = Some d \<Longrightarrow> d \<noteq> Always"
    by (cases "hardening_for (the active) tool"; cases "the (hardening_for (the active) tool)")
      (auto simp: baseline_floor_def as_decision_def split: option.splits)
  show "harden_global active loc tool =
      (case baseline_floor active tool of None \<Rightarrow> loc | Some d \<Rightarrow> max loc d)"
    by (auto simp: harden_global_def baseline_floor_def harden_def combine_max split: option.splits)
qed

text \<open>
  C17. Whatever baseline is installed, the decision after the fleet floor is the least decision that
  is at least as strict as the device's own and as the baseline's last rule for the tool; it is
  always-approve only when the device says so and the baseline does not name the tool.
\<close>

theorem fleet_floor_is_least_upper_bound:
  "(harden_global active loc tool \<le> e \<longleftrightarrow>
     loc \<le> e \<and> (case baseline_floor active tool of None \<Rightarrow> True | Some d \<Rightarrow> d \<le> e))
   \<and> (harden_global active loc tool = Always \<longleftrightarrow> loc = Always \<and> baseline_floor active tool = None)"
proof
  show "harden_global active loc tool \<le> e \<longleftrightarrow>
      loc \<le> e \<and> (case baseline_floor active tool of None \<Rightarrow> True | Some d \<Rightarrow> d \<le> e)"
    using fleet.never_loosens [of loc active tool] fleet.respects_floor [of active tool _ loc]
      fleet.least [of loc e active tool] by (auto split: option.splits)
qed (rule fleet.always_iff)

text \<open>What a bundle has to be to become a floor, and how long its rule list can get.\<close>

lemma deserialize_baseline_bounds:
  "deserialize_baseline parsed = Some b \<Longrightarrow>
     fb_version b = BASELINE_VERSION \<and> length (fb_rules b) \<le> MAX_FLEET_RULES"
  by (auto simp: deserialize_baseline_def split: option.splits if_splits)

end
