(* ===== verification/PolicyCommand.thy ===== *)
theory PolicyCommand
  imports FleetFloor
begin

text \<open>
  The process-wide policy layer of \<open>daemon/src/policy.rs\<close>: the installed store with the layer
  switch, the decision the chokepoints read, and the only write path, the user's policy phrases.
\<close>

section \<open>The installed layer\<close>

record policy_layer =
  layer :: "(bool \<times> policy_store) option"
  baseline :: "fleet_baseline option"

definition policy_install :: "bool \<Rightarrow> policy_store \<Rightarrow> policy_layer \<Rightarrow> policy_layer" where
  "policy_install enabled S P =
     (case layer P of None \<Rightarrow> P\<lparr> layer := Some (enabled, S) \<rparr> | Some _ \<Rightarrow> P)"

definition snapshot_global :: "policy_layer \<Rightarrow> (bool \<times> policy_rule list) option" where
  "snapshot_global P = map_option (\<lambda>(enabled, S). (enabled, store_rules S)) (layer P)"

definition evaluate_local_global :: "policy_layer \<Rightarrow> string \<Rightarrow> string \<Rightarrow> string \<Rightarrow> decision" where
  "evaluate_local_global P tool agent target =
     (case layer P of Some (True, S) \<Rightarrow> evaluate S tool agent target | _ \<Rightarrow> Ask)"

definition evaluate_global :: "policy_layer \<Rightarrow> string \<Rightarrow> string \<Rightarrow> string \<Rightarrow> decision" where
  "evaluate_global P tool agent target =
     harden_global (baseline P) (evaluate_local_global P tool agent target) tool"

section \<open>Policy phrases\<close>

datatype policy_command = SetRule policy_scope decision | ClearRule policy_scope

definition PHRASE_ALWAYS_PREFIX :: string where "PHRASE_ALWAYS_PREFIX = ''always allow the ''"
definition PHRASE_NEVER_PREFIX :: string where "PHRASE_NEVER_PREFIX = ''never allow the ''"
definition PHRASE_ASK_PREFIX :: string where "PHRASE_ASK_PREFIX = ''always ask before the ''"
definition PHRASE_SUFFIX :: string where "PHRASE_SUFFIX = '' action''"

definition phrase_head :: "string \<Rightarrow> (decision option \<times> string) option" where
  "phrase_head lower =
     (if starts_with PHRASE_ALWAYS_PREFIX lower then Some (Some Always, PHRASE_ALWAYS_PREFIX)
      else if starts_with PHRASE_NEVER_PREFIX lower then Some (Some Never, PHRASE_NEVER_PREFIX)
      else if starts_with PHRASE_ASK_PREFIX lower then Some (None, PHRASE_ASK_PREFIX)
      else None)"

definition classify_policy_command :: "string \<Rightarrow> policy_command option" where
  "classify_policy_command text =
     (let t = trim text in
      case phrase_head (to_ascii_lowercase t) of
        None \<Rightarrow> None
      | Some (dec, prefix) \<Rightarrow>
          let rest = drop (length prefix) t in
          if \<not> ends_with PHRASE_SUFFIX (to_ascii_lowercase rest) then None
          else let tool = trim (take (length rest - length PHRASE_SUFFIX) rest) in
            if tool = [] then None
            else let sc = tool_scope tool in
              Some (case dec of Some d \<Rightarrow> SetRule sc d | None \<Rightarrow> ClearRule sc))"

datatype policy_write = Applied | NoRuleToClear | LayerOff | RuleCapReached

definition apply_to_store ::
  "policy_codec \<Rightarrow> bool \<Rightarrow> policy_command \<Rightarrow> policy_store \<Rightarrow> disk \<Rightarrow> policy_store \<times> disk \<times> policy_write" where
  "apply_to_store C enabled command S d =
     (if \<not> enabled then (S, d, LayerOff)
      else case command of
        SetRule sc dec \<Rightarrow>
          (let before = policy_len S; (S', d', replaced) = policy_set C sc dec S d in
           if \<not> replaced \<and> policy_len S' = before then (S', d', RuleCapReached)
           else (S', d', Applied))
      | ClearRule sc \<Rightarrow>
          (let (S', d', removed) = policy_clear C sc S d in
           (S', d', if removed then Applied else NoRuleToClear)))"

definition apply_global ::
  "policy_codec \<Rightarrow> policy_command \<Rightarrow> policy_layer \<Rightarrow> disk \<Rightarrow> policy_layer \<times> disk \<times> policy_write" where
  "apply_global C command P d =
     (case layer P of
        None \<Rightarrow> (P, d, LayerOff)
      | Some (enabled, S) \<Rightarrow>
          if \<not> enabled then (P, d, LayerOff)
          else (let (S', d', w) = apply_to_store C True command S d in
                (P\<lparr> layer := Some (enabled, S') \<rparr>, d', w)))"

definition global_rules_for_tool :: "policy_layer \<Rightarrow> string \<Rightarrow> nat" where
  "global_rules_for_tool P tool =
     (case layer P of
        Some (True, S) \<Rightarrow> length (filter (\<lambda>r. sc_tool (rule_scope r) = tool) (store_rules S))
      | _ \<Rightarrow> 0)"

definition command_tool :: "policy_command \<Rightarrow> string" where
  "command_tool c = (case c of SetRule sc _ \<Rightarrow> sc_tool sc | ClearRule sc \<Rightarrow> sc_tool sc)"

definition command_ack :: "policy_command \<Rightarrow> string" where
  "command_ack c =
     (case c of
        SetRule sc Always \<Rightarrow> ''Set: I'' @ CHR 0x27 # ''ll auto-approve the '' @ sc_tool sc @
          '' action '' @ dash @ '' but only while consequential actions are enabled and I recognize your voice; it stays a dry-run preview otherwise, and never overrides the master switch.''
      | SetRule sc Never \<Rightarrow> ''Set: I'' @ CHR 0x27 # ''ll never run the '' @ sc_tool sc @
          '' action. A '' @ quoted ''never'' @ '' rule wins even with consequential actions enabled and a fresh confirmation.''
      | SetRule sc Ask \<Rightarrow> ''Set: the '' @ sc_tool sc @ '' action will ask for a spoken confirmation.''
      | ClearRule sc \<Rightarrow> ''Cleared: the '' @ sc_tool sc @ '' action is back to asking for a spoken confirmation each time.'')"

definition refused_always_ack :: "string \<Rightarrow> string" where
  "refused_always_ack tool = ''I won'' @ CHR 0x27 # ''t auto-approve the '' @ tool @
     '' action, sir '' @ dash @ '' it is one of the two maximally-dangerous tools (it physically actuates the machine / runs arbitrary commands), so it ALWAYS asks for a fresh spoken confirmation, one action at a time. There is no standing pre-approval for it; nothing changed. (You can still set it to '' @
     quoted ''never'' @ '' to hard-block it.)''"

definition layer_off_ack :: string where
  "layer_off_ack = ''I understood that as a policy command, but the policy layer is off, so nothing changed. Enable [policy] to set per-action rules.''"

definition cap_ack :: "string \<Rightarrow> string" where
  "cap_ack tool = ''I couldn'' @ CHR 0x27 # ''t store that rule, sir '' @ dash @
     '' the policy store is already at its '' @ nat_digits MAX_RULES @
     ''-rule cap, so nothing changed and the '' @ tool @
     '' action still asks each time. Clear a rule you no longer need and say it again.''"

definition no_rule_ack :: "policy_layer \<Rightarrow> string \<Rightarrow> string" where
  "no_rule_ack P tool =
     (if 0 < global_rules_for_tool P tool
      then ''I didn'' @ CHR 0x27 # ''t clear anything, sir '' @ dash @ '' the rule on the '' @ tool @
        '' action is scoped more narrowly (to a specific agent or recipient), and that scoped rule is STILL in force. Clear that exact rule from the policy editor, or name the same scope.''
      else ''There was no rule for the '' @ tool @ '' action, sir '' @ dash @
        '' it already asks for a spoken confirmation each time. Nothing changed.'')"

definition handle_user_policy_text ::
  "policy_codec \<Rightarrow> string \<Rightarrow> policy_layer \<Rightarrow> disk \<Rightarrow> policy_layer \<times> disk \<times> string option" where
  "handle_user_policy_text C text P d =
     (case classify_policy_command text of
        None \<Rightarrow> (P, d, None)
      | Some c \<Rightarrow>
          if (case c of SetRule sc Always \<Rightarrow> is_never_auto_approve (sc_tool sc) | _ \<Rightarrow> False)
          then (P, d, Some (refused_always_ack (command_tool c)))
          else (let (P', d', w) = apply_global C c P d in
                (P', d', Some (case w of
                   Applied \<Rightarrow> command_ack c
                 | LayerOff \<Rightarrow> layer_off_ack
                 | RuleCapReached \<Rightarrow> cap_ack (command_tool c)
                 | NoRuleToClear \<Rightarrow> no_rule_ack P' (command_tool c)))))"

section \<open>What a write did\<close>

definition layer_ok :: "policy_layer \<Rightarrow> bool" where
  "layer_ok P \<longleftrightarrow> (case layer P of None \<Rightarrow> True | Some (_, S) \<Rightarrow> policy_ok S)"

definition layer_lookup :: "policy_layer \<Rightarrow> rule_key \<rightharpoonup> policy_rule" where
  "layer_lookup P = (case layer P of Some (True, S) \<Rightarrow> map_of (rule_map S) | _ \<Rightarrow> Map.empty)"

definition layer_on :: "policy_layer \<Rightarrow> bool" where
  "layer_on P \<longleftrightarrow> (case layer P of Some (True, _) \<Rightarrow> True | _ \<Rightarrow> False)"

text \<open>The abstract meaning of a command on the lookup function.\<close>

definition command_key :: "policy_command \<Rightarrow> rule_key" where
  "command_key c = (case c of SetRule sc _ \<Rightarrow> scope_key sc | ClearRule sc \<Rightarrow> scope_key sc)"

definition command_effect :: "policy_command \<Rightarrow> policy_rule option" where
  "command_effect c =
     (case c of SetRule sc dec \<Rightarrow> Some \<lparr> rule_scope = sc, rule_decision = dec \<rparr> | ClearRule _ \<Rightarrow> None)"

lemma policy_set_cases:
  assumes "policy_ok S" and "policy_set C sc dec S d = (S', d', replaced)"
  shows "replaced \<longleftrightarrow> map_of (rule_map S) (scope_key sc) \<noteq> None"
    and "\<not> replaced \<and> policy_len S' = policy_len S \<longleftrightarrow>
      map_of (rule_map S) (scope_key sc) = None \<and> policy_len S = MAX_RULES"
    and "map_of (rule_map S') = (if \<not> replaced \<and> policy_len S' = policy_len S then map_of (rule_map S)
      else (map_of (rule_map S))(scope_key sc \<mapsto> \<lparr> rule_scope = sc, rule_decision = dec \<rparr>))"
  using assms unfolding policy_ok_def keyed_def
  by (auto simp: policy_set_def policy_len_def Let_def btm.look_ins length_bt_insert
      map_of_eq_None_iff split: if_splits)

lemma policy_clear_cases:
  assumes "policy_ok S" and "policy_clear C sc S d = (S', d', removed)"
  shows "removed \<longleftrightarrow> map_of (rule_map S) (scope_key sc) \<noteq> None"
    and "map_of (rule_map S') = (map_of (rule_map S))(scope_key sc := None)"
  using assms unfolding policy_ok_def keyed_def
  by (auto simp: policy_clear_def Let_def btm.look_del)

text \<open>
  The outcome a policy write reports is what it did: applied exactly when the layer is on and the
  rule was set or a rule with that very scope was removed, and then the lookup function changed at
  that scope only; on every other outcome no rule changed, and the outcome names the reason (layer
  off, a new rule in a full store, nothing to clear). The store invariant is kept.
\<close>

theorem write_outcome_exact:
  assumes ok: "layer_ok P" and run: "apply_global C c P d = (P', d', w)"
  shows "layer_ok P' \<and> baseline P' = baseline P
    \<and> layer_lookup P' = (if w = Applied then (layer_lookup P)(command_key c := command_effect c) else layer_lookup P)
    \<and> w = (if \<not> layer_on P then LayerOff
           else if layer_lookup P (command_key c) \<noteq> None then Applied
           else if command_effect c = None then NoRuleToClear
           else if card (dom (layer_lookup P)) = MAX_RULES then RuleCapReached
           else Applied)"
proof (cases "layer_on P")
  case False
  then have "(P', d', w) = (P, d, LayerOff)"
    using run by (auto simp: apply_global_def layer_on_def split: option.splits bool.splits)
  with False ok show ?thesis by simp
next
  case True
  then obtain S where S: "layer P = Some (True, S)" by (auto simp: layer_on_def split: option.splits bool.splits)
  then have okS: "policy_ok S" using ok by (simp add: layer_ok_def)
  obtain S' e w' where st: "apply_to_store C True c S d = (S', e, w')" by (metis prod_cases3)
  then have P': "P' = P\<lparr> layer := Some (True, S') \<rparr>" "w = w'"
    using run S by (simp_all add: apply_global_def)
  have card: "card (dom (layer_lookup P)) = policy_len S"
    using S okS bt_ok_distinct [of "rule_map S"]
    by (simp add: layer_lookup_def policy_len_def policy_ok_def keyed_def dom_map_of_conv_image_fst
        card_image distinct_card flip: set_map)
  show ?thesis
  proof (cases c)
    case (SetRule sc dec)
    obtain S1 d1 r1 where set: "policy_set C sc dec S d = (S1, d1, r1)" by (metis prod_cases3)
    note cs = policy_set_cases [OF okS set]
    have "policy_ok S1" using policy_ok_set [OF okS, of C sc dec d] set by simp
    moreover have "S' = S1" "w' = (if \<not> r1 \<and> policy_len S1 = policy_len S then RuleCapReached else Applied)"
      using st set SetRule by (auto simp: apply_to_store_def Let_def split: if_splits)
    ultimately show ?thesis
      using cs True S card P' SetRule
      by (auto simp: layer_ok_def layer_lookup_def command_key_def command_effect_def)
  next
    case (ClearRule sc)
    obtain S1 d1 r1 where clr: "policy_clear C sc S d = (S1, d1, r1)" by (metis prod_cases3)
    note cs = policy_clear_cases [OF okS clr]
    have "policy_ok S1" using policy_ok_clear [OF okS, of C sc d] clr by simp
    moreover have "S' = S1" "w' = (if r1 then Applied else NoRuleToClear)"
      using st clr ClearRule by (auto simp: apply_to_store_def)
    ultimately show ?thesis
      using cs True S card P' ClearRule
      by (auto simp: layer_ok_def layer_lookup_def command_key_def command_effect_def)
  qed
qed

definition demo_layer :: policy_layer where
  "demo_layer = \<lparr> layer = Some (True, empty_store), baseline = None \<rparr>"

lemma demo_layer_ok: "layer_ok demo_layer"
  by (simp add: layer_ok_def demo_layer_def empty_store_def policy_ok_def keyed_def)

theorem write_outcome_exact_witness:
  "snd (snd (apply_global demo_codec (SetRule (tool_scope ''x_post'') Never) demo_layer demo_disk)) = Applied"
proof -
  obtain P' d' w where r: "apply_global demo_codec (SetRule (tool_scope ''x_post'') Never) demo_layer demo_disk = (P', d', w)"
    by (metis prod_cases3)
  have "w = Applied"
    using write_outcome_exact [OF demo_layer_ok r]
    by (simp add: layer_on_def layer_lookup_def demo_layer_def empty_store_def command_effect_def
        command_key_def MAX_RULES_def)
  with r show ?thesis by simp
qed

section \<open>What the layer decides\<close>

lemma layer_rules:
  assumes "layer_ok P" and "layer P = Some (True, S)"
  shows "r \<in> set (store_rules S) \<longleftrightarrow> layer_lookup P (scope_key (rule_scope r)) = Some r"
proof -
  have ok: "bt_ok (rule_map S)" "\<forall>(k, r) \<in> set (rule_map S). k = scope_key (rule_scope r)"
    using assms by (auto simp: layer_ok_def policy_ok_def keyed_def)
  have "r \<in> set (store_rules S) \<longleftrightarrow> (scope_key (rule_scope r), r) \<in> set (rule_map S)"
    using ok(2) by (force simp: store_rules_def)
  also have "\<dots> \<longleftrightarrow> map_of (rule_map S) (scope_key (rule_scope r)) = Some r"
    using bt_ok_distinct [OF ok(1)] by simp
  finally show ?thesis using assms(2) by (simp add: layer_lookup_def)
qed

text \<open>The rules of the installed layer that match an action, by the decision they render.\<close>

definition layer_has :: "policy_layer \<Rightarrow> decision \<Rightarrow> string \<Rightarrow> string \<Rightarrow> string \<Rightarrow> bool" where
  "layer_has P dec tool agent target \<longleftrightarrow>
     (case layer P of Some (True, S) \<Rightarrow>
        list_ex (\<lambda>r. scope_matches (rule_scope r) tool agent target \<and> rule_decision r = dec) (store_rules S)
      | _ \<Rightarrow> False)"

lemma local_Never: "evaluate_local_global P tool agent target = Never \<longleftrightarrow> layer_has P Never tool agent target"
  using evaluate_rules_Never [of False]
  by (auto simp: evaluate_local_global_def layer_has_def evaluate_def list_ex_iff split: option.splits bool.splits)

lemma local_Always:
  "evaluate_local_global P tool agent target = Always \<longleftrightarrow>
     \<not> layer_has P Never tool agent target \<and> layer_has P Always tool agent target \<and> \<not> is_never_auto_approve tool"
  using evaluate_rules_Always [of False] evaluate_rules_Never [of False]
  by (auto simp: evaluate_local_global_def layer_has_def evaluate_def list_ex_iff split: option.splits bool.splits)

text \<open>
  C15. An action is auto-approved exactly when the layer is installed and on, a matching rule says
  always, no matching rule says never, the tool is not one of the two that must always ask, and the
  fleet baseline does not name the tool.
\<close>

theorem auto_approve_exactly:
  "evaluate_global P tool agent target = Always \<longleftrightarrow>
     layer_on P \<and> layer_has P Always tool agent target \<and> \<not> layer_has P Never tool agent target
     \<and> tool \<notin> {''ui_actuate'', ''shell_run''} \<and> baseline_floor (baseline P) tool = None"
proof -
  have "layer_has P Always tool agent target \<Longrightarrow> layer_on P"
    by (auto simp: layer_has_def layer_on_def split: option.splits bool.splits)
  then show ?thesis
    by (auto simp: evaluate_global_def fleet.always_iff local_Always is_never_auto_approve_def
        NEVER_AUTO_APPROVE_TOOLS_def)
qed

lemma evaluate_global_Never:
  "layer_has P Never tool agent target \<Longrightarrow> evaluate_global P tool agent target = Never"
  using local_Never [of P tool agent target] by (simp add: evaluate_global_def fleet.never_stays)

text \<open>
  C16. When the user is told that a tool will never run, it never will: whatever other rules, fleet
  baseline, agent and target, the layer then answers never for that tool.
\<close>

theorem never_ack_is_in_force:
  assumes ok: "layer_ok P"
    and cmd: "classify_policy_command text = Some (SetRule sc Never)"
    and ack: "handle_user_policy_text C text P d = (P', d', Some (command_ack (SetRule sc Never)))"
  shows "evaluate_global P' (sc_tool sc) agent target = Never"
proof -
  obtain P1 d1 w where run: "apply_global C (SetRule sc Never) P d = (P1, d1, w)" by (metis prod_cases3)
  have "w = Applied \<and> P1 = P'"
    using ack cmd run
    by (cases w) (auto simp: handle_user_policy_text_def command_ack_def layer_off_ack_def cap_ack_def
        no_rule_ack_def split: if_splits)
  then have run': "apply_global C (SetRule sc Never) P d = (P', d1, Applied)" using run by simp
  obtain S where S: "layer P = Some (True, S)"
    using run' by (auto simp: apply_global_def split: option.splits if_splits)
  obtain S' d2 r where set: "policy_set C sc Never S d = (S', d2, r)" by (metis prod_cases3)
  have "\<not> (\<not> r \<and> policy_len S' = policy_len S)" and P': "P' = P\<lparr> layer := Some (True, S') \<rparr>"
    using run' S set by (auto simp: apply_global_def apply_to_store_def Let_def split: if_splits)
  then have look: "map_of (rule_map S') (scope_key sc) = Some \<lparr> rule_scope = sc, rule_decision = Never \<rparr>"
    using policy_set_cases(3) [OF _ set] ok S by (auto simp: layer_ok_def)
  have "sc = tool_scope (sc_tool sc)"
    using cmd by (auto simp: classify_policy_command_def Let_def tool_scope_def split: option.splits if_splits)
  then have "scope_matches sc (sc_tool sc) agent target"
    by (metis scope_matches_def tool_scope_def option.simps(4) policy_scope.select_convs)
  moreover have "\<lparr> rule_scope = sc, rule_decision = Never \<rparr> \<in> set (store_rules S')"
    using look by (force simp: store_rules_def dest: map_of_SomeD)
  ultimately have "layer_has P' Never (sc_tool sc) agent target"
    using P' by (force simp: layer_has_def list_ex_iff)
  then show ?thesis by (rule evaluate_global_Never)
qed

section \<open>The phrases\<close>

text \<open>The phrase the policy editor sends for each decision.\<close>

definition policy_phrase :: "decision \<Rightarrow> string \<Rightarrow> string" where
  "policy_phrase dec tool =
     (case dec of Always \<Rightarrow> PHRASE_ALWAYS_PREFIX | Never \<Rightarrow> PHRASE_NEVER_PREFIX | Ask \<Rightarrow> PHRASE_ASK_PREFIX)
     @ tool @ PHRASE_SUFFIX"

definition phrase_command :: "decision \<Rightarrow> string \<Rightarrow> policy_command" where
  "phrase_command dec tool = (if dec = Ask then ClearRule (tool_scope tool) else SetRule (tool_scope tool) dec)"

lemmas phrase_defs = PHRASE_ALWAYS_PREFIX_def PHRASE_NEVER_PREFIX_def PHRASE_ASK_PREFIX_def PHRASE_SUFFIX_def

lemma lower_append: "to_ascii_lowercase (s @ t) = to_ascii_lowercase s @ to_ascii_lowercase t"
  by (simp add: to_ascii_lowercase_def)

lemma lower_Nil: "to_ascii_lowercase [] = []"
  by (simp add: to_ascii_lowercase_def)

lemma lower_phrases:
  "to_ascii_lowercase PHRASE_ALWAYS_PREFIX = PHRASE_ALWAYS_PREFIX"
  "to_ascii_lowercase PHRASE_NEVER_PREFIX = PHRASE_NEVER_PREFIX"
  "to_ascii_lowercase PHRASE_ASK_PREFIX = PHRASE_ASK_PREFIX"
  "to_ascii_lowercase PHRASE_SUFFIX = PHRASE_SUFFIX"
  by (simp_all add: phrase_defs str_simps)

lemma phrase_head_prefix:
  "phrase_head (PHRASE_ALWAYS_PREFIX @ s) = Some (Some Always, PHRASE_ALWAYS_PREFIX)"
  "phrase_head (PHRASE_NEVER_PREFIX @ s) = Some (Some Never, PHRASE_NEVER_PREFIX)"
  "phrase_head (PHRASE_ASK_PREFIX @ s) = Some (None, PHRASE_ASK_PREFIX)"
  by (simp_all add: phrase_head_def phrase_defs starts_with_def)

lemma trim_phrase:
  assumes "utf8_valid tool"
  shows "trim (policy_phrase dec tool) = policy_phrase dec tool"
proof -
  let ?pre = "case dec of Always \<Rightarrow> PHRASE_ALWAYS_PREFIX | Never \<Rightarrow> PHRASE_NEVER_PREFIX | Ask \<Rightarrow> PHRASE_ASK_PREFIX"
  have asc: "ascii_string ?pre" "ascii_string PHRASE_SUFFIX"
    by (cases dec; simp add: phrase_defs ascii_string_def)+
  have "list_all complete (chars ?pre @ chars tool @ chars PHRASE_SUFFIX)"
    using assms utf8_valid_ascii [OF asc(1)] utf8_valid_ascii [OF asc(2)] by (simp add: utf8_valid_def)
  then have cs: "chars (policy_phrase dec tool) = chars ?pre @ chars tool @ chars PHRASE_SUFFIX"
    using chars_concat_only by (fastforce simp: policy_phrase_def)
  have ends: "chars ?pre \<noteq> []" "\<not> is_whitespace (hd (chars ?pre))" "\<not> is_whitespace (last (chars PHRASE_SUFFIX))"
    "chars PHRASE_SUFFIX \<noteq> []"
    using asc by (cases dec; simp add: chars_ascii phrase_defs is_whitespace_byte ascii_ws_def)+
  have "trim_list is_whitespace (chars (policy_phrase dec tool)) = chars (policy_phrase dec tool)"
    unfolding cs using ends by (intro trim_list_id) auto
  then show ?thesis by (simp add: trim_def)
qed

text \<open>
  The phrases the policy editor sends round-trip: for every tool name the phrase for a decision is
  read back as the command for that decision and that very tool, its case kept.
\<close>

theorem phrase_roundtrip:
  assumes "utf8_valid tool" and "tool \<noteq> []" and "trim tool = tool"
  shows "classify_policy_command (policy_phrase dec tool) = Some (phrase_command dec tool)"
proof -
  have rest: "ends_with PHRASE_SUFFIX (to_ascii_lowercase (tool @ PHRASE_SUFFIX))"
    by (simp add: lower_append lower_phrases ends_with_iff)
  show ?thesis
    using assms rest
    by (cases dec) (simp_all add: classify_policy_command_def trim_phrase Let_def,
      simp_all add: policy_phrase_def lower_append lower_phrases phrase_head_prefix phrase_command_def
        Let_def lower_Nil)
qed

theorem phrase_roundtrip_witness:
  "classify_policy_command ''never allow the gmail_send action'' = Some (SetRule (tool_scope ''gmail_send'') Never)"
proof -
  have "ascii_string ''gmail_send''" by (simp add: ascii_string_def)
  then have "classify_policy_command (policy_phrase Never ''gmail_send'') = Some (phrase_command Never ''gmail_send'')"
    by (intro phrase_roundtrip) (simp_all add: utf8_valid_ascii trim_ascii trim_list_def ascii_ws_def)
  then show ?thesis by (simp add: policy_phrase_def phrase_defs phrase_command_def)
qed

theorem never_ack_is_in_force_witness:
  "evaluate_global (fst (handle_user_policy_text demo_codec ''never allow the gmail_send action'' demo_layer demo_disk))
     ''gmail_send'' ''agent.pepper'' ''all@example.com'' = Never"
proof -
  let ?text = "''never allow the gmail_send action''"
  have cmd: "classify_policy_command ?text = Some (SetRule (tool_scope ''gmail_send'') Never)"
    by (simp add: classify_policy_command_def phrase_defs phrase_head_def trim_list_def starts_with_def
        ends_with_def str_simps)
  obtain P' d' a where r: "handle_user_policy_text demo_codec ?text demo_layer demo_disk = (P', d', a)"
    by (metis prod_cases3)
  have "a = Some (command_ack (SetRule (tool_scope ''gmail_send'') Never))"
    using r by (auto simp: handle_user_policy_text_def cmd apply_global_def demo_layer_def
        apply_to_store_def policy_set_def empty_store_def policy_len_def MAX_RULES_def Let_def)
  then have "evaluate_global P' (sc_tool (tool_scope ''gmail_send'')) ''agent.pepper'' ''all@example.com'' = Never"
    using never_ack_is_in_force [OF demo_layer_ok cmd] r by blast
  then show ?thesis using r by (simp add: tool_scope_def)
qed

text \<open>
  Clearing a tool's rule is reported as being back to asking each time even where a rule on the
  same tool with a narrower scope still approves it: here the tool-only never-rule is cleared, and
  the scoped always-rule it was shadowing runs the tool for that agent with no confirmation. (The
  outcome \<open>NoRuleToClear\<close> warns of narrower rules; the outcome \<open>Applied\<close> does not look for them.)
\<close>

theorem cleared_ack_with_rule_in_force:
  "let narrow = \<lparr> sc_tool = ''x_post'', sc_agent = Some ''agent.pepper'', sc_recipient = None \<rparr>;
       S = fst (policy_set C narrow Always (fst (policy_set C (tool_scope ''x_post'') Never empty_store d)) d);
       (P', _, ack) = handle_user_policy_text C ''always ask before the x_post action''
         \<lparr> layer = Some (True, S), baseline = None \<rparr> d
   in ack = Some (''Cleared: the x_post action is back to asking for a spoken confirmation each time.'')
     \<and> evaluate_global P' ''x_post'' ''agent.pepper'' target = Always"
proof -
  let ?narrow = "\<lparr> sc_tool = ''x_post'', sc_agent = Some ''agent.pepper'', sc_recipient = None \<rparr>"
  let ?rule = "\<lparr> rule_scope = tool_scope ''x_post'', rule_decision = Never \<rparr>"
  let ?wide = "\<lparr> rule_map = [(scope_key (tool_scope ''x_post''), ?rule)], store_path = None \<rparr>"
  let ?both = "?wide\<lparr> rule_map := [(scope_key (tool_scope ''x_post''), ?rule),
      (scope_key ?narrow, \<lparr> rule_scope = ?narrow, rule_decision = Always \<rparr>)] \<rparr>"
  have cmd: "classify_policy_command ''always ask before the x_post action'' = Some (ClearRule (tool_scope ''x_post''))"
    by (simp add: classify_policy_command_def phrase_defs phrase_head_def trim_list_def starts_with_def
        ends_with_def str_simps)
  have "fst (policy_set C (tool_scope ''x_post'') Never empty_store d) = ?wide"
    by (simp add: policy_set_def empty_store_def MAX_RULES_def Let_def)
  moreover have "fst (policy_set C ?narrow Always ?wide d) = ?both"
    by (simp add: policy_set_def MAX_RULES_def scope_key_def tool_scope_def Let_def)
  ultimately show ?thesis
    by (simp add: handle_user_policy_text_def cmd apply_global_def apply_to_store_def policy_clear_def
        Let_def command_ack_def tool_scope_def scope_key_def evaluate_global_def evaluate_local_global_def
        evaluate_def store_rules_def scope_matches_def is_never_auto_approve_def
        NEVER_AUTO_APPROVE_TOOLS_def harden_global_def)
qed

end
