(* ===== verification/Redact.thy ===== *)
theory Redact
  imports RustStr
begin

text \<open>
  The shared PII and secret redactor of \<open>daemon/src/optimize.rs\<close>: the token classifier, the pass
  over separator-grouped numbers and the pass over digit runs. All its character tests are ASCII,
  so it is modelled on the bytes of the string; the one character count is taken on \<open>chars\<close>.
\<close>

definition REDACTED :: string where
  "REDACTED = ''[redacted]''"

definition DIGIT_RUN_MIN :: nat where
  "DIGIT_RUN_MIN = 6"

definition ascii_alpha :: "char \<Rightarrow> bool" where
  "ascii_alpha c \<longleftrightarrow> ascii_upper c \<or> ascii_lower c"

definition digit_value :: "char \<Rightarrow> nat" where
  "digit_value c = code c - 48"

text \<open>\<open>rsplit_once\<close> with a one-character pattern: the text before and after its last occurrence.\<close>

definition rsplit_once_char :: "char \<Rightarrow> string \<Rightarrow> (string \<times> string) option" where
  "rsplit_once_char c s =
     (if c \<in> set s
      then Some (rev (drop 1 (dropWhile (\<lambda>x. x \<noteq> c) (rev s))), rev (takeWhile (\<lambda>x. x \<noteq> c) (rev s)))
      else None)"

section \<open>Numbers\<close>

fun luhn_sum :: "nat \<Rightarrow> string \<Rightarrow> nat" where
  "luhn_sum i [] = 0"
| "luhn_sum i (c # cs) =
     (let d = digit_value c;
          d' = (if i mod 2 = 1 then (if 9 < d * 2 then d * 2 - 9 else d * 2) else d)
      in d' + luhn_sum (Suc i) cs)"

definition passes_luhn :: "string \<Rightarrow> bool" where
  "passes_luhn digits =
     (if length digits < 13 \<or> \<not> list_all ascii_digit digits then False
      else luhn_sum 0 (rev digits) mod 10 = 0)"

definition is_ssn_shape :: "string \<Rightarrow> bool" where
  "is_ssn_shape span =
     (let groups = filter (\<lambda>g. g \<noteq> []) (split_on (\<lambda>c. c \<in> {CHR '' '', CHR ''-''}) span)
      in length groups = 3 \<and> map length groups = [3, 2, 4] \<and> list_all (list_all ascii_digit) groups)"

text \<open>The maximal run of digits joined by single separators that the inner loop extends.\<close>

fun digit_span :: "string \<Rightarrow> string \<times> string" where
  "digit_span [] = ([], [])"
| "digit_span (c # cs) =
     (if ascii_digit c then (let (s, r) = digit_span cs in (c # s, r))
      else if c \<in> {CHR '' '', CHR ''-''} \<and> cs \<noteq> [] \<and> ascii_digit (hd cs)
      then (let (s, r) = digit_span cs in (c # s, r))
      else ([], c # cs))"

lemma digit_span_append: "digit_span s = (a, b) \<Longrightarrow> s = a @ b"
  by (induction s arbitrary: a b) (auto split: if_splits prod.splits)

lemma digit_span_nonempty: "ascii_digit c \<Longrightarrow> digit_span (c # cs) = (a, b) \<Longrightarrow> a \<noteq> []"
  by (auto split: prod.splits)

definition is_secret_span :: "string \<Rightarrow> bool" where
  "is_secret_span span =
     (let digits = filter ascii_digit span;
          is_card = 13 \<le> length digits \<and> length digits \<le> 19 \<and> passes_luhn digits
      in is_card \<or> is_ssn_shape span)"

function redact_grouped_secrets :: "string \<Rightarrow> string" where
  "redact_grouped_secrets s =
     (case s of [] \<Rightarrow> []
      | c # cs \<Rightarrow>
          if \<not> ascii_digit c then c # redact_grouped_secrets cs
          else let span = fst (digit_span s); rest = snd (digit_span s) in
            (if is_secret_span span then REDACTED else span) @ redact_grouped_secrets rest)"
  by pat_completeness auto
termination
proof (relation "measure length")
  fix s :: string and c cs span rest
  assume s: "s = c # cs" and c: "\<not> \<not> ascii_digit c" and rest: "rest = snd (digit_span s)"
  obtain a b where ab: "digit_span s = (a, b)" by (cases "digit_span s")
  then have "s = a @ b" "a \<noteq> []" using digit_span_append digit_span_nonempty s c by auto
  then show "(rest, s) \<in> measure length" using rest ab by simp
qed auto

declare redact_grouped_secrets.simps [simp del]

definition flush_run :: "string \<Rightarrow> string" where
  "flush_run run = (if DIGIT_RUN_MIN \<le> length run then REDACTED else run)"

fun redact_runs :: "string \<Rightarrow> string \<Rightarrow> string" where
  "redact_runs run [] = flush_run run"
| "redact_runs run (c # cs) =
     (if ascii_digit c then redact_runs (run @ [c]) cs else flush_run run @ c # redact_runs [] cs)"

definition redact_digit_runs :: "string \<Rightarrow> string" where
  "redact_digit_runs s = redact_runs [] s"

section \<open>Tokens\<close>

definition is_wrap_punct :: "char \<Rightarrow> bool" where
  "is_wrap_punct c \<longleftrightarrow> c \<in> set (''()[]{}<>,.;:!?'' @ [CHR 0x22, CHR 0x27, CHR 0x60])"

definition is_email :: "string \<Rightarrow> bool" where
  "is_email token =
     (case split_once ''@'' token of
        None \<Rightarrow> False
      | Some (local, domain) \<Rightarrow>
          if local = [] \<or> str_contains domain ''@'' then False
          else (case rsplit_once_char (CHR ''.'') domain of
             Some (host, tld) \<Rightarrow>
               host \<noteq> [] \<and> 2 \<le> length tld \<and> list_all ascii_alpha tld \<and>
               list_all (\<lambda>c. ascii_alnum c \<or> c \<in> set ''._%+-'') local
           | None \<Rightarrow> False))"

definition is_credentialed_url :: "string \<Rightarrow> bool" where
  "is_credentialed_url token =
     (case split_once ''://'' token of
        None \<Rightarrow> False
      | Some (_, after_scheme) \<Rightarrow>
          (case split_once ''@'' after_scheme of
             Some (userinfo, _) \<Rightarrow> str_contains userinfo '':'' \<and> userinfo \<noteq> []
           | None \<Rightarrow> False))"

definition SECRET_PREFIXES :: "string list" where
  "SECRET_PREFIXES = [''sk-'', ''pk-'', ''rk-'', ''ghp_'', ''gho_'', ''ghs_'', ''github_pat_'',
     ''xoxb-'', ''xoxp-'', ''xoxa-'', ''akia'', ''asia'']"

definition ASSIGNMENT_KEYS :: "string list" where
  "ASSIGNMENT_KEYS = [''api_key='', ''apikey='', ''api-key='', ''token='', ''secret='', ''password='',
     ''api_key:'', ''token:'']"

definition is_secret_shaped :: "string \<Rightarrow> bool" where
  "is_secret_shaped token =
     (let lower = to_ascii_lowercase token in
      if list_ex (\<lambda>key. starts_with key lower) ASSIGNMENT_KEYS then True
      else if list_ex (\<lambda>p. starts_with p lower \<and> length p + 8 \<le> length token) SECRET_PREFIXES then True
      else if 20 \<le> length (chars token) then
        list_ex ascii_alpha token \<and> list_ex ascii_digit token \<and>
        list_all (\<lambda>c. ascii_alnum c \<or> c \<in> set ''-_+/='') token
      else False)"

text \<open>\<open>parse::<u32>().unwrap_or(0)\<close> on a group of digits.\<close>

definition parse_u32_or_0 :: "string \<Rightarrow> nat" where
  "parse_u32_or_0 g = (case parse_nat g of Some n \<Rightarrow> if n < 2 ^ 32 then n else 0 | None \<Rightarrow> 0)"

definition is_year :: "string \<Rightarrow> bool" where
  "is_year g \<longleftrightarrow> length g = 4 \<and> 1900 \<le> parse_u32_or_0 g \<and> parse_u32_or_0 g \<le> 2199"

definition group_in_range :: "string \<Rightarrow> nat \<Rightarrow> bool" where
  "group_in_range g hi \<longleftrightarrow> 1 \<le> parse_u32_or_0 g \<and> parse_u32_or_0 g \<le> hi"

definition looks_like_date_or_decimal :: "string \<Rightarrow> bool" where
  "looks_like_date_or_decimal token =
     (if list_ex (\<lambda>c. c \<in> set ''+()'') token then False
      else let body = (case strip_prefix ''-'' token of Some b \<Rightarrow> b | None \<Rightarrow> token) in
        if CHR '' '' \<in> set body then False
        else let dot = CHR ''.'' \<in> set body; dash = CHR ''-'' \<in> set body;
                 groups = split_on (\<lambda>c. c \<in> {CHR ''.'', CHR ''-''}) body in
          if list_ex (\<lambda>g. g = [] \<or> \<not> list_all ascii_digit g) groups then False
          else (case (dot, dash) of
            (True, False) \<Rightarrow>
              (case groups of
                 [_, _] \<Rightarrow> True
               | [a, b, c] \<Rightarrow>
                   is_year c \<and> group_in_range a 31 \<and> group_in_range b 31 \<or>
                   is_year a \<and> group_in_range b 12 \<and> group_in_range c 31
               | _ \<Rightarrow> False)
          | (False, True) \<Rightarrow>
              (case groups of
                 [a, b, c] \<Rightarrow> [length a, length b, length c] = [4, 2, 2] \<and>
                   is_year a \<and> group_in_range b 12 \<and> group_in_range c 31
               | [a, b] \<Rightarrow> [length a, length b] = [4, 4] \<and> is_year a \<and> is_year b
               | _ \<Rightarrow> False)
          | _ \<Rightarrow> False))"

definition is_phone :: "string \<Rightarrow> bool" where
  "is_phone token =
     (let digits = filter ascii_digit token;
          non_phone = list_ex (\<lambda>c. \<not> (ascii_digit c \<or> c \<in> set ''+()-. '')) token in
      if non_phone then False
      else if \<not> (7 \<le> length digits \<and> length digits \<le> 15) then False
      else \<not> looks_like_date_or_decimal token)"

definition redact_token :: "string \<Rightarrow> string" where
  "redact_token token =
     (let lead = takeWhile is_wrap_punct token;
          core_and_trail = drop (length lead) token;
          trail = rev (takeWhile is_wrap_punct (rev core_and_trail));
          core = take (length core_and_trail - length trail) core_and_trail in
      if core = [] then token
      else lead @ (if is_email core \<or> is_credentialed_url core \<or> is_secret_shaped core \<or> is_phone core
                   then REDACTED else core) @ trail)"

definition redact :: "string \<Rightarrow> string" where
  "redact s = redact_digit_runs (redact_grouped_secrets (join '' '' (map redact_token (split_whitespace s))))"

section \<open>Digit runs\<close>

lemma REDACTED_no_digit: "c \<in> set REDACTED \<Longrightarrow> \<not> ascii_digit c"
  by (auto simp: REDACTED_def ascii_digit_def)

text \<open>No run of at least \<open>n\<close> consecutive digits.\<close>

definition short_runs :: "nat \<Rightarrow> string \<Rightarrow> bool" where
  "short_runs n s \<longleftrightarrow> \<not> (\<exists>u w v. s = u @ w @ v \<and> n \<le> length w \<and> list_all ascii_digit w)"

lemma split_around:
  assumes "a @ c # b = u @ w @ v" and "c \<notin> set w"
  shows "(\<exists>t. a = u @ w @ t) \<or> (\<exists>t. b = t @ w @ v)"
proof -
  have "(u @ w) @ v = a @ c # b" using assms(1) by simp
  then consider us where "u @ w = a @ us" "us @ v = c # b" | us where "a = (u @ w) @ us"
    by (auto simp only: append_eq_append_conv2)
  then show ?thesis
  proof cases
    case 1
    show ?thesis
    proof (cases us)
      case Nil
      then show ?thesis using 1(1) by auto
    next
      case (Cons x t)
      then have t: "u @ w = a @ c # t" "b = t @ v" using 1 by auto
      from t(1) consider ys where "ys @ w = c # t" | ys where "w = ys @ c # t"
        by (auto simp only: append_eq_append_conv2)
      then obtain ys where "ys @ w = c # t" using assms(2) by cases auto
      then show ?thesis using t(2) assms(2) by (cases ys) auto
    qed
  qed auto
qed

lemma short_runs_break:
  assumes "\<not> ascii_digit c" and "short_runs n a" and "short_runs n b"
  shows "short_runs n (a @ c # b)"
  unfolding short_runs_def
proof
  assume "\<exists>u w v. a @ c # b = u @ w @ v \<and> n \<le> length w \<and> list_all ascii_digit w"
  then obtain u w v where eq: "a @ c # b = u @ w @ v" and w: "n \<le> length w" "list_all ascii_digit w"
    by auto
  have "c \<notin> set w" using w(2) assms(1) by (auto simp: list_all_iff)
  then consider t where "a = u @ w @ t" | t where "b = t @ w @ v"
    using split_around [OF eq] by blast
  then show False
    using assms(2,3) w unfolding short_runs_def by cases blast+
qed

lemma short_runs_no_digit: "0 < n \<Longrightarrow> \<forall>c \<in> set s. \<not> ascii_digit c \<Longrightarrow> short_runs n s"
  by (fastforce simp: short_runs_def list_all_iff dest: length_pos_if_in_set)

lemma short_runs_flush: "short_runs DIGIT_RUN_MIN (flush_run run)"
proof (cases "DIGIT_RUN_MIN \<le> length run")
  case True
  then show ?thesis
    using short_runs_no_digit [of DIGIT_RUN_MIN REDACTED] REDACTED_no_digit
    by (simp add: flush_run_def DIGIT_RUN_MIN_def)
qed (auto simp: flush_run_def short_runs_def)

lemma short_runs_redact_runs: "short_runs DIGIT_RUN_MIN (redact_runs run s)"
  by (induction run s rule: redact_runs.induct) (simp_all add: short_runs_flush short_runs_break)

lemma redact_runs_id: "list_all ascii_digit run \<Longrightarrow> short_runs DIGIT_RUN_MIN (run @ s) \<Longrightarrow> redact_runs run s = run @ s"
proof (induction run s rule: redact_runs.induct)
  case (1 run)
  have "run = [] @ run @ []" by simp
  then have "length run < DIGIT_RUN_MIN" using 1 unfolding short_runs_def by (metis append.right_neutral leI)
  then show ?case by (simp add: flush_run_def)
next
  case (2 run c cs)
  have "run @ c # cs = [] @ run @ (c # cs)" by simp
  then have len: "length run < DIGIT_RUN_MIN"
    using "2.prems" unfolding short_runs_def by (metis leI)
  show ?case
  proof (cases "ascii_digit c")
    case True
    then show ?thesis using "2.IH"(1) "2.prems" by simp
  next
    case False
    have "short_runs DIGIT_RUN_MIN cs"
      unfolding short_runs_def
    proof
      assume "\<exists>u w v. cs = u @ w @ v \<and> DIGIT_RUN_MIN \<le> length w \<and> list_all ascii_digit w"
      then obtain u w v where "run @ c # cs = (run @ c # u) @ w @ v" "DIGIT_RUN_MIN \<le> length w"
        "list_all ascii_digit w" by auto
      with "2.prems"(2) show False unfolding short_runs_def by blast
    qed
    then show ?thesis using False "2.IH"(2) len by (simp add: flush_run_def)
  qed
qed

text \<open>
  Nothing that passes the redactor contains six consecutive digits, whatever the text it was
  given, and the digit pass changes nothing when it is applied again.
\<close>

theorem redact_leaves_no_digit_run:
  "short_runs 6 (redact s) \<and> redact_digit_runs (redact s) = redact s"
proof -
  have "short_runs DIGIT_RUN_MIN (redact s)"
    by (simp add: redact_def redact_digit_runs_def short_runs_redact_runs)
  then show ?thesis
    using redact_runs_id [of "[]" "redact s"] by (simp add: DIGIT_RUN_MIN_def redact_digit_runs_def)
qed

section \<open>Grouped secrets\<close>

text \<open>Where a span ends: at a character that cannot continue it.\<close>

definition stops :: "string \<Rightarrow> bool" where
  "stops b \<longleftrightarrow> (case b of [] \<Rightarrow> True
     | y # ys \<Rightarrow> \<not> ascii_digit y \<and> \<not> (y \<in> {CHR '' '', CHR ''-''} \<and> ys \<noteq> [] \<and> ascii_digit (hd ys)))"

lemma digit_span_stops: "digit_span s = (a, b) \<Longrightarrow> stops b"
  by (induction s arbitrary: a b) (auto simp: stops_def split: if_splits prod.splits)

lemma digit_span_again: "digit_span s = (a, b) \<Longrightarrow> stops c \<Longrightarrow> digit_span (a @ c) = (a, c)"
proof (induction s arbitrary: a b)
  case Nil
  then show ?case by (cases c) (auto simp: stops_def)
next
  case (Cons x xs)
  obtain a' b' where ab: "digit_span xs = (a', b')" by (cases "digit_span xs")
  consider (go) "ascii_digit x \<or> x \<in> {CHR '' '', CHR ''-''} \<and> xs \<noteq> [] \<and> ascii_digit (hd xs)"
    | (stop) "a = []" using Cons.prems(1) by (auto split: if_splits)
  then show ?case
  proof cases
    case go
    then have a: "a = x # a'" using Cons.prems(1) ab by (auto split: if_splits)
    have "\<not> ascii_digit x \<Longrightarrow> a' \<noteq> [] \<and> hd a' = hd xs"
      using go ab by (cases xs) (auto split: prod.splits)
    then show ?thesis using go a Cons.IH [OF ab Cons.prems(2)] by (cases a') auto
  next
    case stop
    then show ?thesis using Cons.prems(2) by (cases c) (auto simp: stops_def)
  qed
qed

lemma redact_grouped_Nil [simp]: "redact_grouped_secrets [] = []"
  by (simp add: redact_grouped_secrets.simps)

lemma redact_grouped_other:
  "\<not> ascii_digit c \<Longrightarrow> redact_grouped_secrets (c # cs) = c # redact_grouped_secrets cs"
  by (simp add: redact_grouped_secrets.simps)

lemma redact_grouped_others:
  "\<forall>c \<in> set s. \<not> ascii_digit c \<Longrightarrow> redact_grouped_secrets (s @ t) = s @ redact_grouped_secrets t"
  by (induction s) (auto simp: redact_grouped_other)

lemma redact_grouped_span:
  "digit_span s = (a, b) \<Longrightarrow> a \<noteq> [] \<Longrightarrow> ascii_digit (hd s) \<Longrightarrow>
    redact_grouped_secrets s = (if is_secret_span a then REDACTED else a) @ redact_grouped_secrets b"
  by (subst redact_grouped_secrets.simps) (cases s; simp)

lemma stops_grouped: "stops b \<Longrightarrow> stops (redact_grouped_secrets b)"
proof (cases b)
  case (Cons y ys)
  assume "stops b"
  then have "\<not> ascii_digit y" "y \<in> {CHR '' '', CHR ''-''} \<Longrightarrow> ys = [] \<or> \<not> ascii_digit (hd ys)"
    using Cons by (auto simp: stops_def)
  then show ?thesis using Cons
    by (cases ys) (auto simp: stops_def redact_grouped_other)
qed (simp add: stops_def)

text \<open>The maximal spans of a text.\<close>

function number_spans :: "string \<Rightarrow> string list" where
  "number_spans s =
     (case s of [] \<Rightarrow> []
      | c # cs \<Rightarrow> if \<not> ascii_digit c then number_spans cs
                  else fst (digit_span s) # number_spans (snd (digit_span s)))"
  by pat_completeness auto
termination
proof (relation "measure length")
  fix s :: string and c cs
  assume s: "s = c # cs" and c: "\<not> \<not> ascii_digit c"
  obtain a b where ab: "digit_span s = (a, b)" by (cases "digit_span s")
  then have "s = a @ b" "a \<noteq> []" using digit_span_append digit_span_nonempty s c by auto
  then show "(snd (digit_span s), s) \<in> measure length" using ab by simp
qed auto

declare number_spans.simps [simp del]

lemma number_spans_Nil [simp]: "number_spans [] = []"
  by (simp add: number_spans.simps)

lemma number_spans_others: "\<forall>c \<in> set s. \<not> ascii_digit c \<Longrightarrow> number_spans (s @ t) = number_spans t"
  by (induction s) (auto simp: number_spans.simps)

lemma number_spans_span:
  "digit_span s = (a, b) \<Longrightarrow> a \<noteq> [] \<Longrightarrow> ascii_digit (hd s) \<Longrightarrow> number_spans s = a # number_spans b"
  by (subst number_spans.simps) (cases s; simp)

text \<open>
  The pass over grouped numbers leaves no payment card or social security number standing as a
  number of its own: in its output no maximal digit group sequence is one, and a second pass
  changes nothing.
\<close>

theorem grouped_pass_clean:
  "list_all (\<lambda>a. \<not> is_secret_span a) (number_spans (redact_grouped_secrets s))
   \<and> redact_grouped_secrets (redact_grouped_secrets s) = redact_grouped_secrets s"
proof (induction s rule: redact_grouped_secrets.induct)
  case (1 s)
  show ?case
  proof (cases s)
    case (Cons c cs)
    show ?thesis
    proof (cases "ascii_digit c")
      case False
      then show ?thesis
        using 1(1) [OF Cons] Cons number_spans_others [of "[c]"] by (simp add: redact_grouped_other)
    next
      case True
      obtain a b where ab: "digit_span s = (a, b)" by (cases "digit_span s")
      have a: "a \<noteq> []" "ascii_digit (hd a)" "s = a @ b"
        using ab True Cons digit_span_append [OF ab] by (auto split: prod.splits)
      let ?g = "redact_grouped_secrets b"
      have IH: "list_all (\<lambda>a. \<not> is_secret_span a) (number_spans ?g)" "redact_grouped_secrets ?g = ?g"
        using 1(2) [OF Cons] True ab by auto
      have g: "redact_grouped_secrets s = (if is_secret_span a then REDACTED else a) @ ?g"
        using redact_grouped_span [OF ab a(1)] True Cons by simp
      show ?thesis
      proof (cases "is_secret_span a")
        case True
        have "\<forall>c \<in> set REDACTED. \<not> ascii_digit c" using REDACTED_no_digit by blast
        then show ?thesis using True g IH by (simp add: redact_grouped_others number_spans_others)
      next
        case False
        have again: "digit_span (a @ ?g) = (a, ?g)"
          using digit_span_again [OF ab stops_grouped [OF digit_span_stops [OF ab]]] .
        show ?thesis
          using False g IH a redact_grouped_span [OF again a(1)] number_spans_span [OF again a(1)]
          by simp
      qed
    qed
  qed simp
qed

text \<open>
  A payment card in its displayed form is kept verbatim when another group of digits follows it
  after a single space, because the whole run is then tested as one number. (The comment on the
  pass says that a card in its displayed form does not survive.)
\<close>

theorem card_before_digits_survives:
  "is_secret_span ''4242 4242 4242 4242'' \<and>
   redact ''pay 4242 4242 4242 4242 12'' = ''pay 4242 4242 4242 4242 12''"
proof
  show "is_secret_span ''4242 4242 4242 4242''"
    by (simp add: is_secret_span_def passes_luhn_def digit_value_def str_simps)
  have tok: "redact_token t = t" if "t \<in> {''pay'', ''4242'', ''12''}" for t
    using that
    by (auto simp: redact_token_def is_wrap_punct_def is_email_def starts_with_def is_credentialed_url_def
        is_secret_shaped_def ASSIGNMENT_KEYS_def SECRET_PREFIXES_def is_phone_def str_simps)
  show "redact ''pay 4242 4242 4242 4242 12'' = ''pay 4242 4242 4242 4242 12''"
    by (simp add: redact_def tok redact_grouped_secrets.simps is_secret_span_def passes_luhn_def
        is_ssn_shape_def digit_value_def redact_digit_runs_def flush_run_def DIGIT_RUN_MIN_def str_simps)
qed

text \<open>
  The text says of the record of a token that a NUL byte does not survive redaction; it does.
\<close>

lemma redact_keeps_NUL: "redact [CHR 0x00] = [CHR 0x00]"
proof -
  have "redact_token [CHR 0x00] = [CHR 0x00]"
    by (simp add: redact_token_def is_wrap_punct_def is_email_def starts_with_def is_credentialed_url_def
        is_secret_shaped_def ASSIGNMENT_KEYS_def SECRET_PREFIXES_def is_phone_def str_simps)
  then show ?thesis
    by (simp add: redact_def redact_grouped_secrets.simps redact_digit_runs_def flush_run_def
        DIGIT_RUN_MIN_def str_simps)
qed

end
