(* ===== verification/AuditChain.thy ===== *)
theory AuditChain
  imports PolicyStore Redact JsonValue
begin

text \<open>
  The tamper-evident audit log of \<open>daemon/src/audit.rs\<close>. The SQLite table is the list of its rows in
  ascending order of the primary key; SHA-256 and the hexadecimal printer are parameters; the clock
  is an argument of each record. SQL errors are outside the model.
\<close>

definition MAX_ENTRIES :: nat where
  "MAX_ENTRIES = 10000"

definition GENESIS_PREV :: string where
  "GENESIS_PREV = ''GENESIS''"

definition TRIAGE_AGENT :: string where "TRIAGE_AGENT = ''agent.aegis''"
definition TRIAGE_TOOL :: string where "TRIAGE_TOOL = ''triage_snapshot''"
definition TRIAGE_DECISION :: string where "TRIAGE_DECISION = ''ask''"
definition TRIAGE_OUTCOME :: string where "TRIAGE_OUTCOME = ''evidence_captured''"

datatype outcome =
  Proposed | Parked | BlockedByPolicy | AutoApprovedByPolicy | AlwaysInertMasterOff
| Confirmed | Denied | Executed | DryRun | BlockedByVoiceId

definition outcome_str :: "outcome \<Rightarrow> string" where
  "outcome_str out = (case out of
     Proposed \<Rightarrow> ''proposed'' | Parked \<Rightarrow> ''parked'' | BlockedByPolicy \<Rightarrow> ''blocked_by_policy''
   | AutoApprovedByPolicy \<Rightarrow> ''auto_approved_by_policy''
   | AlwaysInertMasterOff \<Rightarrow> ''always_inert_master_off''
   | Confirmed \<Rightarrow> ''confirmed'' | Denied \<Rightarrow> ''denied'' | Executed \<Rightarrow> ''executed''
   | DryRun \<Rightarrow> ''dry_run'' | BlockedByVoiceId \<Rightarrow> ''blocked_by_voiceid'')"

record audit_entry =
  e_seq :: int
  e_ts :: string
  e_agent :: string
  e_tool :: string
  e_target :: string
  e_decision :: string
  e_outcome :: string
  e_prev :: string
  e_hash :: string

text \<open>\<open>seq.to_le_bytes()\<close> of an \<open>i64\<close>.\<close>

definition le_bytes :: "int \<Rightarrow> string" where
  "le_bytes i = map (\<lambda>k. char_of (nat ((i mod 2 ^ 64) div 256 ^ k mod 256))) [0..<8]"

definition entry_preimage ::
  "string \<Rightarrow> int \<Rightarrow> string \<Rightarrow> string \<Rightarrow> string \<Rightarrow> string \<Rightarrow> string \<Rightarrow> string \<Rightarrow> string" where
  "entry_preimage prev sq ts ag tn tgt dec out =
     prev @ [NUL] @ le_bytes sq @ [NUL] @ ts @ [NUL] @ ag @ [NUL] @ tn @ [NUL] @ tgt @ [NUL] @ dec @ [NUL] @ out"

definition hash_entry ::
  "externals \<Rightarrow> string \<Rightarrow> int \<Rightarrow> string \<Rightarrow> string \<Rightarrow> string \<Rightarrow> string \<Rightarrow> string \<Rightarrow> string \<Rightarrow> string" where
  "hash_entry E prev sq ts ag tn tgt dec out =
     hex E (sha256 E (entry_preimage prev sq ts ag tn tgt dec out))"

section \<open>The log\<close>

record audit_log =
  table :: "audit_entry list"
  max_entries :: nat

definition audit_open :: "audit_entry list \<Rightarrow> audit_log" where
  "audit_open rows = \<lparr> table = rows, max_entries = MAX_ENTRIES \<rparr>"

definition with_max_entries :: "nat \<Rightarrow> audit_log \<Rightarrow> audit_log" where
  "with_max_entries n L = (if 0 < n then L\<lparr> max_entries := n \<rparr> else L)"

definition audit_head :: "audit_log \<Rightarrow> (int \<times> string) option" where
  "audit_head L = (if table L = [] then None else Some (e_seq (last (table L)), e_hash (last (table L))))"

definition hash_at_seq :: "int \<Rightarrow> audit_log \<Rightarrow> string option" where
  "hash_at_seq sq L = map_option e_hash (find (\<lambda>e. e_seq e = sq) (table L))"

definition prune_oldest :: "nat \<Rightarrow> audit_log \<Rightarrow> audit_log" where
  "prune_oldest keep L =
     (let desc = rev (table L) in
      if keep - 1 < length desc
      then L\<lparr> table := filter (\<lambda>e. \<not> e_seq e < e_seq (desc ! (keep - 1))) (table L) \<rparr>
      else L)"

definition append_raw ::
  "externals \<Rightarrow> string \<Rightarrow> string \<Rightarrow> string \<Rightarrow> string \<Rightarrow> string \<Rightarrow> string \<Rightarrow> audit_log \<Rightarrow> audit_log \<times> audit_entry" where
  "append_raw E ts ag tn target_stored dec out L =
     (let (next_seq, prev) = (case audit_head L of Some (sq, h) \<Rightarrow> (sq + 1, h) | None \<Rightarrow> (1, GENESIS_PREV));
          e = \<lparr> e_seq = next_seq, e_ts = ts, e_agent = ag, e_tool = tn, e_target = target_stored,
                e_decision = dec, e_outcome = out, e_prev = prev,
                e_hash = hash_entry E prev next_seq ts ag tn target_stored dec out \<rparr>;
          L' = L\<lparr> table := table L @ [e] \<rparr>
      in (if max_entries L' < length (table L') then prune_oldest (max_entries L') L' else L', e))"

definition audit_record ::
  "externals \<Rightarrow> string \<Rightarrow> string \<Rightarrow> string \<Rightarrow> string \<Rightarrow> decision \<Rightarrow> outcome \<Rightarrow> audit_log \<Rightarrow> audit_log \<times> audit_entry" where
  "audit_record E ts ag tn target dec out L =
     append_raw E ts ag tn (redact target) (decision_str dec) (outcome_str out) L"

definition record_triage_evidence ::
  "externals \<Rightarrow> string \<Rightarrow> string \<Rightarrow> string \<Rightarrow> audit_log \<Rightarrow> audit_log \<times> audit_entry" where
  "record_triage_evidence E ts bundle_id digest L =
     append_raw E ts TRIAGE_AGENT TRIAGE_TOOL (''bundle '' @ bundle_id @ '' sha256='' @ digest)
       TRIAGE_DECISION TRIAGE_OUTCOME L"

definition audit_recent :: "nat \<Rightarrow> audit_log \<Rightarrow> audit_entry list" where
  "audit_recent n L = take n (rev (table L))"

definition audit_between :: "string \<Rightarrow> string \<Rightarrow> nat \<Rightarrow> audit_log \<Rightarrow> audit_entry list" where
  "audit_between from_ts to_ts limit L =
     take limit (filter (\<lambda>e. from_ts \<le> e_ts e \<and> e_ts e \<le> to_ts) (rev (table L)))"

definition audit_len :: "audit_log \<Rightarrow> nat" where
  "audit_len L = length (table L)"

section \<open>Verification\<close>

datatype chain_status = ChainOk nat | Broken int string

definition entry_hash_of :: "externals \<Rightarrow> audit_entry \<Rightarrow> string" where
  "entry_hash_of E e = hash_entry E (e_prev e) (e_seq e) (e_ts e) (e_agent e) (e_tool e) (e_target e)
     (e_decision e) (e_outcome e)"

text \<open>The loop of \<open>verify_entries\<close>; \<open>None\<close> for the expected number is the first round (\<open>i == 0\<close>).\<close>

fun verify_loop :: "externals \<Rightarrow> nat \<Rightarrow> string \<Rightarrow> int option \<Rightarrow> audit_entry list \<Rightarrow> chain_status" where
  "verify_loop E tot expected_prev expected_seq [] = ChainOk tot"
| "verify_loop E tot expected_prev expected_seq (e # es) =
     (if e_prev e \<noteq> expected_prev
      then Broken (e_seq e) ''prev_hash does not link to the prior entry (reorder/insert/delete)''
      else let want = (case expected_seq of None \<Rightarrow> e_seq e | Some n \<Rightarrow> n) in
        if e_seq e \<noteq> want
        then Broken (e_seq e) ''sequence gap within the retained chain (a mid-chain deletion)''
        else if entry_hash_of E e \<noteq> e_hash e
        then Broken (e_seq e) ''entry_hash mismatch (a field was altered)''
        else verify_loop E tot (e_hash e) (Some (want + 1)) es)"

definition verify_entries :: "externals \<Rightarrow> audit_entry list \<Rightarrow> chain_status" where
  "verify_entries E es =
     verify_loop E (length es) (case es of [] \<Rightarrow> GENESIS_PREV | e # _ \<Rightarrow> e_prev e) None es"

definition verify_chain :: "externals \<Rightarrow> audit_log \<Rightarrow> chain_status" where
  "verify_chain E L = verify_entries E (table L)"

section \<open>The external anchor\<close>

datatype anchor_status =
    NoAnchor
  | Match int string
  | Extended int string "int \<times> string"
  | Mismatch int string "(int \<times> string) option"
  | Malformed string

definition anchor_text :: "int \<times> string \<Rightarrow> string" where
  "anchor_text a = int_string (fst a) @ '':'' @ snd a"

definition parse_anchor :: "string \<Rightarrow> (int \<times> string) option" where
  "parse_anchor raw =
     (case split_once '':'' (trim raw) of
        None \<Rightarrow> None
      | Some (sq, h) \<Rightarrow>
          (case parse_i64 (trim sq) of
             None \<Rightarrow> None
           | Some n \<Rightarrow> if trim h \<noteq> [] then Some (n, trim h) else None))"

definition compare_anchor :: "string option \<Rightarrow> audit_log \<Rightarrow> anchor_status" where
  "compare_anchor stored L =
     (case stored of
        None \<Rightarrow> NoAnchor
      | Some raw \<Rightarrow>
          (case parse_anchor raw of
             None \<Rightarrow> Malformed (redact raw)
           | Some (a_seq, a_head) \<Rightarrow>
               (case audit_head L of
                  None \<Rightarrow> Mismatch a_seq a_head None
                | Some (l_seq, l_head) \<Rightarrow>
                    if l_seq = a_seq \<and> l_head = a_head then Match a_seq a_head
                    else (case hash_at_seq a_seq L of
                       Some h \<Rightarrow>
                         if h = a_head \<and> a_seq \<le> l_seq then Extended a_seq a_head (l_seq, l_head)
                         else Mismatch a_seq a_head (Some (l_seq, l_head))
                     | None \<Rightarrow>
                         if a_seq < l_seq then Extended a_seq a_head (l_seq, l_head)
                         else Mismatch a_seq a_head (Some (l_seq, l_head))))))"

text \<open>
  The Keychain item at the anchor account: a write either fails or replaces it, a read trims the
  value and treats an empty one as absent.
\<close>

record keychain_item =
  kc_value :: "string option"
  kc_writable :: bool

definition keychain_read :: "keychain_item \<Rightarrow> string option" where
  "keychain_read K =
     (case kc_value K of None \<Rightarrow> None | Some raw \<Rightarrow> if trim raw \<noteq> [] then Some (trim raw) else None)"

definition keychain_write :: "string \<Rightarrow> keychain_item \<Rightarrow> keychain_item option" where
  "keychain_write v K = (if kc_writable K then Some (K\<lparr> kc_value := Some v \<rparr>) else None)"

definition anchor_to ::
  "(string \<Rightarrow> 'a \<Rightarrow> 'a option) \<Rightarrow> audit_log \<Rightarrow> 'a \<Rightarrow> ('a \<times> (int \<times> string) option) option" where
  "anchor_to wr L A =
     (case audit_head L of
        None \<Rightarrow> Some (A, None)
      | Some h \<Rightarrow> map_option (\<lambda>A'. (A', Some h)) (wr (anchor_text h) A))"

definition verify_against_anchor :: "('a \<Rightarrow> string option) \<Rightarrow> audit_log \<Rightarrow> 'a \<Rightarrow> anchor_status" where
  "verify_against_anchor rd L A = compare_anchor (rd A) L"

definition is_mismatch :: "anchor_status \<Rightarrow> bool" where
  "is_mismatch st = (case st of Mismatch _ _ _ \<Rightarrow> True | _ \<Rightarrow> False)"

text \<open>The boot check on an installed log: the verdict, and the anchor it leaves.\<close>

definition verify_and_reanchor_on_start ::
  "(bool \<times> audit_log) option \<Rightarrow> keychain_item \<Rightarrow> keychain_item \<times> anchor_status option" where
  "verify_and_reanchor_on_start installed K =
     (case installed of
        Some (True, L) \<Rightarrow>
          (let status = verify_against_anchor keychain_read L K in
           if is_mismatch status then (K, Some status)
           else (case anchor_to keychain_write L K of
                   Some (K', _) \<Rightarrow> (K', Some status)
                 | None \<Rightarrow> (K, Some status)))
      | _ \<Rightarrow> (K, None))"

definition record_global ::
  "externals \<Rightarrow> string \<Rightarrow> string \<Rightarrow> string \<Rightarrow> string \<Rightarrow> decision \<Rightarrow> outcome \<Rightarrow>
   (bool \<times> audit_log) option \<Rightarrow> (bool \<times> audit_log) option" where
  "record_global E ts ag tn target dec out installed =
     (case installed of
        Some (True, L) \<Rightarrow> Some (True, fst (audit_record E ts ag tn target dec out L))
      | _ \<Rightarrow> installed)"

section \<open>What reaches the panel\<close>

definition anchor_status_json :: "anchor_status \<Rightarrow> json" where
  "anchor_status_json st =
     (case st of
        NoAnchor \<Rightarrow> JObj [(''ok'', JBool True), (''state'', JStr ''no_anchor'')]
      | Match sq h \<Rightarrow> JObj [(''head'', JStr h), (''ok'', JBool True), (''seq'', JInt sq), (''state'', JStr ''match'')]
      | Extended a h live \<Rightarrow> JObj [(''anchored_head'', JStr h), (''anchored_seq'', JInt a),
          (''live_head'', JStr (snd live)), (''live_seq'', JInt (fst live)), (''ok'', JBool True),
          (''state'', JStr ''extended'')]
      | Mismatch a h live \<Rightarrow> JObj [(''anchored_head'', JStr h), (''anchored_seq'', JInt a),
          (''live_head'', case live of None \<Rightarrow> JNull | Some (_, lh) \<Rightarrow> JStr lh),
          (''live_seq'', case live of None \<Rightarrow> JNull | Some (ls, _) \<Rightarrow> JInt ls),
          (''ok'', JBool False), (''state'', JStr ''mismatch'')]
      | Malformed raw \<Rightarrow> JObj [(''ok'', JBool False), (''raw'', JStr raw), (''state'', JStr ''malformed'')])"

definition ANCHOR_WIRE_KEYS :: "string list" where
  "ANCHOR_WIRE_KEYS = [''ok'', ''state'', ''checked_ts'', ''seq'', ''anchored_seq'', ''live_seq'']"

definition anchor_for_snapshot :: "json \<Rightarrow> json" where
  "anchor_for_snapshot anchor =
     JObj (foldl (\<lambda>out k. case jget anchor k of Some v \<Rightarrow> bt_insert k v out | None \<Rightarrow> out) [] ANCHOR_WIRE_KEYS)"

definition attach_anchor :: "json \<Rightarrow> json option \<Rightarrow> json" where
  "attach_anchor payload anchor =
     (case anchor of
        None \<Rightarrow> payload
      | Some a \<Rightarrow> (case payload of JObj m \<Rightarrow> JObj (bt_insert ''anchor'' (anchor_for_snapshot a) m) | _ \<Rightarrow> payload))"

definition SNAPSHOT_RECENT :: nat where
  "SNAPSHOT_RECENT = 50"

definition snapshot_entry :: "audit_entry \<Rightarrow> json" where
  "snapshot_entry e = JObj [(''agent'', JStr (e_agent e)), (''decision'', JStr (e_decision e)),
     (''outcome'', JStr (e_outcome e)), (''seq'', JInt (e_seq e)),
     (''target_redacted'', JStr (e_target e)), (''tool'', JStr (e_tool e)), (''ts'', JStr (e_ts e))]"

definition snapshot_json :: "bool \<Rightarrow> nat \<Rightarrow> audit_entry list \<Rightarrow> chain_status \<Rightarrow> json" where
  "snapshot_json enabled tot entries chain =
     JObj [(''chain'', case chain of
         ChainOk n \<Rightarrow> JObj [(''count'', JInt (int n)), (''ok'', JBool True)]
       | Broken sq reason \<Rightarrow> JObj [(''broken_seq'', JInt sq), (''ok'', JBool False), (''reason'', JStr reason)]),
       (''enabled'', JBool enabled), (''entries'', JArr (map snapshot_entry entries)),
       (''total'', JInt (int tot))]"

definition emit_snapshot :: "externals \<Rightarrow> (bool \<times> audit_log) option \<Rightarrow> json option \<Rightarrow> json" where
  "emit_snapshot E installed last_anchor =
     (case installed of
        Some (True, L) \<Rightarrow>
          attach_anchor (snapshot_json True (audit_len L) (audit_recent SNAPSHOT_RECENT L) (verify_chain E L)) last_anchor
      | _ \<Rightarrow> snapshot_json False 0 [] (ChainOk 0))"

end
