(* ===== verification/AuditProofs.thy ===== *)
theory AuditProofs
  imports AuditChain
begin

text \<open>
  What the audit log of \<open>daemon/src/audit.rs\<close> guarantees: recording and retention keep a verified chain,
  honest growth never alarms the external anchor, a witnessed hash pins every earlier row, and the
  places where an edit escapes both checks.
\<close>

section \<open>Verified chains\<close>

fun linked :: "externals \<Rightarrow> audit_entry list \<Rightarrow> bool" where
  "linked E [] = True"
| "linked E [e] = (entry_hash_of E e = e_hash e)"
| "linked E (e # f # es) =
     (entry_hash_of E e = e_hash e \<and> e_prev f = e_hash e \<and> e_seq f = e_seq e + 1 \<and> linked E (f # es))"

lemma verify_loop_linked:
  "verify_loop E n prev sq (e # es) = ChainOk m \<longleftrightarrow>
     m = n \<and> e_prev e = prev \<and> (case sq of None \<Rightarrow> True | Some k \<Rightarrow> e_seq e = k) \<and> linked E (e # es)"
  by (induction es arbitrary: prev sq e) (auto split: option.splits)

lemma verify_entries_Ok: "verify_entries E es = ChainOk n \<longleftrightarrow> n = length es \<and> linked E es"
  by (cases es) (auto simp: verify_entries_def verify_loop_linked simp del: verify_loop.simps(2))

lemma linked_append:
  "linked E (xs @ ys) \<longleftrightarrow> linked E xs \<and> linked E ys \<and>
     (xs \<noteq> [] \<longrightarrow> ys \<noteq> [] \<longrightarrow> e_prev (hd ys) = e_hash (last xs) \<and> e_seq (hd ys) = e_seq (last xs) + 1)"
proof (induction E xs rule: linked.induct)
  case (2 E e)
  then show ?case by (cases ys) auto
qed auto

lemma linked_drop: "linked E es \<Longrightarrow> linked E (drop k es)"
  using linked_append [of E "take k es" "drop k es"] by simp

lemma linked_seq: "linked E es \<Longrightarrow> i < length es \<Longrightarrow> e_seq (es ! i) = e_seq (hd es) + int i"
proof (induction E es arbitrary: i rule: linked.induct)
  case (3 E e f es)
  then show ?case by (cases i) auto
qed auto

lemma linked_seq_inject:
  assumes "linked E es" and "e \<in> set es" and "f \<in> set es" and "e_seq e = e_seq f"
  shows "e = f"
  using assms linked_seq [OF assms(1)] by (metis add_left_cancel in_set_conv_nth of_nat_eq_iff)

lemma linked_hash: "linked E es \<Longrightarrow> e \<in> set es \<Longrightarrow> entry_hash_of E e = e_hash e"
  by (induction E es rule: linked.induct) auto

lemma linked_successor:
  assumes "linked E es" and "e \<in> set es" and "f \<in> set es" and "e_seq e < e_seq f"
  obtains g where "g \<in> set es" and "e_seq g = e_seq e + 1" and "e_prev g = e_hash e"
proof -
  obtain xs ys where es: "es = xs @ e # ys" using assms(2) by (meson split_list)
  have "ys \<noteq> []"
  proof
    assume "ys = []"
    then have "e_seq f \<le> e_seq e"
      using assms(1,3) linked_seq [OF assms(1)] es by (auto simp: in_set_conv_nth nth_append split: if_splits)
        (metis add_left_mono length_append_singleton linked_seq nth_append_length nth_append of_nat_le_iff less_Suc_eq less_imp_le)
    then show False using assms(4) by simp
  qed
  then obtain g zs where "ys = g # zs" by (cases ys) auto
  then show thesis
    using that [of g] assms(1) es linked_append [of E xs "e # g # zs"] by auto
qed

lemma find_linked:
  "linked E es \<Longrightarrow> find (\<lambda>e. e_seq e = s) es = Some e \<longleftrightarrow> e \<in> set es \<and> e_seq e = s"
proof (cases "find (\<lambda>e. e_seq e = s) es")
  case None
  then show "linked E es \<Longrightarrow> ?thesis" using find_None_iff [of "\<lambda>e. e_seq e = s" es] by auto
next
  case (Some f)
  then have "f \<in> set es" "e_seq f = s" by (auto simp: find_Some_iff)
  then show "linked E es \<Longrightarrow> ?thesis" using Some linked_seq_inject [of E es e f] by auto
qed

text \<open>Retention deletes a prefix and rewrites nothing.\<close>

lemma prune_linked:
  assumes lk: "linked E (table L)" and keep: "0 < keep" "keep \<le> length (table L)"
  shows "table (prune_oldest keep L) = drop (length (table L) - keep) (table L)"
proof -
  let ?es = "table L" and ?k = "length (table L) - keep"
  have nth: "rev ?es ! (keep - 1) = ?es ! ?k"
    using keep by (simp add: rev_nth Suc_diff_le [symmetric] flip: Suc_diff_diff)
  have split: "?es = take ?k ?es @ drop ?k ?es" by simp
  have "e_seq e < e_seq (?es ! ?k)" if "e \<in> set (take ?k ?es)" for e
    using that lk keep by (auto simp: in_set_conv_nth linked_seq)
  moreover have "\<not> e_seq e < e_seq (?es ! ?k)" if "e \<in> set (drop ?k ?es)" for e
    using that lk keep by (auto simp: in_set_conv_nth linked_seq)
  ultimately have "filter (\<lambda>e. \<not> e_seq e < e_seq (?es ! ?k)) (take ?k ?es @ drop ?k ?es) = drop ?k ?es"
    by (simp add: filter_empty_conv del: append_take_drop_id)
  then show ?thesis using keep nth by (simp add: prune_oldest_def Let_def)
qed

lemma append_raw_linked:
  assumes lk: "linked E (table L)" and cap: "0 < max_entries L"
    and run: "append_raw E ts ag tn tg dec out L = (L', e)"
  shows "table L' = drop (Suc (length (table L)) - max_entries L) (table L @ [e])"
    and "linked E (table L @ [e])" and "max_entries L' = max_entries L"
    and "(e_ts e, e_agent e, e_tool e, e_target e, e_decision e, e_outcome e) = (ts, ag, tn, tg, dec, out)"
proof -
  show fields: "(e_ts e, e_agent e, e_tool e, e_target e, e_decision e, e_outcome e) = (ts, ag, tn, tg, dec, out)"
    using run by (auto simp: append_raw_def Let_def split: option.splits prod.splits)
  show lk': "linked E (table L @ [e])"
    using run lk by (auto simp: append_raw_def Let_def audit_head_def linked_append entry_hash_of_def split: if_splits)
  let ?L = "L\<lparr> table := table L @ [e] \<rparr>"
  have L': "L' = (if max_entries L < Suc (length (table L)) then prune_oldest (max_entries L) ?L else ?L)"
    using run by (auto simp: append_raw_def Let_def split: option.splits prod.splits)
  show "table L' = drop (Suc (length (table L)) - max_entries L) (table L @ [e])"
    using L' prune_linked [of E ?L "max_entries L"] lk' cap by simp
  show "max_entries L' = max_entries L"
    using L' by (simp add: prune_oldest_def Let_def)
qed

text \<open>
  C18. Recording extends a verified chain and retention never breaks it: after a record the chain
  still verifies, it is the old rows unchanged with the new one at the end, less the oldest rows
  over the cap.
\<close>

theorem record_extends_verified_chain:
  assumes "verify_chain E L = ChainOk n" and "0 < max_entries L"
    and "audit_record E ts ag tn target dec out L = (L', e)"
  shows "verify_chain E L' = ChainOk (min (Suc n) (max_entries L))
    \<and> table L' = drop (Suc n - max_entries L) (table L @ [e])
    \<and> e_target e = redact target \<and> e_decision e = decision_str dec \<and> e_outcome e = outcome_str out"
proof -
  have lk: "linked E (table L)" "n = length (table L)"
    using assms(1) by (auto simp: verify_chain_def verify_entries_Ok)
  note ar = append_raw_linked [OF lk(1) assms(2) assms(3) [unfolded audit_record_def]]
  have "linked E (table L')" using ar(1,2) linked_drop by metis
  then show ?thesis
    using ar lk(2) assms(2) by (auto simp: verify_chain_def verify_entries_Ok min_def)
qed

definition demo_log :: audit_log where
  "demo_log = with_max_entries 1 (audit_open [])"

theorem record_extends_verified_chain_witness:
  "verify_chain demo_externals (fst (audit_record demo_externals ''t'' ''a'' ''x_post'' ''#ops'' Never Parked demo_log)) = ChainOk 1"
proof -
  obtain L' e where r: "audit_record demo_externals ''t'' ''a'' ''x_post'' ''#ops'' Never Parked demo_log = (L', e)"
    by (metis surj_pair)
  have "verify_chain demo_externals demo_log = ChainOk 0" "0 < max_entries demo_log" "max_entries demo_log = 1"
    by (simp_all add: demo_log_def verify_chain_def verify_entries_def with_max_entries_def audit_open_def)
  then show ?thesis
    using record_extends_verified_chain [OF _ _ r, of 0] r by simp
qed

section \<open>The text of the anchor\<close>

definition plain :: "string \<Rightarrow> bool" where
  "plain h \<longleftrightarrow> h \<noteq> [] \<and> list_all (\<lambda>c. is_ascii c \<and> \<not> ascii_ws c) h"

lemma plain_trim: "plain h \<Longrightarrow> trim h = h"
proof -
  assume h: "plain h"
  then have "trim h = trim_list ascii_ws h"
    by (intro trim_ascii) (auto simp: plain_def ascii_string_def list_all_iff)
  also have "\<dots> = h"
    using h by (intro trim_list_id) (auto simp: plain_def list_all_iff)
  finally show ?thesis .
qed

lemma plain_append: "plain a \<Longrightarrow> plain b \<Longrightarrow> plain (a @ b)"
  by (simp add: plain_def)

lemma digit_plain:
  assumes "(d :: nat) < 10"
  shows "plain [char_of (48 + d)] \<and> CHR '':'' \<noteq> char_of (48 + d)"
proof -
  have "code (char_of (48 + d)) = 48 + d" using assms by (simp add: take_bit_eq_mod)
  moreover have "code (CHR '':'') = 58" "\<And>c. ascii_ws c \<Longrightarrow> code c < 48"
    by (auto simp: ascii_ws_def)
  ultimately have "CHR '':'' \<noteq> char_of (48 + d)" "\<not> ascii_ws (char_of (48 + d))"
    using assms by (fastforce, metis not_add_less1)
  then show ?thesis
    using assms \<open>code (char_of (48 + d)) = 48 + d\<close> by (simp add: plain_def is_ascii_def)
qed

lemma nat_digits_plain: "plain (nat_digits n) \<and> CHR '':'' \<notin> set (nat_digits n)"
proof (induction n rule: nat_digits.induct)
  case (1 n)
  have d: "plain [char_of (48 + n mod 10)]" "CHR '':'' \<noteq> char_of (48 + n mod 10)"
    using digit_plain [of "n mod 10"] by auto
  show ?case
  proof (cases "n < 10")
    case True
    then show ?thesis using digit_plain [of n] by (simp add: nat_digits.simps)
  next
    case False
    then show ?thesis
      using 1 d plain_append by (simp add: nat_digits.simps [of n] False)
  qed
qed

lemma int_string_plain: "plain (int_string i)" "CHR '':'' \<notin> set (int_string i)"
  using nat_digits_plain plain_append [of "''-''"]
  by (auto simp: int_string_def) (auto simp: plain_def ascii_ws_def)

lemma anchor_text_plain: "plain h \<Longrightarrow> plain (anchor_text (n, h))"
  using int_string_plain(1) [of n] by (auto simp: anchor_text_def plain_def ascii_ws_def)

lemma anchor_text_parses:
  assumes "i64_in_range n" and "plain h"
  shows "parse_anchor (anchor_text (n, h)) = Some (n, h)"
proof -
  have "split_once '':'' (int_string n @ CHR '':'' # h) = Some (int_string n, h)"
    using int_string_plain(2) by (rule split_once_char)
  then show ?thesis
    using assms plain_trim [OF anchor_text_plain [OF assms(2)], of n] plain_trim [OF int_string_plain(1)]
      plain_trim [OF assms(2)]
    by (simp add: parse_anchor_def anchor_text_def parse_i64_int_string plain_def)
qed

text \<open>
  The anchor text round-trips: what \<open>anchor_to\<close> writes is parsed back as the same sequence number
  and hash.
\<close>

theorem anchor_text_roundtrip:
  assumes "i64_in_range n" and "plain h"
  shows "parse_anchor (anchor_text (n, h)) = Some (n, h)"
  using assms by (rule anchor_text_parses)

theorem anchor_text_roundtrip_witness: "parse_anchor ''-7:ab'' = Some (-7, ''ab'')"
proof -
  have "parse_anchor (anchor_text (-7, ''ab'')) = Some (-7, ''ab'')"
    by (rule anchor_text_roundtrip) (simp_all add: i64_in_range_def plain_def ascii_ws_def)
  then show ?thesis by (simp add: anchor_text_def int_string_def nat_digits.simps char_of_def bit_0)
qed

section \<open>Growth and the anchor\<close>

type_synonym decision_point = "string \<times> string \<times> string \<times> string \<times> decision \<times> outcome"

fun record_all :: "externals \<Rightarrow> decision_point list \<Rightarrow> audit_log \<Rightarrow> audit_log" where
  "record_all E [] L = L"
| "record_all E ((ts, ag, tn, tg, dec, out) # rs) L = record_all E rs (fst (audit_record E ts ag tn tg dec out L))"

lemma record_all_grows:
  assumes "linked E (table L)" and "0 < max_entries L"
  shows "\<exists>news k. table (record_all E rs L) = drop k (table L @ news) \<and> linked E (table L @ news)
    \<and> length news = length rs \<and> k \<le> length (table L @ news) - 1
    \<and> (rs = [] \<longrightarrow> k = 0) \<and> max_entries (record_all E rs L) = max_entries L"
  using assms
proof (induction rs arbitrary: L)
  case Nil
  then show ?case by (intro exI [of _ "[]"] exI [of _ 0]) simp
next
  case (Cons r rs)
  obtain ts ag tn tg dec out where r: "r = (ts, ag, tn, tg, dec, out)" by (cases r)
  obtain L1 e where run: "audit_record E ts ag tn tg dec out L = (L1, e)" by (metis surj_pair)
  let ?k1 = "Suc (length (table L)) - max_entries L"
  note ar = append_raw_linked [OF Cons.prems run [unfolded audit_record_def]]
  have lk1: "linked E (table L1)" "0 < max_entries L1"
    using ar Cons.prems(2) linked_drop by metis+
  obtain news k where IH: "table (record_all E rs L1) = drop k (table L1 @ news)"
    "linked E (table L1 @ news)" "length news = length rs" "k \<le> length (table L1 @ news) - 1"
    "max_entries (record_all E rs L1) = max_entries L1"
    using Cons.IH [OF lk1] by blast
  have ne: "table L1 \<noteq> []" using ar(1) Cons.prems(2) by simp
  have whole: "linked E ((table L @ [e]) @ news)"
  proof -
    have "last (table L1) = last (table L @ [e])" using ar(1) ne by (simp add: last_drop del: drop_append)
    then show ?thesis
      using IH(2) ne ar(2) linked_append [of E "table L1" news] linked_append [of E "table L @ [e]" news] by simp
  qed
  have k1: "?k1 \<le> length (table L)" using Cons.prems(2) by simp
  have "drop k (table L1 @ news) = drop (?k1 + k) ((table L @ [e]) @ news)"
    using ar(1) k1 by (simp add: add.commute flip: drop_drop)
  then have "table (record_all E (r # rs) L) = drop (?k1 + k) (table L @ (e # news))"
    using r run IH(1) by simp
  moreover have "?k1 + k \<le> length (table L @ e # news) - 1"
    using IH(4) ar(1) k1 by simp
  ultimately show ?case
    using whole IH(3,5) ar(3) r run by (intro exI [of _ "e # news"] exI [of _ "?k1 + k"]) simp
qed

text \<open>The interface of an external anchor store, and what the log promises over any such store.\<close>

locale anchor_store =
  fixes rd :: "'a \<Rightarrow> string option" and wr :: "string \<Rightarrow> 'a \<Rightarrow> 'a option"
  assumes rd_wr: "plain v \<Longrightarrow> wr v A = Some A' \<Longrightarrow> rd A' = Some v"
begin

lemma growth_never_mismatches:
  assumes lk: "linked E (table L)" and cap: "0 < max_entries L"
    and head: "audit_head L = Some (n, h)" "i64_in_range n" "plain h"
    and written: "anchor_to wr L A = Some (A', Some (n, h))"
  shows "verify_against_anchor rd (record_all E rs L) A' =
    (if rs = [] then Match n h
     else Extended n h (the (audit_head (record_all E rs L)))) \<and>
    (rs \<noteq> [] \<longrightarrow> fst (the (audit_head (record_all E rs L))) = n + int (length rs))"
proof -
  have "rd A' = Some (anchor_text (n, h))"
    using rd_wr [OF anchor_text_plain [OF head(3)]] written head(1) by (auto simp: anchor_to_def)
  then have v: "verify_against_anchor rd L' A' = compare_anchor (Some (anchor_text (n, h))) L'" for L'
    by (simp add: verify_against_anchor_def)
  have parse: "parse_anchor (anchor_text (n, h)) = Some (n, h)"
    using anchor_text_parses head by blast
  let ?w = "last (table L)"
  have w: "table L \<noteq> []" "e_seq ?w = n" "e_hash ?w = h"
    using head(1) by (auto simp: audit_head_def split: if_splits)
  obtain news k where g: "table (record_all E rs L) = drop k (table L @ news)"
    "linked E (table L @ news)" "length news = length rs" "k \<le> length (table L @ news) - 1"
    "rs = [] \<longrightarrow> k = 0"
    using record_all_grows [OF lk cap, of rs] by blast
  let ?T = "table (record_all E rs L)"
  show ?thesis
  proof (cases "rs = []")
    case True
    then show ?thesis using v parse w by (simp add: compare_anchor_def audit_head_def)
  next
    case False
    then have news: "news \<noteq> []" using g(3) by auto
    have "k < length (table L @ news)" using g(4) w(1) by (cases "table L") auto
    then have T: "?T \<noteq> []" "last ?T = last news"
      using g(1) news by (simp_all add: last_drop del: drop_append length_append)
    have idx: "last news = (table L @ news) ! (length (table L) + length news - 1)"
      using news last_conv_nth [of "table L @ news"] by simp
    have "length (table L) - 1 < length (table L)" using w(1) by (cases "table L") auto
    then have "e_seq ?w = e_seq (hd (table L @ news)) + int (length (table L) - 1)"
      using linked_seq [OF lk, of "length (table L) - 1"] w(1) by (simp add: last_conv_nth)
    moreover have "e_seq (last news) = e_seq (hd (table L @ news)) + int (length (table L) + length news - 1)"
      using linked_seq [OF g(2), of "length (table L) + length news - 1"] news w(1) idx by simp
    ultimately have seq: "e_seq (last news) = n + int (length rs)"
      using w g(3) news by (cases "table L") auto
    have "h' = h" if "hash_at_seq n (record_all E rs L) = Some h'" for h'
    proof -
      have lkT: "linked E ?T" using g(1,2) linked_drop by metis
      note at = that
      obtain f where f: "f \<in> set ?T" "e_seq f = n" "e_hash f = h'"
        using at by (auto simp: hash_at_seq_def find_linked [OF lkT])
      then have "f \<in> set (table L @ news)" using g(1) in_set_dropD by metis
      then show ?thesis using linked_seq_inject [OF g(2), of f ?w] f w by simp
    qed
    then show ?thesis
      using v parse T seq False g(3)
      by (auto simp: compare_anchor_def audit_head_def split: option.splits)
  qed
qed

end

interpretation keychain: anchor_store keychain_read keychain_write
proof
  fix v K K' assume "plain v" "keychain_write v K = Some K'"
  then show "keychain_read K' = Some v"
    by (auto simp: keychain_read_def keychain_write_def plain_trim split: if_splits) (simp add: plain_def)
qed

text \<open>What the hexadecimal printer is known for: non-empty output without white space or colons.\<close>

definition hex_plain :: "externals \<Rightarrow> bool" where
  "hex_plain E \<longleftrightarrow> (\<forall>s. plain (hex E s))"

text \<open>
  Ordinary operation never raises the tamper alarm: once the head of a verified log is witnessed
  in the Keychain, any number of later records, however many old rows retention deletes, leaves the
  check at a match or an extension by exactly that many records.
\<close>

theorem growth_never_alarms:
  assumes verified: "verify_chain E L = ChainOk m" and cap: "0 < max_entries L"
    and head: "audit_head L = Some (n, h)" "i64_in_range n" and hexp: "hex_plain E"
    and witnessed: "anchor_to keychain_write L K = Some (K', Some (n, h))"
  shows "verify_against_anchor keychain_read (record_all E rs L) K' =
    (if rs = [] then Match n h
     else Extended n h (n + int (length rs), snd (the (audit_head (record_all E rs L)))))"
proof -
  have lk: "linked E (table L)" using verified by (simp add: verify_chain_def verify_entries_Ok)
  have "h = entry_hash_of E (last (table L))"
    using head(1) linked_hash [OF lk] by (auto simp: audit_head_def split: if_splits)
  then have "plain h" using hexp by (simp add: hex_plain_def entry_hash_of_def hash_entry_def)
  then show ?thesis
    using keychain.growth_never_mismatches [OF lk cap head(1,2) _ witnessed, of rs]
    by (auto simp: prod_eq_iff)
qed

definition hex_externals :: externals where
  "hex_externals = demo_externals\<lparr> hex := (\<lambda>s. CHR ''h'' # filter (\<lambda>c. is_ascii c \<and> \<not> ascii_ws c) s) \<rparr>"

lemma hex_externals_plain: "hex_plain hex_externals"
  by (simp add: hex_plain_def hex_externals_def plain_def ascii_ws_def list_all_iff)

lemma empty_log_verified: "verify_chain E (audit_open []) = ChainOk 0"
  by (simp add: verify_chain_def verify_entries_def audit_open_def)

theorem growth_never_alarms_witness:
  "\<exists>L K h. audit_head L = Some (1, h) \<and>
     verify_against_anchor keychain_read (record_all hex_externals [(''t'', ''a'', ''x'', ''y'', Ask, Parked)] L) K =
     Extended 1 h (2, snd (the (audit_head (record_all hex_externals [(''t'', ''a'', ''x'', ''y'', Ask, Parked)] L))))"
proof -
  let ?rs = "[(''t'', ''a'', ''x'', ''y'', Ask, Parked)]"
  let ?K = "\<lparr> kc_value = None, kc_writable = True \<rparr>"
  obtain L e where r: "audit_record hex_externals ''t'' ''a'' ''x_post'' ''#ops'' Never Parked (audit_open []) = (L, e)"
    by (metis surj_pair)
  have ok: "verify_chain hex_externals L = ChainOk 1" "max_entries L = MAX_ENTRIES" "table L = [e]" "e_seq e = 1"
    using r by (auto simp: audit_record_def append_raw_def audit_open_def audit_head_def MAX_ENTRIES_def
        verify_chain_def verify_entries_def entry_hash_of_def Let_def)
  then have head: "audit_head L = Some (1, e_hash e)" by (simp add: audit_head_def)
  then obtain K' where "anchor_to keychain_write L ?K = Some (K', Some (1, e_hash e))"
    by (simp add: anchor_to_def keychain_write_def)
  then have "verify_against_anchor keychain_read (record_all hex_externals ?rs L) K' =
      (if ?rs = [] then Match 1 (e_hash e)
       else Extended 1 (e_hash e) (1 + int (length ?rs), snd (the (audit_head (record_all hex_externals ?rs L)))))"
    using growth_never_alarms [OF ok(1) _ head _ hex_externals_plain, of ?K K' ?rs] ok(2)
    by (simp add: MAX_ENTRIES_def i64_in_range_def)
  then have "verify_against_anchor keychain_read (record_all hex_externals ?rs L) K' =
      Extended 1 (e_hash e) (2, snd (the (audit_head (record_all hex_externals ?rs L))))"
    by (simp del: record_all.simps)
  with head show ?thesis by blast
qed

section \<open>What a witnessed hash pins\<close>

definition entry_bytes :: "audit_entry \<Rightarrow> string" where
  "entry_bytes e = entry_preimage (e_prev e) (e_seq e) (e_ts e) (e_agent e) (e_tool e) (e_target e)
     (e_decision e) (e_outcome e)"

definition nul_free_entry :: "audit_entry \<Rightarrow> bool" where
  "nul_free_entry e \<longleftrightarrow> i64_in_range (e_seq e) \<and>
     NUL \<notin> set (e_prev e) \<union> set (e_ts e) \<union> set (e_agent e) \<union> set (e_tool e) \<union> set (e_target e) \<union> set (e_decision e)"

lemma base_digits_inject:
  fixes x y :: int
  assumes "\<forall>k < n. x div 256 ^ k mod 256 = y div 256 ^ k mod 256"
  shows "x mod 256 ^ n = y mod 256 ^ n"
  using assms
proof (induction n)
  case (Suc n)
  have "z mod 256 ^ Suc n = 256 ^ n * (z div 256 ^ n mod 256) + z mod 256 ^ n" for z :: int
    by (simp add: mod_mult2_eq' mult.commute [of 256] zmod_zmult2_eq)
  then show ?case using Suc by simp
qed simp

lemma le_bytes_inject:
  assumes "le_bytes i = le_bytes j" and "i64_in_range i" and "i64_in_range j"
  shows "i = j"
proof -
  let ?x = "i mod 2 ^ 64" and ?y = "j mod 2 ^ 64"
  have "\<forall>k < 8. char_of (nat (?x div 256 ^ k mod 256)) = (char_of (nat (?y div 256 ^ k mod 256)) :: char)"
    using assms(1) by (simp add: le_bytes_def list_eq_iff_nth_eq)
  moreover have "code (char_of (nat (z mod 256))) = nat (z mod 256)" for z :: int
    by (simp add: take_bit_eq_mod nat_mod_distrib)
  ultimately have "\<forall>k < 8. nat (?x div 256 ^ k mod 256) = nat (?y div 256 ^ k mod 256)"
    by metis
  then have "\<forall>k < 8. ?x div 256 ^ k mod 256 = ?y div 256 ^ k mod 256"
    by (metis nat_eq_iff2 pos_mod_sign zero_less_numeral nat_0_le eq_nat_nat_iff)
  then have "?x mod 256 ^ 8 = ?y mod 256 ^ 8" by (rule base_digits_inject)
  then have "?x = ?y" by simp
  then have "2 ^ 64 dvd i - j" by (simp add: mod_eq_dvd_iff)
  moreover have "\<bar>i - j\<bar> < 2 ^ 64" using assms(2,3) by (auto simp: i64_in_range_def abs_if)
  ultimately show ?thesis using zdvd_not_zless [of "\<bar>i - j\<bar>" "2 ^ 64"] by auto
qed

lemma entry_bytes_inject:
  assumes "entry_bytes e = entry_bytes f" and "nul_free_entry e" and "nul_free_entry f"
    and "e_hash e = e_hash f"
  shows "e = f"
proof -
  have len: "length (le_bytes i) = 8" for i by (simp add: le_bytes_def)
  have nul: "NUL \<notin> set (e_prev g)" "NUL \<notin> set (e_ts g)" "NUL \<notin> set (e_agent g)" "NUL \<notin> set (e_tool g)"
    "NUL \<notin> set (e_target g)" "NUL \<notin> set (e_decision g)" if "g \<in> {e, f}" for g
    using assms(2,3) that by (auto simp: nul_free_entry_def)
  have eq: "e_prev e @ NUL # (le_bytes (e_seq e) @ NUL # (e_ts e @ NUL # (e_agent e @ NUL # (e_tool e @ NUL #
      (e_target e @ NUL # (e_decision e @ NUL # e_outcome e)))))) =
    e_prev f @ NUL # (le_bytes (e_seq f) @ NUL # (e_ts f @ NUL # (e_agent f @ NUL # (e_tool f @ NUL #
      (e_target f @ NUL # (e_decision f @ NUL # e_outcome f))))))"
    using assms(1) by (simp add: entry_bytes_def entry_preimage_def)
  note s1 = append_sep_inject [OF eq nul(1) nul(1), simplified]
  then have le: "le_bytes (e_seq e) = le_bytes (e_seq f)" and eq2: "e_ts e @ NUL # (e_agent e @ NUL # (e_tool e @ NUL #
      (e_target e @ NUL # (e_decision e @ NUL # e_outcome e)))) = e_ts f @ NUL # (e_agent f @ NUL # (e_tool f @ NUL #
      (e_target f @ NUL # (e_decision f @ NUL # e_outcome f))))"
    using len by (simp_all add: append_eq_append_conv)
  have "e_seq e = e_seq f" using le_bytes_inject [OF le] assms(2,3) by (auto simp: nul_free_entry_def)
  note s2 = append_sep_inject [OF eq2 nul(2) nul(2), simplified]
  note s3 = append_sep_inject [OF conjunct2 [OF s2] nul(3) nul(3), simplified]
  note s4 = append_sep_inject [OF conjunct2 [OF s3] nul(4) nul(4), simplified]
  note s5 = append_sep_inject [OF conjunct2 [OF s4] nul(5) nul(5), simplified]
  note s6 = append_sep_inject [OF conjunct2 [OF s5] nul(6) nul(6), simplified]
  show ?thesis
    using s1 s2 s3 s4 s5 s6 \<open>e_seq e = e_seq f\<close> assms(4) by (simp add: audit_entry.equality)
qed

text \<open>Two rows with different contents and one hash.\<close>

definition rows_collide :: "externals \<Rightarrow> audit_entry \<Rightarrow> audit_entry \<Rightarrow> bool" where
  "rows_collide E e f \<longleftrightarrow> entry_bytes e \<noteq> entry_bytes f \<and> entry_hash_of E e = entry_hash_of E f"

text \<open>The hashed bytes begin with the hash of the row before.\<close>

lemma entry_bytes_prev:
  "entry_bytes e = entry_bytes f \<Longrightarrow> NUL \<notin> set (e_prev e) \<Longrightarrow> NUL \<notin> set (e_prev f) \<Longrightarrow> e_prev e = e_prev f"
  using append_sep_inject [of "e_prev e" NUL _ "e_prev f"] by (auto simp: entry_bytes_def entry_preimage_def)

text \<open>
  C19. Pinning the head pins the whole chain. If two logs both verify and hold the same hash at some
  sequence number, then up to that number every row they both hold has the same hash and was hashed
  from the same bytes, and is the same row, field by field, when neither copy has a NUL byte in a
  field (a NUL can pass for the separator, see below) and the number is a 64-bit one; unless two rows of theirs with different
  hashed bytes have the same hash. A hash is written in hexadecimal, without NUL.
\<close>

theorem witness_pins_prefix:
  assumes "verify_chain E L = ChainOk m" and "verify_chain E L' = ChainOk m'" and "\<forall>d. NUL \<notin> set (hex E d)"
    and "hash_at_seq a L = Some h" and "hash_at_seq a L' = Some h"
    and "e \<in> set (table L)" and "e_seq e \<le> a" and "e' \<in> set (table L')" and "e_seq e' = e_seq e"
  shows "entry_bytes e = entry_bytes e' \<and> e_hash e = e_hash e' \<and> (nul_free_entry e \<and> nul_free_entry e' \<longrightarrow> e = e')
    \<or> (\<exists>f \<in> set (table L). \<exists>f' \<in> set (table L'). rows_collide E f f')"
proof (cases "\<exists>f \<in> set (table L). \<exists>f' \<in> set (table L'). rows_collide E f f'")
  case False
  have lk: "linked E (table L)" "linked E (table L')"
    using assms(1,2) by (auto simp: verify_chain_def verify_entries_Ok)
  obtain w w' where w: "w \<in> set (table L)" "e_seq w = a" "e_hash w = h"
    and w': "w' \<in> set (table L')" "e_seq w' = a" "e_hash w' = h"
    using assms(4,5) by (auto simp: hash_at_seq_def find_linked [OF lk(1)] find_linked [OF lk(2)])
  have same: "entry_bytes f = entry_bytes f'" if "f \<in> set (table L)" "f' \<in> set (table L')" "e_hash f = e_hash f'" for f f'
  proof -
    have "entry_hash_of E f = entry_hash_of E f'"
      using that linked_hash [OF lk(1)] linked_hash [OF lk(2)] by metis
    then show ?thesis using False that by (auto simp: rows_collide_def)
  qed
  have no_nul: "NUL \<notin> set (e_hash f)" if "f \<in> set (table L) \<or> f \<in> set (table L')" for f
    using that linked_hash [OF lk(1), of f] linked_hash [OF lk(2), of f] assms(3)
    unfolding entry_hash_of_def hash_entry_def by metis
  have "e_hash f = e_hash f'" if "f \<in> set (table L)" "f' \<in> set (table L')" "e_seq f' = e_seq f" "e_seq f = a - int d" for d f f'
    using that
  proof (induction d arbitrary: f f')
    case 0
    then have "f = w" "f' = w'"
      using linked_seq_inject [OF lk(1)] linked_seq_inject [OF lk(2)] w w' by auto
    then show ?case using w w' by simp
  next
    case (Suc d)
    obtain g where g: "g \<in> set (table L)" "e_seq g = e_seq f + 1" "e_prev g = e_hash f"
      using linked_successor [OF lk(1) Suc.prems(1) w(1)] Suc.prems w by auto
    obtain g' where g': "g' \<in> set (table L')" "e_seq g' = e_seq f' + 1" "e_prev g' = e_hash f'"
      using linked_successor [OF lk(2) Suc.prems(2) w'(1)] Suc.prems w' by auto
    have "e_hash g = e_hash g'" using Suc.IH g g' Suc.prems by simp
    then have "entry_bytes g = entry_bytes g'" using same g(1) g'(1) by blast
    then have "e_prev g = e_prev g'" using no_nul Suc.prems(1,2) g(3) g'(3) entry_bytes_prev by metis
    then show ?case using g(3) g'(3) by simp
  qed
  from this [OF assms(6,8,9), of "nat (a - e_seq e)"] have h: "e_hash e = e_hash e'" using assms(7) by simp
  then show ?thesis using same [OF assms(6,8)] entry_bytes_inject [of e e'] by blast
qed blast

section \<open>Edits that escape\<close>

text \<open>A log an attacker writes from nothing: any contents, numbered from any point, hashes recomputed.\<close>

fun forge :: "externals \<Rightarrow> int \<Rightarrow> string \<Rightarrow> decision_point list \<Rightarrow> audit_entry list" where
  "forge E sq prev [] = []"
| "forge E sq prev ((ts, ag, tn, tg, dec, out) # rs) =
     (let h = hash_entry E prev sq ts ag tn tg (decision_str dec) (outcome_str out) in
      \<lparr> e_seq = sq, e_ts = ts, e_agent = ag, e_tool = tn, e_target = tg, e_decision = decision_str dec,
        e_outcome = outcome_str out, e_prev = prev, e_hash = h \<rparr> # forge E (sq + 1) h rs)"

definition shown_fields :: "audit_entry \<Rightarrow> string \<times> string \<times> string \<times> string \<times> string \<times> string" where
  "shown_fields e = (e_ts e, e_agent e, e_tool e, e_target e, e_decision e, e_outcome e)"

lemma forge_linked: "linked E (forge E sq prev rs)"
proof (induction rs arbitrary: sq prev)
  case (Cons r rs)
  obtain ts ag tn tg dec out where r: "r = (ts, ag, tn, tg, dec, out)" by (cases r)
  show ?case
  proof (cases rs)
    case (Cons s ss)
    obtain ts' ag' tn' tg' dec' out' where "s = (ts', ag', tn', tg', dec', out')" by (cases s)
    then show ?thesis using Cons.IH [of "sq + 1"] r Cons by (simp add: Let_def entry_hash_of_def)
  qed (simp add: r Let_def entry_hash_of_def)
qed simp

lemma forge_seq: "e \<in> set (forge E sq prev rs) \<Longrightarrow> sq \<le> e_seq e"
  by (induction E sq prev rs rule: forge.induct) (auto simp: Let_def)

lemma forge_fields:
  "map shown_fields (forge E sq prev rs) =
     map (\<lambda>(ts, ag, tn, tg, dec, out). (ts, ag, tn, tg, decision_str dec, outcome_str out)) rs"
  by (induction E sq prev rs rule: forge.induct) (simp_all add: Let_def shown_fields_def)

text \<open>For the evaluated example: hashes as pairs of letters, one for each half of a byte.\<close>

definition byte_letters :: "char \<Rightarrow> string" where
  "byte_letters c = [char_of (97 + code c div 16), char_of (97 + code c mod 16)]"

definition letter_externals :: externals where
  "letter_externals = demo_externals\<lparr> hex := \<lambda>s. concat (map byte_letters s) \<rparr>"

lemma byte_letters_inject: "byte_letters c @ s = byte_letters d @ t \<Longrightarrow> c = d \<and> s = t"
proof -
  assume e: "byte_letters c @ s = byte_letters d @ t"
  have b: "code c < 256" "code d < 256" by simp_all
  have "97 + code c div 16 = 97 + code d div 16" "97 + code c mod 16 = 97 + code d mod 16"
    using e b by (simp_all add: byte_letters_def char_of_eq_iff take_bit_eq_mod)
  then have "code c = code d" by (metis add_left_imp_eq div_mult_mod_eq)
  then show ?thesis using e by (simp add: byte_letters_def)
qed

lemma letters_inject: "concat (map byte_letters s) = concat (map byte_letters t) \<Longrightarrow> s = t"
proof (induction s arbitrary: t)
  case Nil
  then show ?case by (cases t) (simp_all add: byte_letters_def)
next
  case (Cons c s)
  then show ?case using byte_letters_inject by (cases t) (auto simp: byte_letters_def)
qed

lemma letters_no_NUL: "NUL \<notin> set (concat (map byte_letters s))"
proof -
  have "NUL \<noteq> char_of (97 + k)" if "k < 16" for k :: nat
  proof
    assume "NUL = char_of (97 + k)"
    then have "code NUL = code (char_of (97 + k))" by (rule arg_cong)
    also have "\<dots> = (97 + k) mod 256" by (simp add: take_bit_eq_mod)
    finally have "code NUL = (97 + k) mod 256" .
    then show False using that by (simp add: NUL_def)
  qed
  moreover have "code c div 16 < 16" "code c mod 16 < 16" for c by (simp_all add: less_mult_imp_div_less)
  ultimately show ?thesis by (auto simp: byte_letters_def)
qed

lemma letters_collide_not: "\<not> rows_collide letter_externals e f"
  using letters_inject by (auto simp: rows_collide_def entry_hash_of_def hash_entry_def entry_bytes_def letter_externals_def
      demo_externals_def)

definition demo_points :: "decision_point list" where
  "demo_points = [(''t'', ''a'', ''x_post'', ''ops'', Ask, Parked), (''u'', ''a'', ''x_post'', ''ops'', Ask, Confirmed),
     (''u'', ''a'', ''x_post'', ''ops'', Ask, Executed)]"

definition letter_log :: "nat \<Rightarrow> audit_log" where
  "letter_log n = audit_open (forge letter_externals 1 GENESIS_PREV (take n demo_points))"

lemma letter_log_ok: "\<exists>m. verify_chain letter_externals (letter_log n) = ChainOk m"
  using forge_linked by (auto simp: verify_chain_def verify_entries_Ok letter_log_def audit_open_def)

lemma witness_pins_prefix_witness:
  "hash_at_seq 2 (letter_log 2) \<noteq> None \<and> hash_at_seq 2 (letter_log 3) = hash_at_seq 2 (letter_log 2)
   \<and> length (table (letter_log 2)) = 2 \<and> length (table (letter_log 3)) = 3
   \<and> hd (table (letter_log 3)) = hd (table (letter_log 2))"
proof -
  obtain m m' where ok: "verify_chain letter_externals (letter_log 2) = ChainOk m" "verify_chain letter_externals (letter_log 3) = ChainOk m'"
    using letter_log_ok by metis
  have pin: "hash_at_seq 2 (letter_log 2) \<noteq> None" "hash_at_seq 2 (letter_log 3) = hash_at_seq 2 (letter_log 2)"
    by (simp_all add: letter_log_def demo_points_def audit_open_def hash_at_seq_def Let_def)
  then obtain h where h: "hash_at_seq 2 (letter_log 2) = Some h" "hash_at_seq 2 (letter_log 3) = Some h" by auto
  let ?e = "hd (table (letter_log 2))" and ?f = "hd (table (letter_log 3))"
  have len: "length (table (letter_log 2)) = 2" "length (table (letter_log 3)) = 3"
    by (simp_all add: letter_log_def demo_points_def audit_open_def Let_def)
  have rows: "?e \<in> set (table (letter_log 2))" "e_seq ?e \<le> 2" "?f \<in> set (table (letter_log 3))" "e_seq ?f = e_seq ?e"
    by (simp_all add: letter_log_def demo_points_def audit_open_def Let_def)
  have "nul_free_entry ?e" "nul_free_entry ?f"
    by (simp_all add: letter_log_def demo_points_def audit_open_def Let_def nul_free_entry_def i64_in_range_def NUL_def
        GENESIS_PREV_def decision_str_def)
  moreover have "\<forall>d. NUL \<notin> set (hex letter_externals d)" using letters_no_NUL by (simp add: letter_externals_def)
  from witness_pins_prefix [OF ok this h rows]
  have "nul_free_entry ?e \<and> nul_free_entry ?f \<longrightarrow> ?e = ?f" using letters_collide_not by blast
  ultimately show ?thesis using pin len by simp
qed

text \<open>
  C24. A rewrite of the whole log escapes both checks when it is renumbered: for any made-up history
  there is a table that shows exactly that history, that the chain check accepts, and that the
  check against the Keychain witness reports as an ordinary extension with \<open>ok: true\<close>, because a
  missing witnessed row below the head is read as retention. (The comments promise that the anchor
  catches the offline rewrite of the whole chain.)
\<close>

theorem renumbered_rewrite_escapes:
  assumes "rs \<noteq> []" and "parse_anchor raw = Some (a, h)"
  shows "\<exists>L. map shown_fields (table L) =
       map (\<lambda>(ts, ag, tn, tg, dec, out). (ts, ag, tn, tg, decision_str dec, outcome_str out)) rs
     \<and> verify_chain E L = ChainOk (length rs)
     \<and> (\<exists>live. compare_anchor (Some raw) L = Extended a h live)
     \<and> jget (anchor_status_json (compare_anchor (Some raw) L)) ''ok'' = Some (JBool True)"
proof -
  let ?L = "audit_open (forge E (a + 1) GENESIS_PREV rs)"
  have T: "table ?L = forge E (a + 1) GENESIS_PREV rs" by (simp add: audit_open_def)
  have ne: "table ?L \<noteq> []" using assms(1) T by (cases rs) (auto simp: Let_def)
  have later: "\<forall>e \<in> set (table ?L). a < e_seq e" using forge_seq [of _ E "a + 1"] T by fastforce
  have "length (table ?L) = length rs"
    using arg_cong [OF forge_fields [of E "a + 1" GENESIS_PREV rs], of length] T by simp
  then have "verify_chain E ?L = ChainOk (length rs)"
    using forge_linked T by (simp add: verify_chain_def verify_entries_Ok)
  moreover have "hash_at_seq a ?L = None"
    using later find_None_iff [of "\<lambda>e. e_seq e = a" "table ?L"] by (auto simp: hash_at_seq_def)
  then have "\<exists>live. compare_anchor (Some raw) ?L = Extended a h live"
    using bspec [OF later last_in_set [OF ne]] ne assms(2) by (auto simp: compare_anchor_def audit_head_def)
  ultimately show ?thesis
    using forge_fields T by (intro exI [of _ ?L]) (auto simp: anchor_status_json_def jget_def)
qed

theorem renumbered_rewrite_escapes_witness:
  "\<exists>L live. compare_anchor (Some ''7:ab'') L = Extended 7 ''ab'' live \<and> verify_chain demo_externals L = ChainOk 1"
proof -
  have "plain ''ab''" by (simp add: plain_def ascii_ws_def)
  then have "parse_anchor (anchor_text (7, ''ab'')) = Some (7, ''ab'')"
    by (intro anchor_text_parses) (simp_all add: i64_in_range_def)
  moreover have "anchor_text (7, ''ab'') = ''7:ab''"
    by (simp add: anchor_text_def int_string_def nat_digits.simps char_of_def bit_0)
  ultimately have "parse_anchor ''7:ab'' = Some (7, ''ab'')" by simp
  then show ?thesis
    using renumbered_rewrite_escapes [of "[(''t'', ''a'', ''x'', ''y'', Ask, Confirmed)]" "''7:ab''" 7 "''ab''" demo_externals]
    by auto
qed

text \<open>
  The hashed bytes are not injective when a field holds the delimiter, and redaction lets it
  through: the row recorded for a target of one NUL byte can be edited so that the byte moves into
  the tool name, and the row's hash is still right. (The comment on \<open>hash_entry\<close> says redaction
  guarantees that no NUL is left.)
\<close>

theorem nul_target_hides_edit:
  "let (L', e) = audit_record E ts ag tn [NUL] dec out L;
       forged = e\<lparr> e_tool := tn @ [NUL], e_target := [] \<rparr>
   in forged \<noteq> e \<and> e_target e = [NUL] \<and> entry_hash_of E forged = entry_hash_of E e
     \<and> entry_hash_of E forged = e_hash forged"
proof -
  obtain L' e where r: "audit_record E ts ag tn [NUL] dec out L = (L', e)" by (metis surj_pair)
  have "redact [NUL] = [NUL]" using redact_keeps_NUL by (simp add: NUL_def)
  then have e: "e_target e = [NUL]" "e_tool e = tn" "entry_hash_of E e = e_hash e"
    using r by (auto simp: audit_record_def append_raw_def entry_hash_of_def Let_def split: option.splits prod.splits)
  have "e_target (e\<lparr> e_tool := tn @ [NUL], e_target := [] \<rparr>) \<noteq> e_target e" using e(1) by simp
  then have "e\<lparr> e_tool := tn @ [NUL], e_target := [] \<rparr> \<noteq> e" by metis
  then show ?thesis
    using r e by (simp add: entry_hash_of_def hash_entry_def entry_preimage_def)
qed

section \<open>The panel\<close>

lemma wire_projection:
  "map_of (foldl (\<lambda>out k. case jget v k of Some x \<Rightarrow> bt_insert k x out | None \<Rightarrow> out) m ks) k =
     (if k \<in> set ks \<and> jget v k \<noteq> None then jget v k else map_of m k)"
  by (induction ks arbitrary: m) (auto simp: map_of_bt_insert split: option.splits)

text \<open>
  What the snapshot carries of an anchor verdict: the allow-listed keys with the verdict's own
  values, and nothing else. In particular no head hash goes out.
\<close>

theorem anchor_wire_allow_list:
  "jget (anchor_for_snapshot v) k = (if k \<in> set ANCHOR_WIRE_KEYS then jget v k else None)
   \<and> jget (anchor_for_snapshot v) ''head'' = None \<and> jget (anchor_for_snapshot v) ''live_head'' = None
   \<and> jget (anchor_for_snapshot v) ''anchored_head'' = None"
proof -
  have "jget (anchor_for_snapshot v) k = (if k \<in> set ANCHOR_WIRE_KEYS then jget v k else None)" for k
    using wire_projection [of v "[]" ANCHOR_WIRE_KEYS k]
    by (simp add: anchor_for_snapshot_def jget_def [of "JObj _"])
  moreover have "''head'' \<notin> set ANCHOR_WIRE_KEYS" "''live_head'' \<notin> set ANCHOR_WIRE_KEYS"
    "''anchored_head'' \<notin> set ANCHOR_WIRE_KEYS"
    by (simp_all add: ANCHOR_WIRE_KEYS_def)
  ultimately show ?thesis by simp
qed

end
