(* ===== verification/LockdownStop.thy ===== *)
theory LockdownStop
  imports ConfirmGate AuditChain "HOL-Library.Sublist"
begin

text \<open>
  The emergency stop of \<open>daemon/src/lockdown.rs\<close>: the process flag, the marker file that carries it
  across a restart, the two operations with everything they touch, and the classifiers of the
  spoken triggers.
\<close>

definition MARKER_FILE :: string where
  "MARKER_FILE = ''lockdown''"

definition PANIC_CONFIRMATION :: string where
  "PANIC_CONFIRMATION = ''Lockdown engaged. I'' @ CHR 0x27 # ''ve stopped all future outward actions, all autonomy, and the microphone immediately, and this persists across a restart until you unlock. I can'' @
     CHR 0x27 # ''t undo anything already done '' @ dash @ '' a sent message stays sent. Use the panic control in Settings to resume '' @ dash @
     '' I'' @ CHR 0x27 # ''ve stopped listening, so I won'' @ CHR 0x27 # ''t hear you say it.''"

definition NOTHING_TO_UNLOCK :: string where
  "NOTHING_TO_UNLOCK = ''There'' @ CHR 0x27 # ''s no lockdown engaged, sir '' @ dash @
     '' nothing to lift. Your settings are as you left them.''"

definition UNLOCK_CONFIRMATION :: string where
  "UNLOCK_CONFIRMATION = ''Lockdown lifted. Your configured settings are restored '' @ dash @
     '' nothing was changed underneath them.''"

definition status_payload :: "bool \<Rightarrow> bool \<Rightarrow> json" where
  "status_payload locked restored = JObj [(''locked'', JBool locked), (''restored_from_marker'', JBool restored)]"

text \<open>The process globals the stop reads and writes, and the disk.\<close>

record stop_state =
  locked :: bool
  marker_path :: "string option"
  stop_disk :: disk
  stop_confirm :: confirm_state
  track_playing :: bool
  status_frames :: "json list"
  stop_audit :: "(bool \<times> audit_log) option"

definition path_join :: "string \<Rightarrow> string \<Rightarrow> string" where
  "path_join dir f = (if dir = [] \<or> ends_with ''/'' dir then dir @ f else dir @ ''/'' @ f)"

definition marker_in :: "string \<Rightarrow> string" where
  "marker_in state_dir = path_join state_dir MARKER_FILE"

definition is_locked_down :: "stop_state \<Rightarrow> bool" where
  "is_locked_down s = locked s"

definition set_flag :: "bool \<Rightarrow> stop_state \<Rightarrow> stop_state" where
  "set_flag v s = s\<lparr> locked := v \<rparr>"

definition lockdown_init :: "string \<Rightarrow> stop_state \<Rightarrow> stop_state \<times> bool" where
  "lockdown_init state_dir s =
     (let path = marker_in state_dir;
          present = file_exists (stop_disk s) path;
          s1 = s\<lparr> marker_path := (case marker_path s of None \<Rightarrow> Some path | Some p \<Rightarrow> Some p) \<rparr>
      in (if present then set_flag True s1 else s1, present))"

definition MARKER_NOTE :: string where
  "MARKER_NOTE = ''locked down by panic; remove only via explicit unlock'' @ [CHR 0x0A]"

definition write_marker :: "stop_state \<Rightarrow> stop_state" where
  "write_marker s =
     (case marker_path s of
        None \<Rightarrow> s
      | Some path \<Rightarrow> s\<lparr> stop_disk := write_file path MARKER_NOTE (stop_disk s) \<rparr>)"

definition remove_marker :: "stop_state \<Rightarrow> stop_state" where
  "remove_marker s =
     (case marker_path s of
        None \<Rightarrow> s
      | Some path \<Rightarrow> s\<lparr> stop_disk := remove_file path (stop_disk s) \<rparr>)"

definition stop_record :: "externals \<Rightarrow> string \<Rightarrow> string \<Rightarrow> string \<Rightarrow> decision \<Rightarrow> outcome \<Rightarrow> stop_state \<Rightarrow> stop_state" where
  "stop_record E ts action target dec out s =
     s\<lparr> stop_audit := record_global E ts ''system'' action target dec out (stop_audit s) \<rparr>"

definition lockdown_panic :: "externals \<Rightarrow> string \<Rightarrow> stop_state \<Rightarrow> stop_state \<times> string" where
  "lockdown_panic E ts s =
     (let s1 = set_flag True s;
          s2 = s1\<lparr> stop_confirm := confirm_clear (stop_confirm s1) \<rparr>;
          s3 = s2\<lparr> track_playing := False \<rparr>;
          s4 = write_marker s3;
          s5 = s4\<lparr> status_frames := status_frames s4 @ [status_payload True False] \<rparr>;
          s6 = stop_record E ts ''lockdown.panic''
                 ''all outward actions, autonomy, the mic, and any new capture'' Never BlockedByPolicy s5
      in (s6, PANIC_CONFIRMATION))"

definition lockdown_unlock :: "externals \<Rightarrow> string \<Rightarrow> stop_state \<Rightarrow> stop_state \<times> string" where
  "lockdown_unlock E ts s =
     (if \<not> is_locked_down s then (s, NOTHING_TO_UNLOCK)
      else let s1 = remove_marker (set_flag False s);
               s2 = s1\<lparr> status_frames := status_frames s1 @ [status_payload False False] \<rparr>;
               s3 = stop_record E ts ''lockdown.unlock''
                      ''user lifted lockdown; configured settings restored'' Always Confirmed s2
           in (s3, UNLOCK_CONFIRMATION))"

section \<open>The stop across restarts\<close>

text \<open>A new process starts unlocked with no marker path; the disk and the audit database stay.\<close>

definition boot_state :: "disk \<Rightarrow> (bool \<times> audit_log) option \<Rightarrow> stop_state" where
  "boot_state d a = \<lparr> locked = False, marker_path = None, stop_disk = d, stop_confirm = confirm_init,
     track_playing = False, status_frames = [], stop_audit = a \<rparr>"

definition restart :: "string \<Rightarrow> stop_state \<Rightarrow> stop_state" where
  "restart dir s = fst (lockdown_init dir (boot_state (stop_disk s) (stop_audit s)))"

datatype stop_event = Panic string | Unlock string | Restart | Armed "confirm_state" | TrackStarted

fun stop_step :: "externals \<Rightarrow> string \<Rightarrow> stop_event \<Rightarrow> stop_state \<Rightarrow> stop_state" where
  "stop_step E dir (Panic ts) s = fst (lockdown_panic E ts s)"
| "stop_step E dir (Unlock ts) s = fst (lockdown_unlock E ts s)"
| "stop_step E dir Restart s = restart dir s"
| "stop_step E dir (Armed c) s = s\<lparr> stop_confirm := c \<rparr>"
| "stop_step E dir TrackStarted s = s\<lparr> track_playing := True \<rparr>"

definition stop_run :: "externals \<Rightarrow> string \<Rightarrow> stop_event list \<Rightarrow> stop_state \<Rightarrow> stop_state" where
  "stop_run E dir evs s = foldl (\<lambda>s e. stop_step E dir e s) s evs"

text \<open>The specification: locked from a panic until an unlock, whatever happens in between.\<close>

definition panic_stands :: "stop_event list \<Rightarrow> bool" where
  "panic_stands evs = foldl (\<lambda>b e. case e of Panic _ \<Rightarrow> True | Unlock _ \<Rightarrow> False | _ \<Rightarrow> b) False evs"

lemmas stop_defs = lockdown_panic_def lockdown_unlock_def lockdown_init_def restart_def boot_state_def
  set_flag_def is_locked_down_def write_marker_def remove_marker_def stop_record_def Let_def

definition marker_follows :: "string \<Rightarrow> disk \<Rightarrow> stop_state \<Rightarrow> bool" where
  "marker_follows dir d s \<longleftrightarrow> marker_path s = Some (marker_in dir)
     \<and> (locked s \<longleftrightarrow> file_exists (stop_disk s) (marker_in dir))
     \<and> write_effect (stop_disk s) = write_effect d \<and> removable (stop_disk s) = removable d"

lemma marker_follows_step:
  assumes "write_effect d (marker_in dir) MARKER_NOTE \<noteq> None" and "removable d (marker_in dir)"
    and "marker_follows dir d s"
  shows "marker_follows dir d (stop_step E dir e s)"
  using assms by (cases e) (auto simp: marker_follows_def stop_defs)

lemma stop_run_locked:
  assumes "write_effect d (marker_in dir) MARKER_NOTE \<noteq> None" and "removable d (marker_in dir)"
    and "marker_follows dir d s"
  shows "locked (stop_run E dir evs s) =
      foldl (\<lambda>b e. case e of Panic _ \<Rightarrow> True | Unlock _ \<Rightarrow> False | _ \<Rightarrow> b) (locked s) evs
    \<and> marker_follows dir d (stop_run E dir evs s)"
  using assms(3)
proof (induction evs arbitrary: s)
  case (Cons e evs)
  have "locked (stop_step E dir e s) = (case e of Panic _ \<Rightarrow> True | Unlock _ \<Rightarrow> False | _ \<Rightarrow> locked s)"
    using Cons.prems by (cases e) (auto simp: marker_follows_def stop_defs)
  with Cons.IH [OF marker_follows_step [OF assms(1,2) Cons.prems, of E e]] show ?case
    by (simp add: stop_run_def)
qed (simp add: stop_run_def)

text \<open>
  C20. The stop holds across any history: started on a disk without a marker, with a disk that keeps
  what it is told, the daemon is locked exactly when the last of the panics and unlocks was a
  panic, however often it was restarted or re-armed in between.
\<close>

theorem lockdown_until_unlock:
  assumes disk: "write_effect d (marker_in dir) MARKER_NOTE \<noteq> None" "removable d (marker_in dir)"
    and fresh: "\<not> file_exists d (marker_in dir)"
  shows "is_locked_down (stop_run E dir (Restart # evs) (boot_state d a)) = panic_stands evs"
proof -
  let ?s = "restart dir (boot_state d a)"
  have s: "marker_follows dir d ?s" "\<not> locked ?s"
    using fresh by (auto simp: marker_follows_def stop_defs)
  then show ?thesis
    using stop_run_locked [OF disk s(1), of E evs]
    by (simp add: is_locked_down_def panic_stands_def stop_run_def)
qed

theorem lockdown_until_unlock_witness:
  "is_locked_down (stop_run demo_externals ''state'' [Restart, Unlock ''t0'', Panic ''t1'', Restart, Restart] (boot_state demo_disk None))
   \<and> \<not> is_locked_down (stop_run demo_externals ''state'' [Restart, Panic ''t1'', Restart, Unlock ''t2'', Restart] (boot_state demo_disk None))"
proof -
  have d: "write_effect demo_disk (marker_in ''state'') MARKER_NOTE \<noteq> None" "removable demo_disk (marker_in ''state'')"
    "\<not> file_exists demo_disk (marker_in ''state'')"
    by (simp_all add: demo_disk_def file_exists_def)
  show ?thesis
    using lockdown_until_unlock [OF d, of demo_externals "[Unlock ''t0'', Panic ''t1'', Restart, Restart]" None]
      lockdown_until_unlock [OF d, of demo_externals "[Panic ''t1'', Restart, Unlock ''t2'', Restart]" None]
    by (simp add: panic_stands_def)
qed

text \<open>What a panic does at once, in whatever state it finds the daemon and whatever the disk does.\<close>

lemma panic_state:
  "let s' = fst (lockdown_panic E ts s) in
   is_locked_down s' \<and> stop_confirm s' = confirm_init \<and> \<not> track_playing s'
   \<and> last (status_frames s') = status_payload True False"
  by (simp add: stop_defs confirm_clear_def confirm_init_def split: option.split)

section \<open>Spoken triggers\<close>

definition PANIC_PHRASES :: "string list" where
  "PANIC_PHRASES = [''panic'', ''lockdown'', ''lock down'', ''stop everything'', ''kill switch'',
     ''shut it all down'', ''shut everything down'', ''emergency stop'', ''lock everything down'',
     ''lock it all down'']"

definition UNLOCK_PHRASES :: "string list" where
  "UNLOCK_PHRASES = [''unlock'', ''resume normal'', ''end lockdown'', ''lift lockdown'',
     ''lift the lockdown'', ''resume normal operation'', ''exit lockdown'']"

fun norm_loop :: "(rchar \<Rightarrow> bool) \<Rightarrow> bool \<Rightarrow> rchar list \<Rightarrow> string" where
  "norm_loop ua last_space [] = []"
| "norm_loop ua last_space (c # cs) =
     (if is_alphanumeric ua c then to_ascii_lowercase c @ norm_loop ua False cs
      else if \<not> last_space then '' '' @ norm_loop ua True cs
      else norm_loop ua last_space cs)"

definition lock_normalize :: "(rchar \<Rightarrow> bool) \<Rightarrow> string \<Rightarrow> string" where
  "lock_normalize ua utterance =
     (let out = norm_loop ua True (chars utterance) in if ends_with '' '' out then butlast out else out)"

definition lock_contains_phrase :: "string \<Rightarrow> string \<Rightarrow> bool" where
  "lock_contains_phrase haystack needle =
     (let hay = split_spaces haystack; need = split_spaces needle in
      if need = [] \<or> length hay < length need then False
      else need \<in> set (windows (length need) hay))"

definition NEGATIONS :: "string list" where
  "NEGATIONS = [''don t '', ''do not '', ''never '']"

definition QUESTIONS :: "string list" where
  "QUESTIONS = [''why '', ''when '', ''who '', ''did you '', ''have you '', ''should i '']"

definition is_negated_or_interrogative :: "string \<Rightarrow> bool" where
  "is_negated_or_interrogative norm = list_ex (\<lambda>p. starts_with p norm) (NEGATIONS @ QUESTIONS)"

definition is_panic_intent :: "(rchar \<Rightarrow> bool) \<Rightarrow> string \<Rightarrow> bool" where
  "is_panic_intent ua utterance =
     (let norm = lock_normalize ua utterance in
      if norm = [] then False
      else if list_ex (lock_contains_phrase norm) UNLOCK_PHRASES then False
      else if is_negated_or_interrogative norm then False
      else list_ex (lock_contains_phrase norm) PANIC_PHRASES)"

definition is_unlock_intent :: "(rchar \<Rightarrow> bool) \<Rightarrow> string \<Rightarrow> bool" where
  "is_unlock_intent ua utterance =
     (let norm = lock_normalize ua utterance in
      if norm = [] then False else list_ex (lock_contains_phrase norm) UNLOCK_PHRASES)"

text \<open>The words of an utterance: its maximal runs of letters and digits, in lower case.\<close>

definition spoken_words :: "(rchar \<Rightarrow> bool) \<Rightarrow> string \<Rightarrow> string list" where
  "spoken_words ua u =
     map (\<lambda>w. to_ascii_lowercase (concat w)) (filter (\<lambda>w. w \<noteq> []) (split_on (\<lambda>c. \<not> is_alphanumeric ua c) (chars u)))"

text \<open>Well-formed UTF-8: a character is one ASCII byte or several bytes that are not ASCII.\<close>

definition wf_char :: "rchar \<Rightarrow> bool" where
  "wf_char c \<longleftrightarrow> c \<noteq> [] \<and> (list_all (\<lambda>b. \<not> is_ascii b) c \<or> length c = 1)"

lemma lower_byte_not_space:
  assumes "\<not> is_ascii b \<or> ascii_alnum b"
  shows "lower_byte b \<noteq> CHR '' ''"
proof (cases "ascii_upper b")
  case True
  then have "code (lower_byte b) = code b + 32"
    by (simp add: lower_byte_def ascii_upper_def take_bit_eq_mod)
  then show ?thesis using True by (auto simp: ascii_upper_def)
next
  case False
  then show ?thesis
    using assms by (auto simp: lower_byte_def is_ascii_def ascii_alnum_def ascii_lower_def ascii_digit_def)
qed

lemma alnum_char_no_space:
  assumes "wf_char c" and "is_alphanumeric ua c" and "x \<in> set (to_ascii_lowercase c)"
  shows "x \<noteq> CHR '' ''"
proof -
  obtain b where b: "b \<in> set c" "x = lower_byte b" using assms(3) by (auto simp: to_ascii_lowercase_def)
  have "\<not> is_ascii b \<or> ascii_alnum b"
  proof (cases "length c = 1")
    case True
    then have "c = [b]" using b(1) by (cases c) auto
    then show ?thesis using assms(2) by (auto simp: is_alphanumeric_def split: if_splits)
  qed (use assms(1) b(1) in \<open>auto simp: wf_char_def list_all_iff\<close>)
  then show ?thesis using lower_byte_not_space b(2) by simp
qed

lemma split_on_prefix:
  "\<forall>x \<in> set w. \<not> P x \<Longrightarrow> split_on P (w @ s) = (w @ hd (split_on P s)) # List.tl (split_on P s)"
proof (induction w)
  case Nil
  then show ?case by (cases "split_on P s") simp_all
qed simp

text \<open>The words of the normalised text, with the word under construction first.\<close>

lemma norm_loop_words:
  assumes "list_all wf_char cs"
  shows "filter (\<lambda>w. w \<noteq> []) (split_on (\<lambda>c. c = CHR '' '') (norm_loop ua True cs)) =
      map (\<lambda>w. to_ascii_lowercase (concat w)) (filter (\<lambda>w. w \<noteq> []) (split_on (\<lambda>c. \<not> is_alphanumeric ua c) cs))
    \<and> (let s = split_on (\<lambda>c. c = CHR '' '') (norm_loop ua False cs);
           f = split_on (\<lambda>c. \<not> is_alphanumeric ua c) cs in
       hd s = to_ascii_lowercase (concat (hd f)) \<and>
       filter (\<lambda>w. w \<noteq> []) (List.tl s) = map (\<lambda>w. to_ascii_lowercase (concat w)) (filter (\<lambda>w. w \<noteq> []) (List.tl f)))"
  using assms
proof (induction cs)
  case Nil
  then show ?case by (simp add: to_ascii_lowercase_def)
next
  case (Cons c cs)
  let ?S = "split_on (\<lambda>c. c = CHR '' '')" and ?F = "split_on (\<lambda>c. \<not> is_alphanumeric ua c)"
  obtain f fs where f: "?F cs = f # fs" by (cases "?F cs") auto
  obtain s ss where s: "?S (norm_loop ua False cs) = s # ss" by (cases "?S (norm_loop ua False cs)") auto
  have IH: "filter (\<lambda>w. w \<noteq> []) (?S (norm_loop ua True cs)) =
      map (\<lambda>w. to_ascii_lowercase (concat w)) (filter (\<lambda>w. w \<noteq> []) (f # fs))"
    "s = to_ascii_lowercase (concat f)"
    "filter (\<lambda>w. w \<noteq> []) ss = map (\<lambda>w. to_ascii_lowercase (concat w)) (filter (\<lambda>w. w \<noteq> []) fs)"
    using Cons f s by (simp_all add: Let_def)
  show ?case
  proof (cases "is_alphanumeric ua c")
    case True
    have w: "\<forall>x \<in> set (to_ascii_lowercase c). \<not> x = CHR '' ''"
      using alnum_char_no_space Cons.prems True by auto
    have ne: "to_ascii_lowercase c \<noteq> []" using Cons.prems by (auto simp: wf_char_def to_ascii_lowercase_def)
    have "?S (to_ascii_lowercase c @ norm_loop ua False cs) = (to_ascii_lowercase c @ s) # ss"
      using split_on_prefix [where P = "\<lambda>c. c = CHR '' ''", OF w] s by simp
    then show ?thesis
      using True IH f ne by (simp add: Let_def) (simp add: to_ascii_lowercase_def)
  next
    case False
    then show ?thesis using IH f by (auto simp: Let_def to_ascii_lowercase_def)
  qed
qed

lemma split_spaces_normalize:
  assumes "list_all wf_char (chars u)"
  shows "split_spaces (lock_normalize ua u) = spoken_words ua u"
proof -
  have trail: "split_on (\<lambda>c. c = CHR '' '') (s @ '' '') = split_on (\<lambda>c. c = CHR '' '') s @ [[]]" for s
    by (induction s) (auto split: list.splits)
  let ?out = "norm_loop ua True (chars u)"
  have "split_spaces (lock_normalize ua u) = filter (\<lambda>w. w \<noteq> []) (split_on (\<lambda>c. c = CHR '' '') ?out)"
  proof (cases "ends_with '' '' ?out")
    case True
    then obtain s where "?out = s @ '' ''" by (auto simp: ends_with_iff)
    then show ?thesis using trail [of s] by (simp add: split_spaces_def lock_normalize_def ends_with_iff)
  qed (simp add: split_spaces_def lock_normalize_def)
  then show ?thesis using norm_loop_words [OF assms] by (simp add: spoken_words_def)
qed

lemma lock_phrase_words:
  "split_spaces p \<noteq> [] \<Longrightarrow> lock_contains_phrase h p \<longleftrightarrow> sublist (split_spaces p) (split_spaces h)"
  by (auto simp: lock_contains_phrase_def Let_def in_windows sublist_def)

text \<open>The two trigger tables, as word lists.\<close>

definition panic_table :: "string list list" where
  "panic_table = [[''panic''], [''lockdown''], [''lock'', ''down''], [''stop'', ''everything''],
     [''kill'', ''switch''], [''shut'', ''it'', ''all'', ''down''], [''shut'', ''everything'', ''down''],
     [''emergency'', ''stop''], [''lock'', ''everything'', ''down''], [''lock'', ''it'', ''all'', ''down'']]"

definition unlock_table :: "string list list" where
  "unlock_table = [[''unlock''], [''resume'', ''normal''], [''end'', ''lockdown''], [''lift'', ''lockdown''],
     [''lift'', ''the'', ''lockdown''], [''resume'', ''normal'', ''operation''], [''exit'', ''lockdown'']]"

lemma trigger_tables: "map split_spaces PANIC_PHRASES = panic_table" "map split_spaces UNLOCK_PHRASES = unlock_table"
  by (simp_all add: PANIC_PHRASES_def UNLOCK_PHRASES_def panic_table_def unlock_table_def split_spaces_def)

lemma list_ex_phrases:
  assumes "map split_spaces ps = tab" and "[] \<notin> set tab"
  shows "list_ex (lock_contains_phrase h) ps \<longleftrightarrow> list_ex (\<lambda>t. sublist t (split_spaces h)) tab"
proof -
  have tab: "tab = map split_spaces ps" using assms(1) by simp
  have "\<forall>p \<in> set ps. split_spaces p \<noteq> []" using assms(2) unfolding tab by (metis image_eqI set_map)
  then show ?thesis unfolding tab by (auto simp: list_ex_iff lock_phrase_words)
qed

text \<open>
  The emergency triggers depend on the spoken words alone, never on case, punctuation or
  spacing: an utterance is an unlock when an unlock phrase stands in its words, and a panic when a
  panic phrase does, no unlock phrase does, and it does not open as a refusal or a question. No
  utterance is both.
\<close>

theorem triggers_by_words:
  assumes "list_all wf_char (chars u)"
  shows "is_unlock_intent ua u = list_ex (\<lambda>t. sublist t (spoken_words ua u)) unlock_table
    \<and> is_panic_intent ua u =
        (list_ex (\<lambda>t. sublist t (spoken_words ua u)) panic_table \<and> \<not> is_unlock_intent ua u
         \<and> \<not> is_negated_or_interrogative (lock_normalize ua u))"
proof -
  let ?n = "lock_normalize ua u"
  have tabs: "list_ex (lock_contains_phrase ?n) UNLOCK_PHRASES = list_ex (\<lambda>t. sublist t (spoken_words ua u)) unlock_table"
    "list_ex (lock_contains_phrase ?n) PANIC_PHRASES = list_ex (\<lambda>t. sublist t (spoken_words ua u)) panic_table"
    using list_ex_phrases [OF trigger_tables(1), of ?n] list_ex_phrases [OF trigger_tables(2), of ?n]
      split_spaces_normalize [OF assms, of ua]
    by (simp_all add: panic_table_def unlock_table_def)
  have "?n = [] \<Longrightarrow> \<not> list_ex (lock_contains_phrase ?n) PANIC_PHRASES \<and> \<not> list_ex (lock_contains_phrase ?n) UNLOCK_PHRASES"
    by (auto simp: list_ex_iff lock_contains_phrase_def split_spaces_def Let_def)
  then show ?thesis
    using tabs by (auto simp: is_unlock_intent_def is_panic_intent_def Let_def)
qed

theorem triggers_by_words_witness:
  "is_panic_intent (\<lambda>_. False) ''LOCK  everything... down!'' \<and> is_unlock_intent (\<lambda>_. False) ''End lockdown''"
proof -
  let ?u = "''LOCK  everything... down!''" and ?v = "''End lockdown''"
  have wf: "list_all wf_char (chars ?u)" "list_all wf_char (chars ?v)"
    by (simp_all add: wf_char_def str_simps)
  have ws: "spoken_words (\<lambda>_. False) ?u = [''lock'', ''everything'', ''down'']"
    "spoken_words (\<lambda>_. False) ?v = [''end'', ''lockdown'']"
    by (simp_all add: spoken_words_def str_simps)
  have neg: "\<not> is_negated_or_interrogative (lock_normalize (\<lambda>_. False) ?u)"
    by (simp add: is_negated_or_interrogative_def NEGATIONS_def QUESTIONS_def lock_normalize_def ends_with_def
        starts_with_def str_simps)
  have no: "\<not> list_ex (\<lambda>t. sublist t [''lock'', ''everything'', ''down'']) unlock_table"
    by (simp add: unlock_table_def sublist_code)
  have yes: "sublist [''lock'', ''everything'', ''down''] [''lock'', ''everything'', ''down'']" "[''end'', ''lockdown''] \<in> set unlock_table"
    by (simp_all add: unlock_table_def)
  show ?thesis
    using triggers_by_words [OF wf(1), of "\<lambda>_. False"] triggers_by_words [OF wf(2), of "\<lambda>_. False"] ws neg no yes
    by (auto simp: panic_table_def unlock_table_def list_ex_iff)
qed

end
