(* ===== verification/VoiceGate.thy ===== *)
theory VoiceGate
  imports RustStr
begin

text \<open>
  The owner gate of \<open>daemon/src/voiceid.rs\<close>: what a turn may do when voice-id is enforcing, the
  enrolment session, and the spoken intents that start or clear a profile. An embedding is a value
  of the type variable \<open>'e\<close> and a threshold one of \<open>'t\<close>: the gate stores and compares neither.
  \<open>str::to_lowercase\<close> of the standard library is the parameter \<open>low\<close>.
\<close>

section \<open>The gate of one turn\<close>

datatype gate_scope = ConsequentialScope | AllScope

definition gate_scope_from_config :: "string \<Rightarrow> gate_scope" where
  "gate_scope_from_config s =
     (if to_ascii_lowercase (trim s) = ''all'' then AllScope else ConsequentialScope)"

record owner_gate =
  enforcing :: bool
  speaker_verified :: bool
  gate_scope_of :: gate_scope

definition OFF_GATE :: owner_gate where
  "OFF_GATE = \<lparr> enforcing = False, speaker_verified = False, gate_scope_of = ConsequentialScope \<rparr>"

definition allow_consequential :: "owner_gate \<Rightarrow> bool" where
  "allow_consequential g \<longleftrightarrow> \<not> enforcing g \<or> speaker_verified g"

definition allow_confirm_replay :: "owner_gate \<Rightarrow> bool" where
  "allow_confirm_replay g \<longleftrightarrow> \<not> enforcing g \<or> speaker_verified g"

definition allow_noncly :: "owner_gate \<Rightarrow> bool" where
  "allow_noncly g =
     (case gate_scope_of g of ConsequentialScope \<Rightarrow> True
      | AllScope \<Rightarrow> \<not> enforcing g \<or> speaker_verified g)"

lemmas gate_rules [gate_simps] = OFF_GATE_def allow_consequential_def allow_confirm_replay_def
  allow_noncly_def

text \<open>The process global \<open>TURN_GATE\<close>, and what a deep reader sees of it.\<close>

type_synonym turn_gate = "owner_gate option"

definition set_turn_gate :: "owner_gate \<Rightarrow> turn_gate \<Rightarrow> turn_gate" where
  "set_turn_gate g _ = Some g"

definition clear_turn_gate :: "turn_gate \<Rightarrow> turn_gate" where
  "clear_turn_gate _ = None"

definition current_turn_gate :: "turn_gate \<Rightarrow> owner_gate" where
  "current_turn_gate t = (case t of None \<Rightarrow> OFF_GATE | Some g \<Rightarrow> g)"

definition unrecognized_refusal :: string where
  "unrecognized_refusal = ''I don'' @ [CHR 0x27] @ ''t recognize your voice, so I won'' @ [CHR 0x27]
     @ ''t run that. Outward actions are limited to the enrolled owner '' @ dash
     @ '' ask the owner to do it, or disable voice-id.''"

section \<open>Enrolment\<close>

record ('e, 't) owner_profile =
  centroids :: "'e list"
  accept_threshold :: 't
  n_samples :: nat

definition new_profile :: "'t \<Rightarrow> ('e, 't) owner_profile" where
  "new_profile t = \<lparr> centroids = [], accept_threshold = t, n_samples = 0 \<rparr>"

definition is_enrolled :: "('e, 't) owner_profile \<Rightarrow> bool" where
  "is_enrolled p \<longleftrightarrow> centroids p \<noteq> []"

definition enroll :: "'e \<Rightarrow> ('e, 't) owner_profile \<Rightarrow> ('e, 't) owner_profile" where
  "enroll e p = p\<lparr> centroids := centroids p @ [e], n_samples := length (centroids p @ [e]) \<rparr>"

definition forget_profile :: "('e, 't) owner_profile \<Rightarrow> ('e, 't) owner_profile" where
  "forget_profile p = p\<lparr> centroids := [], n_samples := 0 \<rparr>"

record ('e, 't) enrollment =
  captured :: "'e list"
  min_samples :: nat
  enroll_threshold :: 't

datatype ('e, 't) enroll_step =
    Progress nat nat
  | EnrollComplete "('e, 't) owner_profile"

definition begin_enrollment :: "nat \<Rightarrow> 't \<Rightarrow> ('e, 't) enrollment" where
  "begin_enrollment n t = \<lparr> captured = [], min_samples = max n 1, enroll_threshold = t \<rparr>"

definition feed :: "'e \<Rightarrow> ('e, 't) enrollment \<Rightarrow> ('e, 't) enrollment \<times> ('e, 't) enroll_step" where
  "feed e s =
     (let s' = s\<lparr> captured := captured s @ [e] \<rparr> in
      (s', if min_samples s \<le> length (captured s')
           then EnrollComplete (foldl (\<lambda>p x. enroll x p) (new_profile (enroll_threshold s)) (captured s'))
           else Progress (length (captured s')) (min_samples s - length (captured s'))))"

fun feed_all :: "'e list \<Rightarrow> ('e, 't) enrollment \<Rightarrow> ('e, 't) enrollment \<times> ('e, 't) enroll_step list" where
  "feed_all [] s = (s, [])"
| "feed_all (e # es) s =
     (let (s1, r) = feed e s; (s2, rs) = feed_all es s1 in (s2, r # rs))"

lemma enroll_fold:
  "foldl (\<lambda>p x. enroll x p) p xs =
     (if xs = [] then p else p\<lparr> centroids := centroids p @ xs, n_samples := length (centroids p @ xs) \<rparr>)"
proof (induction xs arbitrary: p)
  case (Cons x xs)
  show ?case by (simp add: Cons.IH) (simp add: enroll_def)
qed simp

definition profile_of :: "'t \<Rightarrow> 'e list \<Rightarrow> ('e, 't) owner_profile" where
  "profile_of t es = \<lparr> centroids = es, accept_threshold = t, n_samples = length es \<rparr>"

lemma feed_eq:
  "feed e s =
     (s\<lparr> captured := captured s @ [e] \<rparr>,
      if min_samples s \<le> Suc (length (captured s))
      then EnrollComplete (profile_of (enroll_threshold s) (captured s @ [e]))
      else Progress (Suc (length (captured s))) (min_samples s - Suc (length (captured s))))"
  by (simp add: feed_def Let_def enroll_fold profile_of_def new_profile_def)

text \<open>The answer to the utterance that brings the count to \<open>k\<close>.\<close>

definition step_spec :: "nat \<Rightarrow> 't \<Rightarrow> 'e list \<Rightarrow> ('e, 't) enroll_step" where
  "step_spec m t heard =
     (if m \<le> length heard then EnrollComplete (profile_of t heard)
      else Progress (length heard) (m - length heard))"

lemma feed_all_spec:
  "snd (feed_all es s) =
     map (\<lambda>k. step_spec (min_samples s) (enroll_threshold s) (captured s @ take k es)) [1..<Suc (length es)]
   \<and> captured (fst (feed_all es s)) = captured s @ es"
proof (induction es arbitrary: s)
  case (Cons e es)
  let ?s = "s\<lparr> captured := captured s @ [e] \<rparr>"
  have up: "[1..<Suc (length (e # es))] = 1 # map Suc [1..<Suc (length es)]"
    by (simp add: upt_conv_Cons map_Suc_upt del: upt_Suc)
  show ?case
    using Cons.IH [of ?s] unfolding up
    by (auto simp: feed_eq step_spec_def split: prod.splits simp del: upt_Suc)
qed simp

section \<open>The spoken intents\<close>

datatype voice_intent = EnrollVoice | ForgetVoice

definition VOICE_NOUNS :: "string list" where
  "VOICE_NOUNS = [''my voice'', ''my voiceprint'', ''voice profile'', ''voice id'', ''voice-id'']"

definition FORGET_VERBS :: "string list" where
  "FORGET_VERBS = [''forget'', ''delete'', ''remove'', ''clear'', ''unenroll'', ''un-enroll'', ''erase'',
     ''stop recognizing'', ''stop recognising'']"

definition ENROLL_VERBS :: "string list" where
  "ENROLL_VERBS = [''enroll'', ''enrol'', ''learn'', ''remember'', ''register'', ''set up'', ''memorize'',
     ''memorise'']"

definition verb_is_aimed_at_the_voice :: "string \<Rightarrow> string list \<Rightarrow> bool" where
  "verb_is_aimed_at_the_voice lower verbs =
     list_ex (\<lambda>v. list_ex (\<lambda>n. str_contains lower (v @ '' '' @ n)
                             \<or> str_contains lower (v @ '' the '' @ n)
                             \<or> str_contains lower (v @ '' about '' @ n)) VOICE_NOUNS) verbs"

definition classify_intent :: "(string \<Rightarrow> string) \<Rightarrow> string \<Rightarrow> voice_intent option" where
  "classify_intent low utterance =
     (let lower = low utterance in
      if \<not> list_ex (str_contains lower) VOICE_NOUNS then None
      else if verb_is_aimed_at_the_voice lower FORGET_VERBS then Some ForgetVoice
      else if verb_is_aimed_at_the_voice lower ENROLL_VERBS then Some EnrollVoice
      else None)"

lemma str_contains_trans: "str_contains s (a @ b @ c) \<Longrightarrow> str_contains s b"
  by (auto simp: str_contains_iff) (metis append.assoc)

lemma aimed_mentions_noun:
  "verb_is_aimed_at_the_voice l vs \<Longrightarrow> list_ex (str_contains l) VOICE_NOUNS"
proof -
  assume "verb_is_aimed_at_the_voice l vs"
  then obtain v n where n: "n \<in> set VOICE_NOUNS"
    and c: "str_contains l (v @ '' '' @ n) \<or> str_contains l (v @ '' the '' @ n)
             \<or> str_contains l (v @ '' about '' @ n)"
    unfolding verb_is_aimed_at_the_voice_def list_ex_iff by blast
  have "str_contains l n"
    using c str_contains_trans [of l "v @ '' ''" n "[]"] str_contains_trans [of l "v @ '' the ''" n "[]"]
      str_contains_trans [of l "v @ '' about ''" n "[]"] by auto
  with n show ?thesis by (auto simp: list_ex_iff)
qed

lemma classify_intent_cases:
  "classify_intent low u =
     (if verb_is_aimed_at_the_voice (low u) FORGET_VERBS then Some ForgetVoice
      else if verb_is_aimed_at_the_voice (low u) ENROLL_VERBS then Some EnrollVoice else None)"
  using aimed_mentions_noun [of "low u"] by (auto simp: classify_intent_def Let_def)

text \<open>
  The enrolment session answers the first \<open>max n 1 - 1\<close> utterances with the count so far and
  the count missing, and every utterance from there on with a complete profile that holds all
  utterances heard so far, in order, under the configured threshold. In particular an utterance
  fed after completion enters the profile: the snapshot is not the same again.
\<close>
theorem enrolment_answers:
  "snd (feed_all es (begin_enrollment n t)) =
     map (\<lambda>k. if max n 1 \<le> k then EnrollComplete (profile_of t (take k es))
              else Progress k (max n 1 - k)) [1..<Suc (length es)]"
proof -
  have "snd (feed_all es (begin_enrollment n t)) =
     map (\<lambda>k. step_spec (max n 1) t (take k es)) [1..<Suc (length es)]"
    using conjunct1 [OF feed_all_spec [of es "begin_enrollment n t"]] by (simp add: begin_enrollment_def)
  also have "\<dots> = map (\<lambda>k. if max n 1 \<le> k then EnrollComplete (profile_of t (take k es))
              else Progress k (max n 1 - k)) [1..<Suc (length es)]"
    by (rule map_cong) (auto simp: step_spec_def min_def simp del: upt_Suc)
  finally show ?thesis .
qed

text \<open>
  A forget verb directly before a voice noun clears the profile whatever stands around it: the
  destructive intent has no guard against a negation, so \<open>don't forget my voice\<close> is a request to
  forget it.
\<close>
theorem forget_ignores_context:
  assumes "low u = before @ verb @ '' '' @ noun @ after"
    and "verb \<in> set FORGET_VERBS" and "noun \<in> set VOICE_NOUNS"
  shows "classify_intent low u = Some ForgetVoice"
proof -
  have "str_contains (low u) (verb @ '' '' @ noun)"
    unfolding str_contains_iff using assms(1) by (metis append.assoc)
  then have "verb_is_aimed_at_the_voice (low u) FORGET_VERBS"
    unfolding verb_is_aimed_at_the_voice_def list_ex_iff using assms(2,3) by blast
  then show ?thesis by (simp add: classify_intent_cases)
qed

lemma forget_ignores_context_witness:
  "classify_intent to_ascii_lowercase ''please do not forget my voice'' = Some ForgetVoice"
  by (rule forget_ignores_context [where before = "''please do not ''" and verb = "''forget''"
        and noun = "''my voice''" and after = "[]"])
    (simp_all add: str_simps FORGET_VERBS_def VOICE_NOUNS_def code_Char)

end
