(* ===== verification/GuestScope.thy ===== *)
theory GuestScope
  imports VoiceGate
begin

text \<open>
  Focus profiles (\<open>daemon/src/focus.rs\<close>) and the guest scope of \<open>daemon/src/threshold.rs\<close>. Both
  only ever take something away; the locale \<open>restriction\<close> states that contract and the focus
  profiles are its model. The per-turn scope slot is the value \<open>scope option\<close> a turn carries.
\<close>

section \<open>Focus profiles\<close>

datatype signal_category = Critical | Calendar | Mail | Health | Market | News | Routine

definition all_categories :: "signal_category list" where
  "all_categories = [Critical, Calendar, Mail, Health, Market, News, Routine]"

datatype verbosity = Full | Brief | Silent

fun verbosity_rank :: "verbosity \<Rightarrow> nat" where
  "verbosity_rank Full = 0" | "verbosity_rank Brief = 1" | "verbosity_rank Silent = 2"

fun max_items :: "verbosity \<Rightarrow> nat \<Rightarrow> nat" where
  "max_items Full cap = cap" | "max_items Brief cap = 1" | "max_items Silent cap = 0"

text \<open>\<open>BaseBehavior\<close> and \<open>TunedBehavior\<close> have the same three fields; \<open>as_base\<close> copies them.\<close>

record behavior =
  surfacing :: "signal_category list"
  verbosity_of :: verbosity
  suggestions_quieted :: bool

definition base_default :: behavior where
  "base_default = \<lparr> surfacing = all_categories, verbosity_of = Full, suggestions_quieted = False \<rparr>"

definition surfaces :: "behavior \<Rightarrow> signal_category \<Rightarrow> bool" where
  "surfaces b c \<longleftrightarrow> c \<in> set (surfacing b)"

definition no_broader :: "behavior \<Rightarrow> behavior \<Rightarrow> bool" where
  "no_broader t b \<longleftrightarrow> list_all (\<lambda>c. c \<in> set (surfacing b)) (surfacing t)
     \<and> verbosity_rank (verbosity_of b) \<le> verbosity_rank (verbosity_of t)
     \<and> (\<not> suggestions_quieted b \<or> suggestions_quieted t)"

datatype focus_profile = DefaultProfile | Work | Sleep | DeepFocus | Custom string

definition focus_from_config :: "(string \<Rightarrow> string) \<Rightarrow> string \<Rightarrow> focus_profile" where
  "focus_from_config low s =
     (let t = low (trim s) in
      if t = [] \<or> t = ''default'' then DefaultProfile
      else if t = ''work'' then Work
      else if t = ''sleep'' then Sleep
      else if t = ''deep_focus'' \<or> t = ''deepfocus'' \<or> t = ''deep-focus'' then DeepFocus
      else Custom t)"

definition keep_except :: "behavior \<Rightarrow> signal_category list \<Rightarrow> signal_category list" where
  "keep_except b silence = filter (\<lambda>c. c \<notin> set silence) (surfacing b)"

definition step_down :: "behavior \<Rightarrow> verbosity \<Rightarrow> verbosity" where
  "step_down b requested =
     (if verbosity_rank (verbosity_of b) \<le> verbosity_rank requested then requested else verbosity_of b)"

definition quiet :: "behavior \<Rightarrow> bool \<Rightarrow> bool" where
  "quiet b q \<longleftrightarrow> q \<or> suggestions_quieted b"

fun apply_profile :: "focus_profile \<Rightarrow> behavior \<Rightarrow> behavior" where
  "apply_profile DefaultProfile b =
     \<lparr> surfacing = surfacing b, verbosity_of = verbosity_of b, suggestions_quieted = suggestions_quieted b \<rparr>"
| "apply_profile Work b =
     \<lparr> surfacing = keep_except b [News, Routine, Market], verbosity_of = step_down b Full,
       suggestions_quieted = quiet b False \<rparr>"
| "apply_profile Sleep b =
     \<lparr> surfacing = keep_except b [Calendar, Mail, Health, Market, News, Routine],
       verbosity_of = step_down b Brief, suggestions_quieted = quiet b True \<rparr>"
| "apply_profile DeepFocus b =
     \<lparr> surfacing = keep_except b [Calendar, Mail, Health, Market, News, Routine],
       verbosity_of = step_down b Silent, suggestions_quieted = quiet b True \<rparr>"
| "apply_profile (Custom _) b =
     \<lparr> surfacing = keep_except b [News, Routine, Market], verbosity_of = step_down b Brief,
       suggestions_quieted = quiet b True \<rparr>"

lemmas focus_defs = keep_except_def step_down_def quiet_def no_broader_def surfaces_def list_all_iff

text \<open>
  The contract of a restriction: applying one never broadens, and being no broader is reflexive
  and transitive, so any sequence of restrictions stays below the base. A point that every
  restriction keeps survives the sequence.
\<close>

locale restriction =
  fixes apply_one :: "'p \<Rightarrow> 'b \<Rightarrow> 'b"
    and below :: "'b \<Rightarrow> 'b \<Rightarrow> bool"
    and keeps :: "'b \<Rightarrow> bool"
  assumes below_refl: "below b b"
    and below_trans: "below a b \<Longrightarrow> below b c \<Longrightarrow> below a c"
    and apply_below: "below (apply_one p b) b"
    and apply_keeps: "keeps (apply_one p b) \<longleftrightarrow> keeps b"
    and apply_idem: "apply_one p (apply_one p b) = apply_one p b"
begin

definition apply_list :: "'p list \<Rightarrow> 'b \<Rightarrow> 'b" where
  "apply_list ps b = foldl (\<lambda>x p. apply_one p x) b ps"

lemma apply_list_below: "below (apply_list ps b) b"
proof (induction ps arbitrary: b)
  case Nil
  then show ?case by (simp add: apply_list_def below_refl)
next
  case (Cons p ps)
  then show ?case
    using below_trans [OF Cons.IH [of "apply_one p b"] apply_below] by (simp add: apply_list_def)
qed

lemma apply_list_keeps: "keeps (apply_list ps b) \<longleftrightarrow> keeps b"
  by (induction ps arbitrary: b) (simp_all add: apply_list_def apply_keeps)

lemma apply_list_append: "apply_list (ps @ qs) b = apply_list qs (apply_list ps b)"
  by (simp add: apply_list_def)

end

interpretation focus: restriction apply_profile no_broader "\<lambda>b. surfaces b Critical"
proof
  show "no_broader b b" for b
    by (simp add: focus_defs)
  show "no_broader a b \<Longrightarrow> no_broader b c \<Longrightarrow> no_broader a c" for a b c
    by (auto simp: focus_defs)
  show "no_broader (apply_profile p b) b" for p b
    by (cases p) (auto simp: focus_defs)
  show "surfaces (apply_profile p b) Critical \<longleftrightarrow> surfaces b Critical" for p b
    by (cases p) (auto simp: focus_defs)
  show "apply_profile p (apply_profile p b) = apply_profile p b" for p b
    by (cases p) (auto simp: focus_defs comp_def)
qed

text \<open>
  Any sequence of focus profiles, applied one on top of the other, leaves a behaviour no
  broader than the base on every axis and never silences the critical signals.
\<close>
theorem profiles_only_quiet:
  "no_broader (focus.apply_list ps b) b \<and> (surfaces (focus.apply_list ps b) Critical \<longleftrightarrow> surfaces b Critical)"
  using focus.apply_list_below focus.apply_list_keeps by blast

section \<open>The guest scope\<close>

definition TOOLS_WILDCARD :: string where
  "TOOLS_WILDCARD = ''*''"

text \<open>The allowlist rule, the same for \<open>Scope::admits\<close> and \<open>anthropic::agent_may_use\<close>.\<close>

definition admits :: "string list \<Rightarrow> string \<Rightarrow> bool" where
  "admits allowed tool \<longleftrightarrow> list_ex (\<lambda>t. t = TOOLS_WILDCARD \<or> t = tool) allowed"

definition GUEST_READ_ONLY_TOOLS :: "string list" where
  "GUEST_READ_ONLY_TOOLS = [''system_status'', ''skill_list'', ''babel_translate'']"

datatype speaker_state = OwnerVerified | Unrecognized | Unenforced

definition speaker_from_gate :: "owner_gate \<Rightarrow> speaker_state" where
  "speaker_from_gate g =
     (if \<not> enforcing g then Unenforced else if speaker_verified g then OwnerVerified else Unrecognized)"

definition auto_scopes :: "speaker_state \<Rightarrow> bool" where
  "auto_scopes s \<longleftrightarrow> s = Unrecognized"

datatype guest_reason = OwnerReason | UnrecognizedReason | ExplicitReason | DisabledReason

record scope =
  scope_tools :: "string list"
  shared_recall_only :: bool
  scope_profile :: focus_profile

definition owner_scope :: "string list \<Rightarrow> focus_profile \<Rightarrow> scope" where
  "owner_scope tools p = \<lparr> scope_tools = tools, shared_recall_only = False, scope_profile = p \<rparr>"

definition scope_admits :: "scope \<Rightarrow> string \<Rightarrow> bool" where
  "scope_admits s tool = admits (scope_tools s) tool"

definition scope_behavior :: "scope \<Rightarrow> behavior \<Rightarrow> behavior" where
  "scope_behavior s b = apply_profile (scope_profile s) b"

definition scope_no_broader :: "scope \<Rightarrow> scope \<Rightarrow> behavior \<Rightarrow> bool" where
  "scope_no_broader s owner base \<longleftrightarrow>
     list_all (scope_admits owner) (scope_tools s)
     \<and> (\<not> shared_recall_only owner \<or> shared_recall_only s)
     \<and> (let owner_tuned = apply_profile (scope_profile owner) base;
            self_tuned = apply_profile (scope_profile s) owner_tuned in
        no_broader self_tuned owner_tuned)"

definition guest_read_only_tools :: "string list \<Rightarrow> string list" where
  "guest_read_only_tools owner_tools = filter (admits owner_tools) GUEST_READ_ONLY_TOOLS"

definition guest_from :: "scope \<Rightarrow> focus_profile \<Rightarrow> scope" where
  "guest_from owner p = \<lparr> scope_tools = guest_read_only_tools (scope_tools owner),
     shared_recall_only = True, scope_profile = p \<rparr>"

record threshold_view =
  threshold_enabled :: bool
  guest_profile :: focus_profile

record guest_decision =
  guest_active :: bool
  guest_reason_of :: guest_reason
  decided_scope :: scope

definition decide :: "speaker_state \<Rightarrow> bool \<Rightarrow> threshold_view \<Rightarrow> scope \<Rightarrow> guest_decision" where
  "decide speaker guest_flag cfg owner =
     (if \<not> threshold_enabled cfg
      then \<lparr> guest_active = False, guest_reason_of = DisabledReason, decided_scope = owner \<rparr>
      else
        let reason = (if guest_flag then ExplicitReason
                      else if auto_scopes speaker then UnrecognizedReason else OwnerReason) in
        case reason of
          OwnerReason \<Rightarrow> \<lparr> guest_active = False, guest_reason_of = OwnerReason, decided_scope = owner \<rparr>
        | DisabledReason \<Rightarrow> \<lparr> guest_active = False, guest_reason_of = OwnerReason, decided_scope = owner \<rparr>
        | _ \<Rightarrow> \<lparr> guest_active = True, guest_reason_of = reason,
                decided_scope = guest_from owner (guest_profile cfg) \<rparr>)"

text \<open>The task-local slot \<open>TURN_SCOPE\<close>: what the deep readers see.\<close>

definition install_decision :: "guest_decision \<Rightarrow> scope option" where
  "install_decision d = (if guest_active d then Some (decided_scope d) else None)"

definition is_guest_turn :: "scope option \<Rightarrow> bool" where
  "is_guest_turn t \<longleftrightarrow> t \<noteq> None"

definition guest_write_blocked :: "scope option \<Rightarrow> bool" where
  "guest_write_blocked t = is_guest_turn t"

definition deny_cloud :: "scope option \<Rightarrow> bool \<Rightarrow> bool" where
  "deny_cloud t would_go_cloud \<longleftrightarrow> would_go_cloud \<and> \<not> is_guest_turn t"

lemma wildcard_not_guest: "TOOLS_WILDCARD \<notin> set GUEST_READ_ONLY_TOOLS"
  by (simp add: GUEST_READ_ONLY_TOOLS_def TOOLS_WILDCARD_def)

lemma admits_iff: "admits ts t \<longleftrightarrow> TOOLS_WILDCARD \<in> set ts \<or> t \<in> set ts"
  unfolding admits_def list_ex_iff by blast

lemma admits_guest_tools:
  "admits (guest_read_only_tools ts) t \<longleftrightarrow> t \<in> set GUEST_READ_ONLY_TOOLS \<and> admits ts t"
proof -
  have "set (guest_read_only_tools ts) = {x \<in> set GUEST_READ_ONLY_TOOLS. admits ts x}"
    by (auto simp: guest_read_only_tools_def)
  then show ?thesis
    unfolding admits_iff [of "guest_read_only_tools ts"] using wildcard_not_guest by blast
qed

lemma guest_no_broader: "scope_no_broader (guest_from owner p) owner base"
  unfolding scope_no_broader_def guest_from_def Let_def
  using focus.apply_below
  by (simp add: guest_read_only_tools_def scope_admits_def list_all_iff)

lemma decide_active:
  "guest_active (decide sp flag cfg owner) \<longleftrightarrow> threshold_enabled cfg \<and> (flag \<or> sp = Unrecognized)"
  by (simp add: decide_def auto_scopes_def Let_def)

lemma decide_scope:
  "decided_scope (decide sp flag cfg owner) =
     (if guest_active (decide sp flag cfg owner) then guest_from owner (guest_profile cfg) else owner)"
  by (simp add: decide_def auto_scopes_def Let_def)

text \<open>
  The decision of a turn. A guest scope is active exactly when the feature is on and the guest
  toggle is set or an enforcing gate did not verify the speaker; the scope it installs is no broader
  than the owner's for any base behaviour, admits exactly the three non-personal tools the owner
  also has, and withholds the owner's memory. Otherwise the owner's scope is returned unchanged.
\<close>
theorem guest_scope_only_narrows:
  "case decide (speaker_from_gate g) flag cfg owner of d \<Rightarrow>
     (guest_active d \<longleftrightarrow> threshold_enabled cfg \<and> (flag \<or> enforcing g \<and> \<not> speaker_verified g))
   \<and> (if guest_active d
      then scope_no_broader (decided_scope d) owner base \<and> shared_recall_only (decided_scope d)
           \<and> (\<forall>t. scope_admits (decided_scope d) t \<longleftrightarrow>
                 t \<in> {''system_status'', ''skill_list'', ''babel_translate''} \<and> scope_admits owner t)
      else decided_scope d = owner)"
proof -
  have tools: "scope_admits (guest_from owner p) t \<longleftrightarrow>
      t \<in> {''system_status'', ''skill_list'', ''babel_translate''} \<and> scope_admits owner t" for p t
    by (simp add: scope_admits_def guest_from_def admits_guest_tools GUEST_READ_ONLY_TOOLS_def)
  show ?thesis
    using tools guest_no_broader
    by (simp add: decide_scope decide_active speaker_from_gate_def guest_from_def)
qed

section \<open>The spoken toggle\<close>

datatype guest_toggle = GuestOn | GuestOff

definition guest_normalize :: "(string \<Rightarrow> string) \<Rightarrow> string \<Rightarrow> string" where
  "guest_normalize low t =
     join '' '' (split_whitespace (low (trim_end_matches [CHR ''.'', CHR ''!'', CHR 0x3F, CHR '',''] (trim t))))"

definition matches_phrase :: "string \<Rightarrow> string list \<Rightarrow> bool" where
  "matches_phrase norm phrases =
     list_ex (\<lambda>p. norm = p \<or> (case strip_prefix p norm of None \<Rightarrow> False | Some rest \<Rightarrow> starts_with '' '' rest))
       phrases"

definition GUEST_OFF_PHRASES :: "string list" where
  "GUEST_OFF_PHRASES = [''guest mode off'', ''turn off guest mode'', ''disable guest mode'',
     ''exit guest mode'', ''leave guest mode'', ''end guest mode'']"

definition GUEST_ON_PHRASES :: "string list" where
  "GUEST_ON_PHRASES = [''guest mode on'', ''turn on guest mode'', ''enable guest mode'',
     ''enter guest mode'', ''start guest mode'']"

definition classify_guest_toggle :: "(string \<Rightarrow> string) \<Rightarrow> string \<Rightarrow> guest_toggle option" where
  "classify_guest_toggle low t =
     (let norm = guest_normalize low t in
      if norm = [] then None
      else if matches_phrase norm GUEST_OFF_PHRASES then Some GuestOff
      else if matches_phrase norm GUEST_ON_PHRASES then Some GuestOn
      else None)"

end
