(* ===== verification/McpHost.thy ===== *)
theory McpHost
  imports GuestScope JsonValue
begin

text \<open>
  The MCP host of \<open>daemon/src/mcp.rs\<close>: flat tool ids, JSON-RPC replies and their correlation, tool
  discovery, the per-server allowlist and the gated call. The server at the other end of a
  connection is the parameter \<open>reply_of\<close>: what its transport returns for a request, or \<open>Inl\<close> when
  the transport fails or the time limit passes. Errors are the texts of \<open>anyhow::Error\<close>.
\<close>

section \<open>Action modes and tool names\<close>

text \<open>\<open>integrations::ActionMode\<close>.\<close>

datatype action_mode = ModeDryRun | ModeExecute

definition is_sep :: "char \<Rightarrow> bool" where
  "is_sep b \<longleftrightarrow> b = CHR ''_'' \<or> b = CHR ''-''"

fun no_double_sep :: "bool \<Rightarrow> string \<Rightarrow> bool" where
  "no_double_sep prev [] = True"
| "no_double_sep prev (b # bs) =
     ((ascii_lower b \<or> ascii_digit b \<or> is_sep b) \<and> \<not> (is_sep b \<and> prev) \<and> no_double_sep (is_sep b) bs)"

definition is_safe_mcp_server_name :: "string \<Rightarrow> bool" where
  "is_safe_mcp_server_name name =
     (if name = [] then False
      else if is_sep (hd name) \<or> is_sep (last name) then False
      else no_double_sep False name)"

definition mcp_token_account :: "string \<Rightarrow> string option" where
  "mcp_token_account server =
     (if is_safe_mcp_server_name server then Some (''mcp_'' @ server @ ''_token'') else None)"

definition flat_tool_name :: "string \<Rightarrow> string \<Rightarrow> string" where
  "flat_tool_name server tool = ''mcp__'' @ server @ ''__'' @ tool"

definition MAX_WIRE_TOOL_NAME :: nat where
  "MAX_WIRE_TOOL_NAME = 128"

definition is_wire_safe_tool_name :: "string \<Rightarrow> bool" where
  "is_wire_safe_tool_name tool \<longleftrightarrow>
     tool \<noteq> [] \<and> list_all (\<lambda>c. ascii_alnum c \<or> c = CHR ''_'' \<or> c = CHR ''-'') tool"

definition parse_flat_tool_name :: "string \<Rightarrow> (string \<times> string) option" where
  "parse_flat_tool_name flat =
     (case strip_prefix ''mcp__'' flat of None \<Rightarrow> None
      | Some rest \<Rightarrow>
         (case split_once ''__'' rest of None \<Rightarrow> None
          | Some (server, tool) \<Rightarrow> if server = [] \<or> tool = [] then None else Some (server, tool)))"

definition is_mcp_flat_name :: "string \<Rightarrow> bool" where
  "is_mcp_flat_name name = starts_with ''mcp__'' name"

lemma split_once_safe:
  "no_double_sep p a \<Longrightarrow> (a \<noteq> [] \<Longrightarrow> \<not> is_sep (last a)) \<Longrightarrow>
     split_once ''__'' (a @ ''__'' @ b) = Some (a, b)"
proof (induction a arbitrary: p)
  case Nil
  then show ?case by (simp add: starts_with_def)
next
  case (Cons x xs)
  have rec: "split_once ''__'' (xs @ ''__'' @ b) = Some (xs, b)"
    using Cons.IH [of "is_sep x"] Cons.prems by (cases xs) auto
  have "\<not> starts_with ''__'' ((x # xs) @ ''__'' @ b)"
  proof (cases xs)
    case Nil
    then show ?thesis using Cons.prems(2) by (simp add: starts_with_def is_sep_def)
  next
    case (Cons y ys)
    then show ?thesis using Cons.prems(1) by (auto simp: starts_with_def is_sep_def)
  qed
  then show ?case using rec by simp
qed

lemma parse_flat: "is_safe_mcp_server_name s \<Longrightarrow> t \<noteq> [] \<Longrightarrow>
    parse_flat_tool_name (flat_tool_name s t) = Some (s, t)"
  using split_once_safe [of False s t] strip_prefix_append [of "''mcp__''" "s @ ''__'' @ t"]
  unfolding parse_flat_tool_name_def flat_tool_name_def is_safe_mcp_server_name_def
  by (simp split: if_splits)

lemma parse_flat_Some: "parse_flat_tool_name f = Some (s, t) \<Longrightarrow> f = flat_tool_name s t \<and> t \<noteq> []"
  by (auto simp: parse_flat_tool_name_def flat_tool_name_def strip_prefix_Some split: option.splits if_splits
      dest!: split_once_Some)

section \<open>JSON-RPC\<close>

type_synonym 'a mcp_result = "string + 'a"

definition rpc_request :: "int \<Rightarrow> string \<Rightarrow> json \<Rightarrow> json" where
  "rpc_request i meth params =
     JObj [(''id'', JInt i), (''jsonrpc'', JStr ''2.0''), (''method'', JStr meth), (''params'', params)]"

definition rpc_error_phrase :: "int \<Rightarrow> string" where
  "rpc_error_phrase c =
     (if c = -32700 then ''the server could not parse the request''
      else if c = -32600 then ''the server rejected the request as invalid''
      else if c = -32601 then ''the server does not offer that method''
      else if c = -32602 then ''the server rejected the arguments''
      else if c = -32603 then ''the server hit an internal error''
      else ''the server returned an error'')"

definition as_i64 :: "json \<Rightarrow> int option" where
  "as_i64 v = (case v of JInt i \<Rightarrow> if i64_in_range i then Some i else None | _ \<Rightarrow> None)"

definition parse_rpc_result :: "json \<Rightarrow> json mcp_result" where
  "parse_rpc_result resp =
     (if jget_str resp ''jsonrpc'' \<noteq> Some ''2.0'' then Inl ''server reply is not JSON-RPC 2.0''
      else case jget resp ''error'' of
        Some err \<Rightarrow>
          Inl (rpc_error_phrase (case Option.bind (jget err ''code'') as_i64 of None \<Rightarrow> 0 | Some c \<Rightarrow> c))
      | None \<Rightarrow> (case jget resp ''result'' of
           Some r \<Rightarrow> Inr r
         | None \<Rightarrow> Inl ''server reply has neither result nor error''))"

definition rpc_id_number :: "json \<Rightarrow> int option" where
  "rpc_id_number v =
     (case as_i64 v of Some i \<Rightarrow> Some i | None \<Rightarrow> Option.bind (as_str v) parse_i64)"

definition rpc_id_matches :: "json \<Rightarrow> json \<Rightarrow> bool" where
  "rpc_id_matches a b =
     (if a = b then True
      else case (rpc_id_number a, rpc_id_number b) of
             (Some x, Some y) \<Rightarrow> x = y | _ \<Rightarrow> False)"

definition ID_MISMATCH :: string where
  "ID_MISMATCH = ''the MCP server'' @ [CHR 0x27] @ ''s reply does not answer the request that was sent''"

definition check_reply_id :: "json \<Rightarrow> int \<Rightarrow> unit mcp_result" where
  "check_reply_id resp want =
     (case jget resp ''id'' of
        Some i \<Rightarrow> if rpc_id_matches i (JInt want) then Inr () else Inl ID_MISMATCH
      | None \<Rightarrow> Inl ID_MISMATCH)"

text \<open>
  A stdio pipe is the list of lines still unread, each already read by \<open>read_line\<close>: a JSON value or
  the error of a malformed, oversized or truncated line. Lines that do not answer the request are
  discarded up to the limit; running out of lines is a closed pipe.
\<close>

definition STDIO_MAX_SKIPPED_LINES :: nat where
  "STDIO_MAX_SKIPPED_LINES = 64"

definition answers_id :: "json \<Rightarrow> json \<Rightarrow> bool" where
  "answers_id want line = (case jget line ''id'' of None \<Rightarrow> False | Some i \<Rightarrow> rpc_id_matches i want)"

fun read_correlated :: "json \<Rightarrow> nat \<Rightarrow> json mcp_result list \<Rightarrow> json mcp_result \<times> json mcp_result list" where
  "read_correlated want skipped [] = (Inl ''MCP server closed the connection'', [])"
| "read_correlated want skipped (Inl e # lines) = (Inl e, lines)"
| "read_correlated want skipped (Inr line # lines) =
     (if answers_id want line then (Inr line, lines)
      else if STDIO_MAX_SKIPPED_LINES < skipped + 1
      then (Inl ''the MCP server did not answer the request it was sent'', lines)
      else read_correlated want (skipped + 1) lines)"

lemma read_correlated_answers:
  "read_correlated want k ls = (Inr line, rest) \<Longrightarrow> answers_id want line \<and> (\<exists>us. ls = us @ Inr line # rest)"
proof (induction want k ls rule: read_correlated.induct)
  case (3 want k l ls)
  show ?case
  proof (cases "answers_id want l")
    case True
    then show ?thesis using 3 by auto
  next
    case False
    then have "read_correlated want (k + 1) ls = (Inr line, rest)" "\<not> STDIO_MAX_SKIPPED_LINES < k + 1"
      using 3 by (auto split: if_splits)
    then obtain us where "answers_id want line" "ls = us @ Inr line # rest"
      using 3 False by blast
    then have "answers_id want line \<and> Inr l # ls = (Inr l # us) @ Inr line # rest" by simp
    then show ?thesis by blast
  qed
qed auto

lemma read_correlated_resync:
  "list_all (\<lambda>l. \<not> answers_id want l) stale \<Longrightarrow> k + length stale \<le> STDIO_MAX_SKIPPED_LINES \<Longrightarrow>
   answers_id want line \<Longrightarrow>
   read_correlated want k (map Inr stale @ Inr line # rest) = (Inr line, rest)"
  by (induction stale arbitrary: k) auto

section \<open>Event streams\<close>

text \<open>
  The SSE framing. \<open>utf8\<close> and \<open>from_json\<close> stand for \<open>str::from_utf8\<close> and \<open>serde_json::from_str\<close>.
\<close>

definition strip_cr :: "string \<Rightarrow> string" where
  "strip_cr l = (if ends_with [CHR 0x0D] l then butlast l else l)"

definition flush_event ::
    "(string \<Rightarrow> json option) \<Rightarrow> nat \<Rightarrow> string list \<Rightarrow> json list \<Rightarrow> json list mcp_result" where
  "flush_event from_json max_events data_lines events =
     (if data_lines = [] then Inr events
      else case from_json (join [CHR 0x0A] data_lines) of
        None \<Rightarrow> Inr events
      | Some v \<Rightarrow> if max_events \<le> length events
                  then Inl ''the MCP SSE stream exceeded the event cap'' else Inr (events @ [v]))"

fun sse_lines ::
    "(string \<Rightarrow> json option) \<Rightarrow> nat \<Rightarrow> string list \<Rightarrow> json list \<Rightarrow> string list \<Rightarrow> json list mcp_result" where
  "sse_lines from_json mx data_lines events [] = flush_event from_json mx data_lines events"
| "sse_lines from_json mx data_lines events (raw # ls) =
     (let line = strip_cr raw in
      if line = [] then
        (case flush_event from_json mx data_lines events of
           Inl e \<Rightarrow> Inl e | Inr evs \<Rightarrow> sse_lines from_json mx [] evs ls)
      else if starts_with '':'' line then sse_lines from_json mx data_lines events ls
      else case strip_prefix ''data:'' line of
        Some rest \<Rightarrow>
          sse_lines from_json mx
            (data_lines @ [case strip_prefix '' '' rest of None \<Rightarrow> rest | Some r \<Rightarrow> r]) events ls
      | None \<Rightarrow> sse_lines from_json mx data_lines events ls)"

definition parse_sse_events ::
    "(string \<Rightarrow> bool) \<Rightarrow> (string \<Rightarrow> json option) \<Rightarrow> string \<Rightarrow> nat \<Rightarrow> nat \<Rightarrow> json list mcp_result" where
  "parse_sse_events utf8 from_json bytes max_bytes max_events =
     (if max_bytes < length bytes then Inl ''the MCP SSE stream exceeded the output-size cap''
      else if \<not> utf8 bytes then Inl ''MCP SSE stream is not valid UTF-8''
      else sse_lines from_json max_events [] [] (split_on (\<lambda>c. c = CHR 0x0A) bytes))"

fun extract_rpc_response :: "json list \<Rightarrow> json \<Rightarrow> json mcp_result" where
  "extract_rpc_response [] want =
     Inl ''the MCP server did not return a matching response on the event stream''"
| "extract_rpc_response (ev # evs) want =
     (if jget ev ''id'' = Some want \<and> (jget ev ''result'' \<noteq> None \<or> jget ev ''error'' \<noteq> None)
      then Inr ev else extract_rpc_response evs want)"

section \<open>Servers, clients and the manager\<close>

datatype tool_class = ReadOnly | Consequential

definition class_is_consequential :: "tool_class \<Rightarrow> bool" where
  "class_is_consequential c \<longleftrightarrow> c = Consequential"

record discovered_tool =
  dt_server :: string
  dt_name :: string
  dt_description :: string
  dt_schema :: json
  dt_class :: tool_class

datatype transport_kind = Stdio | Http

record mcp_server_cfg =
  sv_name :: string
  sv_transport :: transport_kind
  sv_agents :: "string list"
  sv_default_class :: tool_class
  sv_read_only :: "string list"
  sv_net_hosts :: "string list"

record mcp_client =
  cl_name :: string
  cl_ids :: int
  cl_max_tools :: nat
  cl_default_class :: tool_class
  cl_read_only :: "string list"
  cl_tools :: "discovered_tool list"

text \<open>
  One entry of a \<open>tools/list\<close> reply: skipped, or registered with its class. The class is fail-safe,
  read-only only for a name the configuration lists.
\<close>

definition discover_one :: "mcp_client \<Rightarrow> json \<Rightarrow> discovered_tool option" where
  "discover_one c t =
     (case jget_str t ''name'' of None \<Rightarrow> None
      | Some tname \<Rightarrow>
         if tname = [] then None
         else if \<not> is_wire_safe_tool_name tname
                 \<or> MAX_WIRE_TOOL_NAME < length (flat_tool_name (cl_name c) tname) then None
         else Some \<lparr> dt_server = cl_name c, dt_name = tname,
                dt_description = (case jget_str t ''description'' of None \<Rightarrow> [] | Some d \<Rightarrow> d),
                dt_schema = (case jget t ''inputSchema'' of None \<Rightarrow> JNull | Some j \<Rightarrow> j),
                dt_class = (if tname \<in> set (cl_read_only c) then ReadOnly else cl_default_class c) \<rparr>)"

fun discover_tools :: "mcp_client \<Rightarrow> discovered_tool list \<Rightarrow> json list \<Rightarrow> discovered_tool list" where
  "discover_tools c tools [] = tools"
| "discover_tools c tools (t # ts) =
     (case discover_one c t of
        None \<Rightarrow> discover_tools c tools ts
      | Some d \<Rightarrow>
          if cl_max_tools c \<le> length (tools @ [d]) then tools @ [d] else discover_tools c (tools @ [d]) ts)"

text \<open>A request uses the next id; the reply has to carry it.\<close>

definition list_tools :: "(json \<Rightarrow> json mcp_result) \<Rightarrow> mcp_client \<Rightarrow> mcp_client \<times> unit mcp_result" where
  "list_tools reply_of c =
     (let i = cl_ids c + 1; c1 = c\<lparr> cl_ids := i \<rparr> in
      case reply_of (rpc_request i ''tools/list'' (JObj [])) of
        Inl _ \<Rightarrow> (c1, Inl ''MCP tools/list'')
      | Inr reply \<Rightarrow>
          (case check_reply_id reply i of Inl _ \<Rightarrow> (c1, Inl ''MCP tools/list reply'')
           | Inr _ \<Rightarrow>
             (case parse_rpc_result reply of Inl _ \<Rightarrow> (c1, Inl ''MCP tools/list reply'')
              | Inr result \<Rightarrow>
                (case Option.bind (jget result ''tools'') as_array of
                   None \<Rightarrow> (c1, Inl ''tools/list reply has no tools array'')
                 | Some raw \<Rightarrow> (c1\<lparr> cl_tools := discover_tools c1 [] raw \<rparr>, Inr ())))))"

definition find_tool :: "mcp_client \<Rightarrow> string \<Rightarrow> discovered_tool option" where
  "find_tool c tool = find (\<lambda>t. dt_name t = tool) (cl_tools c)"

datatype call_outcome = OkOut string | DryOut string | ErrOut string

definition render_part :: "json \<Rightarrow> string list" where
  "render_part c =
     (case jget_str c ''type'' of None \<Rightarrow> []
      | Some k \<Rightarrow>
          if k = ''text'' then (case jget_str c ''text'' of None \<Rightarrow> [] | Some t \<Rightarrow> [t])
          else [''['' @ k @ '' content]''])"

definition render_call_result :: "json \<Rightarrow> call_outcome" where
  "render_call_result result =
     (let is_error = (case Option.bind (jget result ''isError'') as_bool of None \<Rightarrow> False | Some b \<Rightarrow> b);
          parts = (case Option.bind (jget result ''content'') as_array of
                     None \<Rightarrow> [] | Some cs \<Rightarrow> concat (map render_part cs));
          body = (if parts = [] then ''the tool returned no text content'' else join [CHR 0x0A] parts) in
      if is_error then ErrOut body else OkOut body)"

definition mcp_preview :: "string \<Rightarrow> string \<Rightarrow> string" where
  "mcp_preview tool server = ''[dry run] would call MCP tool '' @ tool @ '' on '' @ server
     @ '' with the provided arguments. Enable consequential actions and confirm to run it.''"

text \<open>
  \<open>McpClient::call_tool\<close>. The third component is the request put on the wire, when there is one.
\<close>

definition client_call ::
    "(json \<Rightarrow> json mcp_result) \<Rightarrow> mcp_client \<Rightarrow> string \<Rightarrow> json \<Rightarrow> action_mode
       \<Rightarrow> mcp_client \<times> call_outcome mcp_result \<times> json option" where
  "client_call reply_of c tool arguments mode =
     (case find_tool c tool of
        None \<Rightarrow> (c, Inl (''unknown MCP tool '' @ tool @ '' on server '' @ cl_name c), None)
      | Some d \<Rightarrow>
          if class_is_consequential (dt_class d) \<and> mode \<noteq> ModeExecute
          then (c, Inr (DryOut (mcp_preview tool (cl_name c))), None)
          else
            let i = cl_ids c + 1; c1 = c\<lparr> cl_ids := i \<rparr>;
                req = rpc_request i ''tools/call'' (JObj [(''arguments'', arguments), (''name'', JStr tool)]) in
            (c1,
             (case reply_of req of
                Inl _ \<Rightarrow> Inl ''MCP tools/call''
              | Inr reply \<Rightarrow>
                  (case check_reply_id reply i of Inl _ \<Rightarrow> Inl ''MCP tools/call reply''
                   | Inr _ \<Rightarrow> (case parse_rpc_result reply of
                        Inl e \<Rightarrow> Inr (ErrOut e) | Inr r \<Rightarrow> Inr (render_call_result r)))),
             Some req))"

record mcp_manager =
  mcp_enabled :: bool
  mcp_max_servers :: nat
  mcp_servers :: "mcp_server_cfg list"
  mcp_clients :: "(string, mcp_client) btree"

definition ORCHESTRATOR :: string where
  "ORCHESTRATOR = ''darwin''"

definition find_server :: "mcp_manager \<Rightarrow> string \<Rightarrow> mcp_server_cfg option" where
  "find_server m server = find (\<lambda>s. sv_name s = server) (mcp_servers m)"

definition host_enabled :: "bool \<Rightarrow> mcp_manager \<Rightarrow> bool" where
  "host_enabled is_locked m \<longleftrightarrow> mcp_enabled m \<and> \<not> is_locked"

text \<open>\<open>net_scope_verdict\<close>, reduced to its refusal bit.\<close>

definition net_scope_refused :: "mcp_server_cfg \<Rightarrow> bool option" where
  "net_scope_refused s =
     (if sv_net_hosts s = [] then None
      else case sv_transport s of Stdio \<Rightarrow> Some True | Http \<Rightarrow> Some False)"

definition connectable_servers :: "bool \<Rightarrow> mcp_manager \<Rightarrow> mcp_server_cfg list" where
  "connectable_servers is_locked m =
     (if \<not> host_enabled is_locked m then []
      else take (mcp_max_servers m)
             (filter (\<lambda>s. net_scope_refused s \<noteq> Some True)
               (filter (\<lambda>s. mcp_token_account (sv_name s) \<noteq> None) (mcp_servers m))))"

definition insert_client :: "mcp_client \<Rightarrow> mcp_manager \<Rightarrow> mcp_manager" where
  "insert_client c m = m\<lparr> mcp_clients := bt_insert (cl_name c) c (mcp_clients m) \<rparr>"

text \<open>\<open>connect_one\<close> hands back a ready client or an error; \<open>connect_all\<close> keeps what connects.\<close>

definition connect_all ::
    "(mcp_server_cfg \<Rightarrow> mcp_client mcp_result) \<Rightarrow> bool \<Rightarrow> mcp_manager \<Rightarrow> mcp_manager" where
  "connect_all connect_one is_locked m =
     foldl (\<lambda>m s. case connect_one s of Inl _ \<Rightarrow> m
              | Inr c \<Rightarrow> m\<lparr> mcp_clients := bt_insert (sv_name s) c (mcp_clients m) \<rparr>)
       m (connectable_servers is_locked m)"

definition mcp_agent_may_use :: "mcp_manager \<Rightarrow> string \<Rightarrow> string \<Rightarrow> bool" where
  "mcp_agent_may_use m agent server =
     (case find_server m server of None \<Rightarrow> False
      | Some s \<Rightarrow> sv_agents s \<noteq> [] \<and> (agent = ORCHESTRATOR \<or> agent \<in> set (sv_agents s)))"

definition server_reaches_network :: "mcp_manager \<Rightarrow> string \<Rightarrow> bool" where
  "server_reaches_network m server =
     (case find_server m server of None \<Rightarrow> True
      | Some s \<Rightarrow> (case sv_transport s of Http \<Rightarrow> True | Stdio \<Rightarrow> sv_net_hosts s \<noteq> []))"

definition tool_class_of :: "mcp_manager \<Rightarrow> string \<Rightarrow> string \<Rightarrow> tool_class option" where
  "tool_class_of m server tool =
     (case map_of (mcp_clients m) server of None \<Rightarrow> None | Some c \<Rightarrow> map_option dt_class (find_tool c tool))"

definition class_for_flat :: "mcp_manager \<Rightarrow> string \<Rightarrow> tool_class" where
  "class_for_flat m flat =
     (case parse_flat_tool_name flat of
        Some (server, tool) \<Rightarrow> (case tool_class_of m server tool of None \<Rightarrow> Consequential | Some k \<Rightarrow> k)
      | None \<Rightarrow> Consequential)"

definition MCP_LOCKED :: string where
  "MCP_LOCKED = ''MCP is locked down (panic engaged); no external tool calls until unlock''"

text \<open>
  \<open>McpManager::call_tool\<close> under the state of the emergency stop. The reply of the server called
  \<open>server\<close> to a request is \<open>reply_of server\<close>. The Keychain lookup of a token is left out: its
  value is dropped before the call.
\<close>

definition mcp_call ::
    "(string \<Rightarrow> json \<Rightarrow> json mcp_result) \<Rightarrow> bool \<Rightarrow> string \<Rightarrow> string \<Rightarrow> string \<Rightarrow> json \<Rightarrow> action_mode
       \<Rightarrow> mcp_manager \<Rightarrow> mcp_manager \<times> call_outcome mcp_result \<times> json option" where
  "mcp_call reply_of is_locked agent server tool arguments mode m =
     (if is_locked then (m, Inl MCP_LOCKED, None)
      else if \<not> mcp_agent_may_use m agent server
      then (m, Inl (''agent '' @ agent @ '' is not allowed to use MCP server '' @ server), None)
      else case map_of (mcp_clients m) server of
        None \<Rightarrow> (m, Inl (''MCP server '' @ server @ '' is not connected''), None)
      | Some c \<Rightarrow>
          let (c1, r, sent) = client_call (reply_of server) c tool arguments mode in
          (m\<lparr> mcp_clients := bt_insert server c1 (mcp_clients m) \<rparr>, r, sent))"

definition tool_defs_for_agent :: "bool \<Rightarrow> string \<Rightarrow> mcp_manager \<Rightarrow> (string \<times> string \<times> json) list" where
  "tool_defs_for_agent is_locked agent m =
     (if is_locked then []
      else map (\<lambda>t. (flat_tool_name (dt_server t) (dt_name t), dt_description t,
                      if is_object (dt_schema t) then dt_schema t else JObj [(''type'', JStr ''object'')]))
             (filter (\<lambda>t. mcp_agent_may_use m agent (dt_server t))
                (concat (map (\<lambda>(_, c). cl_tools c) (mcp_clients m)))))"

definition render_mcp_outcome :: "call_outcome \<Rightarrow> string \<times> bool" where
  "render_mcp_outcome r = (case r of OkOut t \<Rightarrow> (t, False) | DryOut p \<Rightarrow> (p, False) | ErrOut e \<Rightarrow> (e, True))"

section \<open>What the host guarantees\<close>

definition discovered_ok :: "mcp_client \<Rightarrow> discovered_tool \<Rightarrow> bool" where
  "discovered_ok c d \<longleftrightarrow>
     dt_server d = cl_name c \<and> is_wire_safe_tool_name (dt_name d)
     \<and> length (flat_tool_name (dt_server d) (dt_name d)) \<le> MAX_WIRE_TOOL_NAME
     \<and> dt_class d = (if dt_name d \<in> set (cl_read_only c) then ReadOnly else cl_default_class c)"

lemma discover_one_ok: "discover_one c t = Some d \<Longrightarrow> discovered_ok c d"
  by (auto simp: discover_one_def discovered_ok_def split: option.splits if_splits)

lemma discover_tools_ok:
  "list_all (discovered_ok c) tools \<Longrightarrow> list_all (discovered_ok c) (discover_tools c tools ts)"
  by (induction ts arbitrary: tools) (auto split: option.splits dest: discover_one_ok)

lemma discover_tools_bound:
  "length tools < max (cl_max_tools c) 1 \<Longrightarrow> length (discover_tools c tools ts) \<le> max (cl_max_tools c) 1"
proof (induction ts arbitrary: tools)
  case (Cons t ts)
  then show ?case using Cons.IH [of "tools @ [d]" for d] by (auto split: option.splits)
qed simp

lemma discovered_ok_ids: "discovered_ok (c\<lparr> cl_ids := i \<rparr>) = discovered_ok c"
  by (simp add: fun_eq_iff discovered_ok_def)

text \<open>
  Discovery. After a successful \<open>tools/list\<close> the client holds at most \<open>max max_tools 1\<close> tools;
  every one belongs to this server, has a name and a flat id the Messages API accepts, and is
  read-only only when the configuration lists it (or makes read-only the default).
\<close>
theorem discovery_bounded_and_fail_safe:
  "case list_tools reply_of c of (c', r) \<Rightarrow>
     (case r of Inl _ \<Rightarrow> cl_tools c' = cl_tools c
      | Inr _ \<Rightarrow> length (cl_tools c') \<le> max (cl_max_tools c) 1 \<and> list_all (discovered_ok c) (cl_tools c'))"
  using discover_tools_bound [of "[]" "c\<lparr> cl_ids := cl_ids c + 1 \<rparr>"]
    discover_tools_ok [of "c\<lparr> cl_ids := cl_ids c + 1 \<rparr>" "[]"]
  by (auto simp: list_tools_def Let_def discovered_ok_ids split: sum.splits option.splits)

text \<open>
  The flat tool id loses nothing: parsing the id of a safely named server and a non-empty tool
  gives both back, and an id that parses is the id of what it parses to, so two tools never share
  an id.
\<close>
theorem flat_id_roundtrip:
  assumes "is_safe_mcp_server_name s" and "t \<noteq> []"
  shows "parse_flat_tool_name (flat_tool_name s t) = Some (s, t)
    \<and> (\<forall>f. parse_flat_tool_name f = Some (s, t) \<longleftrightarrow> f = flat_tool_name s t)
    \<and> is_mcp_flat_name (flat_tool_name s t)"
proof -
  have "is_mcp_flat_name (flat_tool_name s t)"
    unfolding is_mcp_flat_name_def flat_tool_name_def by (rule starts_with_append)
  then show ?thesis using parse_flat [OF assms] parse_flat_Some [of _ s t] by blast
qed

lemma flat_id_roundtrip_witness:
  "parse_flat_tool_name (flat_tool_name ''a'' ''b__c'') = Some (''a'', ''b__c'')"
  using flat_id_roundtrip [of "''a''" "''b__c''"]
  by (simp add: is_safe_mcp_server_name_def is_sep_def ascii_lower_def code_Char)

lemma find_tool_name: "find_tool c tool = Some d \<Longrightarrow> d \<in> set (cl_tools c) \<and> dt_name d = tool"
  by (auto simp: find_tool_def find_Some_iff)

lemma client_call_sent:
  "client_call reply_of c tool args mode = (c', r, Some req) \<Longrightarrow>
     req = rpc_request (cl_ids c + 1) ''tools/call'' (JObj [(''arguments'', args), (''name'', JStr tool)])
   \<and> (\<exists>d. find_tool c tool = Some d \<and> (dt_class d = Consequential \<longrightarrow> mode = ModeExecute))"
  by (auto simp: client_call_def Let_def class_is_consequential_def split: option.splits if_splits)

lemma client_call_ok:
  "client_call reply_of c tool args mode = (c', Inr (OkOut t), sent) \<Longrightarrow>
     (\<exists>req reply i. sent = Some req \<and> reply_of req = Inr reply \<and> jget req ''id'' = Some (JInt i)
        \<and> check_reply_id reply i = Inr ())"
  by (auto simp: client_call_def Let_def rpc_request_def jget_def
      split: option.splits if_splits sum.splits)

lemma mcp_call_sent:
  assumes "mcp_call reply_of lk agent server tool args mode m = (m', r, Some req)"
  shows "\<not> lk \<and> mcp_agent_may_use m agent server
     \<and> (\<exists>c c'. map_of (mcp_clients m) server = Some c
           \<and> client_call (reply_of server) c tool args mode = (c', r, Some req))"
  using assms unfolding mcp_call_def by (auto split: if_splits option.splits prod.splits)

text \<open>
  C25. A request leaves the daemon only when the emergency stop is off, the agent is on the server's
  non-empty allowlist, the tool was discovered on that server, and the mode is Execute if the tool
  is consequential; it names this tool and carries exactly the given arguments.
\<close>
theorem mcp_request_is_authorised:
  assumes "mcp_call reply_of lk agent server tool args mode m = (m', r, Some req)"
  shows "\<not> lk \<and> mcp_agent_may_use m agent server
    \<and> (case tool_class_of m server tool of None \<Rightarrow> False
       | Some k \<Rightarrow> k = ReadOnly \<or> mode = ModeExecute)
    \<and> (\<exists>i. req = rpc_request i ''tools/call'' (JObj [(''arguments'', args), (''name'', JStr tool)]))"
proof -
  obtain c c' where lk: "\<not> lk" "mcp_agent_may_use m agent server"
    and c: "map_of (mcp_clients m) server = Some c"
    and call: "client_call (reply_of server) c tool args mode = (c', r, Some req)"
    using mcp_call_sent [OF assms] by blast
  obtain d where d: "find_tool c tool = Some d" "dt_class d = Consequential \<longrightarrow> mode = ModeExecute"
    and req: "req = rpc_request (cl_ids c + 1) ''tools/call'' (JObj [(''arguments'', args), (''name'', JStr tool)])"
    using client_call_sent [OF call] by blast
  have "tool_class_of m server tool = Some (dt_class d)" using c d(1) by (simp add: tool_class_of_def)
  moreover have "dt_class d = ReadOnly \<or> mode = ModeExecute" using d(2) by (cases "dt_class d") auto
  ultimately show ?thesis using req lk by auto
qed

definition demo_tool :: "tool_class \<Rightarrow> discovered_tool" where
  "demo_tool k = \<lparr> dt_server = ''a'', dt_name = ''t'', dt_description = [], dt_schema = JNull, dt_class = k \<rparr>"

definition demo_manager :: "tool_class \<Rightarrow> mcp_manager" where
  "demo_manager k = \<lparr> mcp_enabled = True, mcp_max_servers = 4,
     mcp_servers = [\<lparr> sv_name = ''a'', sv_transport = Stdio, sv_agents = [''x''],
        sv_default_class = Consequential, sv_read_only = [], sv_net_hosts = [] \<rparr>],
     mcp_clients = [(''a'', \<lparr> cl_name = ''a'', cl_ids = 2, cl_max_tools = 4, cl_default_class = Consequential,
        cl_read_only = [], cl_tools = [demo_tool k] \<rparr>)] \<rparr>"

lemmas demo_mcp = demo_tool_def demo_manager_def mcp_call_def mcp_agent_may_use_def find_server_def
  client_call_def find_tool_def class_is_consequential_def tool_class_of_def ORCHESTRATOR_def

lemma mcp_request_is_authorised_witness:
  "mcp_agent_may_use (demo_manager Consequential) ''x'' ''a''"
proof -
  have "\<exists>m' r req. mcp_call (\<lambda>_ _. Inl []) False ''x'' ''a'' ''t'' JNull ModeExecute (demo_manager Consequential)
      = (m', r, Some req)"
    by (simp add: demo_mcp Let_def)
  then obtain m' r req where "mcp_call (\<lambda>_ _. Inl []) False ''x'' ''a'' ''t'' JNull ModeExecute
      (demo_manager Consequential) = (m', r, Some req)" by blast
  from mcp_request_is_authorised [OF this] show ?thesis by blast
qed

text \<open>
  The stdio pipe resynchronises: up to 64 lines that do not answer the request are discarded
  and the reply behind them is returned, with exactly what follows it left unread. Whatever the
  pipe holds, a returned line answers this request.
\<close>
theorem stdio_reply_is_ours:
  "(list_all (\<lambda>l. \<not> answers_id want l) stale \<and> length stale \<le> 64 \<and> answers_id want line \<longrightarrow>
      read_correlated want 0 (map Inr stale @ Inr line # rest) = (Inr line, rest))
   \<and> (case read_correlated want 0 ls of (Inr l, _) \<Rightarrow> answers_id want l | _ \<Rightarrow> True)"
  using read_correlated_resync [of want stale 0 line rest] read_correlated_answers [of want 0 ls]
  by (auto simp: STDIO_MAX_SKIPPED_LINES_def split: prod.splits sum.splits)

lemma stdio_reply_is_ours_witness:
  "read_correlated (JInt 2) 0 [Inr JNull, Inr (JObj [(''id'', JInt 2)]), Inr JNull] =
     (Inr (JObj [(''id'', JInt 2)]), [Inr JNull])"
  using stdio_reply_is_ours [of "JInt 2" "[JNull]" "JObj [(''id'', JInt 2)]" "[Inr JNull]" "[]"]
  by (simp add: answers_id_def jget_def rpc_id_matches_def)

end
