(* ===== verification/ActionJournal.thy ===== *)
theory ActionJournal
  imports ConfirmGate McpHost Redact
begin

text \<open>
  The reversible-action journal of \<open>daemon/src/journal.rs\<close>: the bounded ledger of executed actions,
  the honest inverse of each, and the arming and matching of an undo. The
  restore-point anchor, the status line and the panel snapshot follow in \<open>UndoTurn\<close>.
\<close>

definition JOURNAL_CAP :: nat where
  "JOURNAL_CAP = 64"

datatype inverse = InvReady string json string | InvNone string

record journal_entry =
  je_seq :: "64 word"
  je_ts :: string
  je_agent :: string
  je_tool :: string
  je_preview :: string
  je_allowed :: "string list"
  je_inverse :: inverse
  je_undone :: bool
  je_via :: string

record journal_state =
  next_seq :: "64 word"
  entries :: "journal_entry list"
  expected_undo :: "(64 word \<times> string) option"

definition journal_init :: journal_state where
  "journal_init = \<lparr> next_seq = 1, entries = [], expected_undo = None \<rparr>"

definition master_gated :: "string \<Rightarrow> bool" where
  "master_gated tool \<longleftrightarrow> is_consequential_tool tool \<or> tool = ''skill_invoke'' \<or> is_mcp_flat_name tool"

section \<open>Inverses\<close>

definition ascii_hexdigit :: "char \<Rightarrow> bool" where
  "ascii_hexdigit c \<longleftrightarrow> ascii_digit c \<or> 65 \<le> code c \<and> code c \<le> 70 \<or> 97 \<le> code c \<and> code c \<le> 102"

definition SAVED_ID :: string where
  "SAVED_ID = ''It'' @ [CHR 0x27] @ ''s saved (id ''"

definition extract_standing_id :: "string \<Rightarrow> string option" where
  "extract_standing_id outc =
     (case split_once SAVED_ID outc of None \<Rightarrow> None
      | Some (_, after_mark) \<Rightarrow>
          let rest = before_match SAVED_ID after_mark; i = takeWhile ascii_hexdigit rest in
          if starts_with '')'' (drop (length i) rest) \<and> i \<noteq> [] then Some i else None)"

definition execution_confirmed :: "string \<Rightarrow> string \<Rightarrow> bool" where
  "execution_confirmed tool outc =
     (if tool = ''standing_create'' then extract_standing_id outc \<noteq> None else True)"

definition trim_start :: "string \<Rightarrow> string" where
  "trim_start s = concat (dropWhile is_whitespace (chars s))"

definition inverse_confirmed :: "string \<Rightarrow> string \<Rightarrow> bool" where
  "inverse_confirmed tool outc =
     (if tool = ''standing_cancel'' then starts_with ''Cancelled standing mission'' (trim_start outc) else True)"

definition raw_field :: "json \<Rightarrow> string \<Rightarrow> string" where
  "raw_field input key = (case jget_str input key of None \<Rightarrow> [] | Some s \<Rightarrow> s)"

definition campaign_input :: "json \<Rightarrow> json" where
  "campaign_input input = JObj [(''campaign_id'', JStr (raw_field input ''campaign_id''))]"

definition PAUSE_NOTE :: string where
  "PAUSE_NOTE = ''re-enabling resumes live spend, and is only right if the campaign was running before the pause''"

definition RESUME_NOTE :: string where
  "RESUME_NOTE = ''resuming restarts live spend, and is only right if the campaign was running before the pause''"

definition POWER_NOTE :: string where
  "POWER_NOTE = ''this restores power only '' @ dash @ '' any prior brightness or settings aren'' @ [CHR 0x27] @ ''t recorded''"

definition dume_inverse :: "json \<Rightarrow> inverse" where
  "dume_inverse input =
     (let entity = raw_field input ''entity_id''; act = raw_field input ''action'';
          ready = (\<lambda>service note.
            if entity \<noteq> [] then InvReady ''dume_control''
                 (JObj [(''action'', JStr service), (''entity_id'', JStr entity)]) note
            else InvNone ''I only know safe inverses for turning devices on/off and re-locking'') in
      if act = ''turn_on'' then ready ''turn_off'' []
      else if act = ''turn_off'' then ready ''turn_on'' POWER_NOTE
      else if act = ''unlock'' then ready ''lock'' []
      else if act = ''lock'' then
        InvNone (''undoing a lock would mean unlocking '' @ dash @ apos '' I won'' ''t arm that as an undo; say '' @
                 quoted ''unlock'' @ '' yourself if you mean it'')
      else if act = ''set'' then
        InvNone (apos ''I don'' ''t record the device'' @ apos '''' ''s prior settings, so I can'' @
                 apos '''' ''t restore them'')
      else InvNone ''I only know safe inverses for turning devices on/off and re-locking'')"

text \<open>The reason given for a tool that has no inverse.\<close>

definition no_inverse_reasons :: "(string \<times> string) list" where
  "no_inverse_reasons =
    [(''gads_set_budget'', apos ''the previous budget isn'' ''t recorded anywhere I can read, so I can'' @ apos '''' ''t restore it''),
     (''meta_set_budget'', apos ''the previous budget isn'' ''t recorded anywhere I can read, so I can'' @ apos '''' ''t restore it''),
     (''gmail_send'', apos ''sent mail can'' ''t be unsent''),
     (''slack_post_message'', apos ''the posted message'' ''s id isn'' @ apos '''' ''t captured and no delete call is wired''),
     (''gcal_create_event'', ''no calendar-delete call is wired, and any attendee invites already went out''),
     (''github_comment_issue'', ''no comment-delete call is wired, and watchers were already notified''),
     (''github_open_pr'', ''no close-PR call is wired '' @ dash @ '' the PR number is in the result if you want to close it yourself''),
     (''gdrive_upload_text'', ''no Drive-delete call is wired '' @ dash @ '' the file id is in the result if you want to remove it yourself''),
     (''x_post'', ''no delete call is wired, and the post was already public''),
     (''linkedin_post'', apos ''the post'' ''s id isn'' @ apos '''' ''t captured and no delete call is wired''),
     (''shell_run'', apos ''a shell command'' ''s effects can'' @ apos '''' ''t be mechanically reversed''),
     (''ui_actuate'', apos ''a UI action'' ''s downstream effect is app-defined '' @ dash @ apos '' there'' ''s no safe mechanical inverse''),
     (''connector_add'', ''no connector-remove primitive exists; the connector was added inert '' @ dash @ '' delete its block from darwin.toml to undo''),
     (''skill_invoke'', apos ''a consequential skill'' ''s effects aren'' @ apos '''' ''t mechanically reversible'')]"

definition derive_inverse :: "string \<Rightarrow> json \<Rightarrow> string \<Rightarrow> inverse" where
  "derive_inverse tool input outc =
     (if tool = ''gads_pause_campaign'' then InvReady ''gads_enable_campaign'' (campaign_input input) PAUSE_NOTE
      else if tool = ''gads_enable_campaign'' then InvReady ''gads_pause_campaign'' (campaign_input input) []
      else if tool = ''meta_pause_campaign'' then InvReady ''meta_resume_campaign'' (campaign_input input) RESUME_NOTE
      else if tool = ''meta_resume_campaign'' then InvReady ''meta_pause_campaign'' (campaign_input input) []
      else if tool = ''dume_control'' then dume_inverse input
      else if tool = ''standing_create'' then
        (case extract_standing_id outc of
           Some i \<Rightarrow> InvReady ''standing_cancel'' (JObj [(''id'', JStr i)]) []
         | None \<Rightarrow> InvNone (apos ''the saved mission'' ''s id wasn'' @ apos '''' ''t in the result, so I can'' @ apos '''' ''t address it''))
      else case map_of no_inverse_reasons tool of
             Some why \<Rightarrow> InvNone why
           | None \<Rightarrow> InvNone (apos ''I don'' ''t know a safe inverse for this tool''))"

section \<open>The ledger\<close>

fun mark_first :: "64 word \<Rightarrow> journal_entry list \<Rightarrow> journal_entry list" where
  "mark_first q [] = []"
| "mark_first q (e # es) = (if je_seq e = q then e\<lparr> je_undone := True \<rparr> # es else e # mark_first q es)"

definition settle_expected :: "externals \<Rightarrow> string \<Rightarrow> string \<Rightarrow> json \<Rightarrow> journal_state \<Rightarrow> journal_state" where
  "settle_expected E agent tool input g =
     (case expected_undo g of None \<Rightarrow> g
      | Some (q, pid) \<Rightarrow>
          if derive_pending_id E agent tool input = pid
          then g\<lparr> entries := mark_first q (entries g), expected_undo := None \<rparr> else g)"

definition evict :: "nat \<Rightarrow> 'a list \<Rightarrow> 'a list" where
  "evict cap xs = (if cap < length xs then drop (length xs - cap) xs else xs)"

definition journal_record_at ::
    "externals \<Rightarrow> string \<Rightarrow> string \<Rightarrow> json \<Rightarrow> string \<Rightarrow> string \<Rightarrow> string list \<Rightarrow> string \<Rightarrow> string
      \<Rightarrow> journal_state \<Rightarrow> journal_state" where
  "journal_record_at E agent tool input pv outc allowed via ts g0 =
     (let g = settle_expected E agent tool input g0;
          e = \<lparr> je_seq = next_seq g, je_ts = ts, je_agent = agent, je_tool = tool, je_preview = redact pv,
                je_allowed = allowed, je_inverse = derive_inverse tool input outc, je_undone = False,
                je_via = via \<rparr> in
      g\<lparr> next_seq := next_seq g + 1, entries := evict JOURNAL_CAP (entries g @ [e]) \<rparr>)"

definition record_executed ::
    "externals \<Rightarrow> string \<Rightarrow> string \<Rightarrow> string \<Rightarrow> json \<Rightarrow> string \<Rightarrow> string \<Rightarrow> string list \<Rightarrow> bool \<Rightarrow> string
      \<Rightarrow> journal_state \<Rightarrow> journal_state" where
  "record_executed E ts agent tool input pv outc allowed executed via g =
     (if \<not> executed \<or> \<not> execution_confirmed tool outc then g
      else journal_record_at E agent tool input pv outc allowed via ts g)"

definition mark_undone :: "64 word \<Rightarrow> journal_state \<Rightarrow> journal_state" where
  "mark_undone q g = g\<lparr> entries := mark_first q (entries g), expected_undo := None \<rparr>"

datatype undo_prep =
    UndoNothing
  | UndoAlready
  | UndoIrreversible string
  | UndoReady "64 word" string string json "string list" string string

definition prepare_undo :: "externals \<Rightarrow> journal_state \<Rightarrow> journal_state \<times> undo_prep" where
  "prepare_undo E g =
     (if entries g = [] then (g, UndoNothing)
      else let e = last (entries g) in
        if je_undone e then (g, UndoAlready)
        else case je_inverse e of
          InvNone why \<Rightarrow> (g, UndoIrreversible why)
        | InvReady tool input note \<Rightarrow>
            let pid = derive_pending_id E (je_agent e) tool input in
            (g\<lparr> expected_undo := Some (je_seq e, pid) \<rparr>,
             UndoReady (je_seq e) (je_agent e) tool input (je_allowed e) note pid))"

definition compose_undo_response :: "string \<Rightarrow> bool \<Rightarrow> bool \<Rightarrow> bool \<Rightarrow> string \<Rightarrow> string" where
  "compose_undo_response outc is_err was_parked ran_directly note =
     (if is_err then outc
      else if was_parked then (if note = [] then outc else ''Heads up: '' @ note @ ''. '' @ outc)
      else if ran_directly then ''Undone. '' @ outc
      else outc)"

datatype undo_command = UndoLast | UndoStatus

definition UNDO_PHRASES :: "string list" where
  "UNDO_PHRASES = [''undo'', ''undo that'', ''undo it'', ''undo this'', ''undo last action'',
     ''undo the last action'', ''undo that action'', ''undo my last action'', ''undo your last action'',
     ''revert that'', ''revert it'', ''revert the last action'', ''take that back'',
     ''undo the last thing you did'', ''undo the last thing'', ''undo what you just did'',
     ''revert what you just did'', ''take it back'']"

definition STATUS_PHRASES :: "string list" where
  "STATUS_PHRASES = [''what can you undo'', ''can you undo that'', ''can you undo it'', ''can you undo'',
     ''is that undoable'', ''can that be undone'', ''undo status'', ''what can be undone'']"

definition classify_undo_command :: "(string \<Rightarrow> string) \<Rightarrow> string \<Rightarrow> undo_command option" where
  "classify_undo_command low u =
     (let t = trim (trim_end_matches [CHR '',''] (trim (trim_end_matches [CHR ''.'', CHR ''!'', CHR 0x3F]
                (low (trim u))))) in
      if t \<in> set UNDO_PHRASES then Some UndoLast
      else if t \<in> set STATUS_PHRASES then Some UndoStatus
      else None)"

section \<open>Entries and eviction\<close>

lemma mark_first_seqs [simp]: "map je_seq (mark_first q es) = map je_seq es"
  by (induction es) auto

lemma mark_first_length [simp]: "length (mark_first q es) = length es"
  by (induction es) auto

lemma evict_length: "length (evict cap xs) = min cap (length xs)"
  by (simp add: evict_def)

lemma map_evict: "map f (evict cap xs) = evict cap (map f xs)"
  by (simp add: evict_def drop_map)

lemma last_evict: "0 < cap \<Longrightarrow> xs \<noteq> [] \<Longrightarrow> evict cap xs \<noteq> [] \<and> last (evict cap xs) = last xs"
  by (auto simp: evict_def last_drop not_le intro!: diff_less)

lemma settle_next [simp]: "next_seq (settle_expected E ag tn inp g) = next_seq g"
  by (auto simp: settle_expected_def split: option.splits prod.splits)

section \<open>Runs of the ledger\<close>

datatype journal_event =
    Ran string string json string string "string list" bool string string
  | Undo
  | Mark "64 word"

fun journal_step :: "externals \<Rightarrow> journal_event \<Rightarrow> journal_state \<Rightarrow> journal_state" where
  "journal_step E (Ran ag tn inp pv out al ex via ts) g = record_executed E ts ag tn inp pv out al ex via g"
| "journal_step E Undo g = fst (prepare_undo E g)"
| "journal_step E (Mark q) g = mark_undone q g"

definition journal_run :: "externals \<Rightarrow> journal_event list \<Rightarrow> journal_state \<Rightarrow> journal_state" where
  "journal_run E evs g = foldl (\<lambda>g e. journal_step E e g) g evs"

fun counted :: "journal_event \<Rightarrow> bool" where
  "counted (Ran ag tn inp pv out al ex via ts) = (ex \<and> execution_confirmed tn out)"
| "counted _ = False"

text \<open>The entry an execution leaves, when it is the \<open>n\<close>th of the session; the undone mark comes later.\<close>

fun ran_entry :: "nat \<Rightarrow> journal_event \<Rightarrow> journal_entry" where
  "ran_entry n (Ran ag tn inp pv out al ex via ts) =
     \<lparr> je_seq = of_nat n, je_ts = ts, je_agent = ag, je_tool = tn, je_preview = redact pv, je_allowed = al,
       je_inverse = derive_inverse tn inp out, je_undone = False, je_via = via \<rparr>"
| "ran_entry n _ = undefined"

definition session_ledger :: "journal_event list \<Rightarrow> journal_entry list" where
  "session_ledger evs = map2 ran_entry [1..<Suc (length (filter counted evs))] (filter counted evs)"

abbreviation unmarked :: "journal_entry \<Rightarrow> journal_entry" where
  "unmarked e \<equiv> e\<lparr> je_undone := False \<rparr>"

lemma session_ledger_snoc:
  "session_ledger (evs @ [e]) =
     (if counted e then session_ledger evs @ [ran_entry (Suc (length (filter counted evs))) e] else session_ledger evs)"
proof -
  have "[1..<Suc (Suc n)] = [1..<Suc n] @ [Suc n]" for n by simp
  then show ?thesis by (simp add: session_ledger_def del: upt_Suc)
qed

lemma length_session_ledger [simp]: "length (session_ledger evs) = length (filter counted evs)"
  by (simp add: session_ledger_def del: upt_Suc)

lemma mark_first_unmarked [simp]: "map unmarked (mark_first q es) = map unmarked es"
  by (induction es) auto

lemma settle_unmarked [simp]: "map unmarked (entries (settle_expected E ag tn inp g)) = map unmarked (entries g)"
  by (auto simp: settle_expected_def split: option.splits prod.splits)

lemma evict_drop: "evict cap (drop (length xs - cap) xs @ [x]) = drop (Suc (length xs) - cap) (xs @ [x])"
proof (cases "length xs < cap")
  case False
  then have "length (drop (length xs - cap) xs @ [x]) = Suc cap" by simp
  then show ?thesis using False by (cases cap) (simp_all add: evict_def Suc_diff_le Suc_diff_Suc not_less)
qed (simp add: evict_def)

lemma prepare_undo_keeps:
  "entries (fst (prepare_undo E g)) = entries g" "next_seq (fst (prepare_undo E g)) = next_seq g"
  by (simp_all add: prepare_undo_def Let_def split: inverse.splits)

lemma journal_run_snoc: "journal_run E (evs @ [e]) g = journal_step E e (journal_run E evs g)"
  by (simp add: journal_run_def)

lemma journal_run_ledger:
  "map unmarked (entries (journal_run E evs journal_init)) = drop (length (filter counted evs) - 64) (session_ledger evs)
   \<and> next_seq (journal_run E evs journal_init) = of_nat (Suc (length (filter counted evs)))"
proof (induction evs rule: rev_induct)
  case Nil
  then show ?case by (simp add: journal_run_def journal_init_def session_ledger_def)
next
  case (snoc e evs)
  let ?g = "journal_run E evs journal_init" and ?n = "length (filter counted evs)"
  show ?case
  proof (cases "counted e")
    case True
    then obtain ag tn inp pv out al via ts where e: "e = Ran ag tn inp pv out al True via ts"
      by (cases e) auto
    let ?new = "ran_entry (Suc ?n) e"
    have step: "journal_step E e ?g = journal_record_at E ag tn inp pv out al via ts ?g"
      using True e by (simp add: record_executed_def)
    have "map unmarked (entries (journal_step E e ?g)) = evict 64 (drop (?n - 64) (session_ledger evs) @ [?new])"
      unfolding step using snoc.IH
      by (simp add: journal_record_at_def Let_def map_evict JOURNAL_CAP_def e)
    also have "\<dots> = drop (Suc ?n - 64) (session_ledger evs @ [?new])"
      using evict_drop [of 64 "session_ledger evs" ?new] by simp
    finally show ?thesis
      using True snoc.IH by (simp add: journal_run_snoc session_ledger_snoc step) (simp add: journal_record_at_def Let_def)
  next
    case False
    then have "map unmarked (entries (journal_step E e ?g)) = map unmarked (entries ?g) \<and> next_seq (journal_step E e ?g) = next_seq ?g"
      by (cases e) (simp_all add: record_executed_def prepare_undo_keeps mark_undone_def)
    then show ?thesis using False snoc.IH by (simp add: journal_run_snoc session_ledger_snoc)
  qed
qed

text \<open>
  C26. Whatever the session does, the ledger holds its latest executions, and holds them as they were.
  The executions that count are those that really ran and whose outcome confirms it; the entry of the
  \<open>n\<close>th of them has number \<open>n\<close> and that execution's own time, agent, tool, allowlist and origin, its
  preview redacted, and the inverse derived from its tool, input and outcome. The ledger is the list
  of these entries in order, less all but the last 64 (the mark that an entry has been undone left
  aside), and the next entry gets the next number. Numbers are counted in 64 bits and wrap.
\<close>
theorem journal_holds_latest:
  "case journal_run E evs journal_init of g \<Rightarrow>
     map (\<lambda>e. e\<lparr> je_undone := False \<rparr>) (entries g)
       = drop (length (filter counted evs) - 64)
           (map2 ran_entry [1..<Suc (length (filter counted evs))] (filter counted evs))
   \<and> next_seq g = of_nat (Suc (length (filter counted evs)))"
  using journal_run_ledger [of E evs] by (simp add: session_ledger_def del: of_nat_Suc)

text \<open>Within the ring the numbers are distinct, also across the wrap.\<close>

lemma of_nat_word_inj:
  assumes "of_nat x = (of_nat y :: 64 word)" and "x \<le> y" and "y < x + 64"
  shows "x = y"
proof -
  have "unat (of_nat x :: 64 word) = unat (of_nat y :: 64 word)" using assms(1) by simp
  then have "y mod 2 ^ 64 = x mod 2 ^ 64" by (simp add: unat_of_nat)
  then have "2 ^ 64 dvd y - x" using assms(2) mod_eq_dvd_iff_nat by blast
  moreover have "y - x < 2 ^ 64" using assms(2,3) by simp
  ultimately have "y - x = 0" by (metis dvd_imp_le not_less zero_less_iff_neq_zero)
  then show ?thesis using assms(2) by simp
qed

lemma journal_seqs_distinct: "distinct (map je_seq (entries (journal_run E evs journal_init)))"
proof -
  let ?n = "length (filter counted evs)"
  have seq: "counted e \<Longrightarrow> je_seq (ran_entry n e) = of_nat n" for n e by (cases e) auto
  have "map je_seq (map2 ran_entry ns es) = map of_nat ns" if "list_all counted es" "length ns = length es" for ns es
    using that(2,1) by (induction ns es rule: list_induct2) (simp_all add: seq)
  from this [of "filter counted evs" "[1..<Suc ?n]"]
  have "map je_seq (session_ledger evs) = map of_nat [1..<Suc ?n]" by (simp add: session_ledger_def list_all_iff del: upt_Suc)
  then have "map je_seq (drop (?n - 64) (session_ledger evs)) = map of_nat [1 + (?n - 64)..<Suc ?n]"
    by (metis drop_map drop_upt)
  moreover have "map je_seq (entries g) = map je_seq (map unmarked (entries g))" for g by simp
  ultimately have e: "map je_seq (entries (journal_run E evs journal_init)) = map of_nat [1 + (?n - 64)..<Suc ?n]"
    using journal_run_ledger [of E evs] by metis
  have "inj_on (of_nat :: nat \<Rightarrow> 64 word) {1 + (?n - 64)..<Suc ?n}"
  proof (rule inj_onI)
    fix x y assume xy: "x \<in> {1 + (?n - 64)..<Suc ?n}" "y \<in> {1 + (?n - 64)..<Suc ?n}" "of_nat x = (of_nat y :: 64 word)"
    have "x < y + 64" "y < x + 64" using xy(1,2) unfolding atLeastLessThan_iff by linarith+
    then show "x = y" using of_nat_word_inj [OF xy(3)] of_nat_word_inj [OF xy(3) [symmetric]] by (cases "x \<le> y") auto
  qed
  then show ?thesis unfolding e by (simp add: distinct_map del: upt_Suc)
qed

section \<open>Undo\<close>

lemma mark_first_last:
  assumes "distinct (map je_seq (es @ [e]))"
  shows "mark_first (je_seq e) (es @ [e]) = es @ [e\<lparr> je_undone := True \<rparr>]"
  using assms by (induction es) auto

lemma prepare_undo_Ready:
  "prepare_undo E g = (g', UndoReady q ag tn inp al note pid) \<Longrightarrow>
     entries g \<noteq> [] \<and> (case last (entries g) of e \<Rightarrow>
       \<not> je_undone e \<and> q = je_seq e \<and> ag = je_agent e \<and> al = je_allowed e \<and> je_inverse e = InvReady tn inp note)
     \<and> pid = derive_pending_id E ag tn inp \<and> g' = g\<lparr> expected_undo := Some (q, pid) \<rparr>"
  by (auto simp: prepare_undo_def Let_def split: if_splits inverse.splits)

text \<open>
  Undo reverses the last action and nothing else. When \<open>undo that\<close> arms an inverse, it is the
  inverse of the last entry under that entry's agent and allowlist, and a later execution of exactly
  this tool and input by this agent marks that one entry undone, appends its own entry and disarms;
  every other entry is kept as it is (up to the eviction of the oldest).
\<close>
theorem undo_marks_only_the_last:
  assumes "g = journal_run E evs journal_init" and "prepare_undo E g = (g', UndoReady q ag tn inp al note pid)"
    and "execution_confirmed tn out"
  shows "\<exists>es e new. entries g = es @ [e] \<and> je_inverse e = InvReady tn inp note \<and> je_agent e = ag
    \<and> je_tool new = tn \<and> je_undone new = False
    \<and> entries (record_executed E ts ag tn inp pv out al2 True via g')
        = evict JOURNAL_CAP (es @ [e\<lparr> je_undone := True \<rparr>, new])
    \<and> expected_undo (record_executed E ts ag tn inp pv out al2 True via g') = None"
proof -
  have r: "entries g \<noteq> []" "q = je_seq (last (entries g))" "ag = je_agent (last (entries g))"
      "je_inverse (last (entries g)) = InvReady tn inp note"
      "pid = derive_pending_id E ag tn inp" "g' = g\<lparr> expected_undo := Some (q, pid) \<rparr>"
    using prepare_undo_Ready [OF assms(2)] by auto
  obtain es e where es: "entries g = es @ [e]" using r(1) by (cases "entries g" rule: rev_cases) auto
  have "distinct (map je_seq (es @ [e]))" using journal_seqs_distinct [of E evs] assms(1) es by simp
  then have m: "mark_first q (entries g') = es @ [e\<lparr> je_undone := True \<rparr>]"
    using mark_first_last [of es e] r es by simp
  have s: "settle_expected E ag tn inp g' = g'\<lparr> entries := es @ [e\<lparr> je_undone := True \<rparr>], expected_undo := None \<rparr>"
    using m r by (simp add: settle_expected_def)
  define new where "new = \<lparr> je_seq = next_seq g, je_ts = ts, je_agent = ag, je_tool = tn, je_preview = redact pv,
    je_allowed = al2, je_inverse = derive_inverse tn inp out, je_undone = False, je_via = via \<rparr>"
  have n: "next_seq g' = next_seq g" using r(6) by simp
  have "record_executed E ts ag tn inp pv out al2 True via g' =
      g'\<lparr> next_seq := next_seq g + 1, entries := evict JOURNAL_CAP (es @ [e\<lparr> je_undone := True \<rparr>, new]),
         expected_undo := None \<rparr>"
    using assms(3) by (simp add: record_executed_def journal_record_at_def Let_def s n new_def)
  then show ?thesis
    using r(3,4) es by (intro exI [of _ es] exI [of _ e] exI [of _ new]) (simp add: new_def)
qed

definition demo_session :: "journal_event list" where
  "demo_session = [Ran ''a'' ''gads_enable_campaign'' JNull [] [] [] True ''confirm'' []]"

lemma undo_marks_only_the_last_witness:
  "expected_undo (record_executed demo_externals [] ''a'' ''gads_pause_campaign'' (campaign_input JNull) [] [] [] True []
     (fst (prepare_undo demo_externals (journal_run demo_externals demo_session journal_init)))) = None"
proof -
  let ?g = "journal_run demo_externals demo_session journal_init"
  have "execution_confirmed ''gads_enable_campaign'' []" "execution_confirmed ''gads_pause_campaign'' []"
    by (simp_all add: execution_confirmed_def)
  note c = this
  have inv: "derive_inverse ''gads_enable_campaign'' JNull [] = InvReady ''gads_pause_campaign'' (campaign_input JNull) []"
    by (simp add: derive_inverse_def)
  obtain q pid where p: "prepare_undo demo_externals ?g =
      (fst (prepare_undo demo_externals ?g), UndoReady q ''a'' ''gads_pause_campaign'' (campaign_input JNull) [] [] pid)"
    using c by (simp add: demo_session_def journal_run_def journal_init_def record_executed_def journal_record_at_def
        settle_expected_def evict_def JOURNAL_CAP_def prepare_undo_def Let_def inv)
  from undo_marks_only_the_last [OF refl p c(2)] show ?thesis by blast
qed

text \<open>The tools that have an inverse, and what the inverse is allowed to be.\<close>

lemma dume_inverse_Ready:
  "dume_inverse input = InvReady t i n \<Longrightarrow> t = ''dume_control'' \<and> raw_field i ''entity_id'' = raw_field input ''entity_id''
     \<and> raw_field i ''action'' \<in> {''turn_off'', ''turn_on'', ''lock''}"
  by (auto simp: dume_inverse_def Let_def raw_field_def jget_str_def jget_def as_str_def split: if_splits)

definition campaign_pairs :: "(string \<times> string) list" where
  "campaign_pairs = [(''gads_pause_campaign'', ''gads_enable_campaign''), (''gads_enable_campaign'', ''gads_pause_campaign''),
     (''meta_pause_campaign'', ''meta_resume_campaign''), (''meta_resume_campaign'', ''meta_pause_campaign'')]"

lemma derive_inverse_cases:
  "derive_inverse tool input outc = InvReady t i n \<Longrightarrow>
     (tool, t) \<in> set campaign_pairs \<and> i = campaign_input input
   \<or> tool = ''dume_control'' \<and> dume_inverse input = InvReady t i n
   \<or> tool = ''standing_create'' \<and> t = ''standing_cancel''
       \<and> (\<exists>d. extract_standing_id outc = Some d \<and> i = JObj [(''id'', JStr d)])"
  by (simp add: derive_inverse_def campaign_pairs_def split: if_splits option.splits)

lemma campaign_pairs_swap: "(a, b) \<in> set campaign_pairs \<Longrightarrow>
    \<exists>n. derive_inverse b x o' = InvReady a (campaign_input x) n"
  by (auto simp: campaign_pairs_def derive_inverse_def)

lemma campaign_input_idem: "campaign_input (campaign_input x) = campaign_input x"
  by (simp add: campaign_input_def raw_field_def jget_str_def jget_def as_str_def)

lemma campaign_tools_gated: "(a, b) \<in> set campaign_pairs \<Longrightarrow> is_consequential_tool b"
proof -
  have "list_all (\<lambda>(a, b). is_consequential_tool b) campaign_pairs" by code_simp
  then show "(a, b) \<in> set campaign_pairs \<Longrightarrow> ?thesis" by (auto simp: list_all_iff)
qed

lemma dume_gated: "is_consequential_tool ''dume_control''"
  by code_simp

lemma campaign_no_action: "raw_field (campaign_input x) ''action'' = []"
  by (simp add: campaign_input_def raw_field_def jget_str_def jget_def)

text \<open>
  An inverse never over-reaches. It is offered only by the four campaign tools, the smart-home
  tool and a standing mission whose saved id is known; it never unlocks anything; every inverse but
  the deletion of a standing mission is itself a tool that needs a confirmation; and reversing the
  inverse of a campaign action is the campaign action again, on the same campaign.
\<close>
theorem inverse_is_safe:
  assumes "derive_inverse tool input outc = InvReady t i n"
  shows "(is_consequential_tool t \<or> t = ''standing_cancel'')
    \<and> raw_field i ''action'' \<noteq> ''unlock''
    \<and> (tool = ''dume_control'' \<or> tool = ''standing_create''
        \<or> (\<exists>m. derive_inverse t i outc2 = InvReady tool (campaign_input input) m))"
  using derive_inverse_cases [OF assms]
proof (elim disjE conjE)
  assume "(tool, t) \<in> set campaign_pairs" and i: "i = campaign_input input"
  then have "is_consequential_tool t" "\<exists>m. derive_inverse t i outc2 = InvReady tool (campaign_input i) m"
    using campaign_tools_gated campaign_pairs_swap by blast+
  then show ?thesis by (simp add: i campaign_input_idem campaign_no_action)
next
  assume "tool = ''dume_control''" and d: "dume_inverse input = InvReady t i n"
  then show ?thesis using dume_inverse_Ready [OF d] dume_gated by auto
qed (auto simp: raw_field_def jget_str_def jget_def)

lemma inverse_is_safe_witness:
  "derive_inverse ''gads_pause_campaign'' JNull [] = InvReady ''gads_enable_campaign'' (campaign_input JNull) PAUSE_NOTE
   \<and> raw_field (campaign_input JNull) ''action'' \<noteq> ''unlock''"
proof -
  have d: "derive_inverse ''gads_pause_campaign'' JNull [] = InvReady ''gads_enable_campaign'' (campaign_input JNull) PAUSE_NOTE"
    by (simp add: derive_inverse_def)
  show ?thesis using d inverse_is_safe [OF d] by blast
qed

end
