(* ===== verification/Chokepoint.thy ===== *)
theory Chokepoint
  imports ConfirmMachine PolicyCommand AuditChain LockdownStop ActionJournal
begin

text \<open>
  The single place where a tool call becomes an effect: \<open>execute_tool\<close>, its MCP twin and
  \<open>replay_confirmed_action\<close> of \<open>daemon/src/anthropic.rs\<close>, with the master switch of
  \<open>daemon/src/integrations/mod.rs\<close> and the recall trim of \<open>daemon/src/boundary.rs\<close>. The state is
  the record of every process global these functions read or write, and \<open>w_calls\<close>, the calls handed
  to the outside, in order. What answers those calls (clients, servers, apps, the forge pipeline) is
  the record \<open>outside\<close> of parameters. Telemetry and log lines are left out.
\<close>

section \<open>What lies outside\<close>

datatype call =
    Gated string json action_mode
  | Forge json
  | Skill string json bool
  | Plain string json bool
  | App string json
  | McpCall string string json tool_class

text \<open>
  \<open>parse_confirm\<close> is \<open>serde_json::from_value\<close> on the argument struct of a gated tool: \<open>None\<close> when the
  arguments are rejected, otherwise the value of its \<open>confirm\<close> field. \<open>pre_gate\<close> is the answer of an
  arm that returns before it reads the gate (a client that cannot be built, a feature that is off or
  locked down, an instruction that is refused). \<open>race\<close> gives the panics and unlocks of other tasks
  that land while a call is awaited, before and after the gate is read.
\<close>

record outside =
  o_ext :: externals
  o_now :: instant
  o_ts :: string
  parse_confirm :: "string \<Rightarrow> json \<Rightarrow> bool option"
  bad_args :: "string \<Rightarrow> json \<Rightarrow> string"
  pre_gate :: "string \<Rightarrow> json \<Rightarrow> bool \<Rightarrow> (string \<times> bool) option"
  client :: "string \<Rightarrow> json \<Rightarrow> action_mode \<Rightarrow> string \<times> bool"
  forge_on :: bool
  forge_draft :: "json \<Rightarrow> string \<times> bool"
  skills_on :: bool
  skill_args :: "json \<Rightarrow> (string \<times> json \<times> bool) option"
  skill_consequential :: "string \<Rightarrow> bool option"
  skill_run :: "string \<Rightarrow> json \<Rightarrow> string \<times> bool"
  plain :: "string \<Rightarrow> json \<Rightarrow> bool \<Rightarrow> string \<times> bool"
  app_tool :: "string \<Rightarrow> json \<Rightarrow> string \<times> bool"
  server_reply :: "string \<Rightarrow> json \<Rightarrow> json mcp_result"
  second_look :: "string \<Rightarrow> json \<Rightarrow> string list"
  race :: "string \<Rightarrow> json \<Rightarrow> bool option \<times> bool option"

datatype trim_spec = TrimNone | NoFacts | NoMemory

definition withheld_recall_tools :: "trim_spec \<Rightarrow> string list" where
  "withheld_recall_tools t =
     (case t of TrimNone \<Rightarrow> []
      | NoFacts \<Rightarrow> [''recall_facts'', ''mnemosyne_recall'', ''unified_search'']
      | NoMemory \<Rightarrow> [''recall_facts'', ''mnemosyne_recall'', ''episodic_recall'', ''unified_search''])"

definition trim_str :: "trim_spec \<Rightarrow> string" where
  "trim_str t = (case t of TrimNone \<Rightarrow> ''none'' | NoFacts \<Rightarrow> ''no_facts'' | NoMemory \<Rightarrow> ''no_memory'')"

text \<open>\<open>gate_and_trim\<close>: the configured gate, the trim of the turn, and the vault that forces the maximum.\<close>

record boundary_state =
  boundary_gate :: "(bool \<times> trim_spec) option"
  turn_trim :: "trim_spec option"
  vault_active :: bool

definition gate_and_trim :: "boundary_state \<Rightarrow> bool \<times> trim_spec" where
  "gate_and_trim b =
     (let (on, dflt) = (case boundary_gate b of None \<Rightarrow> (False, TrimNone) | Some p \<Rightarrow> p);
          t = (case turn_trim b of None \<Rightarrow> dflt | Some t \<Rightarrow> t)
      in (on, if vault_active b then NoMemory else t))"

record world =
  w_stop :: stop_state
  w_master :: "bool option"
  w_gate :: turn_gate
  w_scope :: "scope option"
  w_policy :: policy_layer
  w_boundary :: boundary_state
  w_plan :: "plan_env option"
  w_journal :: journal_state
  w_mcp :: mcp_manager
  w_calls :: "call list"

section \<open>The master switch\<close>

definition integrations_init :: "bool \<Rightarrow> world \<Rightarrow> world" where
  "integrations_init allow w = (case w_master w of None \<Rightarrow> w\<lparr> w_master := Some allow \<rparr> | Some _ \<Rightarrow> w)"

definition consequential_allowed :: "world \<Rightarrow> bool" where
  "consequential_allowed w =
     (if is_locked_down (w_stop w) then False
      else case w_master w of None \<Rightarrow> False | Some b \<Rightarrow> b)"

definition gate :: "world \<Rightarrow> bool \<Rightarrow> action_mode" where
  "gate w confirm = (if consequential_allowed w \<and> confirm then ModeExecute else ModeDryRun)"

lemma gate_Execute: "gate w c = ModeExecute \<longleftrightarrow> consequential_allowed w \<and> c"
  by (simp add: gate_def)

text \<open>What the chokepoint does to the shared state.\<close>

definition audit_row :: "outside \<Rightarrow> string \<Rightarrow> string \<Rightarrow> string \<Rightarrow> decision \<Rightarrow> outcome \<Rightarrow> world \<Rightarrow> world" where
  "audit_row X ag tn target dec out w =
     w\<lparr> w_stop := (w_stop w)\<lparr> stop_audit := record_global (o_ext X) (o_ts X) ag tn target dec out (stop_audit (w_stop w)) \<rparr> \<rparr>"

definition set_confirm :: "confirm_state \<Rightarrow> world \<Rightarrow> world" where
  "set_confirm c w = w\<lparr> w_stop := (w_stop w)\<lparr> stop_confirm := c \<rparr> \<rparr>"

definition log_call :: "call \<Rightarrow> world \<Rightarrow> world" where
  "log_call c w = w\<lparr> w_calls := w_calls w @ [c] \<rparr>"

definition journal_row ::
    "outside \<Rightarrow> string \<Rightarrow> string \<Rightarrow> json \<Rightarrow> string \<Rightarrow> string \<Rightarrow> string list \<Rightarrow> bool \<Rightarrow> string \<Rightarrow> world \<Rightarrow> world" where
  "journal_row X ag tn inp pv out allowed executed via w =
     w\<lparr> w_journal := record_executed (o_ext X) (o_ts X) ag tn inp pv out allowed executed via (w_journal w) \<rparr>"

definition racing :: "outside \<Rightarrow> bool option \<Rightarrow> world \<Rightarrow> world" where
  "racing X r w =
     (case r of None \<Rightarrow> w
      | Some True \<Rightarrow> w\<lparr> w_stop := fst (lockdown_panic (o_ext X) (o_ts X) (w_stop w)) \<rparr>
      | Some False \<Rightarrow> w\<lparr> w_stop := fst (lockdown_unlock (o_ext X) (o_ts X) (w_stop w)) \<rparr>)"

section \<open>Dispatch\<close>

definition force_confirm :: "json \<Rightarrow> bool \<Rightarrow> json" where
  "force_confirm input v = (case input of JObj m \<Rightarrow> JObj (bt_insert ''confirm'' (JBool v) m) | _ \<Rightarrow> input)"

definition agent_id_from_namespace :: "string \<Rightarrow> string" where
  "agent_id_from_namespace ns = (case strip_prefix ''agent.'' ns of None \<Rightarrow> ns | Some r \<Rightarrow> r)"

definition confirm_flag :: "json \<Rightarrow> bool" where
  "confirm_flag input = (case Option.bind (jget input ''confirm'') as_bool of None \<Rightarrow> False | Some b \<Rightarrow> b)"

text \<open>A call to the MCP manager, with the request logged when one goes out.\<close>

definition manager_call ::
    "outside \<Rightarrow> string \<Rightarrow> string \<Rightarrow> string \<Rightarrow> string \<Rightarrow> json \<Rightarrow> action_mode \<Rightarrow> world \<Rightarrow> world \<times> string \<times> bool" where
  "manager_call X flat agent server tool args mode w =
     (let (m, r, sent) = mcp_call (server_reply X) (is_locked_down (w_stop w)) agent server tool args mode (w_mcp w);
          cls = (case tool_class_of (w_mcp w) server tool of None \<Rightarrow> Consequential | Some k \<Rightarrow> k);
          w1 = w\<lparr> w_mcp := m \<rparr>;
          w2 = (case sent of None \<Rightarrow> w1 | Some _ \<Rightarrow> log_call (McpCall flat agent args cls) w1)
      in (w2, case r of Inl e \<Rightarrow> (e, True) | Inr out \<Rightarrow> render_mcp_outcome out))"

definition gated_dispatch :: "outside \<Rightarrow> string \<Rightarrow> json \<Rightarrow> bool \<Rightarrow> world \<Rightarrow> world \<times> string \<times> bool" where
  "gated_dispatch X tn inp confirm w =
     (case pre_gate X tn inp (is_locked_down (w_stop w)) of
        Some reply \<Rightarrow> (w, reply)
      | None \<Rightarrow>
          let w1 = racing X (fst (race X tn inp)) w;
              mode = gate w1 confirm;
              w2 = log_call (Gated tn inp mode) w1
          in (racing X (snd (race X tn inp)) w2, client X tn inp mode))"

definition SKILLS_OFF :: string where
  "SKILLS_OFF = ''The skill library is turned off ([skills].enabled = false).''"

definition skill_invoke_dispatch :: "outside \<Rightarrow> string \<Rightarrow> json \<Rightarrow> bool \<Rightarrow> world \<Rightarrow> world \<times> string \<times> bool" where
  "skill_invoke_dispatch X name args confirm w =
     (case skill_consequential X name of
        None \<Rightarrow> (w, ''unknown skill '' @ quoted name @ ''. Use skill_list to see what'' @ [CHR 0x27] @ ''s available.'', True)
      | Some c \<Rightarrow>
          if c \<and> gate w confirm = ModeDryRun
          then (w, ''[dry run] '' @ quoted name @ '' is a consequential skill '' @ dash @
                   '' it would act outside the process. Enable consequential actions and confirm to run it.'', False)
          else (log_call (Skill name args c) w, skill_run X name args))"

definition FORGE_OFF :: string where
  "FORGE_OFF = ''Self-Forge is off '' @ dash @ '' enable [forge] in config to let me draft apps. While it is off I will not author, stage, or propose any app.''"

text \<open>
  \<open>dispatch_tool\<close>. Every tool of the consequential list but one computes \<open>gate(args.confirm)\<close> in its
  arm; \<open>forge_app\<close> has no \<open>confirm\<close> field and no gate, only its own configuration and the stop. Any
  other tool is handed to its arm as a plain call. Two of these arms, \<open>fury_mission\<close> and
  \<open>mission_resume\<close>, run tool loops of their own, whose calls pass the chokepoint again; they are not
  part of this step but requests of their own (\<open>requests_run\<close> in \<open>ChokeProofs\<close>).
\<close>

definition dispatch_tool :: "outside \<Rightarrow> string \<Rightarrow> json \<Rightarrow> string \<Rightarrow> bool \<Rightarrow> world \<Rightarrow> world \<times> string \<times> bool" where
  "dispatch_tool X tn inp ns user_originated w =
     (if is_mcp_flat_name tn then
        (case parse_flat_tool_name tn of
           None \<Rightarrow> (w, ''Malformed MCP tool id '' @ quoted tn @ ''.'', True)
         | Some (server, tool) \<Rightarrow>
             manager_call X tn (agent_id_from_namespace ns) server tool inp (gate w (confirm_flag inp)) w)
      else if starts_with ''app__'' tn then (log_call (App tn inp) w, app_tool X tn inp)
      else if tn = ''skill_invoke'' then
        (if \<not> skills_on X then (w, SKILLS_OFF, False)
         else case skill_args X inp of
           None \<Rightarrow> (w, bad_args X tn inp, True)
         | Some (name, args, confirm) \<Rightarrow> skill_invoke_dispatch X name args confirm w)
      else if tn = ''forge_app'' then
        (case parse_confirm X tn inp of
           None \<Rightarrow> (w, bad_args X tn inp, True)
         | Some _ \<Rightarrow> if \<not> (forge_on X \<and> \<not> is_locked_down (w_stop w)) then (w, FORGE_OFF, False)
                     else (log_call (Forge inp) w, forge_draft X inp))
      else if is_consequential_tool tn then
        (case parse_confirm X tn inp of
           None \<Rightarrow> (w, bad_args X tn inp, True)
         | Some confirm \<Rightarrow> gated_dispatch X tn inp confirm w)
      else (log_call (Plain tn inp user_originated) w, plain X tn inp user_originated))"

section \<open>The MCP route\<close>

datatype tool_effect = EffExecuted | EffParked | EffDryRun

definition VOICE_TARGET :: string where
  "VOICE_TARGET = ''voice-id refused (speaker not recognised)''"

definition downgrade_always_if_unattended :: "decision \<Rightarrow> bool \<Rightarrow> decision" where
  "downgrade_always_if_unattended dec context_trusted =
     (if \<not> context_trusted \<and> dec = Always then Ask else dec)"

definition policy_never_refusal :: "string \<Rightarrow> string \<Rightarrow> string" where
  "policy_never_refusal tn pv = apos ''I won'' ''t '' @ tn @ '' '' @ dash
     @ '' you have a standing policy set to never allow it ('' @ strip_dry_run pv @ ''). A '' @ quoted ''never''
     @ '' rule wins even with consequential actions enabled and a fresh confirmation; change it in Settings to lift the block.''"

definition park_record ::
    "outside \<Rightarrow> string \<Rightarrow> string \<Rightarrow> json \<Rightarrow> string list \<Rightarrow> string \<Rightarrow> plan option \<Rightarrow> pending" where
  "park_record X ag tn inp allowed pv pl =
     \<lparr> p_agent = ag, p_tool = tn, p_input = inp, p_allowed = allowed, p_preview = pv, p_created = o_now X,
       p_id = [], p_plan = pl \<rparr>"

definition park :: "outside \<Rightarrow> bool \<Rightarrow> pending \<Rightarrow> world \<Rightarrow> world \<times> string" where
  "park X heard p w =
     (let (c, prompt) = park_ctx (o_ext X) heard p (stop_confirm (w_stop w)) in (set_confirm c w, prompt))"

definition mcp_egress_refusal :: "string \<Rightarrow> string" where
  "mcp_egress_refusal flat = apos ''I won'' ''t call the '' @ quoted flat
     @ '' connector with arguments that came from a page or message I just read '' @ dash
     @ '' a hidden instruction could use it to carry your information off the device. Ask me to run it directly and I will.''"

definition execute_mcp_tool ::
    "outside \<Rightarrow> string \<Rightarrow> json \<Rightarrow> string \<Rightarrow> bool \<Rightarrow> bool \<Rightarrow> world \<Rightarrow> world \<times> string \<times> bool \<times> tool_effect" where
  "execute_mcp_tool X flat inp ns user_originated context_trusted w =
     (let agent = agent_id_from_namespace ns in
      case parse_flat_tool_name flat of
        None \<Rightarrow> (w, ''Malformed MCP tool id '' @ quoted flat @ ''.'', True, EffDryRun)
      | Some (server, tool) \<Rightarrow>
        if \<not> mcp_agent_may_use (w_mcp w) agent server
        then (w, ''This agent is not permitted to use the '' @ quoted flat @ '' MCP tool.'', True, EffDryRun)
        else
        let consequential = class_is_consequential (class_for_flat (w_mcp w) flat) in
        if \<not> user_originated \<and> \<not> consequential \<and> server_reaches_network (w_mcp w) server
        then (w, mcp_egress_refusal flat, True, EffDryRun)
        else if consequential \<and> \<not> allow_consequential (current_turn_gate (w_gate w))
        then (audit_row X ns flat VOICE_TARGET Ask BlockedByVoiceId w, unrecognized_refusal, True, EffDryRun)
        else if consequential then
          (let (w1, pv, err) = manager_call X flat agent server tool inp ModeDryRun w in
           if err then (w1, pv, True, EffDryRun)
           else
           let master_on = consequential_allowed w1;
               dec = downgrade_always_if_unattended (evaluate_global (w_policy w1) flat ns pv) context_trusted in
           if dec = Never then
             (audit_row X ns flat pv Never BlockedByPolicy w1, policy_never_refusal flat pv, True, EffDryRun)
           else if dec = Always \<and> master_on then
             (let w2 = audit_row X ns flat pv Always AutoApprovedByPolicy w1;
                  (w3, out, err2) = manager_call X flat agent server tool inp ModeExecute w2;
                  w4 = audit_row X ns flat pv Always (if err2 then DryRun else Executed) w3;
                  w5 = journal_row X ns flat inp pv out [] (\<not> err2) ''policy'' w4
              in (w5, out, err2, EffExecuted))
           else
             (let w2 = (if dec = Always then audit_row X ns flat pv Always AlwaysInertMasterOff w1 else w1) in
              if master_on then
                (let (w3, prompt) = park X context_trusted (park_record X ns flat inp [flat] pv None) w2
                 in (audit_row X ns flat pv Ask Parked w3, prompt, False, EffParked))
              else (audit_row X ns flat pv Ask DryRun w2, pv, False, EffDryRun)))
        else
          (let (w1, out, err) = manager_call X flat agent server tool inp ModeExecute w in
           (w1, out, err, EffDryRun)))"

section \<open>The tool call\<close>

definition outward_get_egress_refusal :: "string \<Rightarrow> json \<Rightarrow> string option" where
  "outward_get_egress_refusal tn inp =
     (let arg = (\<lambda>k. case jget_str inp k of None \<Rightarrow> [] | Some s \<Rightarrow> s) in
      if tn = ''open_url'' then
        (if trim (arg ''url'') = [] then None
         else Some (apos ''I won'' ''t open a URL that came from a page or message I just read '' @ dash
           @ '' a hidden instruction could use it (even the hostname, via a subdomain) to exfiltrate your information. If you want to open ''
           @ arg ''url'' @ '', ask me directly.''))
      else if tn = ''web_search'' then
        (if trim (arg ''query'') = [] then None
         else Some (apos ''I won'' ''t run a web search whose terms came from a page or message I just read '' @ dash
           @ '' that could carry your information out. Ask me to search directly and I will.''))
      else if tn = ''sage_research'' then
        (if trim (arg ''question'') = [] then None
         else Some (apos ''I won'' ''t run deep research whose question came from a page or message I just read '' @ dash
           @ '' that could carry your information out to the web. Ask me to research it directly and I will.''))
      else None)"

definition customs_withholds_recall :: "bool \<Rightarrow> trim_spec \<Rightarrow> string \<Rightarrow> bool \<Rightarrow> bool" where
  "customs_withholds_recall customs_on t tn cloud_bound \<longleftrightarrow>
     cloud_bound \<and> customs_on \<and> tn \<in> set (withheld_recall_tools t)"

definition skill_invoke_is_consequential :: "outside \<Rightarrow> json \<Rightarrow> bool" where
  "skill_invoke_is_consequential X inp =
     (case Option.bind (jget_str inp ''name'') (skill_consequential X) of None \<Rightarrow> False | Some c \<Rightarrow> c)"

definition tool_needs_park :: "outside \<Rightarrow> string \<Rightarrow> json \<Rightarrow> bool" where
  "tool_needs_park X tn inp \<longleftrightarrow>
     is_consequential_tool tn \<or> (tn = ''skill_invoke'' \<and> skill_invoke_is_consequential X inp)"

definition compute_plan :: "outside \<Rightarrow> string \<Rightarrow> json \<Rightarrow> bool \<Rightarrow> world \<Rightarrow> plan option" where
  "compute_plan X tn inp at_park w =
     (case w_plan w of None \<Rightarrow> None
      | Some P \<Rightarrow> if at_park then plan_for (o_ext X) P tn inp else recompute_plan (o_ext X) P tn inp)"

definition compose_prompt :: "string \<Rightarrow> string list \<Rightarrow> string" where
  "compose_prompt prompt notes =
     (if notes = [] then prompt else ''Second look: '' @ join ''; '' notes @ ''. '' @ prompt)"

definition guest_refusal :: "string \<Rightarrow> string" where
  "guest_refusal tn = ''Guest mode is active '' @ dash @ '' '' @ quoted tn
     @ '' is outside the read-only guest scope, so it was not run. A guest can ask and retrieve, but cannot take that action; the owner can run it.''"

definition not_permitted :: "string \<Rightarrow> string" where
  "not_permitted tn = ''This agent is not permitted to use the '' @ quoted tn @ '' tool.''"

definition customs_refusal :: "trim_spec \<Rightarrow> string" where
  "customs_refusal t = ''Withheld by the CUSTOMS egress policy (trim: '' @ trim_str t
     @ ''). This recall was not performed '' @ dash
     @ '' its category is excluded from what may leave the device this turn. Answer from the live request without it.''"

text \<open>The part of \<open>execute_tool_bound\<close> behind the allowlist and voice gates, for a tool that needs a park.\<close>

definition execute_gated ::
    "outside \<Rightarrow> string \<Rightarrow> json \<Rightarrow> string list \<Rightarrow> string \<Rightarrow> bool \<Rightarrow> bool \<Rightarrow> world
       \<Rightarrow> world \<times> string \<times> bool \<times> tool_effect" where
  "execute_gated X tn inp allowed ns user_originated context_trusted w =
     (let (w1, pv, err) = dispatch_tool X tn (force_confirm inp False) ns user_originated w in
      if err then (w1, pv, True, EffDryRun)
      else
      let master_on = consequential_allowed w1;
          dec = downgrade_always_if_unattended (evaluate_global (w_policy w1) tn ns pv) context_trusted in
      if dec = Never then
        (audit_row X ns tn pv Never BlockedByPolicy w1, policy_never_refusal tn pv, True, EffDryRun)
      else if dec = Always \<and> master_on then
        (let w2 = audit_row X ns tn pv Always AutoApprovedByPolicy w1;
             (w3, out, err2) = dispatch_tool X tn (force_confirm inp True) ns user_originated w2;
             w4 = audit_row X ns tn pv Always (if err2 then DryRun else Executed) w3;
             w5 = journal_row X ns tn inp pv out allowed (\<not> err2 \<and> consequential_allowed w4) ''policy'' w4
         in (w5, out, err2, EffExecuted))
      else
        (let w2 = (if dec = Always then audit_row X ns tn pv Always AlwaysInertMasterOff w1 else w1) in
         if master_on then
           (let pl = compute_plan X tn inp True w2;
                (w3, prompt) = park X context_trusted (park_record X ns tn inp allowed pv pl) w2
            in (audit_row X ns tn pv Ask Parked w3, compose_prompt prompt (second_look X tn inp), False, EffParked))
         else (audit_row X ns tn pv Ask DryRun w2, pv, False, EffDryRun)))"

definition execute_tool_bound ::
    "outside \<Rightarrow> string \<Rightarrow> json \<Rightarrow> string list \<Rightarrow> string \<Rightarrow> bool \<Rightarrow> bool \<Rightarrow> bool \<Rightarrow> world
       \<Rightarrow> world \<times> string \<times> bool \<times> tool_effect" where
  "execute_tool_bound X tn inp allowed ns user_originated context_trusted cloud_bound w =
     (case (if \<not> user_originated \<and> (tn = ''open_url'' \<or> tn = ''web_search'' \<or> tn = ''sage_research'')
            then outward_get_egress_refusal tn inp else None) of
        Some refusal \<Rightarrow> (w, refusal, True, EffDryRun)
      | None \<Rightarrow>
        let (customs_on, t) = gate_and_trim (w_boundary w) in
        if customs_withholds_recall customs_on t tn cloud_bound then (w, customs_refusal t, True, EffDryRun)
        else if (case w_scope w of None \<Rightarrow> False | Some sc \<Rightarrow> \<not> scope_admits sc tn)
        then (w, guest_refusal tn, True, EffDryRun)
        else if is_mcp_flat_name tn then execute_mcp_tool X tn inp ns user_originated context_trusted w
        else if \<not> admits allowed tn then (w, not_permitted tn, True, EffDryRun)
        else if tool_needs_park X tn inp \<and> \<not> allow_consequential (current_turn_gate (w_gate w))
        then (audit_row X ns tn VOICE_TARGET Ask BlockedByVoiceId w, unrecognized_refusal, True, EffDryRun)
        else if tool_needs_park X tn inp
        then execute_gated X tn inp allowed ns user_originated context_trusted w
        else (let (w1, out, err) = dispatch_tool X tn inp ns user_originated w in (w1, out, err, EffExecuted)))"

definition execute_tool ::
    "outside \<Rightarrow> string \<Rightarrow> json \<Rightarrow> string list \<Rightarrow> string \<Rightarrow> bool \<Rightarrow> bool \<Rightarrow> world
       \<Rightarrow> world \<times> string \<times> bool \<times> tool_effect" where
  "execute_tool X tn inp allowed ns user_originated context_trusted w =
     execute_tool_bound X tn inp allowed ns user_originated context_trusted True w"

section \<open>The confirmed replay\<close>

definition plan_drift_preview :: "string \<Rightarrow> plan \<Rightarrow> string" where
  "plan_drift_preview pv pl = ''The state changed since I showed you this '' @ dash
     @ apos '' here'' ''s the current plan. '' @ strip_dry_run pv @ '' ('' @ plan_summary pl @ '')''"

definition guest_confirm_refusal :: string where
  "guest_confirm_refusal = ''Guest mode is active '' @ dash @ '' only the owner can confirm a parked action, so ''
     @ apos ''I'' ''ve left it unrun. The owner can start it again.''"

definition replay_confirmed_action :: "outside \<Rightarrow> pending \<Rightarrow> world \<Rightarrow> world \<times> string \<times> bool" where
  "replay_confirmed_action X p w =
     (if \<not> allow_confirm_replay (current_turn_gate (w_gate w))
      then (audit_row X (p_agent p) (p_tool p) VOICE_TARGET Ask BlockedByVoiceId w, unrecognized_refusal, True)
      else if is_guest_turn (w_scope w) then (w, guest_confirm_refusal, True)
      else if \<not> admits (p_allowed p) (p_tool p) then (w, not_permitted (p_tool p), True)
      else case (if p_plan p \<noteq> None
                 then bind_state (p_plan p) (compute_plan X (p_tool p) (p_input p) False w) else Unplanned) of
        Drifted new_plan \<Rightarrow>
          (let (w1, prompt) = park X True
                 (park_record X (p_agent p) (p_tool p) (p_input p) (p_allowed p)
                    (plan_drift_preview (p_preview p) new_plan) (Some new_plan)) w
           in (w1, prompt, False))
      | _ \<Rightarrow>
          (let gate_before = consequential_allowed w;
               (w1, out, err) = dispatch_tool X (p_tool p) (force_confirm (p_input p) True) (p_agent p) True w;
               executed = (\<not> err \<and> ((gate_before \<and> consequential_allowed w1) \<or> \<not> master_gated (p_tool p)));
               w2 = journal_row X (p_agent p) (p_tool p) (p_input p) (p_preview p) out (p_allowed p) executed
                      ''confirm'' w1;
               w3 = audit_row X (p_agent p) (p_tool p) (p_preview p) Ask Confirmed w2;
               w4 = (if executed then audit_row X (p_agent p) (p_tool p) (p_preview p) Ask Executed w3 else w3)
           in (w4, out, err)))"

end
