(* ===== verification/ChokeProofs.thy ===== *)
theory ChokeProofs
  imports Chokepoint
begin

text \<open>
  What the chokepoint guarantees about the calls it lets out, and where the code falls short of what
  its comments promise. \<open>fires\<close> singles out the calls that act on the world.
\<close>

fun fires :: "call \<Rightarrow> bool" where
  "fires (Gated tn inp mode) = (mode = ModeExecute)"
| "fires (Forge inp) = True"
| "fires (Skill name args c) = c"
| "fires (McpCall flat agent args cls) = (cls = Consequential)"
| "fires (Plain tn inp uo) = False"
| "fires (App tn inp) = False"

definition new_calls :: "world \<Rightarrow> world \<Rightarrow> call list" where
  "new_calls w w' = drop (length (w_calls w)) (w_calls w')"

text \<open>
  Documented behaviour of \<open>serde\<close>: from a JSON object, the derived reader of an argument struct takes
  \<open>confirm\<close> (a \<open>bool\<close>, false when absent) and \<open>name\<close> (a required string) from the keys of that name.
\<close>

definition serde_objects :: "outside \<Rightarrow> bool" where
  "serde_objects X \<longleftrightarrow>
     (\<forall>tn m c. parse_confirm X tn (JObj m) = Some c \<longrightarrow> c = (map_of m ''confirm'' = Some (JBool True)))
   \<and> (\<forall>m n a c. skill_args X (JObj m) = Some (n, a, c) \<longrightarrow>
        map_of m ''name'' = Some (JStr n) \<and> c = (map_of m ''confirm'' = Some (JBool True)))"

text \<open>No unlock lands while a call is awaited: the stop may only be engaged by another task.\<close>

definition no_unlock :: "outside \<Rightarrow> bool" where
  "no_unlock X \<longleftrightarrow> (\<forall>tn inp. fst (race X tn inp) \<noteq> Some False \<and> snd (race X tn inp) \<noteq> Some False)"

section \<open>Frames\<close>

lemma world_frames [simp, state_frames]:
  "w_calls (audit_row X a t g d out w) = w_calls w" "w_calls (set_confirm c w) = w_calls w"
  "w_calls (journal_row X a t i p txt al b v w) = w_calls w" "w_calls (racing X r w) = w_calls w"
  "w_policy (audit_row X a t g d out w) = w_policy w" "w_policy (racing X r w) = w_policy w"
  "w_gate (audit_row X a t g d out w) = w_gate w" "w_gate (racing X r w) = w_gate w"
  "w_mcp (audit_row X a t g d out w) = w_mcp w" "w_mcp (racing X r w) = w_mcp w"
  "w_master (audit_row X a t g d out w) = w_master w" "w_master (racing X r w) = w_master w"
  "w_policy (log_call k w) = w_policy w" "w_master (log_call k w) = w_master w"
  "w_stop (log_call k w) = w_stop w" "w_calls (log_call k w) = w_calls w @ [k]"
  "w_stop (journal_row X a t i p txt al b v w) = w_stop w"
  "w_master (journal_row X a t i p txt al b v w) = w_master w"
  by (simp_all add: audit_row_def set_confirm_def journal_row_def racing_def log_call_def split: option.splits bool.splits)

lemma locked_frames [simp, state_frames]:
  "is_locked_down (w_stop (audit_row X a t g d out w)) = is_locked_down (w_stop w)"
  "consequential_allowed (audit_row X a t g d out w) = consequential_allowed w"
  "consequential_allowed (log_call k w) = consequential_allowed w"
  "consequential_allowed (journal_row X a t i p txt al b v w) = consequential_allowed w"
  by (simp_all add: consequential_allowed_def is_locked_down_def audit_row_def)

lemma park_frame: "park X h p w = (w', prompt) \<Longrightarrow> w_calls w' = w_calls w"
  by (auto simp: park_def split: prod.splits)

lemma panic_locks: "locked (fst (lockdown_panic E ts s))"
  by (simp add: lockdown_panic_def Let_def set_flag_def stop_record_def write_marker_def split: option.splits)

lemma racing_locks: "r \<noteq> Some False \<Longrightarrow> locked (w_stop w) \<Longrightarrow> locked (w_stop (racing X r w))"
  by (auto simp: racing_def panic_locks split: option.splits bool.splits)

lemma racing_allowed: "r \<noteq> Some False \<Longrightarrow> consequential_allowed (racing X r w) \<Longrightarrow> consequential_allowed w"
  using racing_locks [of r w X] by (auto simp: consequential_allowed_def is_locked_down_def split: if_splits)

lemma force_confirm_object: "force_confirm (JObj m) v = JObj (bt_insert ''confirm'' (JBool v) m)"
  by (simp add: force_confirm_def)

lemma serde_parse:
  "serde_objects X \<Longrightarrow> parse_confirm X tn (JObj m) = Some c \<Longrightarrow> c = (map_of m ''confirm'' = Some (JBool True))"
  unfolding serde_objects_def by blast

lemma serde_skill:
  "serde_objects X \<Longrightarrow> skill_args X (JObj m) = Some (n, a, c) \<Longrightarrow>
     map_of m ''name'' = Some (JStr n) \<and> c = (map_of m ''confirm'' = Some (JBool True))"
  unfolding serde_objects_def by blast

lemma is_object_iff: "is_object inp \<longleftrightarrow> (\<exists>m. inp = JObj m)"
  by (cases inp) (auto simp: is_object_def)

lemma serde_forced:
  assumes "serde_objects X" and "is_object inp" and "parse_confirm X tn (force_confirm inp v) = Some c"
  shows "c = v"
proof -
  obtain m where "inp = JObj m" using assms(2) is_object_iff by blast
  then have "c = (map_of (bt_insert ''confirm'' (JBool v) m) ''confirm'' = Some (JBool True))"
    using assms(3) by (intro serde_parse [OF assms(1)]) (simp add: force_confirm_object)
  then show ?thesis by (simp add: map_of_bt_insert)
qed

lemma serde_forced_skill:
  assumes "serde_objects X" and "is_object inp" and "skill_args X (force_confirm inp v) = Some (n, a, c)"
  shows "c = v \<and> jget_str inp ''name'' = Some n"
proof -
  obtain m where m: "inp = JObj m" using assms(2) is_object_iff by blast
  then have "map_of (bt_insert ''confirm'' (JBool v) m) ''name'' = Some (JStr n)"
    "c = (map_of (bt_insert ''confirm'' (JBool v) m) ''confirm'' = Some (JBool True))"
    using serde_skill [OF assms(1)] assms(3) by (simp_all add: force_confirm_object)
  then show ?thesis using m by (simp add: map_of_bt_insert jget_str_def jget_def as_str_def)
qed

section \<open>One dispatch\<close>

lemma manager_call_calls:
  assumes "manager_call X flat agent server tool args mode w = (w', out, err)"
  shows "w_stop w' = w_stop w \<and> w_master w' = w_master w \<and> w_policy w' = w_policy w \<and> w_gate w' = w_gate w
    \<and> (w_calls w' = w_calls w
       \<or> (\<exists>cls. w_calls w' = w_calls w @ [McpCall flat agent args cls]
            \<and> tool_class_of (w_mcp w) server tool = Some cls
            \<and> \<not> is_locked_down (w_stop w) \<and> mcp_agent_may_use (w_mcp w) agent server
            \<and> (cls = Consequential \<longrightarrow> mode = ModeExecute)))"
proof -
  obtain m r sent where m: "mcp_call (server_reply X) (is_locked_down (w_stop w)) agent server tool args mode (w_mcp w)
      = (m, r, sent)" by (metis prod_cases3)
  show ?thesis
  proof (cases sent)
    case None
    then show ?thesis using assms m by (auto simp: manager_call_def Let_def)
  next
    case (Some req)
    obtain c c' where a: "\<not> is_locked_down (w_stop w)" "mcp_agent_may_use (w_mcp w) agent server"
      "map_of (mcp_clients (w_mcp w)) server = Some c"
      "client_call (server_reply X server) c tool args mode = (c', r, Some req)"
      using mcp_call_sent m Some by blast
    obtain d where d: "find_tool c tool = Some d" "dt_class d = Consequential \<longrightarrow> mode = ModeExecute"
      using client_call_sent [OF a(4)] by blast
    have "tool_class_of (w_mcp w) server tool = Some (dt_class d)" using a d by (simp add: tool_class_of_def)
    then show ?thesis using assms m Some a d by (auto simp: manager_call_def Let_def log_call_def)
  qed
qed

text \<open>
  A dispatch makes at most one call; the call is of this tool, and when it fires, the gate was open
  and the arguments asked for it.
\<close>

definition dispatch_call_ok :: "outside \<Rightarrow> string \<Rightarrow> json \<Rightarrow> string \<Rightarrow> world \<Rightarrow> call \<Rightarrow> bool" where
  "dispatch_call_ok X tn inp ns w c =
     (case c of
        Gated t i mode \<Rightarrow> t = tn \<and> i = inp \<and> is_consequential_tool tn \<and> tn \<noteq> ''forge_app'' \<and>
          (mode = ModeExecute \<longrightarrow>
             consequential_allowed (racing X (fst (race X tn inp)) w) \<and> parse_confirm X tn inp = Some True)
      | Forge i \<Rightarrow> tn = ''forge_app'' \<and> i = inp \<and> \<not> is_locked_down (w_stop w)
      | Skill n a k \<Rightarrow> tn = ''skill_invoke'' \<and> skill_consequential X n = Some k \<and>
          (\<exists>cf. skill_args X inp = Some (n, a, cf) \<and> (k \<longrightarrow> consequential_allowed w \<and> cf))
      | McpCall f ag i cls \<Rightarrow> f = tn \<and> i = inp \<and> ag = agent_id_from_namespace ns \<and> is_mcp_flat_name tn \<and>
          \<not> is_locked_down (w_stop w) \<and>
          (\<exists>server tool. parse_flat_tool_name tn = Some (server, tool) \<and> mcp_agent_may_use (w_mcp w) ag server) \<and>
          (cls = Consequential \<longrightarrow> consequential_allowed w \<and> confirm_flag inp)
      | Plain t i uo \<Rightarrow> t = tn \<and> i = inp \<and> \<not> is_consequential_tool tn
      | App t i \<Rightarrow> t = tn \<and> i = inp \<and> starts_with ''app__'' tn)"

lemma gated_dispatch_calls:
  assumes "gated_dispatch X tn inp confirm w = (w', out, err)"
    and "is_consequential_tool tn" and "tn \<noteq> ''forge_app''" and "parse_confirm X tn inp = Some confirm"
  shows "w_calls w' = w_calls w \<or> (\<exists>c. w_calls w' = w_calls w @ [c] \<and> dispatch_call_ok X tn inp ns w c)"
  using assms
  by (auto simp: gated_dispatch_def Let_def dispatch_call_ok_def gate_Execute split: option.splits)

lemma skill_dispatch_calls:
  assumes "skill_invoke_dispatch X name args confirm w = (w', out, err)"
    and "skill_args X inp = Some (name, args, confirm)"
  shows "w_calls w' = w_calls w
    \<or> (\<exists>c. w_calls w' = w_calls w @ [c] \<and> dispatch_call_ok X ''skill_invoke'' inp ns w c)"
proof (cases "skill_consequential X name")
  case None
  then show ?thesis using assms by (simp add: skill_invoke_dispatch_def)
next
  case (Some k)
  have "k \<Longrightarrow> gate w confirm \<noteq> ModeDryRun \<Longrightarrow> consequential_allowed w \<and> confirm"
    by (auto simp: gate_def split: if_splits)
  then show ?thesis
    using assms Some by (cases "k \<and> gate w confirm = ModeDryRun") (auto simp: skill_invoke_dispatch_def dispatch_call_ok_def)
qed

lemma dispatch_calls:
  assumes "dispatch_tool X tn inp ns uo w = (w', out, err)"
  shows "w_calls w' = w_calls w \<or> (\<exists>c. w_calls w' = w_calls w @ [c] \<and> dispatch_call_ok X tn inp ns w c)"
proof -
  consider "is_mcp_flat_name tn" | "\<not> is_mcp_flat_name tn" "starts_with ''app__'' tn"
    | "\<not> is_mcp_flat_name tn" "\<not> starts_with ''app__'' tn" "tn = ''skill_invoke''"
    | "\<not> is_mcp_flat_name tn" "\<not> starts_with ''app__'' tn" "tn = ''forge_app''"
    | "\<not> is_mcp_flat_name tn" "\<not> starts_with ''app__'' tn" "tn \<noteq> ''skill_invoke''" "tn \<noteq> ''forge_app''"
      "is_consequential_tool tn"
    | "\<not> is_mcp_flat_name tn" "\<not> starts_with ''app__'' tn" "tn \<noteq> ''skill_invoke''" "tn \<noteq> ''forge_app''"
      "\<not> is_consequential_tool tn" by blast
  then show ?thesis
  proof cases
    case 1
    show ?thesis
    proof (cases "parse_flat_tool_name tn")
      case None
      then show ?thesis using 1 assms by (simp add: dispatch_tool_def)
    next
      case (Some st)
      then obtain server tool where st: "parse_flat_tool_name tn = Some (server, tool)" by (cases st) auto
      then have "manager_call X tn (agent_id_from_namespace ns) server tool inp (gate w (confirm_flag inp)) w = (w', out, err)"
        using 1 assms by (simp add: dispatch_tool_def)
      from manager_call_calls [OF this] show ?thesis
        using 1 st by (auto simp: dispatch_call_ok_def gate_Execute)
    qed
  next
    case 3
    show ?thesis
    proof (cases "skills_on X \<and> skill_args X inp \<noteq> None")
      case True
      then obtain n a c where "skill_args X inp = Some (n, a, c)" by auto
      then show ?thesis using 3 True assms skill_dispatch_calls [of X n a c w w' out err inp ns]
        by (simp add: dispatch_tool_def)
    next
      case False
      then show ?thesis
        using 3 assms by (cases "skills_on X"; cases "skill_args X inp") (auto simp: dispatch_tool_def)
    qed
  next
    case 5
    show ?thesis
    proof (cases "parse_confirm X tn inp")
      case None
      then show ?thesis using 5 assms by (simp add: dispatch_tool_def)
    next
      case (Some c)
      then have "gated_dispatch X tn inp c w = (w', out, err)" using 5 assms by (simp add: dispatch_tool_def)
      from gated_dispatch_calls [OF this] show ?thesis using 5 Some by blast
    qed
  qed (use assms in \<open>auto simp: dispatch_tool_def skill_invoke_dispatch_def dispatch_call_ok_def gate_def
         split: option.splits if_splits\<close>)
qed

text \<open>What a dispatch leaves alone, and that it never opens the gate.\<close>

definition dispatch_frame :: "outside \<Rightarrow> world \<Rightarrow> world \<Rightarrow> bool" where
  "dispatch_frame X w w' \<longleftrightarrow> w_policy w' = w_policy w \<and> w_gate w' = w_gate w \<and> w_master w' = w_master w
     \<and> (no_unlock X \<longrightarrow> locked (w_stop w) \<longrightarrow> locked (w_stop w'))"

lemma dispatch_frame_refl: "dispatch_frame X w w"
  by (simp add: dispatch_frame_def)

lemma dispatch_frame_log: "dispatch_frame X w (log_call c w)"
  by (simp add: dispatch_frame_def log_call_def)

lemma dispatch_frame_allowed:
  "dispatch_frame X w w' \<Longrightarrow> no_unlock X \<Longrightarrow> consequential_allowed w' \<Longrightarrow> consequential_allowed w"
  by (auto simp: dispatch_frame_def consequential_allowed_def is_locked_down_def split: if_splits)

lemma no_unlock_race: "no_unlock X \<Longrightarrow> fst (race X tn inp) \<noteq> Some False \<and> snd (race X tn inp) \<noteq> Some False"
  by (simp add: no_unlock_def)

lemma gated_dispatch_frame: "gated_dispatch X tn inp c w = (w', out, err) \<Longrightarrow> dispatch_frame X w w'"
proof (cases "pre_gate X tn inp (is_locked_down (w_stop w))")
  case None
  assume "gated_dispatch X tn inp c w = (w', out, err)"
  then have w': "w' = racing X (snd (race X tn inp))
      (log_call (Gated tn inp (gate (racing X (fst (race X tn inp)) w) c)) (racing X (fst (race X tn inp)) w))"
    using None by (simp add: gated_dispatch_def Let_def)
  have "no_unlock X \<Longrightarrow> locked (w_stop w) \<Longrightarrow> locked (w_stop w')"
    unfolding w' using no_unlock_race by (intro racing_locks) (auto intro!: racing_locks simp: log_call_def)
  then show ?thesis
    unfolding dispatch_frame_def w' by (simp add: log_call_def)
qed (auto simp: gated_dispatch_def dispatch_frame_refl)

lemma skill_dispatch_frame: "skill_invoke_dispatch X n a c w = (w', out, err) \<Longrightarrow> dispatch_frame X w w'"
  by (auto simp: skill_invoke_dispatch_def dispatch_frame_refl dispatch_frame_log split: option.splits if_splits)

lemma manager_call_frame: "manager_call X f ag s t i m w = (w', out, err) \<Longrightarrow> dispatch_frame X w w'"
  using manager_call_calls [of X f ag s t i m w w' out err] by (simp add: dispatch_frame_def)

lemma dispatch_tool_frame: "dispatch_tool X tn inp ns uo w = (w', out, err) \<Longrightarrow> dispatch_frame X w w'"
  unfolding dispatch_tool_def
  by (auto simp: dispatch_frame_refl dispatch_frame_log split: if_splits option.splits
      dest: gated_dispatch_frame skill_dispatch_frame manager_call_frame)

section \<open>One tool call\<close>

text \<open>The preview the policy is asked about: the reply of the dry run of the call.\<close>

definition call_preview :: "outside \<Rightarrow> string \<Rightarrow> json \<Rightarrow> string \<Rightarrow> bool \<Rightarrow> world \<Rightarrow> string" where
  "call_preview X tn inp ns uo w =
     (if is_mcp_flat_name tn then
        (case parse_flat_tool_name tn of None \<Rightarrow> []
         | Some (server, tool) \<Rightarrow>
             fst (snd (manager_call X tn (agent_id_from_namespace ns) server tool inp ModeDryRun w)))
      else fst (snd (dispatch_tool X tn (force_confirm inp False) ns uo w)))"

definition authorised ::
    "outside \<Rightarrow> string \<Rightarrow> json \<Rightarrow> string list \<Rightarrow> string \<Rightarrow> bool \<Rightarrow> bool \<Rightarrow> world \<Rightarrow> call \<Rightarrow> bool" where
  "authorised X tn inp allowed ns user_originated context_trusted w c \<longleftrightarrow>
     consequential_allowed w \<and> context_trusted
     \<and> allow_consequential (current_turn_gate (w_gate w))
     \<and> (case w_scope w of None \<Rightarrow> True | Some sc \<Rightarrow> scope_admits sc tn)
     \<and> evaluate_global (w_policy w) tn ns (call_preview X tn inp ns user_originated w) = Always
     \<and> (if is_mcp_flat_name tn then
          (case parse_flat_tool_name tn of None \<Rightarrow> False
           | Some (server, tool) \<Rightarrow> mcp_agent_may_use (w_mcp w) (agent_id_from_namespace ns) server)
          \<and> c = McpCall tn (agent_id_from_namespace ns) inp Consequential
        else admits allowed tn
          \<and> (case c of Gated t i mode \<Rightarrow> t = tn \<and> i = force_confirm inp True \<and> mode = ModeExecute
             | Skill n a k \<Rightarrow> tn = ''skill_invoke'' \<and> jget_str inp ''name'' = Some n
                 \<and> skill_args X (force_confirm inp True) = Some (n, a, True) \<and> skill_consequential X n = Some k
             | _ \<Rightarrow> False))"

text \<open>What may be said of the one tool that does not wait for a policy.\<close>

definition forge_call :: "json \<Rightarrow> string list \<Rightarrow> world \<Rightarrow> call \<Rightarrow> bool" where
  "forge_call inp allowed w c \<longleftrightarrow>
     (\<exists>v. c = Forge (force_confirm inp v)) \<and> \<not> is_locked_down (w_stop w) \<and> admits allowed ''forge_app''
     \<and> allow_consequential (current_turn_gate (w_gate w))
     \<and> (case w_scope w of None \<Rightarrow> True | Some sc \<Rightarrow> scope_admits sc ''forge_app'')"

text \<open>At most one firing call, and only an authorised one.\<close>

definition only_authorised ::
    "outside \<Rightarrow> string \<Rightarrow> json \<Rightarrow> string list \<Rightarrow> string \<Rightarrow> bool \<Rightarrow> bool \<Rightarrow> world
       \<Rightarrow> world \<times> string \<times> bool \<times> tool_effect \<Rightarrow> bool" where
  "only_authorised X tn inp allowed ns uo ct w res \<longleftrightarrow>
     (case res of (w', out, err, eff) \<Rightarrow>
        if tn = ''forge_app'' then list_all (forge_call inp allowed w) (filter fires (new_calls w w'))
        else (case filter fires (new_calls w w') of
          [] \<Rightarrow> True
        | [c] \<Rightarrow> authorised X tn inp allowed ns uo ct w c \<and> eff = EffExecuted
        | _ \<Rightarrow> False))"

lemma only_authorised_same: "w_calls w' = w_calls w \<Longrightarrow> only_authorised X tn inp al ns uo ct w (w', out, err, eff)"
  by (simp add: only_authorised_def new_calls_def)

lemma only_authorised_quiet:
  "w_calls w' = w_calls w @ cs \<Longrightarrow> filter fires cs = [] \<Longrightarrow>
     only_authorised X tn inp al ns uo ct w (w', out, err, eff)"
  by (simp add: only_authorised_def new_calls_def)

lemma only_authorised_one:
  "w_calls w' = w_calls w @ cs \<Longrightarrow> filter fires cs = [c] \<Longrightarrow> tn \<noteq> ''forge_app'' \<Longrightarrow>
     authorised X tn inp al ns uo ct w c \<Longrightarrow> only_authorised X tn inp al ns uo ct w (w', out, err, EffExecuted)"
  by (simp add: only_authorised_def new_calls_def)

lemma only_authorised_forge:
  "w_calls w' = w_calls w @ cs \<Longrightarrow> list_all (forge_call inp al w) cs \<Longrightarrow>
     only_authorised X ''forge_app'' inp al ns uo ct w (w', out, err, eff)"
  by (auto simp: only_authorised_def new_calls_def list_all_iff)

lemma dispatch_new:
  assumes "dispatch_tool X tn inp ns uo w = (w', out, err)"
  obtains cs where "w_calls w' = w_calls w @ cs" "length cs \<le> 1" "list_all (dispatch_call_ok X tn inp ns w) cs"
proof (cases "w_calls w' = w_calls w")
  case True
  then show ?thesis using that [of "[]"] by simp
next
  case False
  then obtain c where "w_calls w' = w_calls w @ [c]" "dispatch_call_ok X tn inp ns w c"
    using dispatch_calls [OF assms] by blast
  then show ?thesis using that [of "[c]"] by simp
qed

text \<open>The dry-run preview of a gated tool fires nothing.\<close>

lemma preview_quiet:
  assumes "serde_objects X" and "is_object inp" and "tn \<noteq> ''forge_app''" and "\<not> is_mcp_flat_name tn"
    and "dispatch_call_ok X tn (force_confirm inp False) ns w c"
  shows "\<not> fires c"
  using assms(3-5) serde_forced [OF assms(1,2), of tn False] serde_forced_skill [OF assms(1,2), of False]
  by (cases c) (auto simp: dispatch_call_ok_def)

lemma confirmed_call:
  assumes "serde_objects X" and "is_object inp" and "tn \<noteq> ''forge_app''" and "\<not> is_mcp_flat_name tn"
    and "dispatch_call_ok X tn (force_confirm inp True) ns w c" and "fires c" and "no_unlock X"
  shows "consequential_allowed w \<and> (case c of Gated t i mode \<Rightarrow> t = tn \<and> i = force_confirm inp True \<and> mode = ModeExecute
             | Skill n a k \<Rightarrow> tn = ''skill_invoke'' \<and> jget_str inp ''name'' = Some n
                 \<and> skill_args X (force_confirm inp True) = Some (n, a, True) \<and> skill_consequential X n = Some k
             | _ \<Rightarrow> False)"
  using assms(3-6) serde_forced_skill [OF assms(1,2), of True] no_unlock_race [OF assms(7)]
    racing_allowed [of "fst (race X tn (force_confirm inp True))" X w]
  by (cases c) (auto simp: dispatch_call_ok_def)

lemma short_filter: "length cs \<le> 1 \<Longrightarrow> filter P cs = [] \<or> (\<exists>c. filter P cs = [c] \<and> c \<in> set cs \<and> P c)"
  by (cases cs) (auto split: if_splits)

lemma downgrade_Always: "downgrade_always_if_unattended d ct = Always \<longleftrightarrow> d = Always \<and> ct"
  by (simp add: downgrade_always_if_unattended_def)

lemma downgrade_Never: "downgrade_always_if_unattended d ct = Never \<longleftrightarrow> d = Never"
  by (auto simp: downgrade_always_if_unattended_def)

text \<open>The outcomes of the gated tail: the auto-approved execution, or nothing beyond the preview.\<close>

lemma execute_gated_cases:
  assumes "execute_gated X tn inp al ns uo ct w = (w', out, err, eff)"
  obtains (quiet) w1 pv e where "dispatch_tool X tn (force_confirm inp False) ns uo w = (w1, pv, e)"
      "w_calls w' = w_calls w1"
  | (fired) w1 pv w3 out2 e2 where "dispatch_tool X tn (force_confirm inp False) ns uo w = (w1, pv, False)"
      "evaluate_global (w_policy w1) tn ns pv = Always" "ct" "consequential_allowed w1"
      "dispatch_tool X tn (force_confirm inp True) ns uo (audit_row X ns tn pv Always AutoApprovedByPolicy w1) = (w3, out2, e2)"
      "w_calls w' = w_calls w3" "eff = EffExecuted"
proof -
  obtain w1 pv e where d: "dispatch_tool X tn (force_confirm inp False) ns uo w = (w1, pv, e)" by (metis prod_cases3)
  define dec where "dec = downgrade_always_if_unattended (evaluate_global (w_policy w1) tn ns pv) ct"
  note u = assms [unfolded execute_gated_def Let_def d prod.case dec_def [symmetric]]
  show ?thesis
  proof (cases "e \<or> dec = Never \<or> \<not> (dec = Always \<and> consequential_allowed w1)")
    case True
    then have "w_calls w' = w_calls w1"
      using u by (auto split: if_splits prod.splits dest: park_frame)
    with quiet d show ?thesis by blast
  next
    case False
    obtain w3 out2 e2 where d2: "dispatch_tool X tn (force_confirm inp True) ns uo
        (audit_row X ns tn pv Always AutoApprovedByPolicy w1) = (w3, out2, e2)" by (metis prod_cases3)
    have "w_calls w' = w_calls w3" "eff = EffExecuted"
      using u False d2 by auto
    then show ?thesis using fired d d2 False by (auto simp: dec_def downgrade_Always)
  qed
qed

lemma execute_gated_authorised:
  assumes "serde_objects X" and "no_unlock X" and "is_object inp" and "tn \<noteq> ''forge_app''"
    and "\<not> is_mcp_flat_name tn" and "admits al tn" and "allow_consequential (current_turn_gate (w_gate w))"
    and "case w_scope w of None \<Rightarrow> True | Some sc \<Rightarrow> scope_admits sc tn"
  shows "only_authorised X tn inp al ns uo ct w (execute_gated X tn inp al ns uo ct w)"
proof -
  obtain w' out err eff where res: "execute_gated X tn inp al ns uo ct w = (w', out, err, eff)"
    by (metis prod_cases4)
  have quiet: "filter fires cs = []" if "list_all (dispatch_call_ok X tn (force_confirm inp False) ns w) cs" for cs
    using that preview_quiet [OF assms(1,3,4,5)] by (auto simp: list_all_iff filter_empty_conv)
  from res show ?thesis
  proof (cases rule: execute_gated_cases)
    case (quiet w1 pv e)
    obtain cs where "w_calls w1 = w_calls w @ cs" "list_all (dispatch_call_ok X tn (force_confirm inp False) ns w) cs"
      using dispatch_new [OF quiet(1)] by metis
    then show ?thesis unfolding res using quiet(2) \<open>\<And>cs. _ \<Longrightarrow> filter fires cs = []\<close>
      by (intro only_authorised_quiet) auto
  next
    case (fired w1 pv w3 out2 e2)
    let ?w2 = "audit_row X ns tn pv Always AutoApprovedByPolicy w1"
    obtain cs where cs: "w_calls w1 = w_calls w @ cs" "list_all (dispatch_call_ok X tn (force_confirm inp False) ns w) cs"
      using dispatch_new [OF fired(1)] by metis
    obtain ds where ds: "w_calls w3 = w_calls ?w2 @ ds" "length ds \<le> 1"
      "list_all (dispatch_call_ok X tn (force_confirm inp True) ns ?w2) ds"
      using dispatch_new [OF fired(5)] by metis
    have calls: "w_calls w' = w_calls w @ (cs @ ds)" using fired(6) ds(1) cs(1) by simp
    have fr: "dispatch_frame X w w1" by (rule dispatch_tool_frame [OF fired(1)])
    have allowed: "consequential_allowed w" by (rule dispatch_frame_allowed [OF fr assms(2) fired(4)])
    have "call_preview X tn inp ns uo w = pv" using fired(1) assms(5) by (simp add: call_preview_def)
    then have pol: "evaluate_global (w_policy w) tn ns (call_preview X tn inp ns uo w) = Always"
      using fired(2) fr by (simp add: dispatch_frame_def)
    from short_filter [OF ds(2), of fires] show ?thesis
    proof (elim disjE exE conjE)
      assume "filter fires ds = []"
      then show ?thesis unfolding res using quiet [OF cs(2)] by (intro only_authorised_quiet [OF calls]) simp
    next
      fix c assume c: "filter fires ds = [c]" "c \<in> set ds" "fires c"
      have "dispatch_call_ok X tn (force_confirm inp True) ns ?w2 c" using c(2) ds(3) by (simp add: list_all_iff)
      from confirmed_call [OF assms(1,3,4,5) this c(3) assms(2)]
      have "authorised X tn inp al ns uo ct w c"
        unfolding authorised_def using allowed pol fired(3) assms(5-8) by auto
      then show ?thesis
        unfolding res fired(7) using quiet [OF cs(2)] c(1) assms(4) by (intro only_authorised_one [OF calls]) simp_all
    qed
  qed
qed

text \<open>\<open>forge_app\<close> on the same tail: the preview may fire, but only this tool, and never under a stop.\<close>

lemma forge_calls:
  assumes "dispatch_tool X ''forge_app'' (force_confirm inp v) ns uo w = (w', out, err)"
    and "admits al ''forge_app''" and "allow_consequential (current_turn_gate (w_gate w0))"
    and "case w_scope w0 of None \<Rightarrow> True | Some sc \<Rightarrow> scope_admits sc ''forge_app''"
    and "\<not> is_locked_down (w_stop w) \<Longrightarrow> \<not> is_locked_down (w_stop w0)"
  obtains cs where "w_calls w' = w_calls w @ cs" "list_all (forge_call inp al w0) cs"
proof -
  obtain cs where cs: "w_calls w' = w_calls w @ cs" "list_all (dispatch_call_ok X ''forge_app'' (force_confirm inp v) ns w) cs"
    using dispatch_new [OF assms(1)] by metis
  have "is_consequential_tool ''forge_app''" "\<not> is_mcp_flat_name ''forge_app''" "\<not> starts_with ''app__'' ''forge_app''"
    by code_simp+
  then have "forge_call inp al w0 c" if "dispatch_call_ok X ''forge_app'' (force_confirm inp v) ns w c" for c
    using that assms(2-5) by (cases c) (auto simp: dispatch_call_ok_def forge_call_def)
  then show ?thesis using that [OF cs(1)] cs(2) by (simp add: list_all_iff)
qed

lemma execute_gated_forge:
  assumes "no_unlock X" and "admits al ''forge_app''" and "allow_consequential (current_turn_gate (w_gate w))"
    and "case w_scope w of None \<Rightarrow> True | Some sc \<Rightarrow> scope_admits sc ''forge_app''"
  shows "only_authorised X ''forge_app'' inp al ns uo ct w (execute_gated X ''forge_app'' inp al ns uo ct w)"
proof -
  obtain w' out err eff where res: "execute_gated X ''forge_app'' inp al ns uo ct w = (w', out, err, eff)"
    by (metis prod_cases4)
  from res show ?thesis
  proof (cases rule: execute_gated_cases)
    case (quiet w1 pv e)
    obtain cs where "w_calls w1 = w_calls w @ cs" "list_all (forge_call inp al w) cs"
      by (rule forge_calls [OF quiet(1) assms(2-4)])
    then show ?thesis unfolding res using quiet(2) by (intro only_authorised_forge) simp_all
  next
    case (fired w1 pv w3 out2 e2)
    let ?w2 = "audit_row X ns ''forge_app'' pv Always AutoApprovedByPolicy w1"
    obtain cs where cs: "w_calls w1 = w_calls w @ cs" "list_all (forge_call inp al w) cs"
      by (rule forge_calls [OF fired(1) assms(2-4)])
    have "\<not> is_locked_down (w_stop ?w2) \<Longrightarrow> \<not> is_locked_down (w_stop w)"
      unfolding locked_frames using dispatch_tool_frame [OF fired(1)] assms(1)
      by (auto simp: dispatch_frame_def is_locked_down_def)
    then obtain ds where ds: "w_calls w3 = w_calls ?w2 @ ds" "list_all (forge_call inp al w) ds"
      using forge_calls [OF fired(5) assms(2-4)] by metis
    then show ?thesis
      unfolding res using fired(6) cs ds by (intro only_authorised_forge [where cs = "cs @ ds"]) simp_all
  qed
qed

text \<open>The MCP twin.\<close>

lemma class_for_flat_parse:
  "parse_flat_tool_name flat = Some (server, tool) \<Longrightarrow>
     class_for_flat m flat = (case tool_class_of m server tool of None \<Rightarrow> Consequential | Some k \<Rightarrow> k)"
  by (simp add: class_for_flat_def)

lemma mcp_preview_silent:
  assumes "manager_call X flat agent server tool inp ModeDryRun w = (w1, pv, e)"
    and "parse_flat_tool_name flat = Some (server, tool)" and "class_for_flat (w_mcp w) flat = Consequential"
  shows "w_calls w1 = w_calls w"
  using manager_call_calls [OF assms(1)] class_for_flat_parse [OF assms(2), of "w_mcp w"] assms(3) by auto

lemma execute_mcp_cases:
  assumes "execute_mcp_tool X flat inp ns uo ct w = (w', out, err, eff)"
  obtains (silent) "w_calls w' = w_calls w"
  | (read_only) server tool out1 e1 where "parse_flat_tool_name flat = Some (server, tool)"
      "class_for_flat (w_mcp w) flat = ReadOnly"
      "manager_call X flat (agent_id_from_namespace ns) server tool inp ModeExecute w = (w', out1, e1)"
  | (fired) server tool w1 pv w3 out2 e2 where "parse_flat_tool_name flat = Some (server, tool)"
      "mcp_agent_may_use (w_mcp w) (agent_id_from_namespace ns) server"
      "allow_consequential (current_turn_gate (w_gate w))"
      "manager_call X flat (agent_id_from_namespace ns) server tool inp ModeDryRun w = (w1, pv, False)"
      "w_calls w1 = w_calls w" "evaluate_global (w_policy w1) flat ns pv = Always" "ct" "consequential_allowed w1"
      "manager_call X flat (agent_id_from_namespace ns) server tool inp ModeExecute
         (audit_row X ns flat pv Always AutoApprovedByPolicy w1) = (w3, out2, e2)"
      "w_calls w' = w_calls w3" "eff = EffExecuted"
proof (cases "parse_flat_tool_name flat")
  case None
  then show ?thesis using assms silent by (simp add: execute_mcp_tool_def)
next
  case (Some st)
  obtain server tool where st: "parse_flat_tool_name flat = Some (server, tool)" using Some by (cases st) auto
  let ?ag = "agent_id_from_namespace ns"
  note u = assms [unfolded execute_mcp_tool_def Let_def st option.case prod.case]
  show ?thesis
  proof (cases "class_for_flat (w_mcp w) flat")
    case ReadOnly
    obtain w1 out1 e1 where m: "manager_call X flat ?ag server tool inp ModeExecute w = (w1, out1, e1)"
      by (metis prod_cases3)
    then have "w' = w1 \<or> w' = w" using u ReadOnly by (auto simp: class_is_consequential_def split: if_splits)
    then show ?thesis using silent read_only [OF st ReadOnly] m by blast
  next
    case Consequential
    obtain w1 pv e where m: "manager_call X flat ?ag server tool inp ModeDryRun w = (w1, pv, e)"
      by (metis prod_cases3)
    have c1: "w_calls w1 = w_calls w" by (rule mcp_preview_silent [OF m st Consequential])
    define dec where "dec = downgrade_always_if_unattended (evaluate_global (w_policy w1) flat ns pv) ct"
    note v = u [unfolded m prod.case dec_def [symmetric]]
    show ?thesis
    proof (cases "\<not> mcp_agent_may_use (w_mcp w) ?ag server \<or> \<not> allow_consequential (current_turn_gate (w_gate w))
        \<or> e \<or> dec = Never \<or> \<not> (dec = Always \<and> consequential_allowed w1)")
      case True
      then have "w_calls w' = w_calls w"
        using v c1 Consequential by (auto simp: class_is_consequential_def split: if_splits prod.splits dest: park_frame)
      with silent show ?thesis .
    next
      case False
      obtain w3 out2 e2 where m2: "manager_call X flat ?ag server tool inp ModeExecute
          (audit_row X ns flat pv Always AutoApprovedByPolicy w1) = (w3, out2, e2)" by (metis prod_cases3)
      have "w_calls w' = w_calls w3" "eff = EffExecuted"
        using v m2 False Consequential by (auto simp: class_is_consequential_def)
      then show ?thesis
        using fired [OF st] False m m2 c1 by (auto simp: dec_def downgrade_Always)
    qed
  qed
qed

lemma execute_mcp_authorised:
  assumes "no_unlock X" and "is_mcp_flat_name flat"
    and "case w_scope w of None \<Rightarrow> True | Some sc \<Rightarrow> scope_admits sc flat"
  shows "only_authorised X flat inp al ns uo ct w (execute_mcp_tool X flat inp ns uo ct w)"
proof -
  obtain w' out err eff where res: "execute_mcp_tool X flat inp ns uo ct w = (w', out, err, eff)"
    by (metis prod_cases4)
  have "\<not> is_mcp_flat_name ''forge_app''" by code_simp
  then have forge: "flat \<noteq> ''forge_app''" using assms(2) by auto
  from res show ?thesis
  proof (cases rule: execute_mcp_cases)
    case silent
    then show ?thesis unfolding res by (rule only_authorised_same)
  next
    case (read_only server tool out1 e1)
    have "tool_class_of (w_mcp w) server tool \<noteq> Some Consequential"
      using class_for_flat_parse [OF read_only(1), of "w_mcp w"] read_only(2) by auto
    then show ?thesis
      unfolding res using manager_call_calls [OF read_only(3)] forge
      by (auto simp: only_authorised_def new_calls_def)
  next
    case (fired server tool w1 pv w3 out2 e2)
    let ?w2 = "audit_row X ns flat pv Always AutoApprovedByPolicy w1"
    have fr: "dispatch_frame X w w1" by (rule manager_call_frame [OF fired(4)])
    have allowed: "consequential_allowed w" by (rule dispatch_frame_allowed [OF fr assms(1) fired(8)])
    have "call_preview X flat inp ns uo w = pv" using fired(1,4) assms(2) by (simp add: call_preview_def)
    then have pol: "evaluate_global (w_policy w) flat ns (call_preview X flat inp ns uo w) = Always"
      using fired(6) fr by (simp add: dispatch_frame_def)
    have "w_calls w3 = w_calls w \<or> (\<exists>cls. w_calls w3 = w_calls w @ [McpCall flat (agent_id_from_namespace ns) inp cls])"
      using manager_call_calls [OF fired(9)] fired(5) by auto
    then show ?thesis
    proof
      assume "w_calls w3 = w_calls w"
      then show ?thesis unfolding res using fired(10) by (intro only_authorised_same) simp
    next
      assume "\<exists>cls. w_calls w3 = w_calls w @ [McpCall flat (agent_id_from_namespace ns) inp cls]"
      then obtain cls where c: "w_calls w' = w_calls w @ [McpCall flat (agent_id_from_namespace ns) inp cls]"
        using fired(10) by auto
      show ?thesis
      proof (cases cls)
        case ReadOnly
        then show ?thesis unfolding res by (intro only_authorised_quiet [OF c]) simp
      next
        case Consequential
        have "authorised X flat inp al ns uo ct w (McpCall flat (agent_id_from_namespace ns) inp Consequential)"
          unfolding authorised_def using allowed pol fired assms(2,3) by auto
        then show ?thesis unfolding res fired(11) using Consequential forge by (intro only_authorised_one [OF c]) simp_all
      qed
    qed
  qed
qed

text \<open>Routing: which tail a call reaches.\<close>

lemma execute_tool_bound_cases:
  obtains (refused) "w_calls (fst (execute_tool_bound X tn inp al ns uo ct cb w)) = w_calls w"
  | (mcp) "is_mcp_flat_name tn" "case w_scope w of None \<Rightarrow> True | Some sc \<Rightarrow> scope_admits sc tn"
      "execute_tool_bound X tn inp al ns uo ct cb w = execute_mcp_tool X tn inp ns uo ct w"
  | (gated) "\<not> is_mcp_flat_name tn" "case w_scope w of None \<Rightarrow> True | Some sc \<Rightarrow> scope_admits sc tn"
      "admits al tn" "allow_consequential (current_turn_gate (w_gate w))" "tool_needs_park X tn inp"
      "execute_tool_bound X tn inp al ns uo ct cb w = execute_gated X tn inp al ns uo ct w"
  | (ordinary) w1 out err where "\<not> is_mcp_flat_name tn" "case w_scope w of None \<Rightarrow> True | Some sc \<Rightarrow> scope_admits sc tn"
      "admits al tn" "\<not> tool_needs_park X tn inp" "dispatch_tool X tn inp ns uo w = (w1, out, err)"
      "execute_tool_bound X tn inp al ns uo ct cb w = (w1, out, err, EffExecuted)"
proof -
  obtain w1 out1 e1 where d: "dispatch_tool X tn inp ns uo w = (w1, out1, e1)" by (metis prod_cases3)
  obtain con t where gt: "gate_and_trim (w_boundary w) = (con, t)" by fastforce
  define eg where "eg = (if \<not> uo \<and> (tn = ''open_url'' \<or> tn = ''web_search'' \<or> tn = ''sage_research'')
            then outward_get_egress_refusal tn inp else None)"
  note u = execute_tool_bound_def [of X tn inp al ns uo ct cb w, unfolded eg_def [symmetric] gt Let_def d prod.case]
  let ?sc = "case w_scope w of None \<Rightarrow> True | Some sc \<Rightarrow> scope_admits sc tn"
  have sc: "(case w_scope w of None \<Rightarrow> False | Some sc \<Rightarrow> \<not> scope_admits sc tn) = (\<not> ?sc)"
    by (auto split: option.splits)
  note v = u [unfolded sc]
  show ?thesis
  proof (cases "eg \<noteq> None \<or> customs_withholds_recall con t tn cb \<or> \<not> ?sc
      \<or> \<not> is_mcp_flat_name tn \<and> (\<not> admits al tn \<or> tool_needs_park X tn inp \<and> \<not> allow_consequential (current_turn_gate (w_gate w)))")
    case True
    then have "w_calls (fst (execute_tool_bound X tn inp al ns uo ct cb w)) = w_calls w"
      unfolding v by (auto split: option.splits)
    then show ?thesis by (rule refused)
  next
    case False
    then show ?thesis
      using mcp gated ordinary [OF _ _ _ _ d] v by (cases "is_mcp_flat_name tn"; cases "tool_needs_park X tn inp") simp_all
  qed
qed

lemma ordinary_quiet:
  assumes "\<not> tool_needs_park X tn inp" and "is_object inp" and "serde_objects X" and "\<not> is_mcp_flat_name tn"
    and "dispatch_call_ok X tn inp ns w c"
  shows "\<not> fires c"
proof -
  have "\<not> is_consequential_tool tn" "tn = ''skill_invoke'' \<longrightarrow> \<not> skill_invoke_is_consequential X inp"
    using assms(1) by (auto simp: tool_needs_park_def)
  moreover have "is_consequential_tool ''forge_app''" by code_simp
  moreover have "jget_str inp ''name'' = Some n" if "skill_args X inp = Some (n, a, cf)" for n a cf
  proof -
    obtain m where "inp = JObj m" using assms(2) is_object_iff by blast
    then show ?thesis using that serde_skill [OF assms(3)] by (auto simp: jget_str_def jget_def as_str_def)
  qed
  ultimately show ?thesis
    using assms(4,5) by (cases c) (auto simp: dispatch_call_ok_def skill_invoke_is_consequential_def)
qed

lemma execute_authorised:
  assumes "serde_objects X" and "no_unlock X" and "is_object inp \<or> tn = ''forge_app''"
  shows "only_authorised X tn inp al ns uo ct w (execute_tool_bound X tn inp al ns uo ct cb w)"
proof (cases rule: execute_tool_bound_cases [where X = X and tn = tn and inp = inp and al = al and ns = ns
      and uo = uo and ct = ct and cb = cb and w = w])
  case refused
  then show ?thesis by (metis only_authorised_same prod_cases4 fst_conv)
next
  case mcp
  then show ?thesis using execute_mcp_authorised [OF assms(2) mcp(1,2)] by simp
next
  case gated
  show ?thesis
  proof (cases "tn = ''forge_app''")
    case True
    show ?thesis using execute_gated_forge [OF assms(2) gated(3,4,2) [unfolded True]] gated(6) True by simp
  next
    case False
    then show ?thesis using execute_gated_authorised [OF assms(1,2) _ _ gated(1,3,4,2)] gated(6) assms(3) by simp
  qed
next
  case (ordinary w1 out err)
  obtain cs where "w_calls w1 = w_calls w @ cs" "list_all (dispatch_call_ok X tn inp ns w) cs"
    using dispatch_new [OF ordinary(5)] by metis
  moreover have "is_consequential_tool ''forge_app''" by code_simp
  then have "is_object inp" using ordinary(4) assms(3) by (auto simp: tool_needs_park_def)
  ultimately show ?thesis
    unfolding ordinary(6) using ordinary_quiet [OF ordinary(4) _ assms(1) ordinary(1)]
    by (intro only_authorised_quiet) (auto simp: list_all_iff filter_empty_conv)
qed

text \<open>What a preview, and the right to fire, depend on.\<close>

lemma racing_locked: "locked (w_stop (racing X r w)) = (case r of None \<Rightarrow> locked (w_stop w) | Some b \<Rightarrow> b)"
  by (auto simp: racing_def panic_locks lockdown_unlock_def Let_def set_flag_def stop_record_def remove_marker_def
      is_locked_down_def split: option.splits bool.splits)

lemma call_preview_cong:
  assumes "w_mcp w = w_mcp v" and "w_master w = w_master v" and "locked (w_stop w) = locked (w_stop v)"
  shows "call_preview X tn inp ns uo w = call_preview X tn inp ns uo v"
proof -
  have stop: "is_locked_down (w_stop w) = is_locked_down (w_stop v)" using assms(3) by (simp add: is_locked_down_def)
  have gates: "gate w c = gate v c" "gate (racing X r w) c = gate (racing X r v) c" for r c
    using assms(2,3) by (simp_all add: gate_def consequential_allowed_def is_locked_down_def racing_locked split: option.splits)
  have mcp: "snd (manager_call X f ag s t i m w) = snd (manager_call X f ag s t i m v)" for f ag s t i m
    using assms(1) stop by (simp add: manager_call_def Let_def split: prod.splits)
  have "snd (gated_dispatch X tn i c w) = snd (gated_dispatch X tn i c v)" for i c
    using stop gates by (simp add: gated_dispatch_def Let_def split: option.splits)
  moreover have "snd (skill_invoke_dispatch X n a c w) = snd (skill_invoke_dispatch X n a c v)" for n a c
    using gates by (simp add: skill_invoke_dispatch_def split: option.splits)
  ultimately have "\<not> is_mcp_flat_name tn \<Longrightarrow> snd (dispatch_tool X tn i ns uo w) = snd (dispatch_tool X tn i ns uo v)" for i
    using stop by (auto simp: dispatch_tool_def split: option.splits)
  then show ?thesis using mcp by (simp add: call_preview_def split: option.splits)
qed

lemma authorised_cong:
  assumes "w_mcp w = w_mcp v" and "w_master w = w_master v" and "locked (w_stop w) = locked (w_stop v)"
    and "w_gate w = w_gate v" and "w_scope w = w_scope v" and "w_policy w = w_policy v"
  shows "authorised X tn inp al ns uo ct w c = authorised X tn inp al ns uo ct v c"
  using assms call_preview_cong [OF assms(1-3)]
  by (simp add: authorised_def consequential_allowed_def is_locked_down_def cong: option.case_cong)

text \<open>The log of calls only grows.\<close>

lemma execute_calls_grow: "\<exists>cs. w_calls (fst (execute_tool_bound X tn inp al ns uo ct cb w)) = w_calls w @ cs"
proof (cases rule: execute_tool_bound_cases [where X = X and tn = tn and inp = inp and al = al and ns = ns
      and uo = uo and ct = ct and cb = cb and w = w])
  case refused
  then show ?thesis by simp
next
  case mcp
  obtain w' out err eff where res: "execute_mcp_tool X tn inp ns uo ct w = (w', out, err, eff)" by (metis prod_cases4)
  have man: "\<exists>cs. w_calls w2 = w_calls w1 @ cs" if "manager_call X f ag s t i m w1 = (w2, o1, e1)" for f ag s t i m w1 w2 o1 e1
    using manager_call_calls [OF that] by auto
  have "\<exists>cs. w_calls w' = w_calls w @ cs"
    using res
  proof (cases rule: execute_mcp_cases)
    case (fired server tool w1 pv w3 out2 e2)
    show ?thesis using fired man by (metis append.assoc world_frames(1))
  qed (auto dest: man)
  then show ?thesis using mcp(3) res by simp
next
  case gated
  obtain w' out err eff where res: "execute_gated X tn inp al ns uo ct w = (w', out, err, eff)" by (metis prod_cases4)
  have "\<exists>cs. w_calls w' = w_calls w @ cs"
    using res
  proof (cases rule: execute_gated_cases)
    case (quiet w1 pv e)
    then show ?thesis using dispatch_new by metis
  next
    case (fired w1 pv w3 out2 e2)
    obtain cs where "w_calls w1 = w_calls w @ cs" using dispatch_new [OF fired(1)] by metis
    moreover obtain ds where "w_calls w3 = w_calls w1 @ ds" using dispatch_new [OF fired(5)] by (metis world_frames(1))
    ultimately show ?thesis using fired(6) by simp
  qed
  then show ?thesis using gated(6) res by simp
next
  case (ordinary w1 out err)
  then show ?thesis using dispatch_new [OF ordinary(5)] by auto
qed

section \<open>The calls of a turn\<close>

text \<open>
  What a turn asks of the chokepoint: the tool calls the model proposes, in order, each with the
  allowlist, the agent and the trust of the loop that makes it. \<open>fury_mission\<close> and
  \<open>mission_resume\<close> run tool loops of their own before they answer; the calls of those loops are the
  nested requests, of any number and depth.
\<close>

datatype request =
  Request (rq_tool: string) (rq_input: json) (rq_allowed: "string list") (rq_agent: string)
    (rq_user: bool) (rq_trusted: bool) (rq_cloud: bool) (rq_nested: "request list")

definition mission_tools :: "string list" where
  "mission_tools = [''fury_mission'', ''mission_resume'']"

text \<open>
  The run of the requests, and its trace: every request with the world it was made in, the world it
  left before any call nested in it, and the effect it reported. Nested calls are made only when the
  mission tool was really dispatched.
\<close>

type_synonym request_trace = "(request \<times> world \<times> world \<times> tool_effect) list"

fun requests_run :: "outside \<Rightarrow> request list \<Rightarrow> world \<Rightarrow> world \<times> request_trace" where
  "requests_run X [] w = (w, [])"
| "requests_run X (Request tn inp al ns uo ct cb nested # qs) w =
     (let (w1, out, err, eff) = execute_tool_bound X tn inp al ns uo ct cb w;
          (w2, inner) = (if tn \<in> set mission_tools \<and> w_calls w1 \<noteq> w_calls w then requests_run X nested w1 else (w1, []));
          (w3, rest) = requests_run X qs w2
      in (w3, (Request tn inp al ns uo ct cb nested, w, w1, eff) # inner @ rest))"

lemma new_calls_trans:
  "w_calls v = w_calls w @ cs \<Longrightarrow> w_calls w' = w_calls v @ ds \<Longrightarrow> new_calls w w' = new_calls w v @ new_calls v w'"
  by (simp add: new_calls_def)

abbreviation trace_fires :: "request_trace \<Rightarrow> call list" where
  "trace_fires tr \<equiv> concat (map (\<lambda>(q, v, v', eff). filter fires (new_calls v v')) tr)"

lemma requests_run_trace:
  assumes "requests_run X qs w = (w', tr)"
  shows "(\<exists>cs. w_calls w' = w_calls w @ cs) \<and> filter fires (new_calls w w') = trace_fires tr
    \<and> (\<forall>(q, v, v', eff) \<in> set tr. \<exists>out err. execute_tool_bound X (rq_tool q) (rq_input q) (rq_allowed q) (rq_agent q)
         (rq_user q) (rq_trusted q) (rq_cloud q) v = (v', out, err, eff))"
  using assms
proof (induction X qs w arbitrary: w' tr rule: requests_run.induct)
  case (1 X w)
  then show ?case by (simp add: new_calls_def)
next
  case (2 X tn inp al ns uo ct cb nested qs w)
  obtain w1 out err eff where ex: "execute_tool_bound X tn inp al ns uo ct cb w = (w1, out, err, eff)" by (metis prod_cases4)
  define more where "more = (tn \<in> set mission_tools \<and> w_calls w1 \<noteq> w_calls w)"
  obtain w2 inner where nest: "(if more then requests_run X nested w1 else (w1, [])) = (w2, inner)" by fastforce
  obtain w3 rest where run: "requests_run X qs w2 = (w3, rest)" by fastforce
  have res: "w' = w3" "tr = (Request tn inp al ns uo ct cb nested, w, w1, eff) # inner @ rest"
    using "2.prems" ex nest run by (simp_all add: more_def Let_def)
  note here = ex [symmetric] refl refl refl
  obtain cs where g1: "w_calls w1 = w_calls w @ cs" using execute_calls_grow [of X tn inp al ns uo ct cb w] ex by auto
  have ih1: "(\<exists>cs. w_calls w2 = w_calls w1 @ cs) \<and> filter fires (new_calls w1 w2) = trace_fires inner
    \<and> (\<forall>(q, v, v', eff) \<in> set inner. \<exists>out err. execute_tool_bound X (rq_tool q) (rq_input q) (rq_allowed q) (rq_agent q)
         (rq_user q) (rq_trusted q) (rq_cloud q) v = (v', out, err, eff))"
  proof (cases more)
    case True
    then show ?thesis using "2.IH"(1) [OF here] nest by (simp add: more_def)
  next
    case False
    then show ?thesis using nest by (simp add: new_calls_def)
  qed
  have ih2: "(\<exists>cs. w_calls w3 = w_calls w2 @ cs) \<and> filter fires (new_calls w2 w3) = trace_fires rest
    \<and> (\<forall>(q, v, v', eff) \<in> set rest. \<exists>out err. execute_tool_bound X (rq_tool q) (rq_input q) (rq_allowed q) (rq_agent q)
         (rq_user q) (rq_trusted q) (rq_cloud q) v = (v', out, err, eff))"
    using "2.IH"(2) [OF here nest [unfolded more_def, symmetric] refl run] by blast
  obtain ds es where g2: "w_calls w2 = w_calls w1 @ ds" and g3: "w_calls w3 = w_calls w2 @ es" using ih1 ih2 by blast
  have "new_calls w w3 = new_calls w w1 @ new_calls w1 w2 @ new_calls w2 w3"
    using g1 g2 g3 by (simp add: new_calls_def)
  then show ?case unfolding res using ih1 ih2 g1 g2 g3 ex by (auto simp: new_calls_def)
qed

text \<open>
  C2. A tool call fires at most one consequential action, and only when everything allows it. Over
  the tool calls of a turn, with the calls a mission makes in its own loops nested in it to any
  depth, nothing fires but what one of the requests fires; and a request with an argument object
  fires at most one action, in the world it was made in: the master switch is on and no stop is
  engaged, the turn is attended, the voice gate and the guest scope admit it, the agent holds the
  tool (or is on the MCP server's allowlist), and the policy answers always for the very preview the
  dry run of that request gives. The action is the requested one with the confirm flag set (for a
  skill, the skill and arguments so parsed) and is reported as executed. For \<open>forge_app\<close>, which
  acts on its preview, only this is true: what fires is \<open>forge_app\<close> itself on the requested
  arguments, with no stop engaged, held by the agent, and admitted by the voice gate and the scope.
\<close>
theorem tool_call_fires_only_authorised:
  assumes "serde_objects X" and "no_unlock X" and "requests_run X qs w = (w', tr)"
  shows "filter fires (new_calls w w') = concat (map (\<lambda>(q, v, v', eff). filter fires (new_calls v v')) tr)
    \<and> (\<forall>(q, v, v', eff) \<in> set tr.
         if rq_tool q = ''forge_app'' then list_all (forge_call (rq_input q) (rq_allowed q) v) (filter fires (new_calls v v'))
         else is_object (rq_input q) \<longrightarrow>
           (case filter fires (new_calls v v') of
              [] \<Rightarrow> True
            | [c] \<Rightarrow> authorised X (rq_tool q) (rq_input q) (rq_allowed q) (rq_agent q) (rq_user q) (rq_trusted q) v c
                \<and> eff = EffExecuted
            | _ \<Rightarrow> False))"
proof (intro conjI ballI)
  note run = requests_run_trace [OF assms(3)]
  show "filter fires (new_calls w w') = trace_fires tr" using run by blast
  fix x assume x: "x \<in> set tr"
  obtain q v v' eff where q: "x = (q, v, v', eff)" by (metis prod_cases4)
  obtain out err where "execute_tool_bound X (rq_tool q) (rq_input q) (rq_allowed q) (rq_agent q)
      (rq_user q) (rq_trusted q) (rq_cloud q) v = (v', out, err, eff)"
    using run x unfolding q by blast
  then have "is_object (rq_input q) \<or> rq_tool q = ''forge_app'' \<Longrightarrow> only_authorised X (rq_tool q) (rq_input q) (rq_allowed q)
      (rq_agent q) (rq_user q) (rq_trusted q) v (v', out, err, eff)"
    using execute_authorised [OF assms(1,2)] by metis
  then show "case x of (q, v, v', eff) \<Rightarrow>
      if rq_tool q = ''forge_app'' then list_all (forge_call (rq_input q) (rq_allowed q) v) (filter fires (new_calls v v'))
      else is_object (rq_input q) \<longrightarrow>
        (case filter fires (new_calls v v') of
           [] \<Rightarrow> True
         | [c] \<Rightarrow> authorised X (rq_tool q) (rq_input q) (rq_allowed q) (rq_agent q) (rq_user q) (rq_trusted q) v c
             \<and> eff = EffExecuted
         | _ \<Rightarrow> False)"
    unfolding q prod.case only_authorised_def by metis
qed

section \<open>A concrete outside\<close>

text \<open>
  For the evaluated examples: a daemon with the switch on, no policy rules, no voice gate and one
  gated client that answers a preview or \<open>Done.\<close>; its argument reader takes objects by key and, as
  \<open>serde\<close> does, a two-element array by position.
\<close>

definition demo_reader :: "string \<Rightarrow> json \<Rightarrow> bool option" where
  "demo_reader tn inp =
     (case inp of JObj m \<Rightarrow> Some (map_of m ''confirm'' = Some (JBool True))
      | JArr [_, JBool b] \<Rightarrow> Some b | _ \<Rightarrow> None)"

definition demo_outside :: outside where
  "demo_outside = \<lparr> o_ext = demo_externals, o_now = 0, o_ts = [], parse_confirm = demo_reader,
     bad_args = (\<lambda>_ _. ''bad''), pre_gate = (\<lambda>_ _ _. None),
     client = (\<lambda>_ _ m. (if m = ModeExecute then ''Done.'' else ''Would.'', False)),
     forge_on = True, forge_draft = (\<lambda>_. (''Drafted.'', False)), skills_on = True, skill_args = (\<lambda>_. None),
     skill_consequential = (\<lambda>_. None), skill_run = (\<lambda>_ _. ([], False)), plain = (\<lambda>_ _ _. ([], False)),
     app_tool = (\<lambda>_ _. ([], False)), server_reply = (\<lambda>_ _. Inl []), second_look = (\<lambda>_ _. []),
     race = (\<lambda>_ _. (None, None)) \<rparr>"

definition demo_world :: world where
  "demo_world = \<lparr> w_stop = boot_state demo_disk None, w_master = Some True, w_gate = None, w_scope = None,
     w_policy = demo_layer, w_boundary = \<lparr> boundary_gate = None, turn_trim = None, vault_active = False \<rparr>,
     w_plan = None, w_journal = journal_init, w_mcp = demo_manager ReadOnly, w_calls = [] \<rparr>"

lemma demo_serde: "serde_objects demo_outside"
  by (simp add: serde_objects_def demo_outside_def demo_reader_def)

lemma demo_no_unlock: "no_unlock demo_outside"
  by (simp add: no_unlock_def demo_outside_def)

text \<open>A mission whose one sub-task posts, under a standing always-rule for posting.\<close>

definition always_for :: "string \<Rightarrow> policy_layer" where
  "always_for tn = \<lparr> layer = Some (True, \<lparr> rule_map = [(scope_key (tool_scope tn),
     \<lparr> rule_scope = tool_scope tn, rule_decision = Always \<rparr>)], store_path = None \<rparr>), baseline = None \<rparr>"

lemma always_for_answer: "\<not> is_never_auto_approve tn \<Longrightarrow> evaluate_global (always_for tn) tn a pv = Always"
  by (simp add: always_for_def evaluate_global_def evaluate_local_global_def harden_global_def evaluate_def
      store_rules_def scope_matches_def tool_scope_def)

definition posting_world :: world where
  "posting_world = demo_world\<lparr> w_policy := always_for ''x_post'' \<rparr>"

definition posting_mission :: request where
  "posting_mission = Request ''fury_mission'' (JObj []) [''*''] ''agent.darwin'' True True True
     [Request ''x_post'' (JObj []) [''*''] ''agent.darwin'' False True True []]"

lemma post_names:
  "is_consequential_tool ''x_post''" "\<not> is_mcp_flat_name ''x_post''" "\<not> starts_with ''app__'' ''x_post''"
  "\<not> is_never_auto_approve ''x_post''" "''x_post'' \<notin> set (withheld_recall_tools TrimNone)"
  by code_simp+

lemma mission_names:
  "\<not> is_consequential_tool ''fury_mission''" "\<not> is_mcp_flat_name ''fury_mission''" "\<not> starts_with ''app__'' ''fury_mission''"
  by code_simp+

lemma demo_fields [simp]:
  "w_scope demo_world = None" "w_gate demo_world = None" "w_plan demo_world = None" "consequential_allowed demo_world"
  "is_locked_down (w_stop demo_world) = False" "gate_and_trim (w_boundary demo_world) = (False, TrimNone)"
  by (simp_all add: demo_world_def consequential_allowed_def is_locked_down_def boot_state_def gate_and_trim_def)

lemma posting_fields [simp]:
  "w_scope posting_world = None" "w_gate posting_world = None" "consequential_allowed posting_world"
  "is_locked_down (w_stop posting_world) = False" "gate_and_trim (w_boundary posting_world) = (False, TrimNone)"
  "w_policy posting_world = always_for ''x_post''"
  using demo_fields unfolding posting_world_def by (simp_all add: consequential_allowed_def)

lemma log_call_fields [simp]:
  "w_scope (log_call k w) = w_scope w" "w_gate (log_call k w) = w_gate w" "w_boundary (log_call k w) = w_boundary w"
  by (simp_all add: log_call_def)

lemmas demo_call_simps = dispatch_tool_def gated_dispatch_def force_confirm_def demo_outside_def demo_reader_def
  racing_def Let_def gate_def allow_consequential_def allow_confirm_replay_def current_turn_gate_def OFF_GATE_def
  is_guest_turn_def customs_withholds_recall_def admits_def TOOLS_WILDCARD_def

abbreviation post_done :: call where
  "post_done \<equiv> Gated ''x_post'' (JObj [(''confirm'', JBool True)]) ModeExecute"

lemma tool_call_fires_only_authorised_witness:
  "case requests_run demo_outside [posting_mission] posting_world of (w', tr) \<Rightarrow>
     length tr = 2 \<and> filter fires (new_calls posting_world w') = [post_done]
     \<and> (\<exists>v. authorised demo_outside ''x_post'' (JObj []) [''*''] ''agent.darwin'' False True v post_done)"
proof -
  let ?inner = "Request ''x_post'' (JObj []) [''*''] ''agent.darwin'' False True True []"
  let ?call = "Plain ''fury_mission'' (JObj []) True"
  let ?v = "log_call ?call posting_world"
  obtain v' out err eff where ex: "execute_tool_bound demo_outside ''x_post'' (JObj []) [''*''] ''agent.darwin'' False True True ?v
      = (v', out, err, eff)" by (metis prod_cases4)
  have "execute_tool_bound demo_outside ''fury_mission'' (JObj []) [''*''] ''agent.darwin'' True True True posting_world
      = (?v, [], False, EffExecuted)"
    using mission_names by (simp add: execute_tool_bound_def demo_call_simps withheld_recall_tools_def tool_needs_park_def)
  then have run: "requests_run demo_outside [posting_mission] posting_world
      = (v', [(posting_mission, posting_world, ?v, EffExecuted), (?inner, ?v, v', eff)])"
    by (simp add: posting_mission_def mission_tools_def ex)
  have fired: "filter fires (new_calls ?v v') = [post_done]"
    using ex post_names always_for_answer [OF post_names(4)]
    by (auto simp: execute_tool_bound_def execute_gated_def demo_call_simps tool_needs_park_def
        downgrade_always_if_unattended_def new_calls_def split: if_splits)
  from tool_call_fires_only_authorised [OF demo_serde demo_no_unlock run]
  have "filter fires (new_calls posting_world v') = [post_done]"
    "authorised demo_outside ''x_post'' (JObj []) [''*''] ''agent.darwin'' False True ?v post_done"
    using fired by (simp_all add: new_calls_def posting_mission_def is_object_def)
  then show ?thesis unfolding run by auto
qed

section \<open>The replay\<close>

definition replayed_call :: "outside \<Rightarrow> pending \<Rightarrow> call \<Rightarrow> bool" where
  "replayed_call X p c \<longleftrightarrow>
     (case c of
        Gated t i mode \<Rightarrow> t = p_tool p \<and> i = force_confirm (p_input p) True \<and> mode = ModeExecute
      | Forge i \<Rightarrow> p_tool p = ''forge_app'' \<and> i = force_confirm (p_input p) True
      | Skill n a k \<Rightarrow> p_tool p = ''skill_invoke'' \<and> skill_consequential X n = Some k
          \<and> skill_args X (force_confirm (p_input p) True) = Some (n, a, True)
      | McpCall f ag i cls \<Rightarrow> f = p_tool p \<and> ag = agent_id_from_namespace (p_agent p)
          \<and> i = force_confirm (p_input p) True
      | _ \<Rightarrow> False)"

text \<open>The switch: a confirmed \<open>forge_app\<close> runs whatever it says, short of a stop.\<close>

definition replay_switch :: "pending \<Rightarrow> world \<Rightarrow> bool" where
  "replay_switch p w \<longleftrightarrow> consequential_allowed w \<or> p_tool p = ''forge_app'' \<and> \<not> is_locked_down (w_stop w)"

definition plan_holds :: "outside \<Rightarrow> pending \<Rightarrow> world \<Rightarrow> bool" where
  "plan_holds X p w \<longleftrightarrow>
     p_plan p = None \<or> bind_state (p_plan p) (compute_plan X (p_tool p) (p_input p) False w) = Fresh"

lemma bind_Some_not_Unplanned: "bind_state (Some a) f \<noteq> Unplanned"
  by (cases f) auto

lemma replay_cases:
  assumes "replay_confirmed_action X p w = (w', out, err)"
  obtains (refused) "w_calls w' = w_calls w"
  | (run) w1 e where "allow_confirm_replay (current_turn_gate (w_gate w))" "w_scope w = None"
      "admits (p_allowed p) (p_tool p)" "plan_holds X p w"
      "dispatch_tool X (p_tool p) (force_confirm (p_input p) True) (p_agent p) True w = (w1, out, e)"
      "w_calls w' = w_calls w1"
proof (cases "\<not> allow_confirm_replay (current_turn_gate (w_gate w)) \<or> is_guest_turn (w_scope w)
      \<or> \<not> admits (p_allowed p) (p_tool p)")
  case True
  then have "w_calls w' = w_calls w" using assms by (auto simp: replay_confirmed_action_def split: if_splits)
  then show ?thesis by (rule refused)
next
  case False
  obtain w1 out1 e where d: "dispatch_tool X (p_tool p) (force_confirm (p_input p) True) (p_agent p) True w = (w1, out1, e)"
    by (metis prod_cases3)
  define b where "b = (if p_plan p \<noteq> None
                 then bind_state (p_plan p) (compute_plan X (p_tool p) (p_input p) False w) else Unplanned)"
  note u = assms [unfolded replay_confirmed_action_def b_def [symmetric] Let_def d prod.case]
  have sc: "w_scope w = None" using False by (simp add: is_guest_turn_def)
  show ?thesis
  proof (cases b)
    case (Drifted np)
    then have "w_calls w' = w_calls w" using u False by (auto split: prod.splits dest: park_frame)
    then show ?thesis by (rule refused)
  next
    case Fresh
    then have "plan_holds X p w" by (auto simp: plan_holds_def b_def split: if_splits)
    moreover have "w_calls w' = w_calls w1" "out = out1" using u False Fresh by auto
    ultimately show ?thesis using run False sc d by auto
  next
    case Unplanned
    then have "plan_holds X p w" using bind_Some_not_Unplanned by (auto simp: plan_holds_def b_def split: if_splits)
    moreover have "w_calls w' = w_calls w1" "out = out1" using u False Unplanned by auto
    ultimately show ?thesis using run False sc d by auto
  qed
qed

lemma forced_flag: "confirm_flag (force_confirm (JObj m) v) = v"
  by (simp add: confirm_flag_def force_confirm_object jget_def map_of_bt_insert as_bool_def)

lemma replay_authorised:
  assumes "no_unlock X"
  shows "case replay_confirmed_action X p w of (w', out, err) \<Rightarrow>
    (case filter fires (new_calls w w') of
       [] \<Rightarrow> True
     | [c] \<Rightarrow> replay_switch p w \<and> allow_confirm_replay (current_turn_gate (w_gate w)) \<and> w_scope w = None
          \<and> admits (p_allowed p) (p_tool p) \<and> plan_holds X p w \<and> replayed_call X p c
     | _ \<Rightarrow> False)"
proof -
  obtain w' out err where res: "replay_confirmed_action X p w = (w', out, err)" by (metis prod_cases3)
  from res show ?thesis
  proof (cases rule: replay_cases)
    case refused
    then show ?thesis unfolding res by (simp add: new_calls_def)
  next
    case (run w1 e)
    obtain cs where cs: "w_calls w1 = w_calls w @ cs" "length cs \<le> 1"
      "list_all (dispatch_call_ok X (p_tool p) (force_confirm (p_input p) True) (p_agent p) w) cs"
      using dispatch_new [OF run(5)] by metis
    have n: "new_calls w w' = cs" using run(6) cs(1) by (simp add: new_calls_def)
    from short_filter [OF cs(2), of fires] show ?thesis
    proof (elim disjE exE conjE)
      assume "filter fires cs = []"
      then show ?thesis by (simp add: res n)
    next
      fix c assume c: "filter fires cs = [c]" "c \<in> set cs" "fires c"
      have ok: "dispatch_call_ok X (p_tool p) (force_confirm (p_input p) True) (p_agent p) w c"
        using c(2) cs(3) by (simp add: list_all_iff)
      have "replay_switch p w \<and> replayed_call X p c"
        using ok c(3) no_unlock_race [OF assms] racing_allowed [of "fst (race X (p_tool p) (force_confirm (p_input p) True))" X w]
        by (cases c) (auto simp: dispatch_call_ok_def replayed_call_def replay_switch_def)
      then show ?thesis using c(1) run by (simp add: res n)
    qed
  qed
qed

text \<open>
  C3. Confirming fires the parked action and nothing else: a replay fires at most one action, and that
  is the parked tool on the parked arguments with the confirm flag set (for a skill, the skill and
  arguments so parsed; for a connector, on behalf of the agent that parked it), and only when the
  switch is on and no stop is engaged, the voice gate admits the confirmation, the turn is no guest
  turn, the parked allowlist still names the tool and the plan that was shown still describes the
  state. The one exception to the switch is a parked \<open>forge_app\<close>, which no switch gates: that one
  only needs that no stop is engaged.
\<close>
theorem replay_fires_only_the_parked_action:
  assumes "no_unlock X"
  shows "case replay_confirmed_action X p w of (w', out, err) \<Rightarrow>
    (case filter fires (new_calls w w') of
       [] \<Rightarrow> True
     | [c] \<Rightarrow> (consequential_allowed w \<or> p_tool p = ''forge_app'' \<and> \<not> is_locked_down (w_stop w))
          \<and> allow_confirm_replay (current_turn_gate (w_gate w)) \<and> w_scope w = None
          \<and> admits (p_allowed p) (p_tool p) \<and> plan_holds X p w \<and> replayed_call X p c
     | _ \<Rightarrow> False)"
  using replay_authorised [OF assms] unfolding replay_switch_def .

definition demo_confirm :: pending where
  "demo_confirm = (demo_pending 0 ''x_post'')\<lparr> p_allowed := [''*''] \<rparr>"

lemma replay_fires_only_the_parked_action_witness:
  "case replay_confirmed_action demo_outside demo_confirm demo_world of (w', out, err) \<Rightarrow>
     filter fires (new_calls demo_world w') = [post_done] \<and> consequential_allowed demo_world
     \<and> replayed_call demo_outside demo_confirm post_done"
proof -
  obtain w' out err where r: "replay_confirmed_action demo_outside demo_confirm demo_world = (w', out, err)"
    by (metis prod_cases3)
  have "filter fires (new_calls demo_world w') = [post_done]"
    using r post_names
    by (auto simp: replay_confirmed_action_def demo_confirm_def demo_pending_def demo_call_simps new_calls_def)
  then show ?thesis
    using replay_fires_only_the_parked_action [OF demo_no_unlock, of demo_world demo_confirm]
    unfolding r prod.case by simp
qed

end
