(* ===== verification/ChokeSafety.thy ===== *)
theory ChokeSafety
  imports ChokeProofs
begin

text \<open>
  The emergency stop, the guest scope and the audit trail at the chokepoint, for any arguments the
  model may produce.
\<close>

section \<open>Under the stop\<close>

definition silent_call :: "call \<Rightarrow> bool" where
  "silent_call c \<longleftrightarrow> \<not> fires c \<and> (case c of McpCall f ag i cls \<Rightarrow> False | _ \<Rightarrow> True)"

lemma locked_not_allowed: "locked (w_stop w) \<Longrightarrow> \<not> consequential_allowed w"
  by (simp add: consequential_allowed_def is_locked_down_def)

lemma locked_dispatch_silent:
  assumes "locked (w_stop w)" and "no_unlock X" and "dispatch_call_ok X tn inp ns w c"
  shows "silent_call c"
proof -
  have "\<not> consequential_allowed (racing X (fst (race X tn inp)) w)"
    using racing_locks [of "fst (race X tn inp)" w X] no_unlock_race [OF assms(2), of tn inp] assms(1)
    by (simp add: locked_not_allowed)
  then show ?thesis
    using assms(1,3) locked_not_allowed [OF assms(1)]
    by (cases c) (auto simp: dispatch_call_ok_def silent_call_def is_locked_down_def)
qed

lemma locked_dispatch:
  assumes "locked (w_stop w)" and "no_unlock X" and "dispatch_tool X tn inp ns uo w = (w', out, err)"
  shows "\<exists>cs. w_calls w' = w_calls w @ cs \<and> list_all silent_call cs"
proof -
  obtain cs where "w_calls w' = w_calls w @ cs" "list_all (dispatch_call_ok X tn inp ns w) cs"
    using dispatch_new [OF assms(3)] by metis
  then show ?thesis using locked_dispatch_silent [OF assms(1,2)] by (auto simp: list_all_iff)
qed

lemma manager_call_locked:
  "locked (w_stop w) \<Longrightarrow> manager_call X f ag s t i m w = (w', out, err) \<Longrightarrow> w_calls w' = w_calls w"
  using manager_call_calls [of X f ag s t i m w w' out err] by (auto simp: is_locked_down_def)

lemma locked_execute:
  assumes "locked (w_stop w)" and "no_unlock X"
  shows "list_all silent_call (new_calls w (fst (execute_tool_bound X tn inp al ns uo ct cb w)))"
proof (cases rule: execute_tool_bound_cases [where X = X and tn = tn and inp = inp and al = al and ns = ns
      and uo = uo and ct = ct and cb = cb and w = w])
  case refused
  then show ?thesis by (simp add: new_calls_def)
next
  case mcp
  obtain w' out err eff where res: "execute_mcp_tool X tn inp ns uo ct w = (w', out, err, eff)" by (metis prod_cases4)
  have "w_calls w' = w_calls w"
    using res
  proof (cases rule: execute_mcp_cases)
    case silent
    then show ?thesis .
  next
    case (read_only server tool out1 e1)
    then show ?thesis using manager_call_locked [OF assms(1)] by blast
  next
    case (fired server tool w1 pv w3 out2 e2)
    have "consequential_allowed w"
      using dispatch_frame_allowed [OF manager_call_frame [OF fired(4)] assms(2) fired(8)] .
    then show ?thesis using locked_not_allowed [OF assms(1)] by simp
  qed
  then show ?thesis using mcp(3) res by (simp add: new_calls_def)
next
  case gated
  obtain w' out err eff where res: "execute_gated X tn inp al ns uo ct w = (w', out, err, eff)" by (metis prod_cases4)
  have "\<exists>cs. w_calls w' = w_calls w @ cs \<and> list_all silent_call cs"
    using res
  proof (cases rule: execute_gated_cases)
    case (quiet w1 pv e)
    then show ?thesis using locked_dispatch [OF assms quiet(1)] by simp
  next
    case (fired w1 pv w3 out2 e2)
    have "consequential_allowed w"
      using dispatch_frame_allowed [OF dispatch_tool_frame [OF fired(1)] assms(2) fired(4)] .
    then show ?thesis using locked_not_allowed [OF assms(1)] by simp
  qed
  then show ?thesis using gated(6) res by (auto simp: new_calls_def)
next
  case (ordinary w1 out err)
  then show ?thesis using locked_dispatch [OF assms ordinary(5)] by (auto simp: new_calls_def)
qed

lemma locked_replay:
  assumes "locked (w_stop w)" and "no_unlock X"
  shows "\<exists>cs. w_calls (fst (replay_confirmed_action X p w)) = w_calls w @ cs \<and> list_all silent_call cs"
proof -
  obtain w' out err where res: "replay_confirmed_action X p w = (w', out, err)" by (metis prod_cases3)
  from res show ?thesis
  proof (cases rule: replay_cases)
    case refused
    then show ?thesis by (simp add: res)
  next
    case (run w1 e)
    then show ?thesis using locked_dispatch [OF assms run(5)] by (simp add: res)
  qed
qed

text \<open>
  C4. While the emergency stop is engaged nothing acts on the world. Whatever tool is called with
  whatever arguments, attended or not, and whatever parked action is confirmed, no gated client is
  asked to execute, no consequential skill and no forge runs, and no request reaches any MCP server,
  as long as no unlock lands during the call.
\<close>
theorem nothing_fires_under_lockdown:
  assumes "locked (w_stop w)" and "no_unlock X"
  shows "list_all silent_call (new_calls w (fst (execute_tool_bound X tn inp al ns uo ct cb w)))
    \<and> list_all silent_call (new_calls w (fst (replay_confirmed_action X p w)))"
  using locked_execute [OF assms] locked_replay [OF assms, of p] by (auto simp: new_calls_def)

definition demo_locked :: world where
  "demo_locked = demo_world\<lparr> w_stop := fst (lockdown_panic demo_externals [] (w_stop demo_world)) \<rparr>"

lemma nothing_fires_under_lockdown_witness:
  "list_all silent_call (new_calls demo_locked (fst (replay_confirmed_action demo_outside demo_confirm demo_locked)))"
proof -
  have "locked (w_stop demo_locked)" by (simp add: demo_locked_def panic_locks)
  from nothing_fires_under_lockdown [OF this demo_no_unlock] show ?thesis by blast
qed

section \<open>A guest's turn\<close>

lemma guest_tools_plain:
  assumes "tn \<in> {''system_status'', ''skill_list'', ''babel_translate''}"
  shows "\<not> is_mcp_flat_name tn" "\<not> starts_with ''app__'' tn" "\<not> is_consequential_tool tn"
    "tn \<noteq> ''skill_invoke''" "tn \<noteq> ''forge_app''"
proof -
  have "list_all (\<lambda>t. \<not> is_mcp_flat_name t \<and> \<not> starts_with ''app__'' t \<and> \<not> is_consequential_tool t
      \<and> t \<noteq> ''skill_invoke'' \<and> t \<noteq> ''forge_app'') [''system_status'', ''skill_list'', ''babel_translate'']"
    by code_simp
  then show "\<not> is_mcp_flat_name tn" "\<not> starts_with ''app__'' tn" "\<not> is_consequential_tool tn"
    "tn \<noteq> ''skill_invoke''" "tn \<noteq> ''forge_app''"
    using assms by (auto simp: list_all_iff)
qed

lemma guest_scope_admits:
  "scope_admits (guest_from owner p) t \<Longrightarrow> t \<in> {''system_status'', ''skill_list'', ''babel_translate''}"
  by (simp add: scope_admits_def guest_from_def admits_guest_tools GUEST_READ_ONLY_TOOLS_def)

text \<open>
  C6. A guest's turn reaches the outside only through three tools that touch nothing of the owner.
  With the scope of an active guest decision installed, every call of a tool call is an ordinary
  call of \<open>system_status\<close>, \<open>skill_list\<close> or \<open>babel_translate\<close>, and a confirmation of the owner's
  parked action makes no call at all.
\<close>
theorem guest_turn_is_confined:
  assumes "w_scope w = install_decision (decide speaker flag cfg owner)"
    and "guest_active (decide speaker flag cfg owner)"
  shows "list_all (\<lambda>c. case c of Plain t i u \<Rightarrow> t \<in> {''system_status'', ''skill_list'', ''babel_translate''} | _ \<Rightarrow> False)
      (new_calls w (fst (execute_tool_bound X tn inp al ns uo ct cb w)))
    \<and> new_calls w (fst (replay_confirmed_action X p w)) = []"
proof
  have sc: "w_scope w = Some (guest_from owner (guest_profile cfg))"
    using assms by (simp add: install_decision_def decide_scope)
  show "new_calls w (fst (replay_confirmed_action X p w)) = []"
    using sc by (simp add: replay_confirmed_action_def is_guest_turn_def new_calls_def)
  show "list_all (\<lambda>c. case c of Plain t i u \<Rightarrow> t \<in> {''system_status'', ''skill_list'', ''babel_translate''} | _ \<Rightarrow> False)
      (new_calls w (fst (execute_tool_bound X tn inp al ns uo ct cb w)))"
  proof (cases rule: execute_tool_bound_cases [where X = X and tn = tn and inp = inp and al = al and ns = ns
      and uo = uo and ct = ct and cb = cb and w = w])
    case refused
    then show ?thesis by (simp add: new_calls_def)
  next
    case mcp
    then show ?thesis using sc guest_scope_admits guest_tools_plain(1) by auto
  next
    case gated
    then have "tn \<in> {''system_status'', ''skill_list'', ''babel_translate''}" using sc guest_scope_admits by auto
    then show ?thesis using gated(5) guest_tools_plain(3,4) by (auto simp: tool_needs_park_def)
  next
    case (ordinary w1 out err)
    then have t: "tn \<in> {''system_status'', ''skill_list'', ''babel_translate''}" using sc guest_scope_admits by auto
    have "w1 = log_call (Plain tn inp uo) w"
      using ordinary(5) guest_tools_plain [OF t] by (simp add: dispatch_tool_def)
    then show ?thesis using ordinary(6) t by (simp add: new_calls_def)
  qed
qed

definition demo_view :: threshold_view where
  "demo_view = \<lparr> threshold_enabled = True, guest_profile = DefaultProfile \<rparr>"

definition demo_guest :: world where
  "demo_guest = demo_world\<lparr> w_scope := install_decision (decide Unenforced True demo_view (owner_scope [''*''] Work)) \<rparr>"

lemma guest_turn_is_confined_witness:
  "new_calls demo_guest (fst (replay_confirmed_action demo_outside demo_confirm demo_guest)) = []"
  by (rule conjunct2, rule guest_turn_is_confined [where speaker = Unenforced and flag = True and cfg = demo_view
        and owner = "owner_scope [''*''] Work"])
    (simp_all add: demo_guest_def decide_active demo_view_def)

section \<open>The trace of a gated call\<close>

text \<open>No other task touches the stop while a call is awaited.\<close>

definition calm :: "outside \<Rightarrow> bool" where
  "calm X \<longleftrightarrow> (\<forall>tn inp. race X tn inp = (None, None))"

lemma calm_racing [simp]: "calm X \<Longrightarrow> racing X (fst (race X tn inp)) w = w"
    "calm X \<Longrightarrow> racing X (snd (race X tn inp)) w = w"
  by (simp_all add: calm_def racing_def)

lemma calm_dispatch:
  assumes "calm X" and "dispatch_tool X tn inp ns uo w = (w', out, err)"
  shows "w_stop w' = w_stop w"
proof -
  have g: "w_stop w' = w_stop w" if "gated_dispatch X tn inp c w = (w', out, err)" for c
    using that assms(1) by (auto simp: gated_dispatch_def Let_def log_call_def split: option.splits)
  have k: "w_stop w' = w_stop w" if "skill_invoke_dispatch X n a c w = (w', out, err)" for n a c
    using that by (auto simp: skill_invoke_dispatch_def log_call_def split: option.splits if_splits)
  have m: "w_stop w' = w_stop w" if "manager_call X tn ag s t inp md w = (w', out, err)" for ag s t md
    using manager_call_calls [OF that] by simp
  show ?thesis
    using assms(2) unfolding dispatch_tool_def
    by (auto simp: log_call_def split: if_splits option.splits dest: g k m)
qed

definition audit_rows ::
    "outside \<Rightarrow> string \<Rightarrow> string \<Rightarrow> string \<Rightarrow> (decision \<times> outcome) list \<Rightarrow> (bool \<times> audit_log) option \<Rightarrow> (bool \<times> audit_log) option" where
  "audit_rows X ag tn pv rows a =
     foldl (\<lambda>a (d, r). record_global (o_ext X) (o_ts X) ag tn pv d r a) a rows"

definition gated_rows :: "decision \<Rightarrow> bool \<Rightarrow> bool \<Rightarrow> (decision \<times> outcome) list" where
  "gated_rows dec master_on failed =
     (case dec of
        Never \<Rightarrow> [(Never, BlockedByPolicy)]
      | Always \<Rightarrow>
          if master_on then [(Always, AutoApprovedByPolicy), (Always, if failed then DryRun else Executed)]
          else [(Always, AlwaysInertMasterOff), (Ask, DryRun)]
      | Ask \<Rightarrow> if master_on then [(Ask, Parked)] else [(Ask, DryRun)])"

lemma audit_row_stop:
  "stop_audit (w_stop (audit_row X ag tn pv d r w)) = record_global (o_ext X) (o_ts X) ag tn pv d r (stop_audit (w_stop w))"
  "stop_confirm (w_stop (audit_row X ag tn pv d r w)) = stop_confirm (w_stop w)"
  by (simp_all add: audit_row_def)

lemma park_stop:
  "stop_audit (w_stop (fst (park X h p w))) = stop_audit (w_stop w)"
  "stop_confirm (w_stop (fst (park X h p w))) = fst (park_ctx (o_ext X) h p (stop_confirm (w_stop w)))"
  by (simp_all add: park_def set_confirm_def split: prod.splits)

text \<open>
  C5. What a gated call leaves behind, on every branch. Once its preview succeeds, the audit log gets
  exactly the rows of the decision: blocked; auto-approved and then executed or failed; inert and
  dry run under an off switch; parked; or dry run. The confirmation slot changes only when the call
  is parked, and then holds exactly this agent, tool, input and allowlist, armed for a spoken yes
  only if the turn is attended.
\<close>
theorem gated_call_leaves_its_trace:
  assumes "calm X" and "execute_gated X tn inp al ns uo ct w = (w', out, err, eff)"
    and "dispatch_tool X tn (force_confirm inp False) ns uo w = (w1, pv, False)"
    and "dec = downgrade_always_if_unattended (evaluate_global (w_policy w) tn ns pv) ct"
  shows "stop_audit (w_stop w') = audit_rows X ns tn pv (gated_rows dec (consequential_allowed w) err) (stop_audit (w_stop w))
    \<and> (if dec = Ask \<and> consequential_allowed w
       then eff = EffParked \<and> (\<exists>pl. stop_confirm (w_stop w') =
              fst (park_ctx (o_ext X) ct (park_record X ns tn inp al pv pl) (stop_confirm (w_stop w))))
       else eff \<noteq> EffParked \<and> stop_confirm (w_stop w') = stop_confirm (w_stop w))"
proof -
  have s1: "w_stop w1 = w_stop w" by (rule calm_dispatch [OF assms(1,3)])
  have fr: "w_policy w1 = w_policy w" "w_master w1 = w_master w"
    using dispatch_tool_frame [OF assms(3)] by (simp_all add: dispatch_frame_def)
  have m: "consequential_allowed w1 = consequential_allowed w" by (simp add: consequential_allowed_def s1 fr)
  note u = assms(2) [unfolded execute_gated_def Let_def assms(3) prod.case fr(1) m assms(4) [symmetric]]
  obtain w3 out2 e2 where d2: "dispatch_tool X tn (force_confirm inp True) ns uo
      (audit_row X ns tn pv Always AutoApprovedByPolicy w1) = (w3, out2, e2)" by (metis prod_cases3)
  have s3: "w_stop w3 = w_stop (audit_row X ns tn pv Always AutoApprovedByPolicy w1)"
    by (rule calm_dispatch [OF assms(1) d2])
  let ?p = "park X ct (park_record X ns tn inp al pv (compute_plan X tn inp True w1)) w1"
  show ?thesis
  proof (cases dec)
    case Never
    then show ?thesis using u s1 by (auto simp: audit_row_stop audit_rows_def gated_rows_def)
  next
    case Always
    then show ?thesis
      using u d2 s1 s3 by (cases "consequential_allowed w") (auto simp: audit_row_stop audit_rows_def gated_rows_def)
  next
    case Ask
    show ?thesis
    proof (cases "consequential_allowed w")
      case True
      then have "w' = audit_row X ns tn pv Ask Parked (fst ?p)" "err = False" "eff = EffParked"
        using u Ask by (auto split: prod.splits)
      then show ?thesis
        using Ask True s1 park_stop [of X ct "park_record X ns tn inp al pv (compute_plan X tn inp True w1)" w1]
        by (auto simp: audit_row_stop audit_rows_def gated_rows_def)
    next
      case False
      then show ?thesis using u Ask s1 by (auto simp: audit_row_stop audit_rows_def gated_rows_def)
    qed
  qed
qed

lemma demo_calm: "calm demo_outside"
  by (simp add: calm_def demo_outside_def)

lemma gated_call_leaves_its_trace_witness:
  "case execute_gated demo_outside ''x_post'' (JObj []) [''*''] ''agent.darwin'' True True demo_world of
     (w', out, err, eff) \<Rightarrow>
       stop_audit (w_stop w') = audit_rows demo_outside ''agent.darwin'' ''x_post'' ''Would.''
         (gated_rows Ask True err) (stop_audit (w_stop demo_world)) \<and> eff = EffParked"
proof -
  have c: "is_consequential_tool ''x_post''" "\<not> is_mcp_flat_name ''x_post''" "\<not> starts_with ''app__'' ''x_post''"
    "''x_post'' \<noteq> ''skill_invoke''" "''x_post'' \<noteq> ''forge_app''" by code_simp+
  have m: "consequential_allowed demo_world"
    by (simp add: consequential_allowed_def demo_world_def is_locked_down_def boot_state_def)
  have d: "dispatch_tool demo_outside ''x_post'' (force_confirm (JObj []) False) ''agent.darwin'' True demo_world
      = (log_call (Gated ''x_post'' (JObj [(''confirm'', JBool False)]) ModeDryRun) demo_world, ''Would.'', False)"
    using c by (simp add: dispatch_tool_def gated_dispatch_def demo_outside_def demo_reader_def force_confirm_def
        racing_def gate_def)
  have "evaluate_global (w_policy demo_world) ''x_post'' ''agent.darwin'' ''Would.'' = Ask"
    by (simp add: demo_world_def) code_simp
  then have a: "Ask = downgrade_always_if_unattended
      (evaluate_global (w_policy demo_world) ''x_post'' ''agent.darwin'' ''Would.'') True"
    by (simp add: downgrade_always_if_unattended_def)
  obtain w' out err eff where r: "execute_gated demo_outside ''x_post'' (JObj []) [''*''] ''agent.darwin'' True True
      demo_world = (w', out, err, eff)" by (metis prod_cases4)
  show ?thesis
    using gated_call_leaves_its_trace [OF demo_calm r d a] m by (simp add: r)
qed

end
