(* ===== verification/ChokeFindings.thy ===== *)
theory ChokeFindings
  imports ChokeSafety
begin

text \<open>
  Places where the chokepoint does less than its comments say, each as a theorem on the model with
  an evaluated example.
\<close>

text \<open>
  \<open>forge_app\<close> acts before it asks. It is on the list of consequential tools, yet the call that
  should only preview it already runs the whole forge pipeline, whatever the policy answers and
  even with the master switch off; only its own setting and the emergency stop hold it back.
\<close>
theorem forge_app_acts_on_its_preview:
  assumes "w_scope w = None" and "admits al ''forge_app''" and "allow_consequential (current_turn_gate (w_gate w))"
    and "forge_on X" and "\<not> is_locked_down (w_stop w)"
    and "parse_confirm X ''forge_app'' (force_confirm inp False) \<noteq> None"
  shows "\<exists>later. new_calls w (fst (execute_tool_bound X ''forge_app'' inp al ns uo ct cb w))
    = Forge (force_confirm inp False) # later"
proof -
  have "is_consequential_tool ''forge_app'' \<and> \<not> is_mcp_flat_name ''forge_app'' \<and> \<not> starts_with ''app__'' ''forge_app''
      \<and> list_all (\<lambda>t. ''forge_app'' \<notin> set (withheld_recall_tools t)) [TrimNone, NoFacts, NoMemory]"
    by code_simp
  then have c: "is_consequential_tool ''forge_app''" "\<not> is_mcp_flat_name ''forge_app''"
    "\<not> starts_with ''app__'' ''forge_app''" "''forge_app'' \<notin> set (withheld_recall_tools t)" for t
    by (cases t; simp)+
  obtain con t where gt: "gate_and_trim (w_boundary w) = (con, t)" by fastforce
  obtain w1 pv e where f: "forge_draft X (force_confirm inp False) = (pv, e)" by fastforce
  have d: "dispatch_tool X ''forge_app'' (force_confirm inp False) ns uo w
      = (log_call (Forge (force_confirm inp False)) w, pv, e)"
    using c assms(4-6) f by (auto simp: dispatch_tool_def)
  have r: "execute_tool_bound X ''forge_app'' inp al ns uo ct cb w = execute_gated X ''forge_app'' inp al ns uo ct w"
    using c assms(1-3) by (simp add: execute_tool_bound_def gt customs_withholds_recall_def tool_needs_park_def)
  obtain w' out err eff where g: "execute_gated X ''forge_app'' inp al ns uo ct w = (w', out, err, eff)"
    by (metis prod_cases4)
  have "\<exists>later. w_calls w' = w_calls w @ Forge (force_confirm inp False) # later"
    using g
  proof (cases rule: execute_gated_cases)
    case (quiet w1 pv e)
    then show ?thesis using d by (auto simp: log_call_def)
  next
    case (fired w1 pv w3 out2 e2)
    obtain cs where "w_calls w3 = w_calls (audit_row X ns ''forge_app'' pv Always AutoApprovedByPolicy w1) @ cs"
      using dispatch_new [OF fired(5)] by metis
    then show ?thesis using fired(1,6) d by (auto simp: log_call_def)
  qed
  then show ?thesis by (auto simp: r g new_calls_def)
qed

text \<open>
  An argument given as a JSON array is executed by the call that should preview it. The confirm
  flag is forced on objects only; where the derived reader takes the flag from an array by position,
  an ask-first action of an attended turn fires at once, and the reply still says it was parked.
\<close>
theorem array_input_fires_before_asking:
  assumes "\<not> is_object inp" and "parse_confirm X tn inp = Some True" and "pre_gate X tn inp False = None"
    and "client X tn inp ModeExecute = (pv, False)" and "calm X" and "consequential_allowed w"
    and "is_consequential_tool tn" and "\<not> is_mcp_flat_name tn" and "\<not> starts_with ''app__'' tn"
    and "tn \<noteq> ''skill_invoke''" and "tn \<noteq> ''forge_app''"
    and "downgrade_always_if_unattended (evaluate_global (w_policy w) tn ns pv) ct = Ask"
    and "execute_gated X tn inp al ns uo ct w = (w', out, err, eff)"
  shows "new_calls w w' = [Gated tn inp ModeExecute] \<and> eff = EffParked"
proof -
  have "\<not> is_locked_down (w_stop w)" using assms(6) by (simp add: consequential_allowed_def split: if_splits)
  then have d: "dispatch_tool X tn (force_confirm inp False) ns uo w = (log_call (Gated tn inp ModeExecute) w, pv, False)"
    using assms(1-11) by (cases inp) (simp_all add: dispatch_tool_def gated_dispatch_def gate_def force_confirm_def is_object_def)
  show ?thesis
    using assms(6,12,13) d
    by (auto simp: execute_gated_def Let_def new_calls_def split: prod.splits dest!: park_frame)
qed

definition demo_off :: world where
  "demo_off = demo_world\<lparr> w_master := Some False \<rparr>"

lemma forge_app_acts_on_its_preview_witness:
  "\<exists>later. new_calls demo_off (fst (execute_tool_bound demo_outside ''forge_app'' (JObj []) [''*''] ''agent.darwin''
      True True True demo_off)) = Forge (force_confirm (JObj []) False) # later"
  by (rule forge_app_acts_on_its_preview)
    (simp_all add: demo_off_def demo_world_def admits_def TOOLS_WILDCARD_def allow_consequential_def current_turn_gate_def
      OFF_GATE_def demo_outside_def is_locked_down_def boot_state_def demo_reader_def force_confirm_def)

lemma array_input_fires_before_asking_witness:
  "case execute_gated demo_outside ''x_post'' (JArr [JStr ''hello'', JBool True]) [''*''] ''agent.darwin'' True True demo_world
     of (w', out, err, eff) \<Rightarrow>
       new_calls demo_world w' = [Gated ''x_post'' (JArr [JStr ''hello'', JBool True]) ModeExecute] \<and> eff = EffParked"
proof -
  obtain w' out err eff where r: "execute_gated demo_outside ''x_post'' (JArr [JStr ''hello'', JBool True]) [''*'']
      ''agent.darwin'' True True demo_world = (w', out, err, eff)" by (metis prod_cases4)
  have "is_consequential_tool ''x_post'' \<and> \<not> is_mcp_flat_name ''x_post'' \<and> \<not> starts_with ''app__'' ''x_post''
      \<and> ''x_post'' \<noteq> ''skill_invoke'' \<and> ''x_post'' \<noteq> ''forge_app''
      \<and> evaluate_global demo_layer ''x_post'' ''agent.darwin'' ''Done.'' = Ask" by code_simp
  then show ?thesis
    unfolding r prod.case
    by (intro array_input_fires_before_asking [OF _ _ _ _ demo_calm _ _ _ _ _ _ _ r, where pv = "''Done.''"])
      (simp_all add: is_object_def demo_outside_def demo_reader_def consequential_allowed_def demo_world_def
        is_locked_down_def boot_state_def downgrade_always_if_unattended_def)
qed

text \<open>The policy is no part of what a dispatch reads.\<close>

abbreviation repolicy :: "policy_layer \<Rightarrow> world \<Rightarrow> world" where
  "repolicy P w \<equiv> w\<lparr> w_policy := P \<rparr>"

lemma racing_repolicy: "racing X r (repolicy P w) = repolicy P (racing X r w)"
  by (simp add: racing_def split: option.splits bool.splits)

lemma allowed_repolicy: "consequential_allowed (repolicy P w) = consequential_allowed w" "gate (repolicy P w) c = gate w c"
  by (simp_all add: consequential_allowed_def gate_def)

lemma log_repolicy: "log_call k (repolicy P w) = repolicy P (log_call k w)"
  by (simp add: log_call_def)

lemma manager_repolicy:
  "manager_call X f ag s t i m (repolicy P w) = (case manager_call X f ag s t i m w of (w', r) \<Rightarrow> (repolicy P w', r))"
  by (simp add: manager_call_def Let_def log_call_def split: prod.splits option.splits)

lemma gated_repolicy:
  "gated_dispatch X tn i c (repolicy P w) = (case gated_dispatch X tn i c w of (w', r) \<Rightarrow> (repolicy P w', r))"
  by (simp add: gated_dispatch_def Let_def racing_repolicy allowed_repolicy log_repolicy split: option.split)

lemma skill_repolicy:
  "skill_invoke_dispatch X n a c (repolicy P w)
     = (case skill_invoke_dispatch X n a c w of (w', r) \<Rightarrow> (repolicy P w', r))"
  by (simp add: skill_invoke_dispatch_def allowed_repolicy log_repolicy split: option.split)

abbreviation lift_policy :: "policy_layer \<Rightarrow> world \<times> 'r \<Rightarrow> world \<times> 'r" where
  "lift_policy P \<equiv> map_prod (repolicy P) id"

lemma dispatch_repolicy:
  "dispatch_tool X tn i ns uo (repolicy P w) = (case dispatch_tool X tn i ns uo w of (w', r) \<Rightarrow> (repolicy P w', r))"
proof -
  have m: "(case q of (w', r) \<Rightarrow> (repolicy P w', r)) = lift_policy P q" for q :: "world \<times> string \<times> bool"
    by (cases q) simp
  have s: "w_stop (repolicy P w) = w_stop w" by simp
  show ?thesis
    unfolding dispatch_tool_def m
    by (simp only: gated_repolicy skill_repolicy manager_repolicy log_repolicy allowed_repolicy m s
        if_distrib [of "lift_policy P"] option.case_distrib [of "lift_policy P"] prod.case_distrib [of "lift_policy P"]
        map_prod_simp id_apply)
qed

lemma plan_repolicy: "compute_plan X tn i b (repolicy P w) = compute_plan X tn i b w"
  by (simp add: compute_plan_def)

lemma rows_repolicy:
  "audit_row X a t g d r (repolicy P w) = repolicy P (audit_row X a t g d r w)"
  "journal_row X a t i pv out al b v (repolicy P w) = repolicy P (journal_row X a t i pv out al b v w)"
  "park X h p (repolicy P w) = (case park X h p w of (w', r) \<Rightarrow> (repolicy P w', r))"
  by (simp_all add: audit_row_def journal_row_def park_def set_confirm_def split: prod.splits)

text \<open>
  A confirmed action does not look at the policy again. Whatever policy is put in force between
  the park and the yes, a rule that never allows the tool included, the replay makes the same calls
  and gives the same answer.
\<close>
theorem replay_ignores_the_policy:
  "replay_confirmed_action X p (w\<lparr> w_policy := P \<rparr>)
     = (case replay_confirmed_action X p w of (w', out, err) \<Rightarrow> (w'\<lparr> w_policy := P \<rparr>, out, err))"
  by (simp add: replay_confirmed_action_def Let_def plan_repolicy dispatch_repolicy allowed_repolicy rows_repolicy
      split: prod.splits state_bind.splits)

text \<open>
  A refusal that is returned as a reply is recorded as an execution. When the arm of a gated tool
  answers before it reads the gate and reports no error, the confirmed replay makes no call, and
  still writes the audit rows confirmed and executed.
\<close>
theorem refused_replay_is_audited_as_executed:
  assumes "pre_gate X (p_tool p) (force_confirm (p_input p) True) False = Some (msg, False)"
    and "parse_confirm X (p_tool p) (force_confirm (p_input p) True) = Some c"
    and "is_consequential_tool (p_tool p)" and "\<not> is_mcp_flat_name (p_tool p)" and "\<not> starts_with ''app__'' (p_tool p)"
    and "p_tool p \<noteq> ''skill_invoke''" and "p_tool p \<noteq> ''forge_app''"
    and "allow_confirm_replay (current_turn_gate (w_gate w))" and "w_scope w = None"
    and "admits (p_allowed p) (p_tool p)" and "p_plan p = None" and "consequential_allowed w"
  shows "case replay_confirmed_action X p w of (w', out, err) \<Rightarrow>
      w_calls w' = w_calls w \<and> out = msg \<and> \<not> err
    \<and> stop_audit (w_stop w') = audit_rows X (p_agent p) (p_tool p) (p_preview p) [(Ask, Confirmed), (Ask, Executed)]
        (stop_audit (w_stop w))"
proof -
  have "\<not> is_locked_down (w_stop w)" using assms(12) by (simp add: consequential_allowed_def split: if_splits)
  then have "dispatch_tool X (p_tool p) (force_confirm (p_input p) True) (p_agent p) True w = (w, msg, False)"
    using assms(1-7) by (simp add: dispatch_tool_def gated_dispatch_def)
  then show ?thesis
    using assms(8-12) by (simp add: replay_confirmed_action_def is_guest_turn_def Let_def audit_row_stop audit_rows_def)
qed

definition demo_refusing :: outside where
  "demo_refusing = demo_outside\<lparr> pre_gate := (\<lambda>_ _ _. Some (''Not allowed.'', False)) \<rparr>"

lemma refused_replay_is_audited_as_executed_witness:
  "case replay_confirmed_action demo_refusing demo_confirm demo_world of (w', out, err) \<Rightarrow>
      w_calls w' = w_calls demo_world \<and> out = ''Not allowed.'' \<and> \<not> err
    \<and> stop_audit (w_stop w') = audit_rows demo_refusing (p_agent demo_confirm) (p_tool demo_confirm)
        (p_preview demo_confirm) [(Ask, Confirmed), (Ask, Executed)] (stop_audit (w_stop demo_world))"
proof (rule refused_replay_is_audited_as_executed)
  have "is_consequential_tool ''x_post'' \<and> \<not> is_mcp_flat_name ''x_post'' \<and> \<not> starts_with ''app__'' ''x_post''
      \<and> ''x_post'' \<noteq> ''skill_invoke'' \<and> ''x_post'' \<noteq> ''forge_app''" by code_simp
  then show "is_consequential_tool (p_tool demo_confirm)" "\<not> is_mcp_flat_name (p_tool demo_confirm)"
    "\<not> starts_with ''app__'' (p_tool demo_confirm)" "p_tool demo_confirm \<noteq> ''skill_invoke''"
    "p_tool demo_confirm \<noteq> ''forge_app''"
    by (simp_all add: demo_confirm_def demo_pending_def)
qed (simp_all add: demo_refusing_def demo_outside_def demo_confirm_def demo_pending_def demo_world_def demo_reader_def
      force_confirm_def allow_confirm_replay_def current_turn_gate_def OFF_GATE_def admits_def TOOLS_WILDCARD_def
      consequential_allowed_def is_locked_down_def boot_state_def)

end
