(* ===== verification/Schedule.thy ===== *)
theory Schedule
  imports JsonValue
begin

text \<open>
  When a standing mission runs: the schedules and tripwire conditions of \<open>daemon/src/standing.rs\<close>,
  their parser, their description and the due check. \<open>f64\<close> is the type variable \<open>'f\<close> with the
  operations of the record \<open>floats\<close>, \<open>str::to_lowercase\<close> the parameter \<open>low\<close> and the Unicode table
  of \<open>char::is_alphanumeric\<close> the parameter \<open>ua\<close>. Seconds are \<open>u64\<close>, kept below \<open>2 ^ 64\<close> by \<open>sat64\<close>
  where the code saturates.
\<close>

section \<open>Floating-point operations\<close>

record 'f floats =
  parse_f64 :: "string \<Rightarrow> 'f option"
  show_f64 :: "'f \<Rightarrow> string"
  fract_zero :: "'f \<Rightarrow> bool"
  f_as_i64 :: "'f \<Rightarrow> int"
  f_as_u32 :: "'f \<Rightarrow> nat"
  f_max :: "'f \<Rightarrow> 'f \<Rightarrow> 'f"
  f_const :: "nat \<Rightarrow> 'f"
  f_lt :: "'f \<Rightarrow> 'f \<Rightarrow> bool"
  f_ge :: "'f \<Rightarrow> 'f \<Rightarrow> bool"
  f_add :: "'f \<Rightarrow> 'f \<Rightarrow> 'f"
  f_sub :: "'f \<Rightarrow> 'f \<Rightarrow> 'f"

section \<open>Conditions\<close>

datatype 'f condition =
    DiskFreePctBelow 'f
  | MemUsedPctAtLeast 'f
  | UnreadAtLeast nat
  | CalendarWithinMinutes int

record 'f signals =
  health :: "('f \<times> 'f) option"
  important_unread :: nat
  event_minutes :: "int list"
  market_present :: bool

definition DISK_MEM_HYSTERESIS_PCT :: nat where
  "DISK_MEM_HYSTERESIS_PCT = 2"

definition CALENDAR_HYSTERESIS_MIN :: int where
  "CALENDAR_HYSTERESIS_MIN = 5"

text \<open>\<open>i64\<close> addition of the release build wraps.\<close>

definition wrap_i64 :: "int \<Rightarrow> int" where
  "wrap_i64 i = (i + 2 ^ 63) mod 2 ^ 64 - 2 ^ 63"

definition holds :: "'f floats \<Rightarrow> 'f signals \<Rightarrow> 'f condition \<Rightarrow> bool" where
  "holds F s c =
     (case c of
        DiskFreePctBelow pct \<Rightarrow> (case health s of None \<Rightarrow> False | Some (disk, _) \<Rightarrow> f_lt F disk pct)
      | MemUsedPctAtLeast pct \<Rightarrow> (case health s of None \<Rightarrow> False | Some (_, mem) \<Rightarrow> f_ge F mem pct)
      | UnreadAtLeast count \<Rightarrow> count \<le> important_unread s
      | CalendarWithinMinutes m \<Rightarrow> list_ex (\<lambda>e. 0 \<le> e \<and> e \<le> m) (event_minutes s))"

definition cleared :: "'f floats \<Rightarrow> 'f signals \<Rightarrow> 'f condition \<Rightarrow> bool" where
  "cleared F s c =
     (case c of
        DiskFreePctBelow pct \<Rightarrow> (case health s of None \<Rightarrow> True
          | Some (disk, _) \<Rightarrow> f_ge F disk (f_add F pct (f_const F DISK_MEM_HYSTERESIS_PCT)))
      | MemUsedPctAtLeast pct \<Rightarrow> (case health s of None \<Rightarrow> True
          | Some (_, mem) \<Rightarrow> f_ge F (f_sub F pct (f_const F DISK_MEM_HYSTERESIS_PCT)) mem)
      | UnreadAtLeast count \<Rightarrow> important_unread s < count
      | CalendarWithinMinutes m \<Rightarrow>
          \<not> list_ex (\<lambda>e. 0 \<le> e \<and> e \<le> wrap_i64 (m + CALENDAR_HYSTERESIS_MIN)) (event_minutes s))"

definition trim_num :: "'f floats \<Rightarrow> 'f \<Rightarrow> string" where
  "trim_num F v = (if fract_zero F v then int_string (f_as_i64 F v) else show_f64 F v)"

definition describe_condition :: "'f floats \<Rightarrow> 'f condition \<Rightarrow> string" where
  "describe_condition F c =
     (case c of
        DiskFreePctBelow pct \<Rightarrow> ''free disk drops below '' @ trim_num F pct @ ''%''
      | MemUsedPctAtLeast pct \<Rightarrow> ''memory use reaches '' @ trim_num F pct @ ''%''
      | UnreadAtLeast count \<Rightarrow> ''unread mail reaches '' @ nat_digits count
      | CalendarWithinMinutes m \<Rightarrow> ''a calendar event is within '' @ int_string m @ '' minutes'')"

definition first_number :: "'f floats \<Rightarrow> string \<Rightarrow> 'f option" where
  "first_number F p =
     (case dropWhile (\<lambda>c. \<not> ascii_digit c) p of
        [] \<Rightarrow> None
      | r \<Rightarrow> parse_f64 F (takeWhile (\<lambda>c. ascii_digit c \<or> c = CHR ''.'') r))"

definition parse_condition :: "(string \<Rightarrow> string) \<Rightarrow> 'f floats \<Rightarrow> string \<Rightarrow> 'f condition option" where
  "parse_condition low F phrase =
     (let p = low (trim phrase); num = first_number F p in
      if str_contains p ''disk'' then map_option DiskFreePctBelow num
      else if str_contains p ''mem'' then map_option MemUsedPctAtLeast num
      else if str_contains p ''unread'' \<or> str_contains p ''inbox''
      then map_option (\<lambda>n. UnreadAtLeast (f_as_u32 F (f_max F n (f_const F 1)))) num
      else if str_contains p ''calendar'' \<or> str_contains p ''event'' \<or> str_contains p ''meeting''
      then map_option (\<lambda>n. CalendarWithinMinutes (f_as_i64 F (f_max F n (f_const F 0)))) num
      else None)"

section \<open>Schedules\<close>

datatype 'f schedule =
    Daily nat nat
  | Interval nat
  | OnSignal string
  | Tripwire "'f condition"

definition MIN_INTERVAL_SECS :: nat where
  "MIN_INTERVAL_SECS = 3600"

definition clamp_interval :: "nat \<Rightarrow> nat" where
  "clamp_interval secs = max secs MIN_INTERVAL_SECS"

definition sat64 :: "nat \<Rightarrow> nat" where
  "sat64 n = min n (2 ^ 64 - 1)"

text \<open>\<open>str::parse\<close> at an unsigned type of \<open>w\<close> bits.\<close>

definition parse_unsigned :: "nat \<Rightarrow> string \<Rightarrow> nat option" where
  "parse_unsigned w s =
     (case (case s of c # cs \<Rightarrow> if c = CHR ''+'' then parse_nat cs else parse_nat s | [] \<Rightarrow> None) of
        None \<Rightarrow> None | Some n \<Rightarrow> if n < 2 ^ w then Some n else None)"

definition first_signal_token :: "(string \<Rightarrow> string) \<Rightarrow> (rchar \<Rightarrow> bool) \<Rightarrow> string \<Rightarrow> string option" where
  "first_signal_token low ua rest =
     map_option low (find (\<lambda>w. 2 \<le> length w \<and> length w \<le> 24)
       (map concat (split_on (\<lambda>c. \<not> is_alphanumeric ua c) (chars rest))))"

definition parse_interval :: "string \<Rightarrow> nat option" where
  "parse_interval p =
     (case strip_prefix ''every '' p of None \<Rightarrow> None
      | Some rest \<Rightarrow>
        (case split_whitespace rest of
           n # unit # _ \<Rightarrow>
             (case parse_unsigned 64 n of None \<Rightarrow> None
              | Some n \<Rightarrow>
                  if starts_with ''hour'' unit then Some (sat64 (n * 3600))
                  else if starts_with ''min'' unit then Some (sat64 (n * 60))
                  else if starts_with ''day'' unit then Some (sat64 (n * 86400))
                  else None)
         | _ \<Rightarrow> None))"

text \<open>\<open>s.replace(pat, "")\<close> for a non-empty pattern, left to right.\<close>

function remove_all :: "string \<Rightarrow> string \<Rightarrow> string" where
  "remove_all p [] = []"
| "remove_all p (c # cs) =
     (if p \<noteq> [] \<and> starts_with p (c # cs) then remove_all p (drop (length p) (c # cs)) else c # remove_all p cs)"
  by pat_completeness auto
termination by (relation "measure (\<lambda>(p, s). length s)") auto

definition parse_time_of_day :: "string \<Rightarrow> (nat \<times> nat) option" where
  "parse_time_of_day p =
     (case split_once ''at '' p of None \<Rightarrow> None
      | Some (_, tail) \<Rightarrow>
        (case split_whitespace tail of [] \<Rightarrow> None
         | token # others \<Rightarrow>
           let next_word = (case others of [] \<Rightarrow> [] | w # _ \<Rightarrow> w);
               pm = (str_contains token ''pm'' \<or> starts_with ''pm'' next_word);
               am = (str_contains token ''am'' \<or> starts_with ''am'' next_word);
               t = remove_all ''pm'' (remove_all ''am'' token);
               (h, m) = (case split_once '':'' t of Some hm \<Rightarrow> hm | None \<Rightarrow> (t, ''0'')) in
           (case (parse_unsigned 8 h, parse_unsigned 8 m) of
              (Some hour, Some minute) \<Rightarrow>
                if 23 < hour \<or> 59 < minute then None
                else let hour1 = (if pm \<and> hour < 12 then hour + 12 else hour);
                         hour2 = (if am \<and> hour1 = 12 then 0 else hour1)
                     in Some (hour2, minute)
            | _ \<Rightarrow> None)))"

fun signal_cue :: "(string \<Rightarrow> string) \<Rightarrow> (rchar \<Rightarrow> bool) \<Rightarrow> string \<Rightarrow> string list \<Rightarrow> string option" where
  "signal_cue low ua p [] = None"
| "signal_cue low ua p (cue # cues) =
     (case Option.bind (strip_prefix cue p) (first_signal_token low ua) of
        Some s \<Rightarrow> Some s | None \<Rightarrow> signal_cue low ua p cues)"

definition parse_schedule :: "(string \<Rightarrow> string) \<Rightarrow> (rchar \<Rightarrow> bool) \<Rightarrow> 'f floats \<Rightarrow> string \<Rightarrow> 'f schedule" where
  "parse_schedule low ua F phrase =
     (let p = low (trim phrase) in
      if p = [] then Daily 9 0
      else case parse_condition low F p of
        Some c \<Rightarrow> Tripwire c
      | None \<Rightarrow>
        (case signal_cue low ua p [''on signal '', ''when '', ''on ''] of
           Some s \<Rightarrow> OnSignal s
         | None \<Rightarrow>
           if str_contains p ''hourly'' then Interval (clamp_interval 3600)
           else case parse_interval p of
             Some secs \<Rightarrow> Interval (clamp_interval secs)
           | None \<Rightarrow>
             if str_contains p ''dail'' \<or> str_contains p ''every day'' \<or> str_contains p ''each day''
                \<or> str_contains p ''morning'' \<or> starts_with ''at '' p \<or> str_contains p '' at ''
             then (case parse_time_of_day p of None \<Rightarrow> Daily 9 0 | Some (h, m) \<Rightarrow> Daily h m)
             else Daily 9 0))"

definition pad2 :: "nat \<Rightarrow> string" where
  "pad2 n = (if n < 10 then CHR ''0'' # nat_digits n else nat_digits n)"

definition describe_schedule :: "'f floats \<Rightarrow> 'f schedule \<Rightarrow> string" where
  "describe_schedule F s =
     (case s of
        Daily h m \<Rightarrow> ''daily at '' @ pad2 h @ '':'' @ pad2 m
      | Interval secs \<Rightarrow>
          if secs mod 3600 = 0 then ''every '' @ nat_digits (secs div 3600) @ ''h''
          else ''every '' @ nat_digits (secs div 60) @ ''m''
      | OnSignal sig \<Rightarrow> ''when '' @ sig @ '' fires''
      | Tripwire c \<Rightarrow> ''when '' @ describe_condition F c)"

definition is_condition :: "'f schedule \<Rightarrow> bool" where
  "is_condition s = (case s of Tripwire _ \<Rightarrow> True | _ \<Rightarrow> False)"

definition is_due :: "'f schedule \<Rightarrow> nat \<Rightarrow> nat \<Rightarrow> nat \<Rightarrow> nat \<Rightarrow> nat \<Rightarrow> string list \<Rightarrow> bool" where
  "is_due s now local_hour local_minute local_midnight last_run signals_present =
     (case s of
        Daily h m \<Rightarrow>
          if \<not> h * 60 + m \<le> local_hour * 60 + local_minute then False
          else if last_run = 0 then True else last_run < local_midnight
      | Interval secs \<Rightarrow> if last_run = 0 then True else clamp_interval secs \<le> now - last_run
      | OnSignal sig \<Rightarrow>
          if sig \<notin> set signals_present then False
          else if last_run = 0 then True else MIN_INTERVAL_SECS \<le> now - last_run
      | Tripwire _ \<Rightarrow> False)"

section \<open>Text that describes a schedule\<close>

lemma contains_set: "str_contains s p \<Longrightarrow> set p \<subseteq> set s"
  by (auto simp: str_contains_iff)

lemma contains_Nil [simp]: "str_contains [] p \<longleftrightarrow> p = []"
  by simp

text \<open>A pattern that starts with no digit is not found inside a number.\<close>

lemma contains_after_number:
  assumes "list_all ascii_digit ds" and "\<not> ascii_digit c"
  shows "str_contains (ds @ s) (c # p) \<longleftrightarrow> str_contains s (c # p)"
  using assms(1)
proof (induction ds)
  case (Cons d ds)
  have "d \<noteq> c" using Cons.prems assms(2) by auto
  then show ?case using Cons by (simp add: starts_with_def)
qed simp

lemma remove_all_absent: "\<not> str_contains s p \<Longrightarrow> remove_all p s = s"
  by (induction s) auto

lemma digits_ascii: "list_all ascii_digit ds \<Longrightarrow> list_all is_ascii ds"
  by (auto simp: list_all_iff ascii_digit_def is_ascii_def)

lemma digit_facts:
  assumes "ascii_digit c"
  shows "is_ascii c" "\<not> ascii_ws c" "lower_byte c = c" "c \<noteq> CHR '' ''"
  using assms by (auto simp: ascii_digit_def is_ascii_def ascii_ws_def lower_byte_def ascii_upper_def)

lemma digits_visible: "list_all ascii_digit ds \<Longrightarrow> list_all (\<lambda>c. is_ascii c \<and> \<not> ascii_ws c) ds"
  by (auto simp: list_all_iff digit_facts)

lemma digits_no_colon: "list_all ascii_digit ds \<Longrightarrow> CHR '':'' \<notin> set ds"
proof -
  have "\<not> ascii_digit (CHR '':'')" by (simp add: ascii_digit_def)
  then show "list_all ascii_digit ds \<Longrightarrow> CHR '':'' \<notin> set ds" by (auto simp: list_all_iff)
qed

lemma one_word:
  assumes "list_all (\<lambda>c. is_ascii c \<and> \<not> ascii_ws c) s" and "s \<noteq> []"
  shows "split_whitespace s = [s]"
proof -
  have "ascii_string s" "\<And>c. c \<in> set s \<Longrightarrow> \<not> ascii_ws c"
    using assms(1) by (auto simp: ascii_string_def list_all_iff)
  then show ?thesis using assms(2) by (simp add: split_whitespace_ascii split_on_none)
qed

lemma nat_digits_list: "list_all ascii_digit (nat_digits n)"
  using nat_digits_ascii_digit by (auto simp: list_all_iff)

lemma pad2_digits: "list_all ascii_digit (pad2 n)"
  by (simp add: pad2_def nat_digits_list ascii_digit_def)

lemma pad2_not_Nil [simp]: "pad2 n \<noteq> []"
  by (simp add: pad2_def)

lemma read_pad2: "parse_unsigned 8 (pad2 n) = (if n < 256 then Some n else None)"
proof -
  have d: "parse_unsigned 8 ds = (case parse_nat ds of None \<Rightarrow> None | Some n \<Rightarrow> if n < 256 then Some n else None)"
    if "list_all ascii_digit ds" "ds \<noteq> []" for ds
    using that by (cases ds) (auto simp: parse_unsigned_def ascii_digit_def split: option.splits)
  have "parse_nat (pad2 n) = Some n"
  proof (cases "n < 10")
    case True
    then have "parse_nat (pad2 n) = read_digits 0 (nat_digits n)"
      by (simp add: pad2_def parse_nat_def ascii_digit_def)
    then show ?thesis by (simp add: read_nat_digits)
  qed (simp add: pad2_def parse_nat_digits)
  then show ?thesis using d [OF pad2_digits pad2_not_Nil] by simp
qed

text \<open>Documented behaviour of \<open>str::to_lowercase\<close>: on ASCII text it lowers the ASCII letters.\<close>

definition lowers_ascii :: "(string \<Rightarrow> string) \<Rightarrow> bool" where
  "lowers_ascii low \<longleftrightarrow> (\<forall>s. ascii_string s \<longrightarrow> low s = to_ascii_lowercase s)"

text \<open>Text without upper case letters or outer white space passes the normalisation unchanged.\<close>

definition plain_text :: "string \<Rightarrow> bool" where
  "plain_text s \<longleftrightarrow> s \<noteq> [] \<and> list_all (\<lambda>c. is_ascii c \<and> lower_byte c = c) s \<and> \<not> ascii_ws (hd s) \<and> \<not> ascii_ws (last s)"

lemma plain_text_normal:
  assumes "lowers_ascii low" and "plain_text s"
  shows "low (trim s) = s"
proof -
  have a: "ascii_string s" using assms(2) by (simp add: plain_text_def ascii_string_def list_all_iff)
  have "trim s = s" using assms(2) a by (simp add: plain_text_def trim_ascii trim_list_id)
  moreover have "to_ascii_lowercase s = s"
    using assms(2) by (simp add: plain_text_def to_ascii_lowercase_def list_all_iff map_idI)
  ultimately show ?thesis using assms(1) a by (simp add: lowers_ascii_def)
qed

lemma plain_digits: "list_all ascii_digit ds \<Longrightarrow> list_all (\<lambda>c. is_ascii c \<and> lower_byte c = c) ds"
  by (auto simp: list_all_iff digit_facts)

lemmas text_eval = starts_with_def plain_text_def is_ascii_def lower_byte_def ascii_upper_def ascii_ws_def

lemma time_of_token:
  assumes "split_once ''at '' p = Some (x, t)" and "split_whitespace t = [t]"
    and "\<not> str_contains t ''am''" and "\<not> str_contains t ''pm''"
    and "split_once '':'' t = Some (pad2 h, pad2 m)" and "h < 24" and "m < 60"
  shows "parse_time_of_day p = Some (h, m)"
  using assms by (simp add: parse_time_of_day_def Let_def remove_all_absent read_pad2 starts_with_def)

lemma daily_of_text:
  assumes "low (trim p) = p" and "p \<noteq> []" and "parse_condition low F p = None"
    and "signal_cue low ua p [''on signal '', ''when '', ''on ''] = None" and "\<not> str_contains p ''hourly''"
    and "parse_interval p = None" and "str_contains p ''dail''" and "parse_time_of_day p = Some (h, m)"
  shows "parse_schedule low ua F p = Daily h m"
  using assms by (simp add: parse_schedule_def Let_def)

lemma default_of_text:
  assumes "low (trim p) = p" and "parse_condition low F p = None"
    and "signal_cue low ua p [''on signal '', ''when '', ''on ''] = None" and "\<not> str_contains p ''hourly''"
    and "parse_interval p = None" and "parse_time_of_day p = None"
  shows "parse_schedule low ua F p = Daily 9 0"
  using assms by (simp add: parse_schedule_def Let_def)

text \<open>The reading of a description, schedule by schedule.\<close>

lemma parse_described_daily:
  assumes "lowers_ascii low" and "h < 24" and "m < 60"
  shows "parse_schedule low ua F (describe_schedule F (Daily h m)) = Daily h m"
proof -
  let ?t = "pad2 h @ '':'' @ pad2 m"
  let ?p = "''daily at '' @ ?t"
  have dg: "list_all ascii_digit (pad2 h)" "list_all ascii_digit (pad2 m)" by (rule pad2_digits)+
  have "ascii_digit (last (pad2 m))" using dg(2) by (simp add: list_all_iff)
  then have ends: "\<not> ascii_ws (last (pad2 m))" "\<not> ascii_ws (CHR ''d'')"
    by (rule digit_facts) (simp add: ascii_ws_def)
  have plain: "plain_text ?p"
    using ends plain_digits [OF dg(1)] plain_digits [OF dg(2)]
    by (simp add: plain_text_def) (simp add: is_ascii_def lower_byte_def ascii_upper_def)
  have norm: "low (trim ?p) = ?p" by (rule plain_text_normal [OF assms(1) plain])
  have chars: "set ?p \<subseteq> {c. ascii_digit c} \<union> set ''daily at :''" using dg by (auto simp: list_all_iff)
  have no: "\<not> str_contains ?p k" if "\<not> set k \<subseteq> {c. ascii_digit c} \<union> set ''daily at :''" for k
    using contains_set [of ?p k] chars that by blast
  have kws: "\<not> str_contains ?p ''disk''" "\<not> str_contains ?p ''mem''" "\<not> str_contains ?p ''unread''"
    "\<not> str_contains ?p ''inbox''" "\<not> str_contains ?p ''calendar''" "\<not> str_contains ?p ''event''"
    "\<not> str_contains ?p ''meeting''" "\<not> str_contains ?p ''hourly''"
    by (rule no, simp add: ascii_digit_def)+
  have cond: "parse_condition low F ?p = None"
    unfolding parse_condition_def Let_def norm by (simp only: kws if_False simp_thms)
  have tail: "split_whitespace ?t = [?t]"
  proof -
    have "\<not> ascii_ws (CHR '':'')" by (simp add: ascii_ws_def)
    then have "list_all (\<lambda>c. is_ascii c \<and> \<not> ascii_ws c) ?t"
      using digits_visible [OF dg(1)] digits_visible [OF dg(2)] by simp
    then show ?thesis by (rule one_word) simp
  qed
  have no2: "\<not> str_contains ?t k" if "\<not> set k \<subseteq> {c. ascii_digit c} \<union> {CHR '':''}" for k
    using contains_set [of ?t k] dg that by (auto simp: list_all_iff)
  have ampm: "\<not> str_contains ?t ''am''" "\<not> str_contains ?t ''pm''"
    by (rule no2, simp add: ascii_digit_def)+
  have colon: "split_once '':'' ?t = Some (pad2 h, pad2 m)"
    using digits_no_colon [OF dg(1)] split_once_char [of "CHR '':''" "pad2 h" "pad2 m"] by simp
  have at: "split_once ''at '' ?p = Some (''daily '', ?t)" by (simp add: starts_with_def)
  have time: "parse_time_of_day ?p = Some (h, m)"
    by (rule time_of_token [OF at tail ampm colon assms(2,3)])
  have dail: "str_contains ?p ''dail''" by (simp add: starts_with_def)
  have cue: "signal_cue low ua ?p [''on signal '', ''when '', ''on ''] = None"
    by (simp add: strip_prefix_def starts_with_def)
  have int: "parse_interval ?p = None" by (simp add: parse_interval_def strip_prefix_def starts_with_def)
  have "parse_schedule low ua F ?p = Daily h m"
    by (rule daily_of_text [OF norm _ cond cue kws(8) int dail time]) simp
  then show ?thesis by (simp add: describe_schedule_def)
qed

lemma split_once_absent: "\<not> str_contains s p \<Longrightarrow> split_once p s = None"
  by (induction s) auto

text \<open>No interval description is read back: the unit is glued to the number.\<close>

lemma parse_described_interval:
  assumes "lowers_ascii low"
  shows "parse_schedule low ua F (describe_schedule F (Interval secs)) = Daily 9 0"
proof -
  have glued: "parse_schedule low ua F (''every '' @ nat_digits n @ [u]) = Daily 9 0"
    if u: "u = CHR ''h'' \<or> u = CHR ''m''" for n u
  proof -
    let ?w = "nat_digits n @ [u]"
    let ?p = "''every '' @ ?w"
    have dg: "list_all ascii_digit (nat_digits n)" by (rule nat_digits_list)
    have u2: "is_ascii u" "lower_byte u = u" "\<not> ascii_ws u"
      using u by (auto simp: is_ascii_def lower_byte_def ascii_upper_def ascii_ws_def)
    have e: "\<not> ascii_ws (CHR ''e'')" by (simp add: ascii_ws_def)
    have plain: "plain_text ?p"
      using u2 e plain_digits [OF dg]
      by (simp add: plain_text_def) (simp add: is_ascii_def lower_byte_def ascii_upper_def)
    have norm: "low (trim ?p) = ?p" by (rule plain_text_normal [OF assms plain])
    have no: "\<not> str_contains ?p k" if "\<not> set k \<subseteq> {c. ascii_digit c} \<union> set ''every hm''" for k
      using contains_set [of ?p k] dg u that by (auto simp: list_all_iff)
    have kws: "\<not> str_contains ?p ''disk''" "\<not> str_contains ?p ''unread''"
      "\<not> str_contains ?p ''inbox''" "\<not> str_contains ?p ''calendar''" "\<not> str_contains ?p ''event''"
      "\<not> str_contains ?p ''meeting''" "\<not> str_contains ?p ''hourly''" "\<not> str_contains ?p ''at ''"
      by (rule no, simp add: ascii_digit_def)+
    have "\<not> str_contains ?p ''mem''"
      using u by (auto simp: starts_with_def contains_after_number [OF dg] ascii_digit_def)
    then have cond: "parse_condition low F ?p = None"
      unfolding parse_condition_def Let_def norm by (simp only: kws if_False simp_thms)
    have "list_all (\<lambda>c. is_ascii c \<and> \<not> ascii_ws c) ?w" using u2 digits_visible [OF dg] by simp
    then have "split_whitespace ?w = [?w]" by (rule one_word) simp
    then have int: "parse_interval ?p = None" unfolding parse_interval_def strip_prefix_append by simp
    have cue: "signal_cue low ua ?p [''on signal '', ''when '', ''on ''] = None"
      by (simp add: strip_prefix_def starts_with_def)
    have "parse_time_of_day ?p = None"
      unfolding parse_time_of_day_def split_once_absent [OF kws(8)] by simp
    then show ?thesis by (rule default_of_text [OF norm cond cue kws(7) int])
  qed
  show ?thesis
    using glued [of "CHR ''h''" "secs div 3600"] glued [of "CHR ''m''" "secs div 60"]
    by (simp add: describe_schedule_def)
qed

definition signal_name :: "string \<Rightarrow> bool" where
  "signal_name s \<longleftrightarrow> list_all ascii_lower s \<and> 2 \<le> length s \<and> length s \<le> 24"

lemma letter_facts:
  assumes "ascii_lower c"
  shows "is_ascii c" "lower_byte c = c" "\<not> ascii_digit c" "ascii_alnum c"
  using assms by (auto simp: ascii_lower_def is_ascii_def lower_byte_def ascii_upper_def ascii_digit_def ascii_alnum_def)

lemma parse_described_signal:
  assumes "lowers_ascii low" and "signal_name s"
  shows "parse_schedule low ua F (describe_schedule F (OnSignal s)) = OnSignal s"
proof -
  let ?p = "''when '' @ s @ '' fires''"
  have s: "list_all ascii_lower s" "s \<noteq> []" "2 \<le> length s" "length s \<le> 24"
    using assms(2) by (auto simp: signal_name_def)
  have ends: "\<not> ascii_ws (CHR ''w'')" "\<not> ascii_ws (CHR ''s'')" by (simp_all add: ascii_ws_def)
  have ls: "list_all (\<lambda>c. is_ascii c \<and> lower_byte c = c) s" using s(1) by (auto simp: list_all_iff letter_facts)
  have plain: "plain_text ?p"
    using ends ls by (simp add: plain_text_def) (simp add: is_ascii_def lower_byte_def ascii_upper_def)
  have norm: "low (trim ?p) = ?p" by (rule plain_text_normal [OF assms(1) plain])
  have "\<forall>c \<in> set ?p. \<not> ascii_digit c"
    using s(1) letter_facts(3) by (auto simp: list_all_iff) (simp_all add: ascii_digit_def)
  then have "dropWhile (\<lambda>c. \<not> ascii_digit c) ?p = []" by (simp only: dropWhile_eq_Nil_conv)
  then have num: "first_number F ?p = None" by (simp only: first_number_def list.case)
  have cond: "parse_condition low F ?p = None"
    unfolding parse_condition_def Let_def norm num by (simp only: option.map if_cancel)
  have lowered: "low s = s"
    using assms(1) ls by (simp add: lowers_ascii_def ascii_string_def to_ascii_lowercase_def list_all_iff map_idI)
  have al: "is_alphanumeric ua [c]" if "c \<in> set s" for c
    using that s(1) letter_facts by (simp add: list_all_iff is_alphanumeric_def)
  have "ascii_string (s @ '' fires'')" using ls by (simp add: ascii_string_def list_all_iff)
  then have "chars (s @ '' fires'') = map (\<lambda>c. [c]) s @ '' '' # chars ''fires''"
    by (simp add: chars_ascii ascii_string_def)
  moreover have "split_on (\<lambda>c. \<not> is_alphanumeric ua c) (map (\<lambda>c. [c]) s @ '' '' # chars ''fires'')
      = map (\<lambda>c. [c]) s # split_on (\<lambda>c. \<not> is_alphanumeric ua c) (chars ''fires'')"
  proof (rule split_on_append_sep)
    show "\<not> \<not> is_alphanumeric ua x" if "x \<in> set (map (\<lambda>c. [c]) s)" for x using that al by auto
    show "\<not> is_alphanumeric ua '' ''"
      by (simp add: is_alphanumeric_def ascii_alnum_def ascii_upper_def ascii_lower_def ascii_digit_def)
  qed
  ultimately have tok: "first_signal_token low ua (s @ '' fires'') = Some s"
    using s(3,4) lowered by (simp add: first_signal_token_def comp_def)
  have "signal_cue low ua ?p [''on signal '', ''when '', ''on ''] = Some s"
    using tok by (simp add: strip_prefix_def starts_with_def)
  then have "parse_schedule low ua F ?p = OnSignal s"
    unfolding parse_schedule_def Let_def norm cond by simp
  then show ?thesis by (simp add: describe_schedule_def)
qed

text \<open>
  A condition whose number is printed with digits and read back: what \<open>Display\<close> and
  \<open>str::parse\<close> of the standard library promise for a finite threshold without an exponent.
\<close>

definition reads_back :: "'f floats \<Rightarrow> string \<Rightarrow> ('f \<Rightarrow> bool) \<Rightarrow> bool" where
  "reads_back F ds ok \<longleftrightarrow> ds \<noteq> [] \<and> ascii_digit (hd ds) \<and> list_all (\<lambda>c. ascii_digit c \<or> c = CHR ''.'') ds
     \<and> (case parse_f64 F ds of None \<Rightarrow> False | Some x \<Rightarrow> ok x)"

definition readable :: "'f floats \<Rightarrow> 'f condition \<Rightarrow> bool" where
  "readable F c \<longleftrightarrow>
     (case c of
        DiskFreePctBelow pct \<Rightarrow> reads_back F (trim_num F pct) (\<lambda>x. x = pct)
      | MemUsedPctAtLeast pct \<Rightarrow> reads_back F (trim_num F pct) (\<lambda>x. x = pct)
      | UnreadAtLeast n \<Rightarrow> reads_back F (nat_digits n) (\<lambda>x. f_as_u32 F (f_max F x (f_const F 1)) = n)
      | CalendarWithinMinutes m \<Rightarrow> reads_back F (int_string m) (\<lambda>x. f_as_i64 F (f_max F x (f_const F 0)) = m))"

lemma number_found:
  assumes "reads_back F ds ok" and "list_all (\<lambda>c. \<not> ascii_digit c) pre"
    and "suf = [] \<or> \<not> ascii_digit (hd suf) \<and> hd suf \<noteq> CHR ''.''"
  shows "\<exists>x. first_number F (pre @ ds @ suf) = Some x \<and> ok x"
proof -
  obtain d ds' where ds: "ds = d # ds'" "ascii_digit d" using assms(1) by (cases ds) (auto simp: reads_back_def)
  have "dropWhile (\<lambda>c. \<not> ascii_digit c) (pre @ ds @ suf) = ds @ suf"
    using assms(2) ds by (simp add: list_all_iff)
  moreover have "takeWhile (\<lambda>c. ascii_digit c \<or> c = CHR ''.'') (ds @ suf) = ds"
    using assms(1,3) by (cases suf) (simp_all add: reads_back_def list_all_iff)
  ultimately show ?thesis
    using assms(1) ds by (simp add: first_number_def reads_back_def split: option.splits)
qed

lemma number_plain:
  assumes "reads_back F ds ok"
  shows "list_all (\<lambda>c. is_ascii c \<and> lower_byte c = c) ds" "\<not> ascii_ws (last ds)" "ds \<noteq> []"
    "ascii_lower k \<Longrightarrow> k \<notin> set ds"
proof -
  have dot: "is_ascii (CHR ''.'')" "lower_byte (CHR ''.'') = CHR ''.''" "\<not> ascii_ws (CHR ''.'')"
    "\<not> ascii_lower (CHR ''.'')"
    by (simp_all add: ascii_lower_def is_ascii_def lower_byte_def ascii_upper_def ascii_ws_def)
  have ds: "ds \<noteq> []" "\<forall>c \<in> set ds. ascii_digit c \<or> c = CHR ''.''" using assms by (auto simp: reads_back_def list_all_iff)
  show "list_all (\<lambda>c. is_ascii c \<and> lower_byte c = c) ds" using ds(2) dot digit_facts by (auto simp: list_all_iff)
  show "\<not> ascii_ws (last ds)" using ds dot digit_facts last_in_set by metis
  show "ds \<noteq> []" by (rule ds)
  show "ascii_lower k \<Longrightarrow> k \<notin> set ds" using ds(2) dot letter_facts(3) by auto
qed

lemma contains_skip: "c \<notin> set ds \<Longrightarrow> str_contains (ds @ s) (c # p) \<longleftrightarrow> str_contains s (c # p)"
  by (induction ds) (auto simp: starts_with_def)

lemma number_skip:
  assumes "reads_back F ds ok"
  shows "str_contains (ds @ s) (CHR ''d'' # p) \<longleftrightarrow> str_contains s (CHR ''d'' # p)"
    "str_contains (ds @ s) (CHR ''m'' # p) \<longleftrightarrow> str_contains s (CHR ''m'' # p)"
    "str_contains (ds @ s) (CHR ''u'' # p) \<longleftrightarrow> str_contains s (CHR ''u'' # p)"
    "str_contains (ds @ s) (CHR ''i'' # p) \<longleftrightarrow> str_contains s (CHR ''i'' # p)"
  by (rule contains_skip, rule number_plain(4) [OF assms], simp add: ascii_lower_def)+

lemma described_normal:
  assumes "lowers_ascii low" and "reads_back F ds ok"
    and "pre \<noteq> [] \<and> list_all (\<lambda>c. is_ascii c \<and> lower_byte c = c) pre \<and> \<not> ascii_ws (hd pre)"
    and "list_all (\<lambda>c. is_ascii c \<and> lower_byte c = c) suf \<and> (suf \<noteq> [] \<longrightarrow> \<not> ascii_ws (last suf))"
  shows "low (trim (pre @ ds @ suf)) = pre @ ds @ suf"
  by (rule plain_text_normal [OF assms(1)])
    (use assms(3,4) number_plain [OF assms(2)] in \<open>auto simp: plain_text_def hd_append last_append\<close>)

lemmas literal_text = is_ascii_def lower_byte_def ascii_upper_def ascii_ws_def ascii_digit_def starts_with_def

lemma parse_described_condition:
  assumes "lowers_ascii low" and "readable F c"
  shows "parse_schedule low ua F (describe_schedule F (Tripwire c)) = Tripwire c"
proof -
  have finish: "parse_schedule low ua F p = Tripwire c"
    if "low (trim p) = p" "p \<noteq> []" "parse_condition low F p = Some c" for p
    using that by (simp add: parse_schedule_def Let_def)
  show ?thesis
  proof (cases c)
    case (DiskFreePctBelow pct)
    let ?ds = "trim_num F pct"
    let ?p = "''when free disk drops below '' @ ?ds @ ''%''"
    have r: "reads_back F ?ds (\<lambda>x. x = pct)" using assms(2) DiskFreePctBelow by (simp add: readable_def)
    have n: "low (trim ?p) = ?p" by (rule described_normal [OF assms(1) r]) (simp_all add: literal_text)
    have "first_number F ?p = Some pct"
      using number_found [OF r, of "''when free disk drops below ''" "''%''"] by (simp add: literal_text)
    moreover have "str_contains ?p ''disk''" by (simp add: starts_with_def)
    ultimately have "parse_condition low F ?p = Some c"
      unfolding parse_condition_def Let_def n by (simp only: if_True option.map DiskFreePctBelow)
    with n show ?thesis
      using finish [of ?p] by (simp add: describe_schedule_def describe_condition_def DiskFreePctBelow)
  next
    case (MemUsedPctAtLeast pct)
    let ?ds = "trim_num F pct"
    let ?p = "''when memory use reaches '' @ ?ds @ ''%''"
    have r: "reads_back F ?ds (\<lambda>x. x = pct)" using assms(2) MemUsedPctAtLeast by (simp add: readable_def)
    have n: "low (trim ?p) = ?p" by (rule described_normal [OF assms(1) r]) (simp_all add: literal_text)
    have "first_number F ?p = Some pct"
      using number_found [OF r, of "''when memory use reaches ''" "''%''"] by (simp add: literal_text)
    moreover have "\<not> str_contains ?p ''disk''" "str_contains ?p ''mem''"
      by (simp_all add: starts_with_def number_skip [OF r])
    ultimately have "parse_condition low F ?p = Some c"
      unfolding parse_condition_def Let_def n by (simp only: if_True if_False option.map MemUsedPctAtLeast)
    with n show ?thesis
      using finish [of ?p] by (simp add: describe_schedule_def describe_condition_def MemUsedPctAtLeast)
  next
    case (UnreadAtLeast k)
    let ?ds = "nat_digits k"
    let ?p = "''when unread mail reaches '' @ ?ds @ []"
    have r: "reads_back F ?ds (\<lambda>x. f_as_u32 F (f_max F x (f_const F 1)) = k)"
      using assms(2) UnreadAtLeast by (simp add: readable_def)
    have n: "low (trim ?p) = ?p" by (rule described_normal [OF assms(1) r]) (simp_all add: literal_text)
    obtain x where "first_number F ?p = Some x" "f_as_u32 F (f_max F x (f_const F 1)) = k"
      using number_found [OF r, of "''when unread mail reaches ''" "[]"] by (auto simp: literal_text)
    moreover have "\<not> str_contains ?p ''disk''" "\<not> str_contains ?p ''mem''" "str_contains ?p ''unread''"
      by (simp_all add: starts_with_def number_skip [OF r] del: append_Nil2)
    ultimately have "parse_condition low F ?p = Some c"
      unfolding parse_condition_def Let_def n
      by (simp only: if_True if_False option.map UnreadAtLeast simp_thms)
    with n show ?thesis
      using finish [of ?p] by (simp add: describe_schedule_def describe_condition_def UnreadAtLeast)
  next
    case (CalendarWithinMinutes k)
    let ?ds = "int_string k"
    let ?p = "''when a calendar event is within '' @ ?ds @ '' minutes''"
    have r: "reads_back F ?ds (\<lambda>x. f_as_i64 F (f_max F x (f_const F 0)) = k)"
      using assms(2) CalendarWithinMinutes by (simp add: readable_def)
    have n: "low (trim ?p) = ?p" by (rule described_normal [OF assms(1) r]) (simp_all add: literal_text)
    obtain x where "first_number F ?p = Some x" "f_as_i64 F (f_max F x (f_const F 0)) = k"
      using number_found [OF r, of "''when a calendar event is within ''" "'' minutes''"] by (auto simp: literal_text)
    moreover have "\<not> str_contains ?p ''disk''" "\<not> str_contains ?p ''mem''" "\<not> str_contains ?p ''unread''"
      "\<not> str_contains ?p ''inbox''" "str_contains ?p ''calendar''"
      by (simp_all add: starts_with_def number_skip [OF r])
    ultimately have "parse_condition low F ?p = Some c"
      unfolding parse_condition_def Let_def n
      by (simp only: if_True if_False option.map CalendarWithinMinutes simp_thms)
    with n show ?thesis
      using finish [of ?p] by (simp add: describe_schedule_def describe_condition_def CalendarWithinMinutes)
  qed
qed

definition describable :: "'f floats \<Rightarrow> 'f schedule \<Rightarrow> bool" where
  "describable F s \<longleftrightarrow>
     (case s of Daily h m \<Rightarrow> h < 24 \<and> m < 60 | Interval _ \<Rightarrow> True | OnSignal sig \<Rightarrow> signal_name sig
      | Tripwire c \<Rightarrow> readable F c)"

text \<open>Integers as numbers, for the evaluated examples.\<close>

definition demo_floats :: "int floats" where
  "demo_floats = \<lparr> parse_f64 = (\<lambda>s. map_option int (parse_nat s)), show_f64 = int_string, fract_zero = (\<lambda>_. True),
     f_as_i64 = id, f_as_u32 = nat, f_max = max, f_const = int, f_lt = (<), f_ge = (\<ge>), f_add = (+), f_sub = (-) \<rparr>"

lemma described_back:
  assumes "lowers_ascii low" and "describable F s"
  shows "parse_schedule low ua F (describe_schedule F s) = (case s of Interval _ \<Rightarrow> Daily 9 0 | _ \<Rightarrow> s)"
  using assms
  by (cases s) (simp_all add: describable_def parse_described_daily parse_described_interval
      parse_described_signal parse_described_condition)

text \<open>
  The description of a schedule, read back. The text shown for a daily, signal or tripwire
  schedule parses to that schedule again. The text shown for an interval never does: whatever the
  interval, it is read as daily at nine.
\<close>
theorem described_schedule_reads_back:
  assumes "lowers_ascii low" and "describable F s"
  shows "parse_schedule low ua F (describe_schedule F s) = (case s of Interval _ \<Rightarrow> Daily 9 0 | _ \<Rightarrow> s)"
  using assms by (rule described_back)

lemma lowers_ascii_ascii: "lowers_ascii to_ascii_lowercase"
  by (simp add: lowers_ascii_def)

lemma described_schedule_reads_back_witness:
  "parse_schedule to_ascii_lowercase (\<lambda>_. False) demo_floats (describe_schedule demo_floats (Tripwire (DiskFreePctBelow 10)))
     = Tripwire (DiskFreePctBelow 10)
   \<and> parse_schedule to_ascii_lowercase (\<lambda>_. False) demo_floats (describe_schedule demo_floats (Interval 21600)) = Daily 9 0"
proof -
  have "describable demo_floats (Tripwire (DiskFreePctBelow 10))"
    by (simp add: describable_def readable_def demo_floats_def trim_num_def reads_back_def int_string_def
        nat_digits.simps ascii_digit_def parse_nat_def)
  then show ?thesis
    using described_schedule_reads_back [OF lowers_ascii_ascii, of demo_floats "Tripwire (DiskFreePctBelow 10)" "\<lambda>_. False"]
      described_schedule_reads_back [OF lowers_ascii_ascii, of demo_floats "Interval 21600" "\<lambda>_. False"]
    by (simp add: describable_def)
qed

text \<open>
  No phrase makes a mission run fast. Whatever is said, the parsed schedule is an interval of at
  least an hour that fits 64 bits, a time of day, a signal, or a tripwire.
\<close>
theorem parsed_schedule_is_slow:
  "case parse_schedule low ua F phrase of
     Interval secs \<Rightarrow> 3600 \<le> secs \<and> secs < 2 ^ 64
   | Daily h m \<Rightarrow> h < 24 \<and> m < 60
   | OnSignal _ \<Rightarrow> True
   | Tripwire _ \<Rightarrow> True"
proof -
  have t: "h < 24 \<and> m < 60" if "parse_time_of_day p = Some (h, m)" for p h m
    using that by (auto simp: parse_time_of_day_def Let_def split: option.splits list.splits prod.splits if_splits)
  have i: "3600 \<le> clamp_interval n \<and> clamp_interval n < 2 ^ 64" if "parse_interval p = Some n" for p n
    using that by (auto simp: parse_interval_def sat64_def clamp_interval_def MIN_INTERVAL_SECS_def
        split: option.splits list.splits if_splits)
  show ?thesis
    using t i by (auto simp: parse_schedule_def Let_def clamp_interval_def MIN_INTERVAL_SECS_def split: option.splits)
qed

end
