(* ===== verification/Facts.thy ===== *)
theory Facts
  imports GuestScope
begin

text \<open>
  The fact table of \<open>daemon/src/memory.rs\<close>, as far as its bookkeeping readers use it: rows in the
  order of their ids, an upsert that touches a row in place, a delete and the bounded prefix scan,
  newest first. A guest turn writes nothing. Errors of the database are outside the model.
\<close>

record fact =
  f_ts :: string
  f_key :: string
  f_value :: string

type_synonym facts = "fact list"

definition upsert_fact_at :: "scope option \<Rightarrow> string \<Rightarrow> string \<Rightarrow> string \<Rightarrow> facts \<Rightarrow> facts" where
  "upsert_fact_at turn key v ts fs =
     (if guest_write_blocked turn then fs
      else let touched = map (\<lambda>f. if f_key f = key then f\<lparr> f_value := v, f_ts := ts \<rparr> else f) fs
      in if list_ex (\<lambda>f. f_key f = key) fs then touched
         else touched @ [\<lparr> f_ts = ts, f_key = key, f_value = v \<rparr>])"

definition is_reserved_key :: "string \<Rightarrow> bool" where
  "is_reserved_key key = starts_with ''meta.'' (to_ascii_lowercase (trim key))"

definition upsert_user_fact :: "scope option \<Rightarrow> string \<Rightarrow> string \<Rightarrow> string \<Rightarrow> facts \<Rightarrow> facts option" where
  "upsert_user_fact turn key v ts fs =
     (if is_reserved_key key then None else Some (upsert_fact_at turn key v ts fs))"

definition delete_fact :: "string \<Rightarrow> facts \<Rightarrow> facts \<times> bool" where
  "delete_fact key fs = (filter (\<lambda>f. f_key f \<noteq> key) fs, list_ex (\<lambda>f. f_key f = key) fs)"

definition get_fact :: "string \<Rightarrow> facts \<Rightarrow> string option" where
  "get_fact key fs = map_option f_value (find (\<lambda>f. f_key f = key) fs)"

text \<open>\<open>LIKE prefix || '%'\<close> ignores the case of ASCII letters.\<close>

definition key_like :: "string \<Rightarrow> fact \<Rightarrow> bool" where
  "key_like p f = starts_with (to_ascii_lowercase p) (to_ascii_lowercase (f_key f))"

definition newest_first :: "facts \<Rightarrow> facts" where
  "newest_first fs = rev (sort_key f_ts fs)"

definition recall_facts_limited :: "string \<Rightarrow> nat \<Rightarrow> facts \<Rightarrow> (string \<times> string) list" where
  "recall_facts_limited p limit fs =
     map (\<lambda>f. (f_key f, f_value f)) (take limit (newest_first (filter (key_like p) fs)))"

section \<open>What the table promises\<close>

text \<open>Keys stay distinct, and a write or a delete touches the rows of its key only.\<close>

definition keys_distinct :: "facts \<Rightarrow> bool" where
  "keys_distinct fs \<longleftrightarrow> distinct (map f_key fs)"

lemma touched_keys: "map f_key (map (\<lambda>f. if f_key f = k then f\<lparr> f_value := v, f_ts := t \<rparr> else f) fs) = map f_key fs"
  by (induction fs) auto

lemma keys_upsert:
  "map f_key (upsert_fact_at turn k v t fs) =
     (if guest_write_blocked turn \<or> k \<in> set (map f_key fs) then map f_key fs else map f_key fs @ [k])"
  using touched_keys [of k v t fs] by (auto simp: upsert_fact_at_def Let_def list_ex_iff)

lemma keys_distinct_upsert: "keys_distinct fs \<Longrightarrow> keys_distinct (upsert_fact_at turn k v t fs)"
  by (auto simp: keys_distinct_def keys_upsert)

lemma keys_distinct_delete: "keys_distinct fs \<Longrightarrow> keys_distinct (fst (delete_fact k fs))"
  by (auto simp: keys_distinct_def delete_fact_def distinct_map_filter)

text \<open>The rows of a table after an upsert by an owner's turn.\<close>

lemma set_upsert:
  "\<not> guest_write_blocked turn \<Longrightarrow>
     set (upsert_fact_at turn k v t fs)
       = {f \<in> set fs. f_key f \<noteq> k} \<union>
         (if k \<in> f_key ` set fs then {f\<lparr> f_value := v, f_ts := t \<rparr> | f. f \<in> set fs \<and> f_key f = k}
          else {\<lparr> f_ts = t, f_key = k, f_value = v \<rparr>})"
  unfolding upsert_fact_at_def Let_def list_ex_iff by (auto simp: image_iff)

lemma set_upsert_other:
  assumes "f_key f \<noteq> k"
  shows "f \<in> set (upsert_fact_at turn k v t fs) \<longleftrightarrow> f \<in> set fs"
proof (cases "guest_write_blocked turn")
  case False
  then show ?thesis unfolding set_upsert [OF False] using assms by auto
qed (simp add: upsert_fact_at_def)

lemma in_upsert_own:
  assumes "\<not> guest_write_blocked turn" "f_key f = k" "f \<in> set (upsert_fact_at turn k v t fs)"
  shows "f_value f = v"
proof (cases "k \<in> f_key ` set fs")
  case True
  then obtain g where "f = g\<lparr> f_value := v, f_ts := t \<rparr>"
    using assms(2,3) unfolding set_upsert [OF assms(1)] by fastforce
  then show ?thesis by simp
next
  case False
  then have "f = \<lparr> f_ts = t, f_key = k, f_value = v \<rparr>"
    using assms(2,3) unfolding set_upsert [OF assms(1)] by simp
  then show ?thesis by simp
qed

lemma set_newest_first [simp]: "set (newest_first fs) = set fs"
  by (simp add: newest_first_def)

lemma length_newest_first [simp]: "length (newest_first fs) = length fs"
  by (simp add: newest_first_def)

end
