(* ===== verification/Standing.thy ===== *)
theory Standing
  imports Schedule Facts
begin

text \<open>
  Standing missions: the record, its store in the fact table and the two schedulers of
  \<open>daemon/src/standing.rs\<close>, one over the clock and one over threshold conditions. The JSON coding
  of a mission is a parameter. Times are unix seconds (\<open>u64\<close>; no operation here can exceed it), and
  the start of the local day is an argument, as in the code.
\<close>

section \<open>The record\<close>

record 'f mission =
  ms_id :: string
  ms_goal :: string
  ms_schedule :: "'f schedule"
  ms_last_run :: nat
  ms_enabled :: bool

record 'f standing_ext =
  s_ext :: externals
  s_low :: "string \<Rightarrow> string"
  s_floats :: "'f floats"
  mission_text :: "'f mission \<Rightarrow> string"
  mission_read :: "string \<Rightarrow> 'f mission option"

definition STANDING_PREFIX :: string where
  "STANDING_PREFIX = ''meta.standing.''"

definition MAX_ACTIVE :: nat where
  "MAX_ACTIVE = 8"

definition MAX_GOAL_LEN :: nat where
  "MAX_GOAL_LEN = 280"

text \<open>\<open>str::is_char_boundary\<close>: a byte that does not continue a character, or an end.\<close>

definition is_char_boundary :: "string \<Rightarrow> nat \<Rightarrow> bool" where
  "is_char_boundary s i \<longleftrightarrow>
     i = 0 \<or> i = length s \<or> (i < length s \<and> (code (s ! i) < 128 \<or> 192 \<le> code (s ! i)))"

fun back_to_boundary :: "string \<Rightarrow> nat \<Rightarrow> nat" where
  "back_to_boundary s 0 = 0"
| "back_to_boundary s (Suc n) = (if is_char_boundary s (Suc n) then Suc n else back_to_boundary s n)"

definition bound_goal :: "string \<Rightarrow> string" where
  "bound_goal goal =
     (let g = trim goal in
      if MAX_GOAL_LEN < length g then take (back_to_boundary g MAX_GOAL_LEN) g else g)"

definition derive_id :: "'f standing_ext \<Rightarrow> string \<Rightarrow> 'f schedule \<Rightarrow> string" where
  "derive_id S goal sched =
     hex (s_ext S) (take 6 (sha256 (s_ext S)
       (s_low S (trim goal) @ [NUL] @ describe_schedule (s_floats S) sched)))"

definition new_mission :: "'f standing_ext \<Rightarrow> string \<Rightarrow> 'f schedule \<Rightarrow> 'f mission" where
  "new_mission S goal sched =
     (let g = bound_goal goal in
      \<lparr> ms_id = derive_id S g sched, ms_goal = g, ms_schedule = sched, ms_last_run = 0, ms_enabled = True \<rparr>)"

section \<open>The store\<close>

definition mission_key :: "string \<Rightarrow> string" where
  "mission_key i = STANDING_PREFIX @ i"

definition mission_save :: "'f standing_ext \<Rightarrow> scope option \<Rightarrow> string \<Rightarrow> 'f mission \<Rightarrow> facts \<Rightarrow> facts" where
  "mission_save S turn ts m fs = upsert_fact_at turn (mission_key (ms_id m)) (mission_text S m) ts fs"

definition mission_list :: "'f standing_ext \<Rightarrow> facts \<Rightarrow> 'f mission list" where
  "mission_list S fs =
     List.map_filter (\<lambda>(_, v). mission_read S v) (recall_facts_limited STANDING_PREFIX 256 fs)"

definition CAP_REACHED :: string where
  "CAP_REACHED = ''you already have the maximum of '' @ nat_digits MAX_ACTIVE @ '' standing missions; cancel one first''"

definition mission_create ::
    "'f standing_ext \<Rightarrow> scope option \<Rightarrow> string \<Rightarrow> string \<Rightarrow> 'f schedule \<Rightarrow> facts \<Rightarrow> facts \<times> (string + 'f mission)" where
  "mission_create S turn ts goal sched fs =
     (let m = new_mission S goal sched;
          existing = mission_list S fs;
          already = list_ex (\<lambda>e. ms_id e = ms_id m) existing in
      if \<not> already \<and> MAX_ACTIVE \<le> length existing then (fs, Inl CAP_REACHED)
      else (mission_save S turn ts m fs, Inr m))"

definition mission_cancel :: "string \<Rightarrow> facts \<Rightarrow> facts \<times> bool" where
  "mission_cancel i fs = delete_fact (mission_key (trim i)) fs"

definition mark_ran :: "'f standing_ext \<Rightarrow> scope option \<Rightarrow> string \<Rightarrow> 'f mission \<Rightarrow> nat \<Rightarrow> facts \<Rightarrow> facts" where
  "mark_ran S turn ts m now fs =
     (case find (\<lambda>e. ms_id e = ms_id m) (mission_list S fs) of
        None \<Rightarrow> fs
      | Some current \<Rightarrow> mission_save S turn ts (current\<lparr> ms_last_run := now \<rparr>) fs)"

definition establish_preview :: "'f standing_ext \<Rightarrow> string \<Rightarrow> 'f schedule \<Rightarrow> string" where
  "establish_preview S goal sched =
     ''[dry run] I'' @ [CHR 0x27] @ ''ll set up a STANDING MISSION to '' @ bound_goal goal @ '' '' @ dash @ '' ''
     @ describe_schedule (s_floats S) sched
     @ ''. It will run on that schedule and reason over the world model; any consequential step it proposes still waits for your confirmation. Enable consequential actions and confirm to establish it.''"

section \<open>The clock scheduler\<close>

definition due_missions ::
    "'f mission list \<Rightarrow> nat \<Rightarrow> nat \<Rightarrow> nat \<Rightarrow> nat \<Rightarrow> string list \<Rightarrow> bool \<Rightarrow> 'f mission list" where
  "due_missions missions now local_hour local_minute local_midnight signals_present master_enabled =
     (if \<not> master_enabled then []
      else filter (\<lambda>m. is_due (ms_schedule m) now local_hour local_minute local_midnight (ms_last_run m) signals_present)
             (filter ms_enabled missions))"

definition signal_tokens :: "'f signals \<Rightarrow> string list" where
  "signal_tokens s = (if 0 < important_unread s then [''mail''] else [])
     @ (if event_minutes s \<noteq> [] then [''calendar''] else [])
     @ (if market_present s then [''market''] else [])"

section \<open>The tripwire scheduler\<close>

definition MIN_CONDITION_DEBOUNCE_SECS :: nat where
  "MIN_CONDITION_DEBOUNCE_SECS = 300"

definition clamp_debounce :: "nat \<Rightarrow> nat" where
  "clamp_debounce secs = max secs MIN_CONDITION_DEBOUNCE_SECS"

type_synonym tripwire_ledger = "(string \<times> bool) list"

definition ledger_latched :: "string \<Rightarrow> tripwire_ledger \<Rightarrow> bool" where
  "ledger_latched i L = (case find (\<lambda>(k, _). k = i) L of None \<Rightarrow> False | Some (_, v) \<Rightarrow> v)"

fun ledger_set :: "string \<Rightarrow> bool \<Rightarrow> tripwire_ledger \<Rightarrow> tripwire_ledger" where
  "ledger_set i v [] = [(i, v)]"
| "ledger_set i v ((k, w) # L) = (if k = i then (k, v) # L else (k, w) # ledger_set i v L)"

definition ledger_retain :: "(string \<Rightarrow> bool) \<Rightarrow> tripwire_ledger \<Rightarrow> tripwire_ledger" where
  "ledger_retain keep L = filter (\<lambda>(k, _). keep k) L"

definition tripwire_step :: "bool \<Rightarrow> bool \<Rightarrow> bool \<Rightarrow> nat \<Rightarrow> nat \<Rightarrow> nat \<Rightarrow> bool \<times> bool" where
  "tripwire_step hold clear was_latched now last_run debounce_secs =
     (let next_latched = (if clear then False else if hold then True else was_latched) in
      if \<not> hold \<or> was_latched then (False, next_latched)
      else let debounce = clamp_debounce debounce_secs;
               cooled = (last_run = 0 \<or> debounce \<le> now - last_run)
      in if \<not> cooled then (False, was_latched) else (True, next_latched))"

fun tripwire_pass ::
    "'f floats \<Rightarrow> 'f signals \<Rightarrow> nat \<Rightarrow> nat \<Rightarrow> 'f mission list \<Rightarrow> tripwire_ledger \<Rightarrow> 'f mission list \<times> tripwire_ledger" where
  "tripwire_pass F sg now debounce_secs [] L = ([], L)"
| "tripwire_pass F sg now debounce_secs (m # ms) L =
     (case (ms_enabled m, ms_schedule m) of
        (True, Tripwire c) \<Rightarrow>
          let (fire, nxt) = tripwire_step (holds F sg c) (cleared F sg c) (ledger_latched (ms_id m) L) now
                (ms_last_run m) debounce_secs;
              (fired, L') = tripwire_pass F sg now debounce_secs ms (ledger_set (ms_id m) nxt L)
          in (if fire then m # fired else fired, L')
      | _ \<Rightarrow> tripwire_pass F sg now debounce_secs ms L)"

definition due_condition_missions ::
    "'f floats \<Rightarrow> 'f mission list \<Rightarrow> 'f signals \<Rightarrow> nat \<Rightarrow> tripwire_ledger \<Rightarrow> bool \<Rightarrow> nat
       \<Rightarrow> 'f mission list \<times> tripwire_ledger" where
  "due_condition_missions F missions sg now L master_enabled debounce_secs =
     (if \<not> master_enabled then ([], L)
      else tripwire_pass F sg now debounce_secs missions
             (ledger_retain (\<lambda>k. k \<in> set (map ms_id (filter (\<lambda>m. is_condition (ms_schedule m)) missions))) L))"

end
