(* ===== verification/StandingProofs.thy ===== *)
theory StandingProofs
  imports Standing
begin

text \<open>
  The schedulers of standing missions over a whole history of ticks, and the invariant of their
  store. A tick of the clock scheduler carries the readings the live loop takes; a mission that
  fires is stamped with the time of its tick, as \<open>mark_ran\<close> does.
\<close>

section \<open>Missions on the clock\<close>

record tick =
  t_now :: nat
  t_hour :: nat
  t_minute :: nat
  t_midnight :: nat
  t_signals :: "string list"

definition due_at :: "'f schedule \<Rightarrow> nat \<Rightarrow> tick \<Rightarrow> bool" where
  "due_at s lr t = is_due s (t_now t) (t_hour t) (t_minute t) (t_midnight t) lr (t_signals t)"

fun clock_run :: "'f schedule \<Rightarrow> nat \<Rightarrow> tick list \<Rightarrow> tick list" where
  "clock_run s lr [] = []"
| "clock_run s lr (t # ts) =
     (if due_at s lr t then t # clock_run s (t_now t) ts else clock_run s lr ts)"

text \<open>Two ticks are on the same local day, or the day of the later one starts after the earlier.\<close>

definition day_clock :: "tick list \<Rightarrow> bool" where
  "day_clock ts \<longleftrightarrow> (\<forall>t \<in> set ts. 0 < t_midnight t \<and> t_midnight t \<le> t_now t)
     \<and> sorted_wrt (\<lambda>a b. t_midnight a = t_midnight b \<or> t_now a < t_midnight b) ts"

definition past_fire :: "nat \<Rightarrow> nat \<Rightarrow> tick \<Rightarrow> bool" where
  "past_fire h m t \<longleftrightarrow> h * 60 + m \<le> t_hour t * 60 + t_minute t"

lemma due_daily:
  "0 < t_midnight t \<Longrightarrow> due_at (Daily h m) lr t \<longleftrightarrow> past_fire h m t \<and> lr < t_midnight t"
  by (auto simp: due_at_def is_due_def past_fire_def)

lemma remdups_adj_same: "\<forall>y \<in> set ys. y = x \<or> P y \<Longrightarrow> \<not> P x \<Longrightarrow>
    sorted_wrt (\<lambda>a b. a = b \<or> P b) (x # ys) \<Longrightarrow> remdups_adj (x # ys) = x # remdups_adj (filter P ys)"
proof (induction ys)
  case (Cons y ys)
  show ?case
  proof (cases "y = x")
    case True
    then show ?thesis using Cons by simp
  next
    case False
    then have "P y" using Cons.prems by auto
    have "P z" if "z \<in> set ys" for z using that Cons.prems False \<open>P y\<close> by auto
    then have "filter P ys = ys" by (simp add: filter_id_conv)
    then show ?thesis using False \<open>P y\<close> by simp
  qed
qed simp

lemma daily_run:
  assumes "day_clock ts"
  shows "map t_midnight (clock_run (Daily h m) lr ts)
    = remdups_adj (filter (\<lambda>d. lr < d) (map t_midnight (filter (past_fire h m) ts)))"
  using assms
proof (induction ts arbitrary: lr)
  case (Cons t ts)
  have dc: "day_clock ts" and t: "0 < t_midnight t" "t_midnight t \<le> t_now t"
    and later: "\<forall>b \<in> set ts. t_midnight t = t_midnight b \<or> t_now t < t_midnight b"
    using Cons.prems by (auto simp: day_clock_def)
  show ?case
  proof (cases "past_fire h m t \<and> lr < t_midnight t")
    case False
    then show ?thesis using Cons.IH [OF dc] t by (auto simp: due_daily)
  next
    case True
    let ?ds = "map t_midnight (filter (past_fire h m) ts)"
    have ge: "\<forall>d \<in> set ?ds. d = t_midnight t \<or> t_now t < d" using later by auto
    then have keep: "filter (\<lambda>d. lr < d) ?ds = ?ds" using True t by (fastforce simp: filter_id_conv)
    have "sorted_wrt (\<lambda>a b. a = b \<or> t_now t < b) (t_midnight t # ?ds)"
    proof -
      have "sorted_wrt (\<lambda>a b. t_midnight a = t_midnight b \<or> t_now t < t_midnight b) (filter (past_fire h m) ts)"
      proof (rule sorted_wrt_mono_rel)
        show "sorted_wrt (\<lambda>a b. t_midnight a = t_midnight b \<or> t_now a < t_midnight b) (filter (past_fire h m) ts)"
          using dc by (simp add: day_clock_def sorted_wrt_filter)
        show "t_midnight a = t_midnight b \<or> t_now t < t_midnight b"
          if "a \<in> set (filter (past_fire h m) ts)" "b \<in> set (filter (past_fire h m) ts)"
            "t_midnight a = t_midnight b \<or> t_now a < t_midnight b" for a b
          using that later Cons.prems by (fastforce simp: day_clock_def)
      qed
      then show ?thesis using ge by (auto simp: sorted_wrt_map)
    qed
    from remdups_adj_same [OF ge _ this] t(2)
    have "remdups_adj (t_midnight t # ?ds) = t_midnight t # remdups_adj (filter ((<) (t_now t)) ?ds)" by simp
    then show ?thesis using True t keep Cons.IH [OF dc, of "t_now t"] by (simp add: due_daily)
  qed
qed simp

text \<open>
  C30. A daily mission runs exactly once on every local day on which some tick comes at or after its
  time, and on no other day: the days of its runs are the days of the qualifying ticks, each once.
  This covers days of any length, the 25 hours of a clock change included.
\<close>
theorem daily_runs_once_each_day:
  assumes "day_clock ts"
  shows "map t_midnight (clock_run (Daily h m) 0 ts)
    = remdups_adj (map t_midnight (filter (past_fire h m) ts))"
proof -
  have "filter (\<lambda>d. 0 < d) (map t_midnight (filter (past_fire h m) ts)) = map t_midnight (filter (past_fire h m) ts)"
    using assms by (auto simp: day_clock_def filter_id_conv)
  then show ?thesis using daily_run [OF assms, of h m 0] by simp
qed

definition demo_tick :: "nat \<Rightarrow> nat \<Rightarrow> nat \<Rightarrow> tick" where
  "demo_tick now hh day = \<lparr> t_now = now, t_hour = hh, t_minute = 0, t_midnight = day, t_signals = [] \<rparr>"

lemma daily_runs_once_each_day_witness:
  "map t_midnight (clock_run (Daily 9 0) 0 [demo_tick 108 8 100, demo_tick 110 9 100, demo_tick 115 20 100, demo_tick 210 10 200])
     = [100, 200]"
  by (subst daily_runs_once_each_day) (simp_all add: day_clock_def demo_tick_def past_fire_def)

text \<open>The spacing of the runs of the other schedules.\<close>

definition min_gap :: "'f schedule \<Rightarrow> nat" where
  "min_gap s = (case s of Interval secs \<Rightarrow> max secs 3600 | _ \<Rightarrow> 3600)"

lemma due_gap:
  assumes "due_at s lr t" and "\<nexists>h m. s = Daily h m" and "0 < lr"
  shows "lr + min_gap s \<le> t_now t"
  using assms by (cases s)
    (auto simp: due_at_def is_due_def min_gap_def clamp_interval_def MIN_INTERVAL_SECS_def split: if_splits)

lemma clock_run_after:
  assumes "\<nexists>h m. s = Daily h m" and "0 < lr" and "t \<in> set (clock_run s lr ts)"
  shows "lr + min_gap s \<le> t_now t"
  using assms(2,3)
proof (induction ts arbitrary: lr)
  case (Cons a ts)
  show ?case
  proof (cases "due_at s lr a")
    case True
    then have gap: "lr + min_gap s \<le> t_now a" by (rule due_gap [OF _ assms(1) Cons.prems(1)])
    then have "t = a \<or> t_now a + min_gap s \<le> t_now t" using True Cons by (auto dest: Cons.IH [rotated])
    then show ?thesis using gap by auto
  qed (use Cons in auto)
qed simp

text \<open>
  A mission on an interval or a signal never hammers: whatever the ticks, two of its runs are at
  least the interval apart, and never less than an hour.
\<close>
theorem runs_are_spaced:
  assumes "\<forall>t \<in> set ts. 0 < t_now t" and "\<nexists>h m. s = Daily h m"
  shows "sorted_wrt (\<lambda>a b. t_now a + min_gap s \<le> t_now b) (clock_run s lr ts) \<and> 3600 \<le> min_gap s"
proof
  show "sorted_wrt (\<lambda>a b. t_now a + min_gap s \<le> t_now b) (clock_run s lr ts)"
    using assms(1)
  proof (induction ts arbitrary: lr)
    case (Cons a ts)
    then show ?case using clock_run_after [OF assms(2)] by simp
  qed simp
  show "3600 \<le> min_gap s" by (simp add: min_gap_def split: schedule.splits)
qed

lemma runs_are_spaced_witness:
  "sorted_wrt (\<lambda>a b. t_now a + 7200 \<le> t_now b)
     (clock_run (Interval 7200) 0 [demo_tick 10 0 1, demo_tick 3610 1 1, demo_tick 7300 2 1])"
  using runs_are_spaced [of "[demo_tick 10 0 1, demo_tick 3610 1 1, demo_tick 7300 2 1]" "Interval 7200" 0]
  by (simp add: demo_tick_def min_gap_def)

section \<open>Tripwires\<close>

record sense =
  sn_holds :: bool
  sn_cleared :: bool
  sn_now :: nat

fun trip_run :: "nat \<Rightarrow> bool \<Rightarrow> nat \<Rightarrow> sense list \<Rightarrow> nat list" where
  "trip_run deb latched lr [] = []"
| "trip_run deb latched lr (x # xs) =
     (case tripwire_step (sn_holds x) (sn_cleared x) latched (sn_now x) lr deb of
        (fire, nxt) \<Rightarrow> if fire then sn_now x # trip_run deb nxt (sn_now x) xs else trip_run deb nxt lr xs)"

definition cooled_at :: "nat \<Rightarrow> nat \<Rightarrow> nat \<Rightarrow> bool" where
  "cooled_at deb lr now \<longleftrightarrow> lr = 0 \<or> clamp_debounce deb \<le> now - lr"

lemma trip_step_eq:
  "tripwire_step h c l now lr deb =
     (h \<and> \<not> l \<and> cooled_at deb lr now,
      if h \<and> \<not> l \<and> \<not> cooled_at deb lr now then False else if c then False else h \<or> l)"
  by (auto simp: tripwire_step_def cooled_at_def Let_def)

lemma trip_run_Cons:
  obtains (fire) l' where "sn_holds a" "\<not> l" "cooled_at deb lr (sn_now a)"
      "trip_run deb l lr (a # xs) = sn_now a # trip_run deb l' (sn_now a) xs"
  | (silent) l' where "trip_run deb l lr (a # xs) = trip_run deb l' lr xs"
proof (cases "sn_holds a \<and> \<not> l \<and> cooled_at deb lr (sn_now a)")
  case True
  then show ?thesis by (intro fire [of "\<not> sn_cleared a"]) (simp_all add: trip_step_eq)
next
  case False
  then have "fst (tripwire_step (sn_holds a) (sn_cleared a) l (sn_now a) lr deb) = False"
    by (simp add: trip_step_eq)
  then show ?thesis
    by (intro silent [of "snd (tripwire_step (sn_holds a) (sn_cleared a) l (sn_now a) lr deb)"])
      (simp add: case_prod_beta)
qed

lemma trip_step_held:
  assumes "sn_holds x \<and> \<not> sn_cleared x"
  shows "tripwire_step (sn_holds x) (sn_cleared x) True now lr deb = (False, True)"
    "tripwire_step (sn_holds x) (sn_cleared x) False now lr deb
       = (if cooled_at deb lr now then (True, True) else (False, False))"
  using assms by (simp_all add: trip_step_eq)

lemma trip_run_latched:
  "\<forall>x \<in> set xs. sn_holds x \<and> \<not> sn_cleared x \<Longrightarrow> trip_run deb True lr xs = []"
proof (induction xs)
  case (Cons x xs)
  have x: "sn_holds x \<and> \<not> sn_cleared x" and xs: "\<forall>y \<in> set xs. sn_holds y \<and> \<not> sn_cleared y"
    using Cons.prems by (metis list.set_intros)+
  show ?case by (simp only: trip_run.simps trip_step_held(1) [OF x] prod.case if_False Cons.IH [OF xs])
qed simp

lemma trip_run_after:
  assumes "0 < lr" and "x \<in> set (trip_run deb l lr xs)"
  shows "lr + clamp_debounce deb \<le> x"
  using assms
proof (induction xs arbitrary: l lr)
  case (Cons a xs)
  have pos: "0 < clamp_debounce deb" by (simp add: clamp_debounce_def MIN_CONDITION_DEBOUNCE_SECS_def)
  show ?case
  proof (cases rule: trip_run_Cons [of a l deb lr xs])
    case (fire l')
    then have "lr + clamp_debounce deb \<le> sn_now a" using Cons.prems(1) pos by (auto simp: cooled_at_def)
    moreover have "x = sn_now a \<or> sn_now a + clamp_debounce deb \<le> x"
      using calculation fire(4) Cons.prems Cons.IH [of "sn_now a" l'] by auto
    ultimately show ?thesis by auto
  next
    case (silent l')
    then show ?thesis using Cons.prems Cons.IH [of lr l'] by simp
  qed
qed simp

text \<open>The latch after some readings, and the run split at any point.\<close>

fun latch_after :: "nat \<Rightarrow> bool \<Rightarrow> nat \<Rightarrow> sense list \<Rightarrow> bool" where
  "latch_after deb l lr [] = l"
| "latch_after deb l lr (x # xs) =
     (case tripwire_step (sn_holds x) (sn_cleared x) l (sn_now x) lr deb of
        (fire, nxt) \<Rightarrow> latch_after deb nxt (if fire then sn_now x else lr) xs)"

lemma trip_run_append:
  "trip_run deb l lr (xs @ ys) =
     trip_run deb l lr xs @ trip_run deb (latch_after deb l lr xs) (last (lr # trip_run deb l lr xs)) ys"
  by (induction deb l lr xs rule: latch_after.induct) (auto split: prod.splits)

lemma latch_after_append:
  "latch_after deb l lr (xs @ ys) = latch_after deb (latch_after deb l lr xs) (last (lr # trip_run deb l lr xs)) ys"
  by (induction deb l lr xs rule: latch_after.induct) (auto split: prod.splits)

text \<open>The tripwire fires at a reading that comes after the readings \<open>zs\<close>.\<close>

definition trips :: "nat \<Rightarrow> bool \<Rightarrow> nat \<Rightarrow> sense list \<Rightarrow> sense \<Rightarrow> bool" where
  "trips deb l lr zs y \<longleftrightarrow> trip_run deb l lr (zs @ [y]) = trip_run deb l lr zs @ [sn_now y]"

lemma trips_iff:
  "trips deb l lr zs y \<longleftrightarrow> sn_holds y \<and> \<not> latch_after deb l lr zs
     \<and> cooled_at deb (last (lr # trip_run deb l lr zs)) (sn_now y)"
  by (simp add: trips_def trip_run_append trip_step_eq del: last.simps)

lemma latch_snoc:
  "latch_after deb l lr (zs @ [z]) \<longleftrightarrow> \<not> sn_cleared z \<and> (trips deb l lr zs z \<or> latch_after deb l lr zs)"
  by (auto simp: trips_iff latch_after_append trip_step_eq simp del: last.simps)

text \<open>It is latched exactly when it has fired, or was latched at the start, and has not been cleared since.\<close>

lemma latched_since:
  "latch_after deb l lr zs \<longleftrightarrow>
     (\<exists>us x vs. zs = us @ x # vs \<and> trips deb l lr us x \<and> (\<forall>c \<in> set (x # vs). \<not> sn_cleared c))
     \<or> l \<and> (\<forall>c \<in> set zs. \<not> sn_cleared c)"
proof (induction zs rule: rev_induct)
  case (snoc z zs)
  have split: "(\<exists>us x vs. zs @ [z] = us @ x # vs \<and> P us x vs) \<longleftrightarrow>
      P zs z [] \<or> (\<exists>us x vs. zs = us @ x # vs \<and> P us x (vs @ [z]))" for P
  proof
    assume "\<exists>us x vs. zs @ [z] = us @ x # vs \<and> P us x vs"
    then obtain us x vs where e: "zs @ [z] = us @ x # vs" "P us x vs" by blast
    then show "P zs z [] \<or> (\<exists>us x vs. zs = us @ x # vs \<and> P us x (vs @ [z]))" by (cases vs rule: rev_cases) auto
  next
    assume "P zs z [] \<or> (\<exists>us x vs. zs = us @ x # vs \<and> P us x (vs @ [z]))"
    moreover have "zs @ [z] = zs @ z # []" by simp
    moreover have "zs = us @ x # vs \<Longrightarrow> zs @ [z] = us @ x # (vs @ [z])" for us x vs by simp
    ultimately show "\<exists>us x vs. zs @ [z] = us @ x # vs \<and> P us x vs" by metis
  qed
  show ?case unfolding latch_snoc snoc.IH split by auto
qed simp

text \<open>
  C29. A tripwire fires once per crossing and is not lost. While its condition holds without a break,
  an armed tripwire fires exactly once, at the first evaluation after its cooldown, if there is
  one. A tripwire that has fired fires again only after its condition was cleared: over any
  readings, one that are neither holding nor cleared among them, it fires at a reading exactly when
  the condition holds there, the last firing has cooled down, and a cleared reading came after every
  earlier firing (and after the start, if it started latched). Whatever the readings, two firings are
  at least the debounce time, and never less than five minutes, apart.
\<close>
theorem tripwire_fires_once_per_crossing:
  assumes "\<forall>x \<in> set xs. sn_holds x \<and> \<not> sn_cleared x" and "\<forall>y \<in> set ys. 0 < sn_now y"
  shows "trip_run deb False lr xs = take 1 (filter (cooled_at deb lr) (map sn_now xs))
    \<and> trip_run deb True lr xs = []
    \<and> sorted_wrt (\<lambda>a b. a + max deb 300 \<le> b) (trip_run deb l lr ys)
    \<and> (trips deb l lr zs y \<longleftrightarrow>
         sn_holds y \<and> cooled_at deb (last (lr # trip_run deb l lr zs)) (sn_now y)
         \<and> (\<forall>us x vs. zs = us @ x # vs \<and> trips deb l lr us x \<longrightarrow> (\<exists>c \<in> set (x # vs). sn_cleared c))
         \<and> (l \<longrightarrow> (\<exists>c \<in> set zs. sn_cleared c)))"
proof (intro conjI)
  show "trip_run deb False lr xs = take 1 (filter (cooled_at deb lr) (map sn_now xs))"
    using assms(1)
  proof (induction xs)
    case (Cons x xs)
    have x: "sn_holds x \<and> \<not> sn_cleared x" and xs: "\<forall>y \<in> set xs. sn_holds y \<and> \<not> sn_cleared y"
      using Cons.prems by (metis list.set_intros)+
    show ?case
      by (simp add: trip_step_held(2) [OF x] trip_run_latched [OF xs] Cons.IH [OF xs])
  qed simp
  show "trip_run deb True lr xs = []" by (rule trip_run_latched [OF assms(1)])
  have "sorted_wrt (\<lambda>a b. a + clamp_debounce deb \<le> b) (trip_run deb l lr ys)"
    using assms(2)
  proof (induction ys arbitrary: l lr)
    case (Cons y ys)
    show ?case
    proof (cases rule: trip_run_Cons [of y l deb lr ys])
      case (fire l')
      then show ?thesis using Cons.prems Cons.IH [of l' "sn_now y"] trip_run_after [of "sn_now y" _ deb l'] by simp
    next
      case (silent l')
      then show ?thesis using Cons by simp
    qed
  qed simp
  then show "sorted_wrt (\<lambda>a b. a + max deb 300 \<le> b) (trip_run deb l lr ys)"
    by (simp add: clamp_debounce_def MIN_CONDITION_DEBOUNCE_SECS_def)
  show "trips deb l lr zs y \<longleftrightarrow>
      sn_holds y \<and> cooled_at deb (last (lr # trip_run deb l lr zs)) (sn_now y)
      \<and> (\<forall>us x vs. zs = us @ x # vs \<and> trips deb l lr us x \<longrightarrow> (\<exists>c \<in> set (x # vs). sn_cleared c))
      \<and> (l \<longrightarrow> (\<exists>c \<in> set zs. sn_cleared c))"
    unfolding trips_iff [of deb l lr zs y] latched_since by blast
qed

definition demo_sense :: "bool \<Rightarrow> nat \<Rightarrow> sense" where
  "demo_sense h n = \<lparr> sn_holds = h, sn_cleared = \<not> h, sn_now = n \<rparr>"

text \<open>A reading in the dead band: the condition neither holds nor is it cleared.\<close>

definition dead_band :: "nat \<Rightarrow> sense" where
  "dead_band n = \<lparr> sn_holds = False, sn_cleared = False, sn_now = n \<rparr>"

lemma tripwire_fires_once_per_crossing_witness:
  "trip_run 3600 False 100 [demo_sense True 700, demo_sense True 3900, demo_sense True 8000] = [3900]
   \<and> \<not> trips 300 False 0 [demo_sense True 700, dead_band 5000] (demo_sense True 9000)
   \<and> trips 300 False 0 [demo_sense True 700, demo_sense False 5000] (demo_sense True 9000)"
proof -
  have cool: "cooled_at 300 700 9000" "cooled_at 300 0 700" by (simp_all add: cooled_at_def clamp_debounce_def MIN_CONDITION_DEBOUNCE_SECS_def)
  have first: "trips 300 False 0 [] (demo_sense True 700)" using cool by (simp add: trips_iff demo_sense_def)
  have split: "[a, b] = us @ x # vs \<longleftrightarrow> us = [] \<and> x = a \<and> vs = [b] \<or> us = [a] \<and> x = b \<and> vs = []" for a b x :: sense and us vs
    by (cases us; cases "tl us") auto
  have run: "trip_run 300 False 0 [demo_sense True 700, b] = [700]" if "\<not> sn_holds b" for b
    using cool that by (simp add: trip_step_eq demo_sense_def)
  note T = tripwire_fires_once_per_crossing
    [of "[demo_sense True 700, demo_sense True 3900, demo_sense True 8000]" "[]" 3600 100 False]
  note U = tripwire_fires_once_per_crossing [of "[]" "[]" 300 0 False]
  have a: "trip_run 3600 False 100 [demo_sense True 700, demo_sense True 3900, demo_sense True 8000] = [3900]"
    using T by (simp add: demo_sense_def cooled_at_def clamp_debounce_def MIN_CONDITION_DEBOUNCE_SECS_def)
  have b: "\<not> trips 300 False 0 [demo_sense True 700, dead_band 5000] (demo_sense True 9000)"
    using U [of "[demo_sense True 700, dead_band 5000]" "demo_sense True 9000", simplified]
      first spec [of _ "[]"] by (fastforce simp: demo_sense_def dead_band_def)
  have c: "trips 300 False 0 [demo_sense True 700, demo_sense False 5000] (demo_sense True 9000)"
    using U [of "[demo_sense True 700, demo_sense False 5000]" "demo_sense True 9000"] cool run [of "demo_sense False 5000"]
    by (auto simp: split demo_sense_def)
  show ?thesis using a b c by simp
qed

section \<open>The ledger refines one latch per mission\<close>

lemma ledger_set_find [simp]:
  "ledger_latched j (ledger_set i v L) = (if j = i then v else ledger_latched j L)"
  by (induction i v L rule: ledger_set.induct) (auto simp: ledger_latched_def)

lemma ledger_retain_find: "keep i \<Longrightarrow> ledger_latched i (ledger_retain keep L) = ledger_latched i L"
  unfolding ledger_retain_def by (induction L) (auto simp: ledger_latched_def)

definition armed_condition :: "'f mission \<Rightarrow> 'f condition option" where
  "armed_condition m = (case ms_schedule m of Tripwire c \<Rightarrow> if ms_enabled m then Some c else None | _ \<Rightarrow> None)"

definition mission_step :: "'f floats \<Rightarrow> 'f signals \<Rightarrow> nat \<Rightarrow> nat \<Rightarrow> bool \<Rightarrow> 'f mission \<Rightarrow> 'f condition \<Rightarrow> bool \<times> bool" where
  "mission_step F sg now deb latched m c = tripwire_step (holds F sg c) (cleared F sg c) latched now (ms_last_run m) deb"

lemma pass_skip: "armed_condition m = None \<Longrightarrow> tripwire_pass F sg now deb (m # ms) L = tripwire_pass F sg now deb ms L"
  by (auto simp: armed_condition_def split: schedule.splits bool.splits)

lemma pass_take:
  assumes "armed_condition m = Some c" and "mission_step F sg now deb (ledger_latched (ms_id m) L) m c = (fire, nxt)"
  shows "tripwire_pass F sg now deb (m # ms) L =
    (case tripwire_pass F sg now deb ms (ledger_set (ms_id m) nxt L) of (fired, L') \<Rightarrow> (if fire then m # fired else fired, L'))"
proof -
  have "ms_enabled m" "ms_schedule m = Tripwire c"
    using assms(1) by (auto simp: armed_condition_def split: schedule.splits if_splits)
  then show ?thesis using assms(2) by (simp add: mission_step_def)
qed

lemma pass_spec:
  assumes "distinct (map ms_id ms)"
  shows "fst (tripwire_pass F sg now deb ms L) = filter (\<lambda>m. case armed_condition m of None \<Rightarrow> False
        | Some c \<Rightarrow> fst (mission_step F sg now deb (ledger_latched (ms_id m) L) m c)) ms
    \<and> (\<forall>i. ledger_latched i (snd (tripwire_pass F sg now deb ms L)) =
        (case find (\<lambda>m. ms_id m = i \<and> armed_condition m \<noteq> None) ms of None \<Rightarrow> ledger_latched i L
         | Some m \<Rightarrow> snd (mission_step F sg now deb (ledger_latched i L) m (the (armed_condition m)))))"
  using assms
proof (induction ms arbitrary: L)
  case (Cons m ms)
  have d: "distinct (map ms_id ms)" and fresh: "\<forall>k \<in> set ms. ms_id k \<noteq> ms_id m"
    using Cons.prems by (auto simp: image_iff)
  show ?case
  proof (cases "armed_condition m")
    case None
    then show ?thesis using Cons.IH [OF d, of L] by (simp add: pass_skip del: tripwire_pass.simps(2))
  next
    case (Some c)
    obtain fire nxt where st: "mission_step F sg now deb (ledger_latched (ms_id m) L) m c = (fire, nxt)" by fastforce
    let ?L = "ledger_set (ms_id m) nxt L"
    have same: "filter (\<lambda>k. case armed_condition k of None \<Rightarrow> False
          | Some c \<Rightarrow> fst (mission_step F sg now deb (ledger_latched (ms_id k) ?L) k c)) ms
        = filter (\<lambda>k. case armed_condition k of None \<Rightarrow> False
          | Some c \<Rightarrow> fst (mission_step F sg now deb (ledger_latched (ms_id k) L) k c)) ms"
      by (rule filter_cong) (use fresh in \<open>auto split: option.splits\<close>)
    have nf: "find (\<lambda>k. ms_id k = ms_id m \<and> armed_condition k \<noteq> None) ms = None"
      using fresh by (auto simp: find_None_iff)
    obtain fired L' where rest: "tripwire_pass F sg now deb ms ?L = (fired, L')" by fastforce
    have IH: "fired = filter (\<lambda>k. case armed_condition k of None \<Rightarrow> False
          | Some c \<Rightarrow> fst (mission_step F sg now deb (ledger_latched (ms_id k) L) k c)) ms"
      "ledger_latched i L' = (case find (\<lambda>k. ms_id k = i \<and> armed_condition k \<noteq> None) ms of
            None \<Rightarrow> ledger_latched i ?L
          | Some k \<Rightarrow> snd (mission_step F sg now deb (ledger_latched i ?L) k (the (armed_condition k))))" for i
      using Cons.IH [OF d, of ?L] unfolding rest same by simp_all
    have pass: "tripwire_pass F sg now deb (m # ms) L = (if fire then m # fired else fired, L')"
      by (simp only: pass_take [OF Some st] rest prod.case)
    have latch: "ledger_latched i L' = (case find (\<lambda>k. ms_id k = i \<and> armed_condition k \<noteq> None) (m # ms) of
            None \<Rightarrow> ledger_latched i L
          | Some k \<Rightarrow> snd (mission_step F sg now deb (ledger_latched i L) k (the (armed_condition k))))" for i
    proof (cases "i = ms_id m")
      case True
      then show ?thesis unfolding IH(2) using nf Some st by simp
    next
      case False
      then have l: "ledger_latched i ?L = ledger_latched i L" by simp
      show ?thesis unfolding IH(2) l using False by simp
    qed
    have first: "(if fire then m # fired else fired) = filter (\<lambda>k. case armed_condition k of None \<Rightarrow> False
          | Some c \<Rightarrow> fst (mission_step F sg now deb (ledger_latched (ms_id k) L) k c)) (m # ms)"
      using IH(1) Some st by simp
    show ?thesis unfolding pass fst_conv snd_conv using first latch by blast
  qed
qed simp

text \<open>
  The shared ledger is one latch per tripwire. In one evaluation of missions with distinct ids,
  an armed tripwire fires exactly when its own step does on the latch the ledger held for it, and the
  ledger holds the next latch of that step afterwards; the other missions neither fire nor matter.
\<close>
theorem tripwires_step_independently:
  assumes "distinct (map ms_id ms)" and "m \<in> set ms" and "armed_condition m = Some c"
  shows "case due_condition_missions F ms sg now L True deb of (fired, L') \<Rightarrow>
    (m \<in> set fired, ledger_latched (ms_id m) L') = mission_step F sg now deb (ledger_latched (ms_id m) L) m c"
proof -
  let ?keep = "\<lambda>k. k \<in> set (map ms_id (filter (\<lambda>m. is_condition (ms_schedule m)) ms))"
  let ?L = "ledger_retain ?keep L"
  have "is_condition (ms_schedule m)"
    using assms(3) by (auto simp: armed_condition_def is_condition_def split: schedule.splits)
  then have l: "ledger_latched (ms_id m) ?L = ledger_latched (ms_id m) L"
    using assms(2) by (intro ledger_retain_find) auto
  have "find (\<lambda>k. ms_id k = ms_id m \<and> armed_condition k \<noteq> None) ms = Some m"
    using assms
  proof (induction ms)
    case (Cons k ks)
    then show ?case by (cases "k = m") (auto simp: image_iff)
  qed simp
  then show ?thesis
    using pass_spec [OF assms(1), of F sg now deb ?L] assms(2,3) l
    by (auto simp: due_condition_missions_def split: prod.splits)
qed

definition demo_wire :: "string \<Rightarrow> nat \<Rightarrow> int mission" where
  "demo_wire i n = \<lparr> ms_id = i, ms_goal = ''g'', ms_schedule = Tripwire (UnreadAtLeast n), ms_last_run = 0, ms_enabled = True \<rparr>"

lemma tripwires_step_independently_witness:
  "case due_condition_missions demo_floats [demo_wire ''a'' 9, demo_wire ''b'' 5]
      \<lparr> health = None, important_unread = 7, event_minutes = [], market_present = False \<rparr> 1000 [(''a'', True)] True 600 of
     (fired, L') \<Rightarrow> demo_wire ''b'' 5 \<in> set fired \<and> ledger_latched ''b'' L'"
  using tripwires_step_independently [where ms = "[demo_wire ''a'' 9, demo_wire ''b'' 5]" and m = "demo_wire ''b'' 5"
      and c = "UnreadAtLeast 5" and F = demo_floats and now = 1000 and L = "[(''a'', True)]" and deb = 600
      and sg = "\<lparr> health = None, important_unread = 7, event_minutes = [], market_present = False \<rparr>"]
  by (simp add: demo_wire_def armed_condition_def mission_step_def trip_step_eq holds_def cleared_def cooled_at_def
      ledger_latched_def split: prod.splits)

section \<open>The store\<close>

text \<open>Documented behaviour of \<open>serde_json\<close>: a mission that was written is read back.\<close>

definition mission_codec :: "'f standing_ext \<Rightarrow> bool" where
  "mission_codec S \<longleftrightarrow> (\<forall>m. mission_read S (mission_text S m) = Some m)"

definition standing_row :: "'f standing_ext \<Rightarrow> fact \<Rightarrow> bool" where
  "standing_row S f \<longleftrightarrow> (\<exists>m. mission_read S (f_value f) = Some m \<and> f_key f = mission_key (ms_id m))"

definition standing_rows :: "facts \<Rightarrow> facts" where
  "standing_rows fs = filter (key_like STANDING_PREFIX) fs"

definition standing_ok :: "'f standing_ext \<Rightarrow> facts \<Rightarrow> bool" where
  "standing_ok S fs \<longleftrightarrow> keys_distinct fs \<and> (\<forall>f \<in> set (standing_rows fs). standing_row S f)
     \<and> length (standing_rows fs) \<le> MAX_ACTIVE"

lemma key_like_mission: "f_key f = mission_key i \<Longrightarrow> key_like STANDING_PREFIX f"
  by (simp add: key_like_def mission_key_def to_ascii_lowercase_def)

lemma like_keys: "map f_key fs = map f_key gs \<Longrightarrow> length (filter (key_like p) fs) = length (filter (key_like p) gs)"
proof (induction fs arbitrary: gs)
  case (Cons f fs)
  then obtain g gs' where "gs = g # gs'" "f_key f = f_key g" "map f_key fs = map f_key gs'" by (cases gs) auto
  then show ?case using Cons.IH [of gs'] by (simp add: key_like_def)
qed simp

lemma mission_list_rows:
  assumes "standing_ok S fs"
  shows "set (mission_list S fs) = {m. \<exists>f \<in> set (standing_rows fs). mission_read S (f_value f) = Some m}"
    and "length (mission_list S fs) = length (standing_rows fs)"
proof -
  let ?rows = "newest_first (standing_rows fs)"
  have n: "length ?rows \<le> 256" using assms by (simp add: standing_ok_def MAX_ACTIVE_def)
  have l: "mission_list S fs = List.map_filter (\<lambda>f. mission_read S (f_value f)) ?rows"
    using n by (simp add: mission_list_def recall_facts_limited_def standing_rows_def map_filter_def filter_map comp_def)
  show "set (mission_list S fs) = {m. \<exists>f \<in> set (standing_rows fs). mission_read S (f_value f) = Some m}"
    unfolding l by (auto simp: map_filter_def image_iff) (metis option.sel)
  have "\<forall>f \<in> set ?rows. mission_read S (f_value f) \<noteq> None"
    using assms by (auto simp: standing_ok_def standing_row_def)
  then show "length (mission_list S fs) = length (standing_rows fs)"
    unfolding l by (simp add: map_filter_def filter_id_conv)
qed

lemma rows_upsert_count:
  "length (standing_rows (upsert_fact_at turn k v ts fs)) =
     (if guest_write_blocked turn \<or> k \<in> set (map f_key fs) then length (standing_rows fs)
      else length (standing_rows fs) + (if starts_with STANDING_PREFIX (to_ascii_lowercase k) then 1 else 0))"
proof -
  have pre: "to_ascii_lowercase STANDING_PREFIX = STANDING_PREFIX" by (simp add: STANDING_PREFIX_def) code_simp
  show ?thesis
  proof (cases "guest_write_blocked turn \<or> k \<in> set (map f_key fs)")
    case True
    then show ?thesis
      using keys_upsert [of turn k v ts fs] like_keys [of "upsert_fact_at turn k v ts fs" fs STANDING_PREFIX]
      by (simp add: standing_rows_def)
  next
    case False
    let ?f = "\<lparr> f_ts = ts, f_key = k, f_value = v \<rparr>"
    have "upsert_fact_at turn k v ts fs = map (\<lambda>f. if f_key f = k then f\<lparr> f_value := v, f_ts := ts \<rparr> else f) fs @ [?f]"
      using False by (auto simp: upsert_fact_at_def Let_def list_ex_iff)
    moreover have "map (\<lambda>f. if f_key f = k then f\<lparr> f_value := v, f_ts := ts \<rparr> else f) fs = fs"
      using False by (intro map_idI) auto
    ultimately show ?thesis using False by (auto simp: standing_rows_def key_like_def pre)
  qed
qed

lemma standing_ok_save:
  assumes "standing_ok S fs" and "mission_codec S"
    and "ms_id m \<in> ms_id ` set (mission_list S fs) \<or> length (mission_list S fs) < MAX_ACTIVE"
  shows "standing_ok S (mission_save S turn ts m fs)"
proof (cases "guest_write_blocked turn")
  case True
  then show ?thesis using assms(1) by (simp add: mission_save_def upsert_fact_at_def)
next
  case False
  let ?k = "mission_key (ms_id m)"
  let ?fs = "mission_save S turn ts m fs"
  have ok: "keys_distinct fs" "\<forall>f \<in> set (standing_rows fs). standing_row S f" "length (standing_rows fs) \<le> MAX_ACTIVE"
    using assms(1) by (auto simp: standing_ok_def)
  have "keys_distinct ?fs" using ok(1) by (simp add: mission_save_def keys_distinct_upsert)
  moreover have "standing_row S f" if f: "f \<in> set (standing_rows ?fs)" for f
  proof (cases "f_key f = ?k")
    case True
    then have "f_value f = mission_text S m"
      using f by (intro in_upsert_own [OF False True, where t = ts and fs = fs]) (simp add: standing_rows_def mission_save_def)
    then show ?thesis using True assms(2) by (auto simp: standing_row_def mission_codec_def)
  next
    case False
    then have "f \<in> set (standing_rows fs)"
      using f set_upsert_other [OF False] by (simp add: standing_rows_def mission_save_def)
    then show ?thesis using ok(2) by blast
  qed
  moreover have "length (standing_rows ?fs) \<le> MAX_ACTIVE"
  proof (cases "?k \<in> set (map f_key fs)")
    case True
    then show ?thesis using ok(3) by (simp add: mission_save_def rows_upsert_count)
  next
    case new: False
    have "ms_id m \<notin> ms_id ` set (mission_list S fs)"
    proof
      assume "ms_id m \<in> ms_id ` set (mission_list S fs)"
      then obtain f e where "f \<in> set (standing_rows fs)" "mission_read S (f_value f) = Some e" "ms_id e = ms_id m"
        using mission_list_rows(1) [OF assms(1)] by auto
      then have "f \<in> set fs" "f_key f = ?k" using ok(2) by (auto simp: standing_row_def standing_rows_def)
      then show False using new by force
    qed
    then have "length (standing_rows fs) < MAX_ACTIVE" using assms(3) mission_list_rows(2) [OF assms(1)] by simp
    then show ?thesis by (simp add: mission_save_def rows_upsert_count)
  qed
  ultimately show ?thesis by (simp add: standing_ok_def)
qed

text \<open>A reserved key may differ in case and be padded; no user fact reaches the prefix of the missions.\<close>

lemma trim_keeps_head:
  assumes "list_all (\<lambda>c. is_ascii c \<and> \<not> ascii_ws c) p" and "p \<noteq> []"
  shows "starts_with p (trim (p @ s))"
proof -
  have ch: "chars (p @ s) = map (\<lambda>c. [c]) p @ chars s"
    using assms(1) by (induction p) (auto simp: chars_ascii_Cons)
  have nw: "\<forall>c \<in> set (map (\<lambda>c. [c]) p). \<not> is_whitespace c" using assms(1) by (auto simp: list_all_iff is_whitespace_byte)
  have dropend: "\<exists>q. rev (dropWhile P (rev (xs @ ys))) = xs @ q" if "xs \<noteq> []" "\<not> P (last xs)" for P and xs ys :: "string list"
  proof (cases "\<forall>y \<in> set ys. P y")
    case True
    then have "dropWhile P (rev (xs @ ys)) = dropWhile P (rev xs)"
      unfolding rev_append using True by (intro dropWhile_append2) auto
    also have "\<dots> = rev xs" using that by (simp add: dropWhile_eq_self_iff hd_rev)
    finally have "dropWhile P (rev (xs @ ys)) = rev xs" .
    then show ?thesis by simp
  next
    case False
    then have "dropWhile P (rev (xs @ ys)) = dropWhile P (rev ys) @ rev xs" by (auto simp: dropWhile_append1)
    then show ?thesis by simp
  qed
  have "dropWhile is_whitespace (map (\<lambda>c. [c]) p @ chars s) = map (\<lambda>c. [c]) p @ chars s"
    using nw assms(2) by (cases p) auto
  moreover obtain q where "rev (dropWhile is_whitespace (rev (map (\<lambda>c. [c]) p @ chars s))) = map (\<lambda>c. [c]) p @ q"
    using dropend [of "map (\<lambda>c. [c]) p" is_whitespace "chars s"] nw assms(2) by (auto simp: last_map)
  ultimately have "trim (p @ s) = p @ concat q"
    unfolding trim_def trim_list_def ch by simp
  then show ?thesis by simp
qed

lemma lower_byte_eq_lower:
  "ascii_lower c \<Longrightarrow> lower_byte d = c \<Longrightarrow> is_ascii d \<and> \<not> ascii_ws d"
  by (auto simp: lower_byte_def is_ascii_def ascii_ws_def ascii_upper_def ascii_lower_def split: if_splits)

lemma user_fact_off_prefix:
  assumes "\<not> is_reserved_key k"
  shows "\<not> starts_with STANDING_PREFIX (to_ascii_lowercase k)"
proof
  assume "starts_with STANDING_PREFIX (to_ascii_lowercase k)"
  then obtain t where "map lower_byte k = STANDING_PREFIX @ t" by (auto simp: starts_with_iff to_ascii_lowercase_def)
  then obtain a b c d e s where k: "k = [a, b, c, d, e] @ s" and
    low: "lower_byte a = CHR ''m''" "lower_byte b = CHR ''e''" "lower_byte c = CHR ''t''" "lower_byte d = CHR ''a''"
      "lower_byte e = CHR ''.''"
    by (auto simp: STANDING_PREFIX_def map_eq_Cons_conv)
  have "code (lower_byte e) = 46" unfolding low(5) by simp
  then have "code e = 46" by (auto simp: lower_byte_def ascii_upper_def split: if_splits)
  then have e: "is_ascii e \<and> \<not> ascii_ws e" by (auto simp: is_ascii_def ascii_ws_def)
  have "is_ascii x \<and> \<not> ascii_ws x" if "lower_byte x \<in> {CHR ''m'', CHR ''e'', CHR ''t'', CHR ''a''}" for x
    by (rule lower_byte_eq_lower [OF _ refl]) (use that in \<open>auto simp: ascii_lower_def\<close>)
  with low e have "list_all (\<lambda>c. is_ascii c \<and> \<not> ascii_ws c) [a, b, c, d, e]" by simp
  from trim_keeps_head [OF this] k have "starts_with [a, b, c, d, e] (trim k)" by simp
  then have "is_reserved_key k"
    using low by (auto simp: is_reserved_key_def starts_with_iff to_ascii_lowercase_def)
  then show False using assms by simp
qed

text \<open>Everything that writes to the fact table around the mission store, on any turn.\<close>

datatype 'f standing_event =
    Establish "scope option" string string "'f schedule"
  | CancelMission string
  | MissionRan "scope option" string "'f mission" nat
  | UserFact "scope option" string string string

fun standing_step :: "'f standing_ext \<Rightarrow> 'f standing_event \<Rightarrow> facts \<Rightarrow> facts" where
  "standing_step S (Establish turn ts goal sched) fs = fst (mission_create S turn ts goal sched fs)"
| "standing_step S (CancelMission i) fs = fst (mission_cancel i fs)"
| "standing_step S (MissionRan turn ts m now) fs = mark_ran S turn ts m now fs"
| "standing_step S (UserFact turn ts k v) fs = (case upsert_user_fact turn k v ts fs of None \<Rightarrow> fs | Some fs' \<Rightarrow> fs')"

lemma standing_ok_step:
  assumes "mission_codec S" and "standing_ok S fs"
  shows "standing_ok S (standing_step S ev fs)"
proof (cases ev)
  case (Establish turn ts goal sched)
  then show ?thesis
    using standing_ok_save [OF assms(2,1)] assms(2)
    by (auto simp: mission_create_def Let_def list_ex_iff image_iff) metis
next
  case (CancelMission i)
  have "standing_rows (fst (mission_cancel i fs)) = filter (\<lambda>f. f_key f \<noteq> mission_key (trim i)) (standing_rows fs)"
    by (simp add: mission_cancel_def delete_fact_def standing_rows_def conj_commute)
  then have "length (standing_rows (fst (mission_cancel i fs))) \<le> length (standing_rows fs)"
    by simp
  then show ?thesis
    using assms(2) CancelMission keys_distinct_delete [of fs "mission_key (trim i)"]
    by (auto simp: standing_ok_def standing_rows_def mission_cancel_def delete_fact_def)
next
  case (MissionRan turn ts m now)
  show ?thesis
  proof (cases "find (\<lambda>e. ms_id e = ms_id m) (mission_list S fs)")
    case None
    then show ?thesis using assms(2) MissionRan by (simp add: mark_ran_def)
  next
    case (Some c)
    then have "c \<in> set (mission_list S fs)" by (auto simp: find_Some_iff)
    then show ?thesis
      using standing_ok_save [OF assms(2,1), of "c\<lparr> ms_last_run := now \<rparr>" turn ts] Some MissionRan
      by (auto simp: mark_ran_def)
  qed
next
  case (UserFact turn ts k v)
  show ?thesis
  proof (cases "is_reserved_key k \<or> guest_write_blocked turn")
    case True
    then show ?thesis using assms(2) UserFact by (auto simp: upsert_user_fact_def upsert_fact_at_def)
  next
    case False
    then have k: "\<not> starts_with STANDING_PREFIX (to_ascii_lowercase k)" by (simp add: user_fact_off_prefix)
    have pre: "to_ascii_lowercase STANDING_PREFIX = STANDING_PREFIX" by (simp add: STANDING_PREFIX_def) code_simp
    let ?fs = "upsert_fact_at turn k v ts fs"
    have "f \<in> set (standing_rows fs)" if "f \<in> set (standing_rows ?fs)" for f
    proof -
      have "f_key f \<noteq> k" using that k by (auto simp: standing_rows_def key_like_def pre)
      then show ?thesis using that set_upsert_other [of f k turn v ts fs] by (auto simp: standing_rows_def)
    qed
    then have "standing_ok S ?fs"
      using assms(2) k by (auto simp: standing_ok_def keys_distinct_upsert rows_upsert_count)
    then show ?thesis using UserFact False by (simp add: upsert_user_fact_def)
  qed
qed

lemma standing_ok_Nil: "standing_ok S []"
  by (simp add: standing_ok_def keys_distinct_def standing_rows_def)

text \<open>
  C28. The mission store is bounded and consistent, whatever is established, cancelled, run or
  remembered, on owner and guest turns: never more than eight missions exist, every stored row
  is a readable mission under its own id, and no two rows share a key.
\<close>
theorem standing_store_bounded:
  assumes "mission_codec S"
  shows "case fold (standing_step S) evs [] of fs \<Rightarrow>
    length (mission_list S fs) \<le> 8 \<and> length (standing_rows fs) = length (mission_list S fs)
    \<and> list_all (standing_row S) (standing_rows fs) \<and> keys_distinct fs"
proof -
  have "standing_ok S (fold (standing_step S) evs fs)" if "standing_ok S fs" for fs
    using that by (induction evs arbitrary: fs) (simp_all add: standing_ok_step [OF assms])
  from this [OF standing_ok_Nil] show ?thesis
    using mission_list_rows(2) [of S "fold (standing_step S) evs []"]
    by (auto simp: standing_ok_def MAX_ACTIVE_def list_all_iff)
qed

text \<open>A coding of missions for the evaluated examples: fields of marked characters, unary numbers.\<close>

definition demo_field :: "string \<Rightarrow> string" where
  "demo_field s = concat (map (\<lambda>c. [CHR ''x'', c]) s) @ ''e''"

fun demo_fields :: "string \<Rightarrow> string \<Rightarrow> string list" where
  "demo_fields acc (a # c # r) = (if a = CHR ''e'' then acc # demo_fields [] (c # r) else demo_fields (acc @ [c]) r)"
| "demo_fields acc [a] = [acc]"
| "demo_fields acc [] = []"

definition demo_nat :: "nat \<Rightarrow> string" where
  "demo_nat n = replicate n CHR ''a''"

fun demo_schedule_fields :: "int schedule \<Rightarrow> string list" where
  "demo_schedule_fields (Daily h m) = [''d'', demo_nat h, demo_nat m]"
| "demo_schedule_fields (Interval s) = [''i'', demo_nat s]"
| "demo_schedule_fields (OnSignal s) = [''s'', s]"
| "demo_schedule_fields (Tripwire (DiskFreePctBelow p)) = [''f'', demo_nat (nat p), demo_nat (nat (- p))]"
| "demo_schedule_fields (Tripwire (MemUsedPctAtLeast p)) = [''m'', demo_nat (nat p), demo_nat (nat (- p))]"
| "demo_schedule_fields (Tripwire (UnreadAtLeast n)) = [''u'', demo_nat n]"
| "demo_schedule_fields (Tripwire (CalendarWithinMinutes p)) = [''c'', demo_nat (nat p), demo_nat (nat (- p))]"

fun demo_schedule_of :: "string list \<Rightarrow> int schedule option" where
  "demo_schedule_of [k, a] = (if k = ''i'' then Some (Interval (length a)) else if k = ''s'' then Some (OnSignal a)
     else if k = ''u'' then Some (Tripwire (UnreadAtLeast (length a))) else None)"
| "demo_schedule_of [k, a, b] = (let p = int (length a) - int (length b) in
     if k = ''d'' then Some (Daily (length a) (length b)) else if k = ''f'' then Some (Tripwire (DiskFreePctBelow p))
     else if k = ''m'' then Some (Tripwire (MemUsedPctAtLeast p)) else if k = ''c'' then Some (Tripwire (CalendarWithinMinutes p))
     else None)"
| "demo_schedule_of _ = None"

definition demo_mission_text :: "int mission \<Rightarrow> string" where
  "demo_mission_text m = concat (map demo_field
     ([ms_id m, ms_goal m, demo_nat (ms_last_run m), if ms_enabled m then ''t'' else []] @ demo_schedule_fields (ms_schedule m)))"

definition demo_mission_read :: "string \<Rightarrow> int mission option" where
  "demo_mission_read s =
     (case demo_fields [] s of
        i # g # l # e # r \<Rightarrow> map_option (\<lambda>c. \<lparr> ms_id = i, ms_goal = g, ms_schedule = c, ms_last_run = length l,
          ms_enabled = (e \<noteq> []) \<rparr>) (demo_schedule_of r)
      | _ \<Rightarrow> None)"

lemma demo_fields_one: "r \<noteq> [] \<Longrightarrow> demo_fields acc (demo_field s @ r) = (acc @ s) # demo_fields [] r"
  by (induction s arbitrary: acc) (auto simp: demo_field_def neq_Nil_conv)

lemma demo_fields_last: "demo_fields acc (demo_field s) = [acc @ s]"
  by (induction s arbitrary: acc) (auto simp: demo_field_def)

lemma demo_field_not_Nil [simp]: "demo_field s \<noteq> []"
  by (simp add: demo_field_def)

lemma demo_fields_all: "fs \<noteq> [] \<Longrightarrow> demo_fields [] (concat (map demo_field fs)) = fs"
proof (induction fs)
  case (Cons f fs)
  then show ?case by (cases fs) (simp_all add: demo_fields_one demo_fields_last)
qed simp

lemma demo_schedule_back: "demo_schedule_of (demo_schedule_fields s) = Some s"
  by (cases s rule: demo_schedule_fields.cases) (auto simp: demo_nat_def Let_def)

definition demo_standing :: "int standing_ext" where
  "demo_standing = \<lparr> s_ext = demo_externals, s_low = to_ascii_lowercase, s_floats = demo_floats,
     mission_text = demo_mission_text, mission_read = demo_mission_read \<rparr>"

lemma demo_codec_ok: "mission_codec demo_standing"
proof -
  have "demo_mission_read (demo_mission_text m) = Some m" for m
    unfolding demo_mission_read_def demo_mission_text_def
    by (subst demo_fields_all) (simp_all add: demo_schedule_back demo_nat_def)
  then show ?thesis by (simp add: mission_codec_def demo_standing_def)
qed

lemma standing_store_bounded_witness:
  "case fold (standing_step demo_standing) [Establish None [] ''tidy'' (Daily 9 0), UserFact None [] ''a'' ''b''] [] of fs \<Rightarrow>
    length (mission_list demo_standing fs) \<le> 8 \<and> length (standing_rows fs) = length (mission_list demo_standing fs)
    \<and> list_all (standing_row demo_standing) (standing_rows fs) \<and> keys_distinct fs"
  by (rule standing_store_bounded [OF demo_codec_ok])

end
