(* ===== verification/StandingPropose.thy ===== *)
theory StandingPropose
  imports ChokeSafety StandingProofs
begin

text \<open>
  How a standing mission is established: the \<open>standing_create\<close> and \<open>standing_cancel\<close> tools of
  \<open>daemon/src/anthropic.rs\<close> on the mission store, and \<open>propose_standing_mission\<close>, the third place
  where a consequential action is gated, reached from the capability selector of the router.
\<close>

section \<open>The tools\<close>

definition NEED_GOAL :: string where
  "NEED_GOAL = ''I need a goal for the standing mission, sir.''"

definition established_text :: "'f standing_ext \<Rightarrow> 'f mission \<Rightarrow> string" where
  "established_text S m =
     ''Standing mission established: '' @ [CHR 0x22] @ ms_goal m @ [CHR 0x22] @ '' '' @ dash @ '' ''
     @ describe_schedule (s_floats S) (ms_schedule m) @ ''. '' @ SAVED_ID @ ms_id m
     @ apos ''). The standing-missions subsystem is on by default, so it will run on schedule; any consequential step it proposes goes through the same confirmation gate and per-action policy a direct request would '' []
     @ dash @ apos '' it parks for your spoken yes unless you'' ''ve granted that specific tool a standing always-allow, and it never acts more freely than you would.''"

definition standing_create_tool ::
    "'f standing_ext \<Rightarrow> scope option \<Rightarrow> string \<Rightarrow> string \<Rightarrow> string \<Rightarrow> action_mode \<Rightarrow> facts \<Rightarrow> facts \<times> string" where
  "standing_create_tool S turn ts goal schedule mode fs =
     (if trim goal = [] then (fs, NEED_GOAL)
      else let sched = parse_schedule (s_low S) (ualnum (s_ext S)) (s_floats S) schedule in
        if mode \<noteq> ModeExecute then (fs, establish_preview S goal sched)
        else case mission_create S turn ts goal sched fs of
          (fs', Inr m) \<Rightarrow> (fs', established_text S m)
        | (fs', Inl e) \<Rightarrow> (fs', apos ''I couldn'' ''t establish that standing mission: '' @ e))"

definition CANCELLED :: string where
  "CANCELLED = ''Cancelled standing mission ''"

definition standing_cancel_tool :: "string \<Rightarrow> facts \<Rightarrow> facts \<times> string" where
  "standing_cancel_tool i fs =
     (case mission_cancel i fs of
        (fs', True) \<Rightarrow> (fs', CANCELLED @ trim i @ ''.'')
      | (fs', False) \<Rightarrow> (fs', ''I have no standing mission with id '' @ trim i @ '' to cancel.''))"

section \<open>The proposal\<close>

definition standing_input :: "string \<Rightarrow> string \<Rightarrow> json" where
  "standing_input goal schedule =
     JObj [(''confirm'', JBool True), (''goal'', JStr goal), (''schedule'', JStr schedule)]"

definition propose_standing_mission ::
    "outside \<Rightarrow> 'f standing_ext \<Rightarrow> string \<Rightarrow> string \<Rightarrow> string list \<Rightarrow> world \<Rightarrow> world \<times> string \<times> bool" where
  "propose_standing_mission X S utterance ns allowed w =
     (let goal = trim utterance; tn = ''standing_create'' in
      if goal = [] then (w, NEED_GOAL, False)
      else if \<not> allow_consequential (current_turn_gate (w_gate w)) then (w, unrecognized_refusal, False)
      else
      let sched = parse_schedule (s_low S) (ualnum (s_ext S)) (s_floats S) utterance;
          pv = establish_preview S goal sched;
          inp = standing_input goal (describe_schedule (s_floats S) sched);
          master_on = consequential_allowed w;
          dec = evaluate_global (w_policy w) tn ns pv in
      if dec = Never then
        (audit_row X ns tn pv Never BlockedByPolicy w, policy_never_refusal ''establish that standing mission'' pv, False)
      else if dec = Always \<and> master_on then
        (let w1 = audit_row X ns tn pv Always AutoApprovedByPolicy w;
             (w2, out, err) = dispatch_tool X tn inp ns True w1;
             w3 = audit_row X ns tn pv Always (if err then DryRun else Executed) w2;
             w4 = journal_row X ns tn inp pv out allowed (\<not> err \<and> consequential_allowed w3) ''policy'' w3
         in (w4, out, False))
      else
        (let w1 = (if dec = Always then audit_row X ns tn pv Always AlwaysInertMasterOff w else w) in
         if \<not> master_on then (audit_row X ns tn pv Ask DryRun w1, pv, False)
         else
           (let pl = compute_plan X tn inp True w1;
                (w2, prompt) = park X True (park_record X ns tn inp allowed pv pl) w1
            in (audit_row X ns tn pv Ask Parked w2, prompt, True))))"

section \<open>Nothing is established before a yes\<close>

lemma standing_tool_facts:
  "is_consequential_tool ''standing_create''" "\<not> is_mcp_flat_name ''standing_create''"
  "\<not> starts_with ''app__'' ''standing_create''" "''standing_create'' \<noteq> ''skill_invoke''" "''standing_create'' \<noteq> ''forge_app''"
  by code_simp+

lemma propose_cases:
  assumes "propose_standing_mission X S u ns al w = (w', out, armed)"
  obtains (quiet) "w_calls w' = w_calls w"
  | (fired) w1 w2 e pv inp where "trim u \<noteq> []" "allow_consequential (current_turn_gate (w_gate w))" "consequential_allowed w"
      "pv = establish_preview S (trim u) (parse_schedule (s_low S) (ualnum (s_ext S)) (s_floats S) u)"
      "evaluate_global (w_policy w) ''standing_create'' ns pv = Always"
      "inp = standing_input (trim u) (describe_schedule (s_floats S)
         (parse_schedule (s_low S) (ualnum (s_ext S)) (s_floats S) u))"
      "w1 = audit_row X ns ''standing_create'' pv Always AutoApprovedByPolicy w"
      "dispatch_tool X ''standing_create'' inp ns True w1 = (w2, out, e)" "w_calls w' = w_calls w2" "\<not> armed"
proof -
  let ?sched = "parse_schedule (s_low S) (ualnum (s_ext S)) (s_floats S) u"
  let ?pv = "establish_preview S (trim u) ?sched"
  let ?inp = "standing_input (trim u) (describe_schedule (s_floats S) ?sched)"
  let ?w1 = "audit_row X ns ''standing_create'' ?pv Always AutoApprovedByPolicy w"
  let ?dec = "evaluate_global (w_policy w) ''standing_create'' ns ?pv"
  obtain w2 out2 e where d: "dispatch_tool X ''standing_create'' ?inp ns True ?w1 = (w2, out2, e)" by (metis prod_cases3)
  note u = assms [unfolded propose_standing_mission_def Let_def d prod.case]
  show ?thesis
  proof (cases "trim u \<noteq> [] \<and> allow_consequential (current_turn_gate (w_gate w)) \<and> ?dec = Always \<and> consequential_allowed w")
    case False
    then have "w_calls w' = w_calls w" using u by (auto split: if_splits prod.splits dest: park_frame)
    then show ?thesis by (rule quiet)
  next
    case True
    then have f: "w_calls w' = w_calls w2" "\<not> armed" "out = out2" using u by auto
    show ?thesis by (rule fired [OF _ _ _ refl _ refl refl d [folded f(3)] f(1,2)]) (use True in auto)
  qed
qed

text \<open>
  C27. The proposal path is gated like a tool call. A spoken request for a recurring mission makes at
  most one call, and only if the voice gate admits the speaker, the switch is on, no stop is engaged
  and the policy answers always for the very preview of the request: the trimmed utterance (shortened
  where the preview shortens it) on the schedule read out of it. That call is \<open>standing_create\<close> with
  the confirm flag, the whole trimmed utterance as its goal and, as its schedule, the words that
  describe the schedule the preview showed (which the tool reads again); and then nothing is left
  armed. In every other case no call is made at all.
\<close>
theorem proposal_fires_only_authorised:
  assumes "propose_standing_mission X S u ns al w = (w', out, armed)"
  shows "let sched = parse_schedule (s_low S) (ualnum (s_ext S)) (s_floats S) u;
             pv = establish_preview S (trim u) sched
    in case new_calls w w' of
      [] \<Rightarrow> True
    | [c] \<Rightarrow> trim u \<noteq> [] \<and> allow_consequential (current_turn_gate (w_gate w)) \<and> consequential_allowed w \<and> \<not> armed
        \<and> evaluate_global (w_policy w) ''standing_create'' ns pv = Always
        \<and> (\<exists>mode. c = Gated ''standing_create'' (standing_input (trim u) (describe_schedule (s_floats S) sched)) mode)
    | _ \<Rightarrow> False"
  using assms
proof (cases rule: propose_cases)
  case quiet
  then show ?thesis by (simp add: new_calls_def)
next
  case (fired w1 w2 e pv inp)
  have w1: "w_calls w1 = w_calls w" using fired(7) by simp
  have "w_calls w2 = w_calls w1 \<or> (\<exists>mode. w_calls w2 = w_calls w1 @ [Gated ''standing_create'' inp mode])"
    using fired(8) standing_tool_facts
    by (auto simp: dispatch_tool_def gated_dispatch_def Let_def log_call_def split: option.splits)
  then consider "new_calls w w' = []" | mode where "new_calls w w' = [Gated ''standing_create'' inp mode]"
    using fired(9) w1 by (auto simp: new_calls_def)
  then show ?thesis using fired by cases (simp_all add: Let_def)
qed

definition demo_granted :: world where
  "demo_granted = demo_world\<lparr> w_policy := always_for ''standing_create'' \<rparr>"

lemma proposal_fires_only_authorised_witness:
  "case propose_standing_mission demo_outside demo_standing ''tidy up daily'' ''agent.darwin'' [''*''] demo_granted of
     (w', out, armed) \<Rightarrow> (case new_calls demo_granted w' of
        [c] \<Rightarrow> consequential_allowed demo_granted \<and> \<not> armed \<and> (\<exists>i mode. c = Gated ''standing_create'' i mode)
      | _ \<Rightarrow> False)"
proof -
  let ?u = "''tidy up daily''"
  obtain w' out armed where r: "propose_standing_mission demo_outside demo_standing ?u ''agent.darwin'' [''*''] demo_granted
      = (w', out, armed)" by (metis prod_cases3)
  have trim: "trim ?u = ?u" by (simp add: str_simps trim_list_def)
  have never: "\<not> is_never_auto_approve ''standing_create''" by code_simp
  have always: "evaluate_global (w_policy demo_granted) ''standing_create'' a pv = Always" for a pv
    using never by (simp add: demo_granted_def always_for_def evaluate_global_def evaluate_local_global_def harden_global_def
        evaluate_def store_rules_def scope_matches_def tool_scope_def)
  have m: "consequential_allowed demo_granted" "allow_consequential (current_turn_gate (w_gate demo_granted))"
    "is_locked_down (w_stop demo_granted) = False"
    by (simp_all add: demo_granted_def consequential_allowed_def demo_world_def is_locked_down_def boot_state_def
        allow_consequential_def current_turn_gate_def OFF_GATE_def)
  have "new_calls demo_granted w' \<noteq> []"
    using r standing_tool_facts trim always m
    by (auto simp: propose_standing_mission_def Let_def dispatch_tool_def gated_dispatch_def demo_outside_def demo_reader_def
        standing_input_def racing_def new_calls_def)
  then obtain c cs where c: "new_calls demo_granted w' = c # cs" by (cases "new_calls demo_granted w'") auto
  show ?thesis
    using proposal_fires_only_authorised [OF r] unfolding r prod.case c Let_def by (cases cs) auto
qed

end
