(* ===== verification/StandingUndo.thy ===== *)
theory StandingUndo
  imports StandingPropose
begin

text \<open>
  A standing mission from its proposal to its undo: what a yes to the spoken preview saves, what the
  undo journal reads out of the tool's answer (\<open>daemon/src/journal.rs\<close>), and what the cancellation
  it derives removes. The arms of \<open>dispatch_tool\<close> that decode the arguments are here too.
\<close>

section \<open>The dispatch arms\<close>

text \<open>
  \<open>serde_json::from_value\<close> of the derived argument structs: an object by its field names, others
  ignored, or an array by position; \<open>confirm\<close> defaults to false.
\<close>

definition standing_create_args :: "json \<Rightarrow> (string \<times> string \<times> bool) option" where
  "standing_create_args input =
     (case input of
        JObj m \<Rightarrow>
          (case (map_of m ''goal'', map_of m ''schedule'', map_of m ''confirm'') of
             (Some (JStr g), Some (JStr s), None) \<Rightarrow> Some (g, s, False)
           | (Some (JStr g), Some (JStr s), Some (JBool c)) \<Rightarrow> Some (g, s, c)
           | _ \<Rightarrow> None)
      | JArr [JStr g, JStr s] \<Rightarrow> Some (g, s, False)
      | JArr [JStr g, JStr s, JBool c] \<Rightarrow> Some (g, s, c)
      | _ \<Rightarrow> None)"

definition standing_cancel_args :: "json \<Rightarrow> string option" where
  "standing_cancel_args input =
     (case input of
        JObj m \<Rightarrow> (case map_of m ''id'' of Some (JStr i) \<Rightarrow> Some i | _ \<Rightarrow> None)
      | JArr [JStr i] \<Rightarrow> Some i
      | _ \<Rightarrow> None)"

text \<open>The text of a decoding error is not modelled; it is \<open>None\<close>.\<close>

definition standing_create_call ::
    "'f standing_ext \<Rightarrow> scope option \<Rightarrow> string \<Rightarrow> json \<Rightarrow> world \<Rightarrow> facts \<Rightarrow> facts \<times> string option" where
  "standing_create_call S turn ts input w fs =
     (case standing_create_args input of
        None \<Rightarrow> (fs, None)
      | Some (goal, schedule, confirm) \<Rightarrow>
          map_prod id Some (standing_create_tool S turn ts goal schedule (gate w confirm) fs))"

definition standing_cancel_call :: "json \<Rightarrow> facts \<Rightarrow> facts \<times> string option" where
  "standing_cancel_call input fs =
     (case standing_cancel_args input of
        None \<Rightarrow> (fs, None)
      | Some i \<Rightarrow> map_prod id Some (standing_cancel_tool i fs))"

section \<open>What a yes establishes\<close>

lemma propose_parks:
  assumes "propose_standing_mission X S u ns al w = (w', prompt, True)"
  shows "\<exists>p. slot (stop_confirm (w_stop w')) = Some p \<and> p_tool p = ''standing_create'' \<and> p_allowed p = al
    \<and> p_preview p = establish_preview S (trim u) (parse_schedule (s_low S) (ualnum (s_ext S)) (s_floats S) u)
    \<and> p_input p = standing_input (trim u) (describe_schedule (s_floats S)
         (parse_schedule (s_low S) (ualnum (s_ext S)) (s_floats S) u))
    \<and> prompt = confirmation_prompt (p_preview p) \<and> trim u \<noteq> []"
  using assms
  by (auto simp: propose_standing_mission_def Let_def park_def park_ctx_def park_inner_def park_record_def set_confirm_def
      audit_row_def split: if_splits prod.splits)

definition standing_outcome :: "'f standing_ext \<Rightarrow> facts \<times> (string + 'f mission) \<Rightarrow> facts \<times> string" where
  "standing_outcome S r =
     (case r of (fs, Inr m) \<Rightarrow> (fs, established_text S m)
      | (fs, Inl e) \<Rightarrow> (fs, apos ''I couldn'' ''t establish that standing mission: '' @ e))"

text \<open>
  What a yes establishes. After a proposal was parked, the parked input run with the switch on
  establishes a mission with the goal that was spoken in the preview, under the schedule of the
  preview if that is a daily, signal or tripwire one. If it is an interval, the mission that is
  saved runs daily at nine instead.
\<close>
theorem approved_mission_is_the_previewed_one:
  assumes "propose_standing_mission X S u ns al w = (w', prompt, True)"
    and "sched = parse_schedule (s_low S) (ualnum (s_ext S)) (s_floats S) u"
    and "lowers_ascii (s_low S)" and "describable (s_floats S) sched" and "consequential_allowed v"
  shows "\<exists>p. slot (stop_confirm (w_stop w')) = Some p \<and> p_preview p = establish_preview S (trim u) sched
    \<and> standing_create_call S turn ts (force_confirm (p_input p) True) v fs =
        map_prod id Some (standing_outcome S (mission_create S turn ts (trim u)
          (case sched of Interval _ \<Rightarrow> Daily 9 0 | _ \<Rightarrow> sched) fs))"
proof -
  let ?d = "describe_schedule (s_floats S) sched"
  obtain p where p: "slot (stop_confirm (w_stop w')) = Some p" "p_preview p = establish_preview S (trim u) sched"
      "p_input p = standing_input (trim u) ?d" "trim u \<noteq> []"
    using propose_parks [OF assms(1)] assms(2) by auto
  have "standing_create_args (force_confirm (p_input p) True) = Some (trim u, ?d, True)"
    unfolding p(3) by (simp add: standing_input_def force_confirm_def standing_create_args_def)
  moreover have "gate v True = ModeExecute" using assms(5) by (simp add: gate_def)
  moreover have "parse_schedule (s_low S) (ualnum (s_ext S)) (s_floats S) ?d
      = (case sched of Interval _ \<Rightarrow> Daily 9 0 | _ \<Rightarrow> sched)"
    by (rule described_back [OF assms(3,4)])
  moreover have "trim (trim u) \<noteq> []" by (rule trim_twice_not_Nil [OF p(4)])
  ultimately have "standing_create_call S turn ts (force_confirm (p_input p) True) v fs =
      map_prod id Some (standing_outcome S (mission_create S turn ts (trim u)
        (case sched of Interval _ \<Rightarrow> Daily 9 0 | _ \<Rightarrow> sched) fs))"
    by (simp add: standing_create_call_def standing_create_tool_def standing_outcome_def Let_def)
  then show ?thesis using p by blast
qed

lemma demo_interval:
  "parse_schedule to_ascii_lowercase ua F ''every 6 hours tidy'' = Interval 21600" "trim ''every 6 hours tidy'' = ''every 6 hours tidy''"
  by (simp_all add: parse_schedule_def Let_def str_simps trim_list_def to_ascii_lowercase_def parse_condition_def
      starts_with_def first_number_def strip_prefix_def parse_interval_def split_whitespace_def split_on.simps
      is_whitespace_byte ascii_ws_def parse_unsigned_def parse_nat_def clamp_interval_def MIN_INTERVAL_SECS_def sat64_def is_ascii_def)

text \<open>
  A time of day can be taken for a threshold. A request whose cadence is a time of day but whose
  text speaks of meetings is read as a calendar tripwire on the number of the hour.
\<close>
theorem morning_meetings_become_a_tripwire:
  assumes "parse_f64 F ''7'' = Some x"
  shows "parse_schedule to_ascii_lowercase ua F ''every morning at 7 sum up my meetings''
    = Tripwire (CalendarWithinMinutes (f_as_i64 F (f_max F x (f_const F 0))))"
  using assms
  by (simp add: parse_schedule_def Let_def str_simps trim_list_def to_ascii_lowercase_def parse_condition_def
      starts_with_def first_number_def is_whitespace_byte ascii_ws_def is_ascii_def)

lemma morning_meetings_become_a_tripwire_witness:
  "parse_schedule to_ascii_lowercase (\<lambda>_. False) demo_floats ''every morning at 7 sum up my meetings''
    = Tripwire (CalendarWithinMinutes 7)"
proof -
  have "parse_f64 demo_floats ''7'' = Some 7"
    by (simp add: demo_floats_def parse_nat_def ascii_digit_def)
  then show ?thesis
    using morning_meetings_become_a_tripwire [of demo_floats 7 "\<lambda>_. False"] by (simp add: demo_floats_def)
qed

lemma demo_asks: "evaluate_global (w_policy demo_world) tn a pv = Ask"
  by (simp add: demo_world_def demo_layer_def evaluate_global_def evaluate_local_global_def harden_global_def
      evaluate_def store_rules_def empty_store_def)

lemma approved_mission_is_the_previewed_one_witness:
  "case propose_standing_mission demo_outside demo_standing ''every 6 hours tidy'' ''agent.darwin'' [''*''] demo_world of
     (w', prompt, armed) \<Rightarrow> armed
     \<and> (\<exists>p. slot (stop_confirm (w_stop w')) = Some p
          \<and> p_preview p = establish_preview demo_standing ''every 6 hours tidy'' (Interval 21600)
          \<and> standing_create_call demo_standing None ''t'' (force_confirm (p_input p) True) demo_world [] =
              map_prod id Some (standing_outcome demo_standing
                (mission_create demo_standing None ''t'' ''every 6 hours tidy'' (Daily 9 0) [])))"
proof -
  let ?u = "''every 6 hours tidy''"
  obtain w' prompt armed where r: "propose_standing_mission demo_outside demo_standing ?u ''agent.darwin'' [''*''] demo_world
      = (w', prompt, armed)" by (metis prod_cases3)
  have m: "consequential_allowed demo_world" "allow_consequential (current_turn_gate (w_gate demo_world))"
    by (simp_all add: consequential_allowed_def demo_world_def is_locked_down_def boot_state_def
        allow_consequential_def current_turn_gate_def OFF_GATE_def)
  have low: "s_low demo_standing = to_ascii_lowercase" by (simp add: demo_standing_def)
  have armed using r m demo_interval demo_asks
    by (auto simp: propose_standing_mission_def Let_def split: prod.splits)
  with r have "propose_standing_mission demo_outside demo_standing ?u ''agent.darwin'' [''*''] demo_world = (w', prompt, True)"
    by simp
  from approved_mission_is_the_previewed_one [OF this, of "Interval 21600" demo_world None "''t''" "[]"]
  show ?thesis using m lowers_ascii_ascii \<open>armed\<close> by (simp add: r low demo_interval describable_def)
qed

section \<open>Finding a marker in a text\<close>

lemma starts_with_take: "starts_with p s \<longleftrightarrow> take (length p) s = p"
  by (auto simp: starts_with_iff) (metis append_take_drop_id)

text \<open>A marker whose first character does not occur in it again is found at its first occurrence.\<close>

lemma split_once_first:
  assumes "c \<notin> set p" and "\<not> str_contains a (c # p)"
  shows "split_once (c # p) (a @ (c # p) @ b) = Some (a, b)"
  using assms(2)
proof (induction a)
  case Nil
  then show ?case by (simp add: starts_with_iff)
next
  case (Cons x a)
  have "\<not> starts_with (c # p) (x # a @ (c # p) @ b)"
  proof
    assume s: "starts_with (c # p) (x # a @ (c # p) @ b)"
    then have tk: "take (length (c # p)) ((x # a) @ (c # p) @ b) = c # p" by (simp add: starts_with_take)
    show False
    proof (cases "length (c # p) \<le> length (x # a)")
      case True
      then have "starts_with (c # p) (x # a)" using tk by (simp add: starts_with_take)
      then show False using Cons.prems by simp
    next
      case False
      then have "length (x # a) < length (c # p)" by simp
      then have "(c # p) ! length (x # a) = ((x # a) @ (c # p) @ b) ! length (x # a)"
        using tk by (metis nth_take)
      also have "\<dots> = c" by (simp add: nth_append)
      finally have "p ! length a = c" by simp
      moreover have "length a < length p" using False by simp
      ultimately show False using assms(1) nth_mem by metis
    qed
  qed
  then show ?case using Cons by simp
qed

lemma contains_sep:
  assumes "d \<notin> set p" and "p \<noteq> []"
  shows "str_contains (x @ d # y) p \<longleftrightarrow> str_contains x p \<or> str_contains y p"
proof (induction x)
  case Nil
  then show ?case using assms by (cases p) (auto simp: starts_with_def)
next
  case (Cons e x)
  have "starts_with p (e # x @ d # y) \<longleftrightarrow> starts_with p (e # x)"
  proof (cases "length p \<le> length (e # x)")
    case True
    then have "take (length p) ((e # x) @ d # y) = take (length p) (e # x)"
      by (simp only: take_append) simp
    then show ?thesis by (simp add: starts_with_take)
  next
    case False
    then have "take (length p) (e # x @ d # y) = e # x @ d # take (length p - Suc (Suc (length x))) y"
      by (cases "length p") (auto simp: take_Cons' not_le split: if_splits)
    moreover have "take (length p) (e # x) \<noteq> p" using False by auto
    ultimately show ?thesis using assms(1) by (metis starts_with_take in_set_conv_decomp append_Cons)
  qed
  then show ?case using Cons by simp
qed

lemma before_match_skip: "c \<notin> set xs \<Longrightarrow> before_match (c # p) (xs @ ys) = xs @ before_match (c # p) ys"
  by (induction xs) (auto simp: starts_with_def)

lemma before_match_cut: "before_match p (x @ p @ b) = before_match p (x @ p @ b')"
proof (cases "p = []")
  case True
  then show ?thesis by (cases "x @ b"; cases "x @ b'") (auto simp: starts_with_def)
next
  case False
  show ?thesis
  proof (induction x)
    case Nil
    show ?case using False by (cases p) (auto simp: starts_with_take)
  next
    case (Cons e x)
    have "starts_with p (e # x @ p @ b) \<longleftrightarrow> starts_with p (e # x @ p @ b')"
      by (simp add: starts_with_take take_Cons' split: if_splits)
    then show ?case using Cons by simp
  qed
qed

section \<open>What an undo removes\<close>

text \<open>What is relied on of \<open>sha2\<close> and \<open>hex\<close>: a digest is not empty and is printed in hexadecimal digits.\<close>

definition hex_ok :: "externals \<Rightarrow> bool" where
  "hex_ok E \<longleftrightarrow> (\<forall>s. sha256 E s \<noteq> [] \<and> (s \<noteq> [] \<longrightarrow> hex E s \<noteq> [] \<and> list_all ascii_hexdigit (hex E s)))"

lemma hexdigit_facts: "ascii_hexdigit c \<Longrightarrow> c \<noteq> CHR ''I'' \<and> is_ascii c \<and> \<not> ascii_ws c \<and> c \<noteq> CHR '')''"
  by (auto simp: ascii_hexdigit_def ascii_digit_def is_ascii_def ascii_ws_def)

lemma derived_id_hex:
  assumes "hex_ok (s_ext S)"
  shows "derive_id S g sched \<noteq> []" "list_all ascii_hexdigit (derive_id S g sched)"
    "trim (derive_id S g sched) = derive_id S g sched"
proof -
  have "take 6 (sha256 (s_ext S) s) \<noteq> []" for s using assms by (auto simp: hex_ok_def)
  then show i: "derive_id S g sched \<noteq> []" "list_all ascii_hexdigit (derive_id S g sched)"
    using assms by (auto simp: derive_id_def hex_ok_def)
  have "trim (derive_id S g sched) = trim_list ascii_ws (derive_id S g sched)"
    by (rule trim_ascii) (use i(2) hexdigit_facts in \<open>auto simp: ascii_string_def list_all_iff\<close>)
  also have "\<dots> = derive_id S g sched"
    by (rule trim_list_id) (use i hexdigit_facts in \<open>auto simp: list_all_iff\<close>)
  finally show "trim (derive_id S g sched) = derive_id S g sched" .
qed

lemma SAVED_ID_eq: "SAVED_ID = CHR ''I'' # tl SAVED_ID" "CHR ''I'' \<notin> set (tl SAVED_ID)" "CHR 0x22 \<notin> set SAVED_ID" "SAVED_ID \<noteq> []"
  by (simp_all add: SAVED_ID_def)

lemma extract_first:
  assumes "\<not> str_contains a SAVED_ID" and "i \<noteq> []" and "list_all ascii_hexdigit i"
  shows "extract_standing_id (a @ SAVED_ID @ i @ '')'' @ b) = Some i"
proof -
  have "split_once SAVED_ID (a @ SAVED_ID @ i @ '')'' @ b) = Some (a, i @ '')'' @ b)"
    using split_once_first [of "CHR ''I''" "tl SAVED_ID" a "i @ '')'' @ b"] assms(1) SAVED_ID_eq by metis
  moreover have "before_match SAVED_ID (i @ '')'' @ b) = i @ CHR '')'' # before_match SAVED_ID b"
  proof -
    have "CHR ''I'' \<notin> set (i @ '')'')" using assms(3) hexdigit_facts by (auto simp: list_all_iff)
    then show ?thesis
      using before_match_skip [of "CHR ''I''" "i @ '')''" "tl SAVED_ID" b] SAVED_ID_eq(1) by simp
  qed
  moreover have "takeWhile ascii_hexdigit (i @ CHR '')'' # c) = i" for c
    using assms(3) by (simp add: takeWhile_append2 list_all_iff ascii_hexdigit_def ascii_digit_def)
  ultimately show ?thesis using assms(2) by (simp add: extract_standing_id_def starts_with_def)
qed

lemma describe_no_I:
  assumes "describable F s"
  shows "CHR ''I'' \<notin> set (describe_schedule F s)"
proof -
  have digits: "CHR ''I'' \<notin> set (nat_digits n)" "CHR ''I'' \<notin> set (pad2 n)" for n
    using nat_digits_list [of n] pad2_digits [of n] by (auto simp: list_all_iff ascii_digit_def)
  have name: "signal_name sig \<Longrightarrow> CHR ''I'' \<notin> set sig" for sig
    by (auto simp: signal_name_def list_all_iff ascii_lower_def)
  have shown: "reads_back F ds ok \<Longrightarrow> CHR ''I'' \<notin> set ds" for ds ok
    by (auto simp: reads_back_def list_all_iff ascii_digit_def)
  show ?thesis
  proof (cases s)
    case (Tripwire c)
    then show ?thesis
      using assms by (cases c) (auto simp: describable_def readable_def describe_schedule_def describe_condition_def digits dest: shown)
  qed (use assms in \<open>auto simp: describe_schedule_def digits describable_def dest: name\<close>)
qed


text \<open>The answer of a successful creation, cut at the mark of the saved id.\<close>

definition answer_head :: "'f standing_ext \<Rightarrow> 'f mission \<Rightarrow> string" where
  "answer_head S m = ''Standing mission established: '' @ [CHR 0x22] @ ms_goal m @ [CHR 0x22] @ '' '' @ dash @ '' ''
     @ describe_schedule (s_floats S) (ms_schedule m) @ ''. ''"

lemma answer_cut: "\<exists>b. established_text S m = answer_head S m @ SAVED_ID @ ms_id m @ '')'' @ b"
  by (simp add: established_text_def answer_head_def apos_def)

lemma answer_head_clean:
  assumes "describable (s_floats S) (ms_schedule m)" and "\<not> str_contains (ms_goal m) SAVED_ID"
  shows "\<not> str_contains (answer_head S m) SAVED_ID"
proof -
  let ?p = "SAVED_ID" and ?d = "describe_schedule (s_floats S) (ms_schedule m)"
  have "CHR ''I'' \<notin> set ('' '' @ dash @ '' '' @ ?d @ ''. '')"
    using describe_no_I [OF assms(1)] by (simp add: dash_def)
  then have tail: "\<not> str_contains ('' '' @ dash @ '' '' @ ?d @ ''. '') ?p"
    using contains_set [of _ ?p] SAVED_ID_eq(1) by (metis list.set_intros(1) subsetD)
  have "answer_head S m = ''Standing mission established: '' @ CHR 0x22 # (ms_goal m @ CHR 0x22 # ('' '' @ dash @ '' '' @ ?d @ ''. ''))"
    by (simp add: answer_head_def)
  then show ?thesis
    using tail assms(2) contains_sep [OF SAVED_ID_eq(3,4)] by (simp add: SAVED_ID_def starts_with_def)
qed

lemma saved_row: "\<not> guest_write_blocked turn \<Longrightarrow> list_ex (\<lambda>f. f_key f = k) (upsert_fact_at turn k v ts fs)"
proof -
  have ex: "list_ex (\<lambda>f. f_key f = k) gs \<longleftrightarrow> k \<in> set (map f_key gs)" for gs by (auto simp: list_ex_iff)
  show "\<not> guest_write_blocked turn \<Longrightarrow> ?thesis" unfolding ex keys_upsert by simp
qed

lemma delete_after_upsert:
  "\<not> guest_write_blocked turn \<Longrightarrow>
     delete_fact k (upsert_fact_at turn k v ts fs) = (filter (\<lambda>f. f_key f \<noteq> k) fs, True)"
proof -
  have "filter (\<lambda>f. f_key f \<noteq> k) (map (\<lambda>f. if f_key f = k then f\<lparr> f_value := v, f_ts := ts \<rparr> else f) fs)
      = filter (\<lambda>f. f_key f \<noteq> k) fs" by (induction fs) auto
  moreover assume "\<not> guest_write_blocked turn"
  ultimately show ?thesis using saved_row [of turn k v ts fs]
    by (simp add: delete_fact_def) (simp add: upsert_fact_at_def Let_def)
qed

lemma create_result:
  assumes "mission_create S turn ts goal sched fs = (fs', Inr m)"
  shows "m = new_mission S goal sched" "fs' = mission_save S turn ts m fs"
  using assms by (auto simp: mission_create_def Let_def split: if_splits)

text \<open>
  Undoing an established mission. If the goal does not imitate the answer's own mark, the undo
  derived from the answer of a creation is the cancellation of exactly the mission that was saved:
  run on the store it leaves every other row as it was before the creation, and it reports success.
\<close>
theorem undo_cancels_the_created_mission:
  assumes "hex_ok (s_ext S)" and "describable (s_floats S) sched" and "\<not> guest_write_blocked turn"
    and "\<not> str_contains (bound_goal goal) SAVED_ID"
    and "mission_create S turn ts goal sched fs = (fs', Inr m)"
  shows "\<exists>j reply. derive_inverse ''standing_create'' input (established_text S m) = InvReady ''standing_cancel'' j []
    \<and> standing_cancel_call j fs' = (filter (\<lambda>f. f_key f \<noteq> mission_key (ms_id m)) fs, Some reply)
    \<and> inverse_confirmed ''standing_cancel'' reply"
proof -
  have m: "ms_goal m = bound_goal goal" "ms_schedule m = sched" "ms_id m = derive_id S (bound_goal goal) sched"
    using create_result(1) [OF assms(5)] by (simp_all add: new_mission_def Let_def)
  note i = derived_id_hex [OF assms(1), of "bound_goal goal" sched, folded m(3)]
  obtain b where b: "established_text S m = answer_head S m @ SAVED_ID @ ms_id m @ '')'' @ b" using answer_cut by blast
  have "extract_standing_id (established_text S m) = Some (ms_id m)"
    unfolding b using answer_head_clean [of S m] assms(2,4) m i by (intro extract_first) simp_all
  then have "derive_inverse ''standing_create'' input (established_text S m)
      = InvReady ''standing_cancel'' (JObj [(''id'', JStr (ms_id m))]) []" by (simp add: derive_inverse_def)
  moreover have "standing_cancel_call (JObj [(''id'', JStr (ms_id m))]) fs'
      = (filter (\<lambda>f. f_key f \<noteq> mission_key (ms_id m)) fs, Some (CANCELLED @ ms_id m @ ''.''))"
    using create_result(2) [OF assms(5)] i(3) assms(3)
    by (simp add: standing_cancel_call_def standing_cancel_args_def standing_cancel_tool_def mission_cancel_def mission_save_def
        delete_after_upsert)
  moreover have "inverse_confirmed ''standing_cancel'' (CANCELLED @ r)" for r
    by (simp add: inverse_confirmed_def CANCELLED_def trim_start_def chars_eval is_ascii_def is_whitespace_byte ascii_ws_def starts_with_def)
  ultimately show ?thesis by blast
qed

definition demo_hex :: "int standing_ext" where
  "demo_hex = demo_standing\<lparr> s_ext := demo_externals\<lparr> sha256 := (\<lambda>_. ''x''), hex := (\<lambda>_. ''c0de'') \<rparr> \<rparr>"

lemma demo_hex_ok: "hex_ok (s_ext demo_hex)"
  by (simp add: hex_ok_def demo_hex_def ascii_hexdigit_def ascii_digit_def)

lemma demo_goal: "bound_goal ''tidy'' = ''tidy''"
  by (simp add: bound_goal_def MAX_GOAL_LEN_def str_simps trim_list_def)

lemma undo_cancels_the_created_mission_witness:
  "case mission_create demo_hex None ''t'' ''tidy'' (Daily 9 0) [] of
     (fs', Inr m) \<Rightarrow> fs' \<noteq> [] \<and> (\<exists>j reply. derive_inverse ''standing_create'' JNull (established_text demo_hex m)
         = InvReady ''standing_cancel'' j []
       \<and> standing_cancel_call j fs' = ([], Some reply) \<and> inverse_confirmed ''standing_cancel'' reply)
   | _ \<Rightarrow> False"
proof -
  obtain fs' m where r: "mission_create demo_hex None ''t'' ''tidy'' (Daily 9 0) [] = (fs', Inr m)" "fs' \<noteq> []"
    by (simp add: mission_create_def Let_def mission_list_def recall_facts_limited_def newest_first_def MAX_ACTIVE_def
        mission_save_def upsert_fact_at_def guest_write_blocked_def is_guest_turn_def)
  have "describable (s_floats demo_hex) (Daily 9 0)" "\<not> guest_write_blocked None"
    "\<not> str_contains (bound_goal ''tidy'') SAVED_ID"
    by (simp_all add: describable_def guest_write_blocked_def is_guest_turn_def demo_goal SAVED_ID_def starts_with_def)
  from undo_cancels_the_created_mission [OF demo_hex_ok this r(1), of JNull] show ?thesis by (simp add: r)
qed

text \<open>
  A goal that imitates the answer redirects the undo. If the text of the goal contains the mark
  of the saved id with an id of its own, the undo of this creation cancels the mission with that id
  and the new mission stays.
\<close>
theorem goal_text_redirects_undo:
  assumes "mission_create S turn ts goal sched fs = (fs', Inr m)"
    and "bound_goal goal = a @ SAVED_ID @ i @ '')'' @ b" and "\<not> str_contains a SAVED_ID"
    and "i \<noteq> []" and "list_all ascii_hexdigit i"
  shows "derive_inverse ''standing_create'' input (established_text S m)
    = InvReady ''standing_cancel'' (JObj [(''id'', JStr i)]) []"
proof -
  have g: "ms_goal m = a @ SAVED_ID @ i @ '')'' @ b"
    using create_result(1) [OF assms(1)] assms(2) by (simp add: new_mission_def Let_def)
  let ?a = "''Standing mission established: '' @ CHR 0x22 # a"
  have "\<not> str_contains ?a SAVED_ID"
    using assms(3) contains_sep [OF SAVED_ID_eq(3,4), of "''Standing mission established: ''" a]
    by (simp add: SAVED_ID_def starts_with_def)
  moreover have "\<exists>r. established_text S m = ?a @ SAVED_ID @ i @ '')'' @ r"
    by (simp add: established_text_def g apos_def)
  ultimately have "extract_standing_id (established_text S m) = Some i"
    using extract_first [OF _ assms(4,5)] by metis
  then show ?thesis by (simp add: derive_inverse_def)
qed

definition demo_lure :: string where
  "demo_lure = ''tidy '' @ SAVED_ID @ ''c0ffee'' @ '')''"

lemma goal_text_redirects_undo_witness:
  "case mission_create demo_hex None ''t'' demo_lure (Daily 9 0) [] of
     (fs', Inr m) \<Rightarrow> ms_id m = ''c0de'' \<and> derive_inverse ''standing_create'' JNull (established_text demo_hex m)
         = InvReady ''standing_cancel'' (JObj [(''id'', JStr ''c0ffee'')]) []
   | _ \<Rightarrow> False"
proof -
  obtain fs' m where r: "mission_create demo_hex None ''t'' demo_lure (Daily 9 0) [] = (fs', Inr m)"
    by (simp add: mission_create_def Let_def mission_list_def recall_facts_limited_def newest_first_def MAX_ACTIVE_def)
  have g: "bound_goal demo_lure = ''tidy '' @ SAVED_ID @ ''c0ffee'' @ '')'' @ []"
    by (simp add: demo_lure_def bound_goal_def MAX_GOAL_LEN_def str_simps trim_list_def SAVED_ID_def)
  have "ms_id m = ''c0de''" using create_result(1) [OF r] by (simp add: new_mission_def Let_def derive_id_def demo_hex_def)
  moreover have "\<not> str_contains ''tidy '' SAVED_ID" by (simp add: SAVED_ID_def starts_with_def)
  moreover have "list_all ascii_hexdigit ''c0ffee''" by (simp add: ascii_hexdigit_def ascii_digit_def)
  ultimately show ?thesis using goal_text_redirects_undo [OF r g, of JNull] by (simp add: r)
qed

text \<open>
  A goal that imitates the end of the preview hides the schedule. If the goal contains the words
  at which the spoken prompt is cut, the prompt is the same whatever schedule is to be established.
\<close>
theorem goal_text_hides_schedule:
  assumes "bound_goal goal = a @ '' Enable consequential actions'' @ b"
  shows "confirmation_prompt (establish_preview S goal sched) = confirmation_prompt (establish_preview S goal sched')"
proof -
  let ?mark = "'' Enable consequential actions''" and ?pre = "''I'' @ [CHR 0x27] @ ''ll set up a STANDING MISSION to '' @ a"
  have pv: "\<exists>r. establish_preview S goal s = ''[dry run] '' @ (?pre @ ?mark @ r)" for s
    using assms by (simp add: establish_preview_def)
  have "strip_prefix ''[dry run] '' (''[dry run] '' @ x) = Some x" for x
    by (simp add: strip_prefix_def starts_with_def)
  then have "\<exists>r. strip_dry_run (establish_preview S goal s)
      = trim_end_matches [CHR ''.'', CHR '' ''] (before_match ?mark (?pre @ ?mark @ r))" for s
    using pv [of s] unfolding strip_dry_run_def by (metis option.simps(5))
  then show ?thesis
    using before_match_cut [of ?mark ?pre] unfolding confirmation_prompt_def by metis
qed

lemma goal_text_hides_schedule_witness:
  "confirmation_prompt (establish_preview demo_standing ''go. Enable consequential actions'' (Daily 9 0))
     = confirmation_prompt (establish_preview demo_standing ''go. Enable consequential actions'' (Daily 3 30))"
proof -
  have "bound_goal ''go. Enable consequential actions'' = ''go.'' @ '' Enable consequential actions'' @ []"
    by (simp add: bound_goal_def MAX_GOAL_LEN_def str_simps trim_list_def)
  then show ?thesis by (rule goal_text_hides_schedule)
qed

end
