(* ===== verification/UndoTurn.thy ===== *)
theory UndoTurn
  imports ChokeSafety
begin

text \<open>
  The spoken undo: the rest of \<open>daemon/src/journal.rs\<close> (restore anchor, short descriptions, status
  line, panel snapshot), the anchor sentence of \<open>daemon/src/snapshot.rs\<close>, and \<open>handle_undo_command\<close>
  of \<open>daemon/src/router.rs\<close> over the chokepoint. Telemetry frames are left out.
\<close>

section \<open>The restore anchor\<close>

record restore_anchor =
  an_label :: string
  an_ts :: string
  an_reason :: string

definition anchor_restore_point :: "string \<Rightarrow> string \<Rightarrow> string \<Rightarrow> restore_anchor option \<Rightarrow> restore_anchor option" where
  "anchor_restore_point label ts reason a = Some \<lparr> an_label = label, an_ts = ts, an_reason = reason \<rparr>"

definition backquoted :: "string \<Rightarrow> string" where
  "backquoted s = [CHR 0x60] @ s @ [CHR 0x60]"

definition restore_command :: "string \<Rightarrow> string" where
  "restore_command label = ''run '' @ backquoted ''tmutil listlocalsnapshots /'' @ '' to confirm the '' @ label
     @ '' snapshot, then restore it yourself via Time Machine or '' @ backquoted ''tmutil restore'' @ '' '' @ dash
     @ apos '' I won'' ''t roll back on my own''"

definition describe_anchor :: "restore_anchor \<Rightarrow> string" where
  "describe_anchor a = apos ''There'' ''s an APFS snapshot from '' @ an_ts a @ '' ('' @ an_label a @ ''), taken ''
     @ an_reason a @ '', you can roll back to '' @ dash @ '' '' @ restore_command (an_label a) @ ''.''"

section \<open>Descriptions\<close>

text \<open>\<open>str::trim_start_matches\<close> with a string pattern, and the first item of \<open>str::lines\<close>.\<close>

function trim_start_matches :: "string \<Rightarrow> string \<Rightarrow> string" where
  "trim_start_matches p s = (if p \<noteq> [] \<and> starts_with p s then trim_start_matches p (drop (length p) s) else s)"
  by pat_completeness auto
termination
proof (relation "measure (length \<circ> snd)")
  fix p s assume "p \<noteq> [] \<and> starts_with p s"
  then have "s \<noteq> []" "p \<noteq> []" by (auto simp: starts_with_def)
  then show "((p, drop (length p) s), p, s) \<in> measure (length \<circ> snd)" by simp
qed simp

declare trim_start_matches.simps [simp del]

definition first_line :: "string \<Rightarrow> string" where
  "first_line s =
     (let l = takeWhile (\<lambda>c. c \<noteq> CHR 0x0A) s in
      if CHR 0x0A \<in> set s \<and> ends_with [CHR 0x0D] l then butlast l else l)"

definition ellipsis :: string where
  "ellipsis = [CHR 0xE2, CHR 0x80, CHR 0xA6]"

definition short_desc :: "string \<Rightarrow> string \<Rightarrow> string" where
  "short_desc pv tool =
     (let p = trim (trim_start_matches ''[dry run]'' (trim pv));
          first = trim_end_matches [CHR ''.''] (trim (before_match ''. '' (first_line p)))
      in if first = [] then ''a '' @ quoted tool @ '' action''
         else concat (take 120 (chars first)) @ (if 120 < length (chars first) then ellipsis else []))"

definition status_line :: "journal_state \<Rightarrow> restore_anchor option \<Rightarrow> string" where
  "status_line g anchor =
     (let base =
        (if entries g = [] then apos ''Nothing consequential has executed this session, so there'' ''s nothing to undo.''
         else let e = last (entries g); d = short_desc (je_preview e) (je_tool e) in
           if je_undone e then ''The last consequential action ('' @ d @ '') was already undone.''
           else case je_inverse e of
             InvReady _ _ _ \<Rightarrow> ''The last consequential action was '' @ d @ '' '' @ dash @ '' say '' @ quoted ''undo that''
               @ apos '' and I'' ''ll arm the inverse for your confirmation.''
           | InvNone why \<Rightarrow> ''The last consequential action was '' @ d @ '' '' @ dash @ apos '' I can'' ''t undo it: '' @ why @ ''.'')
      in case anchor of Some a \<Rightarrow> base @ '' '' @ describe_anchor a | None \<Rightarrow> base)"

definition SNAPSHOT_ENTRIES :: nat where
  "SNAPSHOT_ENTRIES = 12"

definition journal_snapshot_entry :: "journal_entry \<Rightarrow> json" where
  "journal_snapshot_entry e =
     (let (undoable, note) = (case je_inverse e of InvReady _ _ n \<Rightarrow> (True, n) | InvNone why \<Rightarrow> (False, why)) in
      JObj [(''agent'', JStr (je_agent e)), (''note'', JStr note), (''preview'', JStr (je_preview e)), (''tool'', JStr (je_tool e)),
            (''ts'', JStr (je_ts e)), (''undoable'', JBool undoable), (''undone'', JBool (je_undone e)), (''via'', JStr (je_via e))])"

definition snapshot_payload :: "journal_state \<Rightarrow> json" where
  "snapshot_payload g =
     JObj [(''cap'', JInt (int JOURNAL_CAP)), (''count'', JInt (if next_seq g = 0 then 0 else uint (next_seq g - 1))),
           (''entries'', JArr (map journal_snapshot_entry (take SNAPSHOT_ENTRIES (rev (entries g))))),
           (''retained'', JInt (int (length (entries g))))]"

section \<open>The handler\<close>

definition set_journal :: "journal_state \<Rightarrow> world \<Rightarrow> world" where
  "set_journal g w = w\<lparr> w_journal := g \<rparr>"

definition handle_undo_command ::
    "outside \<Rightarrow> restore_anchor option \<Rightarrow> undo_command \<Rightarrow> world \<Rightarrow> world \<times> string" where
  "handle_undo_command X anchor cmd w =
     (case cmd of
        UndoStatus \<Rightarrow> (w, status_line (w_journal w) anchor)
      | UndoLast \<Rightarrow>
          (let (g, prep) = prepare_undo (o_ext X) (w_journal w); w1 = set_journal g w in
           case prep of
             UndoNothing \<Rightarrow> (w1, apos ''Nothing consequential has executed this session, so there'' ''s nothing to undo.'')
           | UndoAlready \<Rightarrow> (w1, ''The last consequential action was already undone.'')
           | UndoIrreversible why \<Rightarrow> (w1, apos ''I can'' ''t undo the last action '' @ dash @ '' '' @ why @ ''.'')
           | UndoReady seq agent tool inp allowed note pid \<Rightarrow>
               (let gate_before = consequential_allowed w1;
                    (w2, out, err, eff) = execute_tool X tool inp allowed agent True True w1;
                    (c, view) = peek_pending (o_now X) (stop_confirm (w_stop w2));
                    w3 = set_confirm c w2;
                    parked = (case view of Some v \<Rightarrow> view_id v = pid | None \<Rightarrow> False);
                    ran = (\<not> err \<and> \<not> parked \<and> (\<not> master_gated tool \<or> (gate_before \<and> consequential_allowed w3))
                           \<and> inverse_confirmed tool out);
                    w4 = (if ran \<and> \<not> master_gated tool then set_journal (mark_undone seq (w_journal w3)) w3 else w3)
                in (w4, compose_undo_response out err parked ran note))))"

section \<open>What an undo does\<close>

lemma set_journal_frames [simp]:
  "w_calls (set_journal g w) = w_calls w" "w_stop (set_journal g w) = w_stop w" "w_gate (set_journal g w) = w_gate w"
  "w_scope (set_journal g w) = w_scope w" "w_policy (set_journal g w) = w_policy w" "w_mcp (set_journal g w) = w_mcp w"
  "consequential_allowed (set_journal g w) = consequential_allowed w"
  by (simp_all add: set_journal_def consequential_allowed_def)

text \<open>Every inverse is on an object, and none is the forge.\<close>

lemma dume_inverse_tool: "dume_inverse inp = InvReady t i n \<Longrightarrow> t = ''dume_control'' \<and> is_object i"
  by (auto simp: dume_inverse_def is_object_def Let_def split: option.splits if_splits)

lemma derive_inverse_object:
  assumes "derive_inverse tool inp out = InvReady t i n"
  shows "is_object i \<and> t \<noteq> ''forge_app''"
  using assms
  by (auto simp: derive_inverse_def campaign_input_def is_object_def Let_def dest: dume_inverse_tool
      split: if_splits option.splits)

end
