(* ===== verification/Roster.thy ===== *)
theory Roster
  imports GuestScope
begin

text \<open>
  The agent roster of \<open>daemon/src/agents.rs\<close> as far as the gate relies on it: the record of an agent,
  the validation every registry passes, the lookups, and the isolation step \<open>enforce_tool\<close> of
  \<open>daemon/src/router.rs\<close>. Reading \<open>agents.toml\<close>, the built-in team and the delegation cues of
  \<open>select\<close> are not modelled; telemetry and log lines are left out.
\<close>

record agent =
  ag_name :: string
  ag_role :: string
  ag_voice :: string
  ag_hue :: nat
  ag_persona :: string
  ag_tools :: "string list"
  ag_namespace :: string

definition may_use :: "agent \<Rightarrow> string \<Rightarrow> bool" where
  "may_use a tool = list_ex (\<lambda>t. t = TOOLS_WILDCARD \<or> t = tool) (ag_tools a)"

definition is_orchestrator :: "agent \<Rightarrow> bool" where
  "is_orchestrator a = list_ex (\<lambda>t. t = TOOLS_WILDCARD) (ag_tools a)"

section \<open>Validation\<close>

text \<open>The faults of one agent after the names already seen, in the order of the code.\<close>

definition agent_fault :: "string list \<Rightarrow> agent \<Rightarrow> string option" where
  "agent_fault seen a =
     (if trim (ag_name a) = [] then Some ''an agent has an empty name''
      else if ag_name a \<in> set seen then Some (''duplicate agent name '' @ quoted (ag_name a))
      else if 360 < ag_hue a
        then Some (''agent '' @ quoted (ag_name a) @ '' hue '' @ int_string (int (ag_hue a)) @ '' out of range 0-360'')
      else if trim (ag_voice a) = [] then Some (''agent '' @ quoted (ag_name a) @ '' has an empty voice'')
      else if ag_tools a = [] then Some (''agent '' @ quoted (ag_name a) @ '' has an empty tools list'')
      else if ag_namespace a \<noteq> ''agent.'' @ ag_name a
        then Some (''agent '' @ quoted (ag_name a) @ '' namespace '' @ quoted (ag_namespace a) @ '' must be ''
          @ quoted (''agent.'' @ ag_name a))
      else None)"

fun validate_from :: "string list \<Rightarrow> nat \<Rightarrow> agent list \<Rightarrow> string option" where
  "validate_from seen orchestrators [] =
     (if orchestrators = 0 then Some ''no orchestrator (none holds the tools wildcard)'' else None)"
| "validate_from seen orchestrators (a # as) =
     (case agent_fault seen a of
        Some e \<Rightarrow> Some e
      | None \<Rightarrow> validate_from (ag_name a # seen) (if is_orchestrator a then orchestrators + 1 else orchestrators) as)"

definition validate_agents :: "agent list \<Rightarrow> string option" where
  "validate_agents as = (if as = [] then Some ''roster is empty'' else validate_from [] 0 as)"

record roster =
  team :: "agent list"
  lead_at :: nat

text \<open>\<open>Iterator::position\<close>.\<close>

fun position :: "('a \<Rightarrow> bool) \<Rightarrow> 'a list \<Rightarrow> nat option" where
  "position P [] = None"
| "position P (x # xs) = (if P x then Some 0 else map_option Suc (position P xs))"

definition from_agents :: "agent list \<Rightarrow> string + roster" where
  "from_agents as =
     (case validate_agents as of
        Some e \<Rightarrow> Inl e
      | None \<Rightarrow>
          (case position is_orchestrator as of
             None \<Rightarrow> Inl ''no orchestrator agent (none holds the tools wildcard)''
           | Some i \<Rightarrow> Inr \<lparr> team = as, lead_at = i \<rparr>))"

definition orchestrator :: "roster \<Rightarrow> agent" where
  "orchestrator R = team R ! lead_at R"

definition get_agent :: "roster \<Rightarrow> string \<Rightarrow> agent option" where
  "get_agent R n = find (\<lambda>a. ag_name a = n) (team R)"

definition owner_of :: "roster \<Rightarrow> string \<Rightarrow> agent option" where
  "owner_of R tool = find (\<lambda>a. \<not> is_orchestrator a \<and> list_ex (\<lambda>t. t = tool) (ag_tools a)) (team R)"

definition agent_for_namespace :: "roster \<Rightarrow> string \<Rightarrow> agent" where
  "agent_for_namespace R ns =
     (case get_agent R (case strip_prefix ''agent.'' ns of None \<Rightarrow> ns | Some r \<Rightarrow> r) of
        Some a \<Rightarrow> a | None \<Rightarrow> orchestrator R)"

definition enforce_tool :: "roster \<Rightarrow> agent \<Rightarrow> string \<Rightarrow> agent" where
  "enforce_tool R a intent =
     (if may_use a intent then a
      else case owner_of R intent of Some b \<Rightarrow> b | None \<Rightarrow> orchestrator R)"

section \<open>What a registry satisfies\<close>

definition sound_agent :: "agent \<Rightarrow> bool" where
  "sound_agent a \<longleftrightarrow> ag_namespace a = ''agent.'' @ ag_name a \<and> ag_tools a \<noteq> [] \<and> ag_hue a \<le> 360
     \<and> trim (ag_name a) \<noteq> [] \<and> trim (ag_voice a) \<noteq> []"

definition sound_roster :: "roster \<Rightarrow> bool" where
  "sound_roster R \<longleftrightarrow> distinct (map ag_name (team R)) \<and> list_all sound_agent (team R)
     \<and> lead_at R < length (team R) \<and> is_orchestrator (orchestrator R)"

lemma agent_fault_None: "agent_fault seen a = None \<longleftrightarrow> sound_agent a \<and> ag_name a \<notin> set seen"
  by (auto simp: agent_fault_def sound_agent_def)

lemma validate_from_None:
  "validate_from seen n as = None \<longleftrightarrow> list_all sound_agent as \<and> distinct (map ag_name as)
     \<and> set (map ag_name as) \<inter> set seen = {} \<and> (n \<noteq> 0 \<or> list_ex is_orchestrator as)"
proof (induction as arbitrary: seen n)
  case (Cons a as)
  show ?case using Cons.IH [of "ag_name a # seen"] agent_fault_None [of seen a] by (auto split: option.splits)
qed auto

lemma position_Some: "position P xs = Some i \<Longrightarrow> i < length xs \<and> P (xs ! i)"
  by (induction xs arbitrary: i) (auto split: if_splits)

lemma position_None: "position P xs = None \<longleftrightarrow> \<not> list_ex P xs"
  by (induction xs) auto

lemma from_agents_sound: "from_agents as = Inr R \<longleftrightarrow> team R = as \<and> sound_roster R \<and> position is_orchestrator as = Some (lead_at R)"
proof
  assume r: "from_agents as = Inr R"
  then have v: "validate_from [] 0 as = None" "as \<noteq> []"
    by (auto simp: from_agents_def validate_agents_def split: option.splits if_splits)
  have p: "position is_orchestrator as = Some (lead_at R)" "team R = as"
    using r by (auto simp: from_agents_def split: option.splits)
  then show "team R = as \<and> sound_roster R \<and> position is_orchestrator as = Some (lead_at R)"
    using v(1) position_Some [OF p(1)] by (simp add: validate_from_None sound_roster_def orchestrator_def)
next
  assume r: "team R = as \<and> sound_roster R \<and> position is_orchestrator as = Some (lead_at R)"
  then have "list_ex is_orchestrator as" using position_None by (metis option.distinct(1))
  moreover have "as \<noteq> []" using r position_Some by fastforce
  ultimately have "validate_agents as = None"
    using r by (auto simp: validate_agents_def validate_from_None sound_roster_def)
  then show "from_agents as = Inr R" using r by (cases R) (simp add: from_agents_def)
qed

lemma orchestrator_may_use: "is_orchestrator a \<Longrightarrow> may_use a tool"
  by (auto simp: is_orchestrator_def may_use_def list_ex_iff)

lemma get_agent_name:
  assumes "sound_roster R" and "a \<in> set (team R)"
  shows "get_agent R (ag_name a) = Some a"
proof -
  have "get_agent R (ag_name a) \<noteq> None" using assms(2) by (auto simp: get_agent_def find_None_iff)
  then obtain b where b: "get_agent R (ag_name a) = Some b" by blast
  then have "ag_name b = ag_name a \<and> b \<in> set (team R)" by (auto simp: get_agent_def find_Some_iff)
  then have "b = a" using assms by (auto simp: sound_roster_def distinct_map dest: inj_onD)
  then show ?thesis using b by simp
qed

text \<open>
  Isolation holds for every registry that loads: the agent that acts for an intent may always use
  its tool, is the agent asked whenever that one may, and is never taken from outside the roster; and
  the namespace stored with a parked action leads back to the agent that parked it.
\<close>
theorem acting_agent_may_act:
  assumes "from_agents as = Inr R" and "a \<in> set as"
  shows "may_use (enforce_tool R a intent) intent \<and> enforce_tool R a intent \<in> set as
    \<and> (may_use a intent \<longrightarrow> enforce_tool R a intent = a) \<and> agent_for_namespace R (ag_namespace a) = a"
proof -
  have R: "team R = as" "sound_roster R" using assms(1) from_agents_sound by blast+
  have lead: "may_use (orchestrator R) intent" "orchestrator R \<in> set as"
    using R orchestrator_may_use by (auto simp: sound_roster_def orchestrator_def)
  have owner: "may_use b intent \<and> b \<in> set as" if "owner_of R intent = Some b" for b
    using that R(1) by (auto simp: owner_of_def find_Some_iff may_use_def list_ex_iff)
  have "sound_agent a" using R assms(2) by (auto simp: sound_roster_def list_all_iff)
  then have "agent_for_namespace R (ag_namespace a) = a"
    using get_agent_name [of R a] R assms(2)
    by (simp add: agent_for_namespace_def sound_agent_def strip_prefix_def starts_with_def)
  then show ?thesis using assms(2) lead owner by (auto simp: enforce_tool_def split: option.splits)
qed

definition demo_lead :: agent where
  "demo_lead = \<lparr> ag_name = ''darwin'', ag_role = ''Prime'', ag_voice = ''bm'', ag_hue = 200, ag_persona = ''p'',
     ag_tools = [''*''], ag_namespace = ''agent.darwin'' \<rparr>"

definition demo_scribe :: agent where
  "demo_scribe = \<lparr> ag_name = ''pepper'', ag_role = ''EA'', ag_voice = ''af'', ag_hue = 20, ag_persona = ''p'',
     ag_tools = [''memory.store''], ag_namespace = ''agent.pepper'' \<rparr>"

definition demo_roster :: roster where
  "demo_roster = \<lparr> team = [demo_scribe, demo_lead], lead_at = 1 \<rparr>"

lemma demo_roster_loads: "from_agents [demo_scribe, demo_lead] = Inr demo_roster"
  by (simp add: from_agents_sound demo_roster_def sound_roster_def orchestrator_def demo_scribe_def demo_lead_def
      sound_agent_def is_orchestrator_def TOOLS_WILDCARD_def str_simps trim_list_def)

lemma acting_agent_may_act_witness:
  "may_use (enforce_tool demo_roster demo_scribe ''web.open'') ''web.open''
   \<and> agent_for_namespace demo_roster ''agent.pepper'' = demo_scribe"
  using acting_agent_may_act [OF demo_roster_loads, of demo_scribe "''web.open''"] by (simp add: demo_scribe_def)

end
