(* ===== verification/VaultMode.thy ===== *)
theory VaultMode
  imports Chokepoint
begin

text \<open>
  Vault mode, \<open>daemon/src/vault.rs\<close>: the live toggle with its override for one turn, the gate on cloud
  routing, the spoken command, and the fold of vault and guest scope that \<open>route\<close> applies to the
  reachability of the cloud. \<open>str::to_lowercase\<close> is the parameter \<open>low\<close>.
\<close>

record vault_state =
  vault_on :: bool
  turn_vault :: "bool option"

definition vault_init :: "bool \<Rightarrow> vault_state \<Rightarrow> vault_state" where
  "vault_init default_on v = v\<lparr> vault_on := default_on \<rparr>"

definition vault_set :: "bool \<Rightarrow> vault_state \<Rightarrow> vault_state \<times> bool" where
  "vault_set on v = (v\<lparr> vault_on := on \<rparr>, on)"

definition set_turn_vault :: "bool option \<Rightarrow> vault_state \<Rightarrow> vault_state" where
  "set_turn_vault b v = v\<lparr> turn_vault := b \<rparr>"

definition clear_turn_vault :: "vault_state \<Rightarrow> vault_state" where
  "clear_turn_vault v = set_turn_vault None v"

definition vault_is_active :: "vault_state \<Rightarrow> bool" where
  "vault_is_active v = (case turn_vault v of Some b \<Rightarrow> b | None \<Rightarrow> vault_on v)"

definition deny_cloud_with :: "bool \<Rightarrow> bool \<Rightarrow> bool" where
  "deny_cloud_with would_go_cloud active \<longleftrightarrow> would_go_cloud \<and> \<not> active"

definition vault_deny_cloud :: "vault_state \<Rightarrow> bool \<Rightarrow> bool" where
  "vault_deny_cloud v would_go_cloud = deny_cloud_with would_go_cloud (vault_is_active v)"

definition vault_status_frame :: "bool \<Rightarrow> json" where
  "vault_status_frame active =
     JObj [(''active'', JBool active), (''read_only'', JBool True), (''restrict_only'', JBool True)]"

definition vault_ack :: "bool \<Rightarrow> string" where
  "vault_ack on =
     (if on then apos ''Going dark, sir. I'' ''ll keep this on the local brain '' @ dash @ '' no cloud escalation '' @ dash
        @ '' and CUSTOMS is at maximal reduction. Say '' @ [CHR 0x22] @ ''vault mode off'' @ [CHR 0x22] @ '' to lift it.''
      else ''Vault lifted, sir. Cloud routing is available again, and CUSTOMS returns to its configured trim.'')"

section \<open>The spoken command\<close>

datatype vault_command = VaultOn | VaultOff

definition vault_normalize :: "(string \<Rightarrow> string) \<Rightarrow> string \<Rightarrow> string" where
  "vault_normalize low txt =
     join '' '' (split_whitespace (low (trim_end_matches [CHR ''.'', CHR ''!'', CHR ''?'', CHR '',''] (trim txt))))"

definition VAULT_OFF_PHRASES :: "string list" where
  "VAULT_OFF_PHRASES = [''vault mode off'', ''vault off'', ''turn off vault'', ''turn off vault mode'', ''disable vault'',
     ''disable vault mode'', ''exit vault'', ''exit vault mode'', ''leave vault'', ''leave vault mode'', ''end vault mode'',
     ''come back online'', ''go back online'', ''come out of the dark'']"

definition VAULT_ON_PHRASES :: "string list" where
  "VAULT_ON_PHRASES = [''go dark'', ''vault mode on'', ''vault on'', ''turn on vault'', ''turn on vault mode'', ''enable vault'',
     ''enable vault mode'', ''enter vault'', ''enter vault mode'', ''engage vault'', ''engage vault mode'']"

definition VAULT_ON_EXACT :: "string list" where
  "VAULT_ON_EXACT = [''vault mode'']"

definition vault_matches_phrase :: "string \<Rightarrow> string list \<Rightarrow> bool" where
  "vault_matches_phrase norm phrases =
     list_ex (\<lambda>p. norm = p \<or> (case strip_prefix p norm of None \<Rightarrow> False | Some rest \<Rightarrow> starts_with '' '' rest)) phrases"

definition classify_vault_command :: "(string \<Rightarrow> string) \<Rightarrow> string \<Rightarrow> vault_command option" where
  "classify_vault_command low txt =
     (let norm = vault_normalize low txt in
      if norm = [] then None
      else if vault_matches_phrase norm VAULT_OFF_PHRASES then Some VaultOff
      else if vault_matches_phrase norm VAULT_ON_PHRASES then Some VaultOn
      else if norm \<in> set VAULT_ON_EXACT then Some VaultOn
      else None)"

section \<open>The words of the command\<close>

text \<open>A text is \<open>p\<close> or \<open>p\<close> and more words exactly when the words of \<open>p\<close> start its words.\<close>

lemma words_prefix:
  assumes "list_all (\<lambda>w. w \<noteq> [] \<and> CHR '' '' \<notin> set w) us" and "list_all (\<lambda>w. w \<noteq> [] \<and> CHR '' '' \<notin> set w) ws" and "us \<noteq> []"
  shows "(join '' '' ws = join '' '' us \<or> (\<exists>r. join '' '' ws = join '' '' us @ CHR '' '' # r)) \<longleftrightarrow> (\<exists>vs. ws = us @ vs)"
  using assms
proof (induction us arbitrary: ws)
  case (Cons u us)
  note Cons1 = Cons
  have sp: "CHR '' '' \<notin> set u" "u \<noteq> []" using Cons.prems(1) by simp_all
  show ?case
  proof (cases ws)
    case Nil
    then show ?thesis using sp by (cases us) auto
  next
    case (Cons w ws')
    have sw: "CHR '' '' \<notin> set w" "w \<noteq> []" using Cons1(3) Cons by simp_all
    have head: "w = u \<and> a = b" if "w @ CHR '' '' # a = u @ CHR '' '' # b" for a b
    proof -
      have "takeWhile (\<lambda>c. c \<noteq> CHR '' '') (w @ CHR '' '' # a) = w" "takeWhile (\<lambda>c. c \<noteq> CHR '' '') (u @ CHR '' '' # b) = u"
        using sp sw by (subst takeWhile_append2; force)+
      then show ?thesis using that by auto
    qed
    have short: "w \<noteq> u @ CHR '' '' # b" for b using sw(1) by auto
    have long: "u \<noteq> w @ CHR '' '' # b" for b using sp(1) by auto
    show ?thesis
    proof (cases us)
      case Nil
      then show ?thesis using Cons short long head by (cases ws') auto
    next
      case (Cons u2 us2)
      show ?thesis
      proof (cases ws')
        case Nil
        then show ?thesis using Cons \<open>ws = w # ws'\<close> short by auto
      next
        case (Cons w2 ws2)
        have IH: "(join '' '' ws' = join '' '' us \<or> (\<exists>r. join '' '' ws' = join '' '' us @ CHR '' '' # r)) \<longleftrightarrow> (\<exists>vs. ws' = us @ vs)"
          by (rule Cons1(1)) (use Cons1(2,3) \<open>ws = w # ws'\<close> \<open>us = u2 # us2\<close> in auto)
        have j: "join '' '' ws = w @ CHR '' '' # join '' '' ws'" "join '' '' (u # us) = u @ CHR '' '' # join '' '' us"
          using Cons \<open>ws = w # ws'\<close> \<open>us = u2 # us2\<close> by simp_all
        show ?thesis
          unfolding j using IH \<open>ws = w # ws'\<close> by (auto dest: head)
      qed
    qed
  qed
qed simp

definition opens_with :: "string list \<Rightarrow> string list \<Rightarrow> bool" where
  "opens_with ws us \<longleftrightarrow> take (length us) ws = us"

lemma opens_with_append: "opens_with ws us \<longleftrightarrow> (\<exists>vs. ws = us @ vs)"
  unfolding opens_with_def by (metis append_take_drop_id append_eq_conv_conj)

definition vault_off_words :: "string list list" where
  "vault_off_words = map (split_on (\<lambda>c. c = CHR '' '')) VAULT_OFF_PHRASES"

definition vault_on_words :: "string list list" where
  "vault_on_words = map (split_on (\<lambda>c. c = CHR '' '')) VAULT_ON_PHRASES"

definition plain_words :: "string list \<Rightarrow> bool" where
  "plain_words ws \<longleftrightarrow> list_all (\<lambda>w. w \<noteq> [] \<and> CHR '' '' \<notin> set w) ws"

lemma matches_by_words:
  assumes "plain_words ws" and "list_all (\<lambda>us. us \<noteq> [] \<and> plain_words us) tbl"
  shows "vault_matches_phrase (join '' '' ws) (map (join '' '') tbl) \<longleftrightarrow> list_ex (opens_with ws) tbl"
proof -
  have one: "(join '' '' ws = p \<or> (case strip_prefix p (join '' '' ws) of None \<Rightarrow> False | Some rest \<Rightarrow> starts_with '' '' rest))
      \<longleftrightarrow> opens_with ws us" if "p = join '' '' us" "us \<noteq> []" "plain_words us" for p us
  proof -
    have "(case strip_prefix p t of None \<Rightarrow> False | Some rest \<Rightarrow> starts_with '' '' rest) \<longleftrightarrow> (\<exists>r. t = p @ CHR '' '' # r)" for t
      by (auto simp: strip_prefix_def starts_with_iff)
    then show ?thesis
      using words_prefix [of us ws] assms(1) that by (simp add: opens_with_append plain_words_def)
  qed
  show ?thesis using assms(2) one by (induction tbl) (auto simp: vault_matches_phrase_def)
qed

lemma phrase_tables:
  "map (join '' '') vault_off_words = VAULT_OFF_PHRASES" "map (join '' '') vault_on_words = VAULT_ON_PHRASES"
  "list_all (\<lambda>us. us \<noteq> [] \<and> plain_words us) vault_off_words" "list_all (\<lambda>us. us \<noteq> [] \<and> plain_words us) vault_on_words"
  by (simp_all add: vault_off_words_def vault_on_words_def VAULT_OFF_PHRASES_def VAULT_ON_PHRASES_def plain_words_def)

lemma vault_by_words:
  assumes "plain_words ws" and "ws \<noteq> []" and "vault_normalize low txt = join '' '' ws"
  shows "classify_vault_command low txt =
     (if list_ex (opens_with ws) vault_off_words then Some VaultOff
      else if list_ex (opens_with ws) vault_on_words \<or> ws = [''vault'', ''mode''] then Some VaultOn
      else None)"
proof -
  have ne: "join '' '' ws \<noteq> []" using assms(1,2) by (cases ws; cases "tl ws") (auto simp: plain_words_def)
  have exact: "join '' '' ws = ''vault mode'' \<longleftrightarrow> ws = [''vault'', ''mode'']"
  proof
    assume j: "join '' '' ws = ''vault mode''"
    then obtain vs where v: "ws = [''vault'', ''mode''] @ vs"
      using words_prefix [of "[''vault'', ''mode'']" ws] assms(1) by (auto simp: plain_words_def)
    then show "ws = [''vault'', ''mode'']" using j by (cases vs) simp_all
  qed simp
  show ?thesis
    using matches_by_words [OF assms(1) phrase_tables(3)] matches_by_words [OF assms(1) phrase_tables(4)] ne exact
    by (auto simp: classify_vault_command_def assms(3) phrase_tables VAULT_ON_EXACT_def)
qed

end
