(* ===== verification/Macros.thy ===== *)
theory Macros
  imports StandingProofs Redact "HOL-Library.Multiset"
begin

text \<open>
  Recorded macros, \<open>daemon/src/macros.rs\<close>: the spoken commands, the single recording slot, the bounded
  store in the fact table and the replay through an injected router, with the control handler of
  \<open>daemon/src/router.rs\<close>. \<open>str::to_lowercase\<close> is the parameter \<open>low\<close> and the JSON coding of a macro is
  the record \<open>macro_codec\<close>. Database errors and telemetry frames are outside the model.
\<close>

section \<open>Names and steps\<close>

definition MACRO_PREFIX :: string where
  "MACRO_PREFIX = ''meta.macro.''"

definition MAX_UTTERANCE_LEN :: nat where
  "MAX_UTTERANCE_LEN = 400"

definition MAX_NAME_LEN :: nat where
  "MAX_NAME_LEN = 64"

record macro_step =
  mst_utterance :: string
  mst_intent :: string

record macro =
  mc_name :: string
  mc_steps :: "macro_step list"
  mc_created :: string

record macro_codec =
  macro_text :: "macro \<Rightarrow> string"
  macro_read :: "string \<Rightarrow> macro option"

definition bound_text :: "nat \<Rightarrow> string \<Rightarrow> string" where
  "bound_text n s =
     (let t = trim s in if length t \<le> n then t else take (back_to_boundary t n) t)"

definition normalize_macro_name :: "(string \<Rightarrow> string) \<Rightarrow> string \<Rightarrow> string" where
  "normalize_macro_name low name = bound_text MAX_NAME_LEN (low (trim name))"

definition CLAUSE_WORDS :: "string list" where
  "CLAUSE_WORDS = [''the'', ''a'', ''an'', ''my'', ''your'', ''our'', ''their'', ''this'', ''that'', ''these'',
     ''those'', ''on'', ''of'', ''in'', ''for'', ''to'', ''with'', ''about'', ''at'', ''from'',
     ''by'', ''into'', ''over'', ''and'', ''or'', ''but'', ''is'', ''are'', ''was'', ''were'',
     ''it'', ''them'', ''me'', ''you'']"

definition is_plausible_label :: "string \<Rightarrow> bool" where
  "is_plausible_label name \<longleftrightarrow>
     (let words = split_whitespace name in
      words \<noteq> [] \<and> length words \<le> 3 \<and> \<not> list_ex (\<lambda>w. w \<in> set CLAUSE_WORDS) words)"

definition macro_before_noun :: "(string \<Rightarrow> string) \<Rightarrow> string list \<Rightarrow> string \<Rightarrow> string option" where
  "macro_before_noun low leads t =
     (case strip_suffix '' macro'' t of
        None \<Rightarrow> None
      | Some b \<Rightarrow>
          find_map (\<lambda>lead. Option.bind (strip_prefix lead (trim_end b)) (\<lambda>rest.
             let name = normalize_macro_name low rest in
             if name \<noteq> [] \<and> is_plausible_label name then Some name else None)) leads)"

definition macro_after_lead :: "(string \<Rightarrow> string) \<Rightarrow> string list \<Rightarrow> string \<Rightarrow> string option" where
  "macro_after_lead low leads t =
     find_map (\<lambda>lead. Option.bind (strip_prefix lead t) (\<lambda>rest.
        let name = normalize_macro_name low rest in if name \<noteq> [] then Some name else None)) leads"

definition make_step :: "string \<Rightarrow> string \<Rightarrow> macro_step" where
  "make_step raw intent =
     \<lparr> mst_utterance = bound_text MAX_UTTERANCE_LEN (redact (trim raw)), mst_intent = bound_text 64 (trim intent) \<rparr>"

section \<open>The spoken commands\<close>

datatype macro_command = StartRecording string | StopRecording | Replaying string | ListMacros | ForgetMacro string

definition STOP_PHRASES :: "string list" where
  "STOP_PHRASES = [''stop recording'', ''stop the recording'', ''save the macro'', ''save macro'', ''finish recording'',
     ''end recording'', ''stop recording the macro'', ''stop recording macro'', ''end the recording'', ''finish the recording'']"

definition LIST_PHRASES :: "string list" where
  "LIST_PHRASES = [''list macros'', ''list my macros'', ''what macros do i have'', ''show my macros'', ''show macros'']"

definition START_LEADS :: "string list" where
  "START_LEADS = [''start recording a macro called '', ''start recording a macro named '', ''record a macro called '',
     ''record a macro named '', ''start recording macro '', ''record macro '', ''start a macro called '',
     ''start a macro named '', ''start recording the macro '', ''record the macro '']"

definition START_VERBS :: "string list" where
  "START_VERBS = [''start recording the '', ''start recording '', ''record the '', ''record my '', ''record '']"

definition REPLAY_LEADS :: "string list" where
  "REPLAY_LEADS = [''replay the macro '', ''replay macro '', ''run the macro '', ''run macro '', ''play the macro '', ''play macro '']"

definition REPLAY_VERBS :: "string list" where
  "REPLAY_VERBS = [''replay the '', ''replay my '', ''replay '', ''run the '', ''run my '', ''run '',
     ''play back the '', ''play back my '', ''play back '', ''play the '', ''play my '', ''play '']"

definition FORGET_LEADS :: "string list" where
  "FORGET_LEADS = [''forget the macro '', ''forget macro '', ''delete the macro '', ''delete macro '',
     ''remove the macro '', ''remove macro '']"

definition MACRO_FORGET_VERBS :: "string list" where
  "MACRO_FORGET_VERBS = [''forget the '', ''forget my '', ''forget '', ''delete the '', ''delete my '', ''delete '',
     ''remove the '', ''remove my '', ''remove '']"

definition macro_spoken :: "(string \<Rightarrow> string) \<Rightarrow> string \<Rightarrow> string" where
  "macro_spoken low txt = trim (trim_end_matches [CHR ''.'', CHR ''!'', CHR ''?''] (low (trim txt)))"

definition classify_macro_command :: "(string \<Rightarrow> string) \<Rightarrow> string \<Rightarrow> macro_command option" where
  "classify_macro_command low txt =
     (let t = macro_spoken low txt in
      if t \<in> set STOP_PHRASES then Some StopRecording
      else if t \<in> set LIST_PHRASES then Some ListMacros
      else case macro_after_lead low START_LEADS t of Some n \<Rightarrow> Some (StartRecording n)
      | None \<Rightarrow> (case macro_before_noun low START_VERBS t of Some n \<Rightarrow> Some (StartRecording n)
      | None \<Rightarrow> (case macro_after_lead low REPLAY_LEADS t of Some n \<Rightarrow> Some (Replaying n)
      | None \<Rightarrow> (case macro_before_noun low REPLAY_VERBS t of Some n \<Rightarrow> Some (Replaying n)
      | None \<Rightarrow> (case macro_after_lead low FORGET_LEADS t of Some n \<Rightarrow> Some (ForgetMacro n)
      | None \<Rightarrow> (case macro_before_noun low MACRO_FORGET_VERBS t of Some n \<Rightarrow> Some (ForgetMacro n)
      | None \<Rightarrow> None))))))"

section \<open>The recording slot\<close>

record recording =
  rec_name :: string
  rec_steps :: "(string \<times> string) list"

type_synonym recording_slot = "recording option"

definition start_recording :: "(string \<Rightarrow> string) \<Rightarrow> string \<Rightarrow> recording_slot" where
  "start_recording low name = Some \<lparr> rec_name = normalize_macro_name low name, rec_steps = [] \<rparr>"

definition is_recording :: "recording_slot \<Rightarrow> bool" where
  "is_recording r \<longleftrightarrow> r \<noteq> None"

definition capture :: "scope option \<Rightarrow> string \<Rightarrow> string \<Rightarrow> recording_slot \<Rightarrow> recording_slot" where
  "capture turn utterance intent r =
     (if guest_write_blocked turn then r
      else case r of None \<Rightarrow> None
      | Some q \<Rightarrow> if length (rec_steps q) < 256 then Some (q\<lparr> rec_steps := rec_steps q @ [(utterance, intent)] \<rparr>) else Some q)"

definition stop_recording :: "recording_slot \<Rightarrow> recording_slot \<times> (string \<times> (string \<times> string) list) option" where
  "stop_recording r = (None, map_option (\<lambda>q. (rec_name q, rec_steps q)) r)"

definition clear_recording :: "recording_slot \<Rightarrow> recording_slot" where
  "clear_recording r = None"

section \<open>The store\<close>

definition macro_key :: "string \<Rightarrow> string" where
  "macro_key n = MACRO_PREFIX @ n"

definition macro_save :: "macro_codec \<Rightarrow> scope option \<Rightarrow> string \<Rightarrow> macro \<Rightarrow> facts \<Rightarrow> facts" where
  "macro_save C turn ts m fs = upsert_fact_at turn (macro_key (mc_name m)) (macro_text C m) ts fs"

definition enforce_retention :: "nat \<Rightarrow> facts \<Rightarrow> facts" where
  "enforce_retention keep fs =
     (let rows = recall_facts_limited MACRO_PREFIX 1024 fs in
      if length rows \<le> keep then fs
      else fold (\<lambda>kv fs. fst (delete_fact (fst kv) fs)) (drop keep rows) fs)"

definition macro_record ::
    "macro_codec \<Rightarrow> (string \<Rightarrow> string) \<Rightarrow> scope option \<Rightarrow> string \<Rightarrow> nat \<Rightarrow> nat \<Rightarrow> string \<Rightarrow> (string \<times> string) list \<Rightarrow> facts
       \<Rightarrow> facts \<times> macro" where
  "macro_record C low turn ts retention max_steps name commands fs =
     (let m = \<lparr> mc_name = normalize_macro_name low name,
                mc_steps = map (\<lambda>(u, i). make_step u i) (take (max max_steps 1) commands), mc_created = ts \<rparr>
      in (enforce_retention (max retention 1) (macro_save C turn ts m fs), m))"

definition macro_load :: "macro_codec \<Rightarrow> (string \<Rightarrow> string) \<Rightarrow> string \<Rightarrow> facts \<Rightarrow> macro option" where
  "macro_load C low name fs = Option.bind (get_fact (macro_key (normalize_macro_name low name)) fs) (macro_read C)"

definition macro_list :: "macro_codec \<Rightarrow> facts \<Rightarrow> macro list" where
  "macro_list C fs = List.map_filter (\<lambda>(_, v). macro_read C v) (recall_facts_limited MACRO_PREFIX 512 fs)"

definition macro_forget :: "(string \<Rightarrow> string) \<Rightarrow> string \<Rightarrow> facts \<Rightarrow> facts \<times> bool" where
  "macro_forget low name fs = delete_fact (macro_key (normalize_macro_name low name)) fs"

section \<open>Replay\<close>

fun replay_steps :: "(string \<Rightarrow> 'w \<Rightarrow> 'w \<times> string) \<Rightarrow> macro_step list \<Rightarrow> 'w \<Rightarrow> 'w \<times> (string \<times> string) list" where
  "replay_steps route_once [] w = (w, [])"
| "replay_steps route_once (s # ss) w =
     (let (w1, out) = route_once (mst_utterance s) w; (w2, rest) = replay_steps route_once ss w1
      in (w2, (mst_utterance s, out) # rest))"

definition macro_replay ::
    "macro_codec \<Rightarrow> (string \<Rightarrow> string) \<Rightarrow> facts \<Rightarrow> string \<Rightarrow> (string \<Rightarrow> 'w \<Rightarrow> 'w \<times> string) \<Rightarrow> 'w \<Rightarrow> 'w \<times> (string \<times> string) list" where
  "macro_replay C low fs name route_once w =
     (case macro_load C low name fs of None \<Rightarrow> (w, []) | Some m \<Rightarrow> replay_steps route_once (mc_steps m) w)"

section \<open>The control handler\<close>

record macro_config =
  macros_enabled :: bool
  macros_retention :: nat
  macros_max_steps :: nat

definition MACROS_OFF :: string where
  "MACROS_OFF = ''Macros are off ([macros].enabled = false), sir '' @ dash @ '' I'' @ [CHR 0x27] @ ''m not recording or replaying anything.''"

definition list_reply :: "macro list \<Rightarrow> string" where
  "list_reply ms =
     (if ms = [] then ''You have no saved macros, sir.''
      else ''Your macros:'' @ [CHR 0x0A]
        @ concat (map (\<lambda>m. ''- '' @ dquoted (mc_name m) @ '' ('' @ nat_text (length (mc_steps m)) @ '' steps)'' @ [CHR 0x0A]) ms)
        @ ''Replay one with '' @ quoted ''replay macro <name>'' @ ''; each step re-runs through the gate fresh.'')"

definition saved_reply :: "macro \<Rightarrow> string" where
  "saved_reply m =
     ''Saved macro '' @ dquoted (mc_name m) @ '' with '' @ nat_text (length (mc_steps m)) @ '' step''
       @ (if length (mc_steps m) = 1 then [] else ''s'') @ ''. Say '' @ quoted (''replay macro '' @ mc_name m)
       @ '' to run it '' @ dash @ '' each step re-runs fresh, and any consequential one still asks first.''"

definition handle_macro_command ::
    "macro_codec \<Rightarrow> (string \<Rightarrow> string) \<Rightarrow> macro_config \<Rightarrow> scope option \<Rightarrow> string \<Rightarrow> macro_command
       \<Rightarrow> recording_slot \<times> facts \<Rightarrow> (recording_slot \<times> facts) \<times> string" where
  "handle_macro_command C low cfg turn ts cmd st =
     (let (r, fs) = st in
      if \<not> macros_enabled cfg then ((clear_recording r, fs), MACROS_OFF)
      else case cmd of
        StartRecording name \<Rightarrow>
          ((start_recording low name, fs),
           ''Recording macro '' @ dquoted name @ '', sir. Carry on with your commands '' @ dash @ '' they'' @ [CHR 0x27]
             @ ''ll still run normally; say '' @ quoted ''stop recording'' @ '' when you'' @ [CHR 0x27] @ ''re done.'')
      | StopRecording \<Rightarrow>
          (let (r', got) = stop_recording r in
           case got of
             None \<Rightarrow> ((r', fs), ''I wasn'' @ [CHR 0x27] @ ''t recording a macro, sir.'')
           | Some (name, steps) \<Rightarrow>
               if steps = [] then ((r', fs), ''Stopped recording '' @ dash @ '' '' @ dquoted name @ '' had no commands, so I saved nothing.'')
               else (let (fs', m) = macro_record C low turn ts (macros_retention cfg) (macros_max_steps cfg) name steps fs
                     in ((r', fs'), saved_reply m)))
      | ListMacros \<Rightarrow> ((r, fs), list_reply (macro_list C fs))
      | ForgetMacro name \<Rightarrow>
          (let (fs', found) = macro_forget low name fs in
           ((r, fs'), if found then ''Forgot macro '' @ dquoted name @ '', sir.''
                      else ''I have no macro called '' @ dquoted name @ '' to forget.''))
      | Replaying _ \<Rightarrow> ((r, fs), ''Replay is handled live, sir '' @ dash @ '' say it again and I'' @ [CHR 0x27] @ ''ll run it.''))"

section \<open>What is stored\<close>

lemma short_runs_part: "short_runs n (a @ s @ b) \<Longrightarrow> short_runs n s"
  unfolding short_runs_def by (metis append.assoc)

lemma bound_text_part: "\<exists>a b. s = a @ bound_text n s @ b"
proof -
  have tr: "\<exists>a b. xs = a @ trim_list P xs @ b" for P and xs :: "'a list"
  proof -
    let ?d = "dropWhile P xs"
    have "?d = rev (dropWhile P (rev ?d)) @ rev (takeWhile P (rev ?d))"
      by (metis rev_append rev_rev_ident takeWhile_dropWhile_id)
    then have "xs = takeWhile P xs @ trim_list P xs @ rev (takeWhile P (rev ?d))"
      unfolding trim_list_def by (metis takeWhile_dropWhile_id)
    then show ?thesis by blast
  qed
  obtain a b where "chars s = a @ trim_list is_whitespace (chars s) @ b" using tr by blast
  then have s: "s = concat a @ trim s @ concat b" unfolding trim_def by (metis concat_append concat_chars)
  show ?thesis
  proof (cases "length (trim s) \<le> n")
    case True
    then show ?thesis using s by (auto simp: bound_text_def)
  next
    case False
    have "s = concat a @ bound_text n s @ (drop (back_to_boundary (trim s) n) (trim s) @ concat b)"
      using s False by (simp add: bound_text_def Let_def) (metis append.assoc append_take_drop_id)
    then show ?thesis by blast
  qed
qed

lemma back_to_boundary_le: "back_to_boundary s n \<le> n"
  by (induction n) (auto simp: le_Suc_eq)

lemma bound_text_length: "length (bound_text n s) \<le> n"
  using back_to_boundary_le [of "trim s" n] by (auto simp: bound_text_def Let_def)

text \<open>A step the store can hold: a bounded utterance without a run of six digits.\<close>

definition stored_step :: "macro_step \<Rightarrow> bool" where
  "stored_step s \<longleftrightarrow> short_runs 6 (mst_utterance s) \<and> length (mst_utterance s) \<le> 400 \<and> length (mst_intent s) \<le> 64"

lemma make_step_stored: "stored_step (make_step u i)"
proof -
  have "short_runs 6 (redact (trim u))"
    using short_runs_redact_runs by (simp add: redact_def redact_digit_runs_def DIGIT_RUN_MIN_def)
  then have "short_runs 6 (bound_text 400 (redact (trim u)))" using bound_text_part short_runs_part by metis
  then show ?thesis
    using bound_text_length by (simp add: stored_step_def make_step_def MAX_UTTERANCE_LEN_def)
qed

section \<open>The bounded store\<close>

lemma delete_all: "fold (\<lambda>kv fs. fst (delete_fact (fst kv) fs)) kvs fs = filter (\<lambda>f. f_key f \<notin> set (map fst kvs)) fs"
  by (induction kvs arbitrary: fs) (simp_all add: delete_fact_def conj_commute)

lemma newest_is_first:
  assumes "distinct gs" and "f \<in> set gs" and "\<forall>g \<in> set gs. g \<noteq> f \<longrightarrow> f_ts g < f_ts f"
  shows "\<exists>r. newest_first gs = f # r"
proof -
  let ?xs = "sort_key f_ts gs"
  obtain as bs where s: "?xs = as @ f # bs" using assms(2) by (metis set_sort split_list)
  have "sorted (map f_ts ?xs)" by simp
  then have ge: "\<forall>b \<in> set bs. f_ts f \<le> f_ts b" unfolding s by (simp add: sorted_append)
  have d: "distinct (as @ f # bs)" using assms(1) by (metis s distinct_sort)
  have "set bs \<subseteq> set gs" by (metis s set_sort Un_iff set_append list.set_intros(2) subsetI)
  then have "bs = []" using ge d assms(3) by (cases bs) (auto simp: not_less)
  then show ?thesis by (simp add: newest_first_def s)
qed

definition macro_rows :: "facts \<Rightarrow> facts" where
  "macro_rows fs = filter (key_like MACRO_PREFIX) fs"

lemma retention_filter:
  assumes "length (macro_rows fs) \<le> 1024"
  shows "enforce_retention k fs = filter (\<lambda>f. f_key f \<notin> f_key ` set (drop k (newest_first (macro_rows fs)))) fs"
proof -
  have t: "take 1024 (newest_first (macro_rows fs)) = newest_first (macro_rows fs)" using assms by simp
  have r: "recall_facts_limited MACRO_PREFIX 1024 fs = map (\<lambda>f. (f_key f, f_value f)) (newest_first (macro_rows fs))"
    using t by (simp add: recall_facts_limited_def macro_rows_def)
  have m: "map fst (drop k (map (\<lambda>f. (f_key f, f_value f)) (newest_first (macro_rows fs))))
      = map f_key (drop k (newest_first (macro_rows fs)))" by (simp add: drop_map comp_def)
  show ?thesis
    unfolding enforce_retention_def r Let_def delete_all m by (simp add: filter_id_conv image_iff)
qed

lemma mset_newest: "mset (filter P (newest_first gs)) = mset (filter P gs)"
  by (simp add: newest_first_def)

lemma retention_bound:
  assumes "length (macro_rows fs) \<le> 1024"
  shows "length (macro_rows (enforce_retention k fs)) \<le> k"
proof -
  let ?R = "newest_first (macro_rows fs)" and ?P = "\<lambda>f. f_key f \<notin> f_key ` set (drop k (newest_first (macro_rows fs)))"
  have "mset (filter ?P ?R) = mset (filter ?P (macro_rows fs))" by (rule mset_newest)
  then have "length (filter ?P ?R) = length (filter ?P (macro_rows fs))" by (metis size_mset)
  moreover have "macro_rows (enforce_retention k fs) = filter ?P (macro_rows fs)"
    unfolding retention_filter [OF assms] by (simp add: macro_rows_def conj_commute)
  moreover have "filter ?P ?R = filter ?P (take k ?R)"
  proof -
    have "filter ?P (drop k ?R) = []" by (auto simp: filter_empty_conv)
    then show ?thesis by (metis append_Nil2 append_take_drop_id filter_append)
  qed
  moreover have "length (filter ?P (take k ?R)) \<le> k" by (metis le_trans length_filter_le length_take min.cobounded2)
  ultimately show ?thesis by metis
qed

lemma get_fact_kept:
  assumes "\<And>f. f \<in> set fs \<Longrightarrow> f_key f = k \<Longrightarrow> P f"
  shows "get_fact k (filter P fs) = get_fact k fs"
  using assms by (induction fs) (auto simp: get_fact_def)

lemma newest_row_kept:
  assumes "length (macro_rows fs) \<le> 1024" and "keys_distinct fs" and "f \<in> set fs" and "key_like MACRO_PREFIX f"
    and "\<forall>g \<in> set fs. g \<noteq> f \<longrightarrow> f_ts g < f_ts f" and "0 < n"
  shows "get_fact (f_key f) (enforce_retention n fs) = get_fact (f_key f) fs"
proof -
  have d: "distinct (map f_key fs)" using assms(2) by (simp add: keys_distinct_def)
  have "\<exists>r. newest_first (macro_rows fs) = f # r"
    using assms(3-5) conjunct1 [OF d [unfolded distinct_map]] by (intro newest_is_first) (auto simp: macro_rows_def)
  then obtain r where r: "newest_first (macro_rows fs) = f # r" by blast
  have "mset (map f_key (newest_first (macro_rows fs))) = mset (map f_key (macro_rows fs))" by (simp add: newest_first_def)
  then have "distinct (map f_key (f # r))"
    using d unfolding r [symmetric] macro_rows_def by (metis distinct_map_filter mset_eq_imp_distinct_iff)
  then have "f_key f \<notin> f_key ` set (drop n (f # r))" using assms(6) by (cases n) (auto dest: in_set_dropD)
  then show ?thesis unfolding retention_filter [OF assms(1)] r by (intro get_fact_kept) simp
qed

lemma get_fact_upsert:
  assumes "\<not> guest_write_blocked turn"
  shows "get_fact k (upsert_fact_at turn k v ts fs) = Some v"
proof -
  have "get_fact k (map (\<lambda>f. if f_key f = k then f\<lparr> f_value := v, f_ts := ts \<rparr> else f) fs)
      = (if list_ex (\<lambda>f. f_key f = k) fs then Some v else None)"
    by (induction fs) (auto simp: get_fact_def)
  moreover have "get_fact k (fs @ [\<lparr> f_ts = ts, f_key = k, f_value = v \<rparr>]) = Some v" if "\<not> list_ex (\<lambda>f. f_key f = k) fs"
    using that by (induction fs) (auto simp: get_fact_def)
  moreover have "map (\<lambda>f. if f_key f = k then f\<lparr> f_value := v, f_ts := ts \<rparr> else f) fs = fs" if "\<not> list_ex (\<lambda>f. f_key f = k) fs"
    using that by (simp add: list_ex_iff map_idI)
  ultimately show ?thesis using assms by (auto simp: upsert_fact_at_def Let_def)
qed

lemma key_like_macro: "f_key f = macro_key n \<Longrightarrow> key_like MACRO_PREFIX f"
  by (simp add: key_like_def macro_key_def starts_with_def to_ascii_lowercase_def)

lemma upsert_newest:
  assumes "\<not> guest_write_blocked turn" and "keys_distinct fs" and "\<forall>g \<in> set fs. f_ts g < ts"
  shows "\<exists>f \<in> set (upsert_fact_at turn k v ts fs). f_key f = k
    \<and> (\<forall>g \<in> set (upsert_fact_at turn k v ts fs). g \<noteq> f \<longrightarrow> f_ts g < f_ts f)"
proof (cases "k \<in> f_key ` set fs")
  case True
  then obtain h where h: "h \<in> set fs" "f_key h = k" by auto
  have only: "g = h" if "g \<in> set fs" "f_key g = k" for g
    using that h assms(2) by (auto simp: keys_distinct_def distinct_map dest: inj_onD)
  let ?h = "h\<lparr> f_value := v, f_ts := ts \<rparr>"
  have one: "{f\<lparr> f_value := v, f_ts := ts \<rparr> | f. f \<in> set fs \<and> f_key f = k} = {?h}" using h only by blast
  have U: "set (upsert_fact_at turn k v ts fs) = {f \<in> set fs. f_key f \<noteq> k} \<union> {?h}"
    unfolding set_upsert [OF assms(1)] one using True by simp
  have "f_key ?h = k" "f_ts ?h = ts" using h(2) by simp_all
  then show ?thesis unfolding U using assms(3) by (intro bexI [of _ ?h]) auto
next
  case False
  let ?h = "\<lparr> f_ts = ts, f_key = k, f_value = v \<rparr>"
  have U: "set (upsert_fact_at turn k v ts fs) = {f \<in> set fs. f_key f \<noteq> k} \<union> {?h}"
    unfolding set_upsert [OF assms(1)] using False by simp
  show ?thesis unfolding U using assms(3) by (intro bexI [of _ ?h]) auto
qed

lemma upsert_rows:
  "length (macro_rows (upsert_fact_at turn k v ts fs)) \<le> Suc (length (macro_rows fs))"
proof -
  have "length (filter (key_like p) (map (\<lambda>f. if f_key f = k then f\<lparr> f_value := v, f_ts := ts \<rparr> else f) fs))
      = length (filter (key_like p) fs)" for p
    by (rule like_keys) (rule touched_keys)
  then show ?thesis by (simp add: macro_rows_def upsert_fact_at_def Let_def)
qed

text \<open>Documented behaviour of \<open>serde_json\<close>: a macro is read back from its own text.\<close>

definition macro_codec_ok :: "macro_codec \<Rightarrow> bool" where
  "macro_codec_ok C \<longleftrightarrow> (\<forall>m. macro_read C (macro_text C m) = Some m)"

text \<open>
  A recorded macro is what is loaded again, and it is small and redacted. Saving a recording on
  an owner's turn, later than every stored row, keeps at most the configured number of macros, never
  drops the new one, and loading its name gives exactly the recorded steps in order, cut to the step
  bound, each a bounded utterance without a run of six digits.
\<close>
theorem recorded_macro_loads:
  assumes "macro_codec_ok C" and "\<not> guest_write_blocked turn" and "keys_distinct fs"
    and "length (macro_rows fs) < 1024" and "\<forall>g \<in> set fs. f_ts g < ts"
    and "macro_record C low turn ts retention max_steps name commands fs = (fs', m)"
  shows "macro_load C low name fs' = Some m
    \<and> mc_steps m = map (\<lambda>(u, i). make_step u i) (take (max max_steps 1) commands)
    \<and> list_all stored_step (mc_steps m)
    \<and> length (macro_rows fs') \<le> max retention 1"
proof -
  let ?k = "macro_key (normalize_macro_name low name)" and ?n = "max retention 1"
  define fs1 where "fs1 = upsert_fact_at turn ?k (macro_text C m) ts fs"
  have m: "mc_name m = normalize_macro_name low name" "mc_steps m = map (\<lambda>(u, i). make_step u i) (take (max max_steps 1) commands)"
    and fs': "fs' = enforce_retention ?n fs1"
    using assms(6) by (auto simp: macro_record_def macro_save_def fs1_def Let_def)
  have rows: "length (macro_rows fs1) \<le> 1024" using upsert_rows [of turn ?k "macro_text C m" ts fs] assms(4) by (simp add: fs1_def)
  have dist: "keys_distinct fs1" unfolding fs1_def by (rule keys_distinct_upsert [OF assms(3)])
  obtain f where f: "f \<in> set fs1" "f_key f = ?k" "\<forall>g \<in> set fs1. g \<noteq> f \<longrightarrow> f_ts g < f_ts f"
    using upsert_newest [OF assms(2,3,5)] unfolding fs1_def by blast
  have "get_fact ?k fs' = get_fact ?k fs1"
    using newest_row_kept [OF rows dist f(1) key_like_macro [OF f(2)] f(3), of ?n] f(2) by (simp add: fs')
  then have "get_fact ?k fs' = Some (macro_text C m)" using get_fact_upsert [OF assms(2)] by (simp add: fs1_def)
  then have "macro_load C low name fs' = Some m" using assms(1) by (simp add: macro_load_def macro_codec_ok_def)
  moreover have "list_all stored_step (mc_steps m)" using make_step_stored by (auto simp: m(2) list_all_iff)
  moreover have "length (macro_rows fs') \<le> ?n" unfolding fs' by (rule retention_bound [OF rows])
  ultimately show ?thesis using m(2) by blast
qed

fun demo_step_pairs :: "string list \<Rightarrow> macro_step list" where
  "demo_step_pairs (u # i # r) = \<lparr> mst_utterance = u, mst_intent = i \<rparr> # demo_step_pairs r"
| "demo_step_pairs _ = []"

definition demo_macros :: macro_codec where
  "demo_macros = \<lparr>
     macro_text = (\<lambda>m. concat (map demo_field
       ([mc_name m, mc_created m] @ concat (map (\<lambda>s. [mst_utterance s, mst_intent s]) (mc_steps m))))),
     macro_read = (\<lambda>s. case demo_fields [] s of
       n # c # r \<Rightarrow> Some \<lparr> mc_name = n, mc_steps = demo_step_pairs r, mc_created = c \<rparr> | _ \<Rightarrow> None) \<rparr>"

lemma demo_macros_ok: "macro_codec_ok demo_macros"
proof -
  have pairs: "demo_step_pairs (concat (map (\<lambda>s. [mst_utterance s, mst_intent s]) ss)) = ss" for ss :: "macro_step list"
    by (induction ss) simp_all
  show ?thesis
    unfolding macro_codec_ok_def demo_macros_def by (simp add: pairs demo_fields_all del: concat.simps map_append list.map)
qed

lemma recorded_macro_loads_witness:
  "list_all stored_step (mc_steps (snd (macro_record demo_macros to_ascii_lowercase None ''2026'' 1 2 ''Standup'' [(''call 5551234567'', ''chat'')]
     [\<lparr> f_ts = ''2025'', f_key = ''meta.macro.old'', f_value = [] \<rparr>])))"
proof -
  let ?fs = "[\<lparr> f_ts = ''2025'', f_key = ''meta.macro.old'', f_value = [] \<rparr>]"
  obtain fs' m where r: "macro_record demo_macros to_ascii_lowercase None ''2026'' 1 2 ''Standup'' [(''call 5551234567'', ''chat'')] ?fs
      = (fs', m)" by (metis prod.exhaust)
  have "macro_load demo_macros to_ascii_lowercase ''Standup'' fs' = Some m
    \<and> mc_steps m = map (\<lambda>(u, i). make_step u i) (take (max 2 1) [(''call 5551234567'', ''chat'')])
    \<and> list_all stored_step (mc_steps m) \<and> length (macro_rows fs') \<le> max 1 1"
    by (rule recorded_macro_loads [OF demo_macros_ok _ _ _ _ r])
      (simp_all add: guest_write_blocked_def is_guest_turn_def keys_distinct_def macro_rows_def)
  then show ?thesis unfolding r snd_conv by blast
qed

end
