(* ===== verification/Runbook.thy ===== *)
theory Runbook
  imports ConfirmGate
begin

text \<open>
  Runbooks, \<open>daemon/src/runbook.rs\<close>: a typed graph of steps, its parser, the capability registry, the
  checker and the topological order. The TOML reader (the \<open>toml\<close> crate) is outside: a document is
  the value of \<open>RawFile\<close> it deserialises to. A \<open>BTreeMap\<close> is its ordered list of entries. The order in
  which a \<open>HashSet\<close> of duplicate ids is walked is unspecified in the code; here it is file order.
\<close>

section \<open>Values and types\<close>

datatype ty = TyStr | TyInt | TyFloat | TyBool | TyList | TyMap

definition ty_label :: "ty \<Rightarrow> string" where
  "ty_label t = (case t of TyStr \<Rightarrow> ''string'' | TyInt \<Rightarrow> ''integer'' | TyFloat \<Rightarrow> ''float''
     | TyBool \<Rightarrow> ''bool'' | TyList \<Rightarrow> ''list'' | TyMap \<Rightarrow> ''map'')"

text \<open>A \<open>toml::Value\<close>; a date-time is its display text.\<close>

datatype toml =
    TString string
  | TInteger int
  | TFloat "64 word"
  | TBoolean bool
  | TDatetime string
  | TArray "toml list"
  | TTable "(string \<times> toml) list"

definition of_toml :: "toml \<Rightarrow> ty" where
  "of_toml v = (case v of TString _ \<Rightarrow> TyStr | TDatetime _ \<Rightarrow> TyStr | TInteger _ \<Rightarrow> TyInt | TFloat _ \<Rightarrow> TyFloat
     | TBoolean _ \<Rightarrow> TyBool | TArray _ \<Rightarrow> TyList | TTable _ \<Rightarrow> TyMap)"

text \<open>\<open>json!\<close> of a float that is not finite is null.\<close>

definition json_float :: "64 word \<Rightarrow> json" where
  "json_float w = (if drop_bit 52 (take_bit 63 w) = (0x7FF :: 64 word) then JNull else JFloat w)"

fun toml_to_json :: "toml \<Rightarrow> json" where
  "toml_to_json (TString s) = JStr s"
| "toml_to_json (TInteger i) = JInt i"
| "toml_to_json (TFloat w) = json_float w"
| "toml_to_json (TBoolean b) = JBool b"
| "toml_to_json (TDatetime d) = JStr d"
| "toml_to_json (TArray a) = JArr (map toml_to_json a)"
| "toml_to_json (TTable t) = JObj (map (\<lambda>p. (fst p, toml_to_json (snd p))) t)"

datatype expr =
    Literal ty json
  | Ref string string
  | BadRef string

section \<open>The parsed runbook\<close>

record step =
  st_id :: string
  st_uses :: string
  st_with :: "(string \<times> expr) list"
  st_needs :: "string list"
  st_out :: "string option"

record runbook =
  rb_name :: string
  rb_steps :: "step list"

definition rb_step :: "runbook \<Rightarrow> string \<Rightarrow> step option" where
  "rb_step rb i = find (\<lambda>s. st_id s = i) (rb_steps rb)"

section \<open>The parser\<close>

record raw_step =
  raw_id :: string
  raw_uses :: string
  raw_with :: "(string \<times> toml) list"
  raw_needs :: "string list"
  raw_out :: "string option"

record raw_file =
  raw_name :: string
  raw_steps :: "raw_step list"

definition to_expr :: "toml \<Rightarrow> expr" where
  "to_expr v =
     (case v of
        TString s \<Rightarrow>
          (case Option.bind (strip_prefix ''${'' (trim s)) (strip_suffix ''}'') of
             Some inner \<Rightarrow>
               (case split_on (\<lambda>c. c = CHR ''.'') (trim inner) of
                  [p, q] \<Rightarrow> if trim p \<noteq> [] \<and> trim q \<noteq> [] then Ref (trim p) (trim q) else BadRef s
                | _ \<Rightarrow> BadRef s)
           | None \<Rightarrow> Literal (of_toml v) (toml_to_json v))
      | _ \<Rightarrow> Literal (of_toml v) (toml_to_json v))"

definition parse_step :: "raw_step \<Rightarrow> string + step" where
  "parse_step rs =
     (if trim (raw_id rs) = [] then Inl ''a step id must not be empty''
      else if trim (raw_uses rs) = []
      then Inl (''step '' @ dquoted (trim (raw_id rs)) @ '': `uses` must not be empty'')
      else Inr \<lparr> st_id = trim (raw_id rs), st_uses = trim (raw_uses rs),
        st_with = map (\<lambda>(k, v). (k, to_expr v)) (raw_with rs),
        st_needs = filter (\<lambda>n. n \<noteq> []) (map trim (raw_needs rs)),
        st_out = (case raw_out rs of None \<Rightarrow> None | Some q \<Rightarrow> if trim q = [] then None else Some (trim q)) \<rparr>)"

fun parse_steps :: "raw_step list \<Rightarrow> string + step list" where
  "parse_steps [] = Inr []"
| "parse_steps (rs # rss) =
     (case parse_step rs of
        Inl e \<Rightarrow> Inl e
      | Inr s \<Rightarrow> (case parse_steps rss of Inl e \<Rightarrow> Inl e | Inr ss \<Rightarrow> Inr (s # ss)))"

definition parse_runbook :: "string + raw_file \<Rightarrow> string + runbook" where
  "parse_runbook doc =
     (case doc of
        Inl e \<Rightarrow> Inl e
      | Inr raw \<Rightarrow>
          if trim (raw_name raw) = [] then Inl ''runbook name must not be empty''
          else (case parse_steps (raw_steps raw) of
            Inl e \<Rightarrow> Inl e
          | Inr ss \<Rightarrow> Inr \<lparr> rb_name = trim (raw_name raw), rb_steps = ss \<rparr>))"

section \<open>Capabilities\<close>

datatype cap_kind = KTool | KSkill | KAgent

definition kind_label :: "cap_kind \<Rightarrow> string" where
  "kind_label k = (case k of KTool \<Rightarrow> ''tool'' | KSkill \<Rightarrow> ''skill'' | KAgent \<Rightarrow> ''agent'')"

datatype privilege = PBenign | PConsequential

record param =
  pm_name :: string
  pm_ty :: ty
  pm_required :: bool

record capability =
  cap_name :: string
  cap_kind :: cap_kind
  cap_privilege :: privilege
  cap_params :: "param list"
  cap_out :: ty

definition cap_param :: "capability \<Rightarrow> string \<Rightarrow> param option" where
  "cap_param c n = find (\<lambda>p. pm_name p = n) (cap_params c)"

text \<open>A registry is its list of insertions; the last one of a name counts.\<close>

type_synonym registry = "capability list"

definition reg_get :: "registry \<Rightarrow> string \<Rightarrow> capability option" where
  "reg_get reg n = find (\<lambda>c. cap_name c = n) (rev reg)"

definition need_param :: "string \<Rightarrow> ty \<Rightarrow> param" where
  "need_param n t = \<lparr> pm_name = n, pm_ty = t, pm_required = True \<rparr>"

definition may_param :: "string \<Rightarrow> ty \<Rightarrow> param" where
  "may_param n t = \<lparr> pm_name = n, pm_ty = t, pm_required = False \<rparr>"

definition builtin_seed :: registry where
  "builtin_seed =
    [\<lparr> cap_name = ''github_list_prs'', cap_kind = KTool, cap_privilege = PBenign,
       cap_params = [need_param ''owner'' TyStr, need_param ''repo'' TyStr, may_param ''state'' TyStr], cap_out = TyList \<rparr>,
     \<lparr> cap_name = ''gmail_list_recent'', cap_kind = KTool, cap_privilege = PBenign,
       cap_params = [may_param ''max'' TyInt, may_param ''query'' TyStr], cap_out = TyList \<rparr>,
     \<lparr> cap_name = ''recall_semantic'', cap_kind = KTool, cap_privilege = PBenign,
       cap_params = [need_param ''query'' TyStr], cap_out = TyList \<rparr>,
     \<lparr> cap_name = ''distill'', cap_kind = KSkill, cap_privilege = PBenign,
       cap_params = [need_param ''text'' TyStr], cap_out = TyStr \<rparr>,
     \<lparr> cap_name = ''slack_post_message'', cap_kind = KTool, cap_privilege = PConsequential,
       cap_params = [need_param ''channel'' TyStr, need_param ''text'' TyStr], cap_out = TyStr \<rparr>,
     \<lparr> cap_name = ''gmail_send'', cap_kind = KTool, cap_privilege = PConsequential,
       cap_params = [need_param ''to'' TyStr, need_param ''subject'' TyStr, need_param ''body'' TyStr], cap_out = TyStr \<rparr>,
     \<lparr> cap_name = ''github_open_pr'', cap_kind = KTool, cap_privilege = PConsequential,
       cap_params = [need_param ''owner'' TyStr, need_param ''repo'' TyStr, need_param ''title'' TyStr], cap_out = TyStr \<rparr>]"

definition builtin_registry :: registry where
  "builtin_registry =
     map (\<lambda>c. if cap_kind c = KTool \<and> is_consequential_tool (cap_name c) then c\<lparr> cap_privilege := PConsequential \<rparr> else c)
       builtin_seed"

section \<open>The topological order\<close>

text \<open>Each distinct element at its first occurrence.\<close>

fun distinct_first :: "string list \<Rightarrow> string list \<Rightarrow> string list" where
  "distinct_first seen [] = []"
| "distinct_first seen (x # xs) =
     (if x \<in> set seen then distinct_first seen xs else x # distinct_first (x # seen) xs)"

definition step_ids :: "runbook \<Rightarrow> string list" where
  "step_ids rb = map st_id (rb_steps rb)"

text \<open>The edges of one step: its existing predecessors, each once, itself left out.\<close>

fun needs_edges :: "string list \<Rightarrow> string \<Rightarrow> string list \<Rightarrow> string list \<Rightarrow> (string \<times> string) list" where
  "needs_edges ids i seen [] = []"
| "needs_edges ids i seen (n # ns) =
     (if n \<in> set ids \<and> n \<noteq> i \<and> n \<notin> set seen then (n, i) # needs_edges ids i (n # seen) ns
      else needs_edges ids i seen ns)"

definition rb_edges :: "runbook \<Rightarrow> (string \<times> string) list" where
  "rb_edges rb = concat (map (\<lambda>s. needs_edges (step_ids rb) (st_id s) [] (st_needs s)) (rb_steps rb))"

definition add_edge ::
    "string \<times> string \<Rightarrow> (string \<Rightarrow> nat) \<times> (string \<Rightarrow> string list) \<Rightarrow> (string \<Rightarrow> nat) \<times> (string \<Rightarrow> string list)" where
  "add_edge e g = (case (e, g) of ((n, i), (ind, deps)) \<Rightarrow> (ind(i := ind i + 1), deps(n := deps n @ [i])))"

definition build_graph :: "runbook \<Rightarrow> (string \<Rightarrow> nat) \<times> (string \<Rightarrow> string list)" where
  "build_graph rb = fold add_edge (rb_edges rb) (\<lambda>_. 0, \<lambda>_. [])"

text \<open>\<open>usize\<close> subtraction of the release build wraps.\<close>

definition usize_dec :: "nat \<Rightarrow> nat" where
  "usize_dec n = (if n = 0 then 2 ^ 64 - 1 else n - 1)"

fun relax :: "string list \<Rightarrow> (string \<Rightarrow> nat) \<Rightarrow> string list \<Rightarrow> (string \<Rightarrow> nat) \<times> string list" where
  "relax [] ind q = (ind, q)"
| "relax (c # cs) ind q =
     (let e = usize_dec (ind c) in relax cs (ind(c := e)) (if e = 0 then q @ [c] else q))"

text \<open>The loop over the queue. The fuel counts its turns; \<open>kahn_drains\<close> shows that it is enough.\<close>

fun kahn ::
    "nat \<Rightarrow> (string \<Rightarrow> string list) \<Rightarrow> string list \<Rightarrow> string list \<Rightarrow> (string \<Rightarrow> nat)
       \<Rightarrow> string list \<times> string list \<times> (string \<Rightarrow> nat)" where
  "kahn fuel deps [] ord ind = ([], ord, ind)"
| "kahn 0 deps (i # q) ord ind = (i # q, ord, ind)"
| "kahn (Suc fuel) deps (i # q) ord ind =
     (let (ind', q') = relax (deps i) ind q in kahn fuel deps q' (ord @ [i]) ind')"

definition topological_order :: "runbook \<Rightarrow> string list + string list" where
  "topological_order rb =
     (let (ind, deps) = build_graph rb;
          queue = distinct_first [] (filter (\<lambda>i. ind i = 0) (step_ids rb));
          (_, ord, ind') = kahn (length (rb_steps rb)) deps queue [] ind
      in if length ord = card (set (step_ids rb)) then Inr ord
         else Inl (sorted_list_of_set (set (filter (\<lambda>i. 0 < ind' i) (step_ids rb)))))"

section \<open>The checker\<close>

datatype severity = SevError | SevWarning

datatype diag_kind = UnknownCapability | MissingNeed | CycleFound | TypeMismatch | UnknownParam | MissingParam
  | UndeclaredDataDep | OverPrivileged | DuplicateStepId

record diagnostic =
  dg_severity :: severity
  dg_kind :: diag_kind
  dg_step :: "string option"
  dg_message :: string

definition diag_error :: "diag_kind \<Rightarrow> string option \<Rightarrow> string \<Rightarrow> diagnostic" where
  "diag_error k s m = \<lparr> dg_severity = SevError, dg_kind = k, dg_step = s, dg_message = m \<rparr>"

definition diag_warn :: "diag_kind \<Rightarrow> string option \<Rightarrow> string \<Rightarrow> diagnostic" where
  "diag_warn k s m = \<lparr> dg_severity = SevWarning, dg_kind = k, dg_step = s, dg_message = m \<rparr>"

fun repeats :: "string list \<Rightarrow> string list \<Rightarrow> string list" where
  "repeats seen [] = []"
| "repeats seen (i # is) = (if i \<in> set seen then i # repeats seen is else repeats (i # seen) is)"

definition note_out :: "registry \<Rightarrow> step \<Rightarrow> (string \<Rightarrow> ty option) \<Rightarrow> string \<Rightarrow> ty option" where
  "note_out reg s m =
     (case (reg_get reg (st_uses s), st_out s) of
        (Some cap, Some _) \<Rightarrow> m(st_id s \<mapsto> cap_out cap) | _ \<Rightarrow> m)"

definition out_types :: "runbook \<Rightarrow> registry \<Rightarrow> string \<Rightarrow> ty option" where
  "out_types rb reg = fold (note_out reg) (rb_steps rb) Map.empty"

definition in_step :: "string \<Rightarrow> string" where
  "in_step i = ''step '' @ dquoted i"

definition dangling_ref :: "string \<Rightarrow> string \<Rightarrow> string \<Rightarrow> string \<Rightarrow> diagnostic" where
  "dangling_ref i key p q = diag_error MissingNeed (Some i)
     (in_step i @ '': '' @ dquoted key @ '' references '' @ dquoted (p @ ''.'' @ q) @ '', but '' @ dquoted p @ '' is not a step'')"

definition undeclared_ref :: "string \<Rightarrow> string \<Rightarrow> string \<Rightarrow> diagnostic" where
  "undeclared_ref i key p = diag_error UndeclaredDataDep (Some i)
     (in_step i @ '': '' @ dquoted key @ '' references '' @ dquoted p @ '' but does not list it in `needs`'')"

definition malformed_ref :: "(string \<Rightarrow> string) \<Rightarrow> string \<Rightarrow> string \<Rightarrow> diagnostic" where
  "malformed_ref dbg i raw = diag_error UndeclaredDataDep (Some i)
     (in_step i @ '': malformed reference '' @ dbg raw @ '' (want ${producer.output})'')"

text \<open>One \<open>with\<close> entry of a step whose capability is known. \<open>dbg\<close> is the \<open>Debug\<close> form of a string.\<close>

definition check_input ::
    "(string \<Rightarrow> string) \<Rightarrow> runbook \<Rightarrow> registry \<Rightarrow> step \<Rightarrow> capability \<Rightarrow> string \<times> expr \<Rightarrow> diagnostic list" where
  "check_input dbg rb reg s cap kv =
     (let i = st_id s; key = fst kv in
      case cap_param cap key of
        None \<Rightarrow> [diag_error UnknownParam (Some i)
          (in_step i @ '': capability '' @ dquoted (cap_name cap) @ '' has no parameter '' @ dquoted key)]
      | Some pm \<Rightarrow>
          (case snd kv of
             Literal t v \<Rightarrow>
               if t \<noteq> pm_ty pm then [diag_error TypeMismatch (Some i)
                 (in_step i @ '': parameter '' @ dquoted key @ '' expects '' @ ty_label (pm_ty pm) @ '', got '' @ ty_label t @ '' literal'')]
               else []
           | BadRef raw \<Rightarrow> [malformed_ref dbg i raw]
           | Ref p q \<Rightarrow>
               if p \<notin> set (step_ids rb) then [dangling_ref i key p q]
               else (if p \<notin> set (st_needs s) then [undeclared_ref i key p] else []) @
                 (case Option.bind (rb_step rb p) st_out of
                    Some pname \<Rightarrow>
                      if pname = q then
                        (case out_types rb reg p of
                           Some pty \<Rightarrow>
                             if pty \<noteq> pm_ty pm then [diag_error TypeMismatch (Some i)
                               (in_step i @ '': '' @ dquoted key @ '' expects '' @ ty_label (pm_ty pm) @ '', but ''
                                 @ dquoted (p @ ''.'' @ q) @ '' produces '' @ ty_label pty)]
                             else []
                         | None \<Rightarrow> [])
                      else [diag_error MissingNeed (Some i)
                        (in_step i @ '': '' @ dquoted p @ '' does not publish an output named '' @ dquoted q)]
                  | None \<Rightarrow> [diag_error MissingNeed (Some i)
                        (in_step i @ '': '' @ dquoted p @ '' does not publish an output named '' @ dquoted q)])))"

definition check_refs_only :: "(string \<Rightarrow> string) \<Rightarrow> runbook \<Rightarrow> step \<Rightarrow> diagnostic list" where
  "check_refs_only dbg rb s =
     concat (map (\<lambda>(key, e). case e of
        Ref p q \<Rightarrow> if p \<notin> set (step_ids rb) then [dangling_ref (st_id s) key p q]
                   else if p \<notin> set (st_needs s) then [undeclared_ref (st_id s) key p] else []
      | BadRef raw \<Rightarrow> [malformed_ref dbg (st_id s) raw]
      | Literal _ _ \<Rightarrow> []) (st_with s))"

definition check_step :: "(string \<Rightarrow> string) \<Rightarrow> runbook \<Rightarrow> registry \<Rightarrow> step \<Rightarrow> diagnostic list" where
  "check_step dbg rb reg s =
     (let i = st_id s in
      concat (map (\<lambda>n. if n \<notin> set (step_ids rb) then [diag_error MissingNeed (Some i)
          (in_step i @ '' needs '' @ dquoted n @ '', which is not a step in this runbook'')] else []) (st_needs s)) @
      (case reg_get reg (st_uses s) of
         None \<Rightarrow> diag_error UnknownCapability (Some i) (in_step i @ '' uses unknown capability '' @ dquoted (st_uses s))
                 # check_refs_only dbg rb s
       | Some cap \<Rightarrow>
           (if cap_privilege cap = PConsequential then [diag_warn OverPrivileged (Some i)
              (in_step i @ '' uses consequential '' @ kind_label (cap_kind cap) @ '' '' @ dquoted (cap_name cap) @ '' '' @ dash @
               '' it will PARK for a fresh spoken confirmation at run time; the runbook cannot pre-approve it'')] else []) @
           concat (map (check_input dbg rb reg s cap) (st_with s)) @
           concat (map (\<lambda>p. if pm_required p \<and> pm_name p \<notin> set (map fst (st_with s)) then [diag_error MissingParam (Some i)
              (in_step i @ '': required parameter '' @ dquoted (pm_name p) @ '' ('' @ ty_label (pm_ty p) @ '') is missing'')] else [])
             (cap_params cap))))"

definition check :: "(string \<Rightarrow> string) \<Rightarrow> runbook \<Rightarrow> registry \<Rightarrow> diagnostic list" where
  "check dbg rb reg =
     map (\<lambda>d. diag_error DuplicateStepId (Some d) (''duplicate step id '' @ dquoted d))
       (distinct_first [] (repeats [] (step_ids rb))) @
     concat (map (check_step dbg rb reg) (rb_steps rb)) @
     (case topological_order rb of
        Inl cycle \<Rightarrow> [diag_error CycleFound None (''the runbook has a dependency cycle among: '' @ join '', '' cycle)]
      | Inr _ \<Rightarrow> [])"

definition has_errors :: "diagnostic list \<Rightarrow> bool" where
  "has_errors ds \<longleftrightarrow> list_ex (\<lambda>d. dg_severity d = SevError) ds"

end
