(* ===== verification/RunbookOrder.thy ===== *)
theory RunbookOrder
  imports Runbook
begin

text \<open>
  The topological order of a runbook is exact: the loop ends, an order is returned exactly when the
  steps have no cyclic dependency, it lists every step after its predecessors, and otherwise the
  steps that are reported are exactly those on or behind a cycle.
\<close>

section \<open>The graph the loop works on\<close>

lemma build_graph_fold:
  "fold add_edge E (ind, deps) =
     (\<lambda>c. ind c + length (filter (\<lambda>e. snd e = c) E), \<lambda>n. deps n @ map snd (filter (\<lambda>e. fst e = n) E))"
proof (induction E arbitrary: ind deps)
  case (Cons e E)
  obtain n i where e: "e = (n, i)" by (cases e)
  have "fold add_edge (e # E) (ind, deps) = fold add_edge E (ind(i := ind i + 1), deps(n := deps n @ [i]))"
    by (simp only: fold.simps o_apply e add_edge_def prod.case)
  then show ?case unfolding Cons.IH by (simp add: e fun_eq_iff)
qed simp

lemma needs_edges_set:
  "set (needs_edges ids i seen ns) = {(n, i) | n. n \<in> set ns \<and> n \<in> set ids \<and> n \<noteq> i \<and> n \<notin> set seen}"
  by (induction ns arbitrary: seen) auto

lemma rb_edges_set:
  "(n, i) \<in> set (rb_edges rb) \<longleftrightarrow>
     (\<exists>s \<in> set (rb_steps rb). st_id s = i \<and> n \<in> set (st_needs s)) \<and> n \<in> set (step_ids rb) \<and> n \<noteq> i"
  by (auto simp: rb_edges_def needs_edges_set)

lemma distinct_first_set: "set (distinct_first seen xs) = set xs - set seen"
  by (induction xs arbitrary: seen) auto

lemma distinct_first_distinct: "distinct (distinct_first seen xs)"
  by (induction xs arbitrary: seen) (auto simp: distinct_first_set)

lemma relax_spec:
  "\<forall>c \<in> set cs. count_list cs c \<le> ind c \<Longrightarrow>
     \<exists>new. relax cs ind q = (\<lambda>c. ind c - count_list cs c, q @ new) \<and> distinct new
       \<and> set new = {c \<in> set cs. ind c = count_list cs c}"
proof (induction cs arbitrary: ind q)
  case (Cons d cs)
  let ?ind = "ind(d := ind d - 1)" and ?q = "if ind d - 1 = 0 then q @ [d] else q"
  have d: "1 + count_list cs d \<le> ind d" using Cons.prems by simp
  have "\<forall>c \<in> set cs. count_list cs c \<le> ?ind c" using Cons.prems by (auto split: if_splits)
  from Cons.IH [OF this, of ?q] obtain new where new: "relax cs ?ind ?q = (\<lambda>c. ?ind c - count_list cs c, ?q @ new)"
      "distinct new" "set new = {c \<in> set cs. ?ind c = count_list cs c}" by blast
  have r: "relax (d # cs) ind q = (\<lambda>c. ind c - count_list (d # cs) c, ?q @ new)"
    using new(1) d by (simp add: usize_dec_def Let_def fun_eq_iff)
  show ?case
  proof (cases "ind d = 1")
    case True
    then have z: "count_list cs d = 0" using d by simp
    then have "d \<notin> set cs" by (metis count_list_0_iff)
    then have "distinct (d # new)" "set (d # new) = {c \<in> set (d # cs). ind c = count_list (d # cs) c}"
      using new True z by auto
    then show ?thesis using r True by auto
  next
    case False
    then have "set new = {c \<in> set (d # cs). ind c = count_list (d # cs) c}" using new(3) d by auto
    then show ?thesis using r new(2) d False by auto
  qed
qed simp

lemma filter_pop:
  "i \<notin> set ord \<Longrightarrow> length (filter (\<lambda>e. snd e = c \<and> fst e \<notin> set ord) E) =
     length (filter (\<lambda>e. snd e = c \<and> fst e \<notin> set (ord @ [i])) E) + length (filter (\<lambda>e. fst e = i \<and> snd e = c) E)"
  by (induction E) auto

locale step_graph =
  fixes ids :: "string set" and E :: "(string \<times> string) list"
  assumes finite_ids: "finite ids" and within: "(n, c) \<in> set E \<Longrightarrow> n \<in> ids \<and> c \<in> ids"
begin

definition pending_edges :: "string list \<Rightarrow> string \<Rightarrow> nat" where
  "pending_edges ord c = length (filter (\<lambda>e. snd e = c \<and> fst e \<notin> set ord) E)"

definition before :: "string list \<Rightarrow> bool" where
  "before ord \<longleftrightarrow> (\<forall>i < length ord. \<forall>n. (n, ord ! i) \<in> set E \<longrightarrow> n \<in> set (take i ord))"

definition kahn_inv :: "string list \<Rightarrow> string list \<Rightarrow> (string \<Rightarrow> nat) \<Rightarrow> bool" where
  "kahn_inv q ord ind \<longleftrightarrow> distinct (ord @ q) \<and> set (ord @ q) \<subseteq> ids \<and> ind = pending_edges ord
     \<and> (\<forall>c \<in> ids. ind c = 0 \<longleftrightarrow> c \<in> set (ord @ q)) \<and> before ord"

definition children :: "string \<Rightarrow> string list" where
  "children n = map snd (filter (\<lambda>e. fst e = n) E)"

lemma kahn_invD:
  assumes "kahn_inv q ord ind"
  shows "distinct (ord @ q)" "set (ord @ q) \<subseteq> ids" "ind = pending_edges ord"
    "\<forall>c \<in> ids. ind c = 0 \<longleftrightarrow> c \<in> set (ord @ q)" "before ord"
proof -
  note a = assms [unfolded kahn_inv_def]
  note b = conjunct2 [OF a]
  note c = conjunct2 [OF b]
  note d = conjunct2 [OF c]
  show "distinct (ord @ q)" "set (ord @ q) \<subseteq> ids" "ind = pending_edges ord"
    "\<forall>c \<in> ids. ind c = 0 \<longleftrightarrow> c \<in> set (ord @ q)" "before ord"
    by (rule conjunct1 [OF a] conjunct1 [OF b] conjunct1 [OF c] conjunct1 [OF d] conjunct2 [OF d])+
qed

lemma pending_zero: "pending_edges ord c = 0 \<longleftrightarrow> (\<forall>n. (n, c) \<in> set E \<longrightarrow> n \<in> set ord)"
  by (auto simp: pending_edges_def filter_empty_conv)

lemma count_children: "count_list (children n) c = length (filter (\<lambda>e. fst e = n \<and> snd e = c) E)"
  unfolding children_def by (induction E) auto

lemma pending_pop:
  assumes "i \<notin> set ord"
  shows "pending_edges ord c = pending_edges (ord @ [i]) c + count_list (children i) c"
  unfolding pending_edges_def count_children by (rule filter_pop [OF assms])

lemma before_snoc: "before ord \<Longrightarrow> (\<forall>n. (n, i) \<in> set E \<longrightarrow> n \<in> set ord) \<Longrightarrow> before (ord @ [i])"
  unfolding before_def
proof (intro allI impI)
  fix j n
  assume b: "\<forall>j < length ord. \<forall>n. (n, ord ! j) \<in> set E \<longrightarrow> n \<in> set (take j ord)"
    and i: "\<forall>n. (n, i) \<in> set E \<longrightarrow> n \<in> set ord"
    and j: "j < length (ord @ [i])" "(n, (ord @ [i]) ! j) \<in> set E"
  show "n \<in> set (take j (ord @ [i]))"
  proof (cases "j < length ord")
    case True
    then show ?thesis using b j(2) by (simp add: nth_append)
  next
    case False
    then have "j = length ord" using j(1) by simp
    then show ?thesis using i j(2) by simp
  qed
qed

lemma kahn_inv_step:
  assumes "kahn_inv (i # q) ord ind"
  shows "\<exists>ind' q'. relax (children i) ind q = (ind', q') \<and> kahn_inv q' (ord @ [i]) ind'"
proof -
  note inv = kahn_invD [OF assms]
  have mem: "i \<notin> set ord" "i \<in> ids" using inv(1,2) by simp_all
  have i: "i \<notin> set ord" "i \<in> ids" "ind i = 0" using mem bspec [OF inv(4) mem(2)] by simp_all
  have pop: "ind c = pending_edges (ord @ [i]) c + count_list (children i) c" for c
    using pending_pop [OF i(1)] inv(3) by simp
  then have "\<forall>c \<in> set (children i). count_list (children i) c \<le> ind c" by simp
  from relax_spec [OF this, of q] obtain new where new:
      "relax (children i) ind q = (\<lambda>c. ind c - count_list (children i) c, q @ new)" "distinct new"
      "set new = {c \<in> set (children i). ind c = count_list (children i) c}" by blast
  have ind': "(\<lambda>c. ind c - count_list (children i) c) = pending_edges (ord @ [i])" using pop by (simp add: fun_eq_iff)
  have child: "0 < ind c" if "c \<in> set (children i)" for c
    using that pop [of c] by (metis add_gr_0 count_list_0_iff gr0I)
  have ids: "set new \<subseteq> ids" using new(3) within by (auto simp: children_def)
  have fresh: "c \<notin> set (ord @ i # q)" if "c \<in> set new" for c
    using that new(3) child inv(4) ids by fastforce
  have zero: "pending_edges (ord @ [i]) c = 0 \<longleftrightarrow> c \<in> set ((ord @ [i]) @ q @ new)" if c: "c \<in> ids" for c
  proof (cases "ind c = 0")
    case True
    then show ?thesis using pop [of c] inv(4) c by auto
  next
    case False
    then have "c \<notin> set (ord @ i # q)" using bspec [OF inv(4) c] by simp
    moreover have "pending_edges (ord @ [i]) c = 0 \<longleftrightarrow> c \<in> set new"
      using pop [of c] False new(3) by (auto simp: count_list_0_iff)
    ultimately show ?thesis by auto
  qed
  have "before (ord @ [i])" using before_snoc [OF inv(5)] i(3) inv(3) pending_zero by metis
  moreover have "distinct ((ord @ [i]) @ q @ new)" using inv(1) new(2) fresh by auto
  moreover have "set ((ord @ [i]) @ q @ new) \<subseteq> ids" using inv(2) ids by auto
  ultimately have "kahn_inv (q @ new) (ord @ [i]) (pending_edges (ord @ [i]))"
    unfolding kahn_inv_def using zero by blast
  then show ?thesis using new(1) ind' by metis
qed

lemma kahn_drains:
  assumes "kahn_inv q ord ind" and "card ids - length ord \<le> fuel"
  shows "\<exists>ord' ind'. kahn fuel children q ord ind = ([], ord', ind') \<and> kahn_inv [] ord' ind'"
  using assms
proof (induction fuel arbitrary: q ord ind)
  case 0
  have "length (ord @ q) \<le> card ids"
    using 0(1) finite_ids by (metis card_mono distinct_card kahn_inv_def)
  then have "q = []" using 0(2) by (cases q) auto
  then show ?case using 0(1) by simp
next
  case (Suc fuel)
  show ?case
  proof (cases q)
    case Nil
    then show ?thesis using Suc.prems(1) by auto
  next
    case (Cons i q')
    obtain ind2 q2 where s: "relax (children i) ind q' = (ind2, q2)" "kahn_inv q2 (ord @ [i]) ind2"
      using kahn_inv_step Suc.prems(1) unfolding Cons by metis
    show ?thesis using Suc.IH [OF s(2)] Suc.prems(2) s(1) by (simp add: Cons)
  qed
qed

text \<open>When the queue is empty, the rest lies on or behind a cycle.\<close>

definition behind_cycle :: "string set" where
  "behind_cycle = {c. \<exists>x. (x, x) \<in> (set E)\<^sup>+ \<and> (x, c) \<in> (set E)\<^sup>*}"

lemma before_edge: "before ord \<Longrightarrow> (y, ord ! i) \<in> set E \<Longrightarrow> i < length ord \<Longrightarrow> \<exists>j < i. y = ord ! j"
  unfolding before_def by (metis in_set_conv_nth length_take min_less_iff_conj nth_take)

lemma before_path:
  assumes "before ord" and "(y, z) \<in> (set E)\<^sup>+" and "z = ord ! i" and "i < length ord"
  shows "\<exists>j < i. y = ord ! j"
  using assms(2-4)
proof (induction arbitrary: i rule: trancl_induct)
  case (base z)
  then show ?case using before_edge [OF assms(1)] by blast
next
  case (step y' z)
  then obtain j where "j < i" "y' = ord ! j" using before_edge [OF assms(1)] by blast
  then show ?case using step.IH [of j] step.prems by (meson less_trans)
qed

lemma before_closed:
  assumes "before ord" and "c \<in> set ord" and "(x, c) \<in> (set E)\<^sup>*"
  shows "x \<in> set ord"
proof (cases "x = c")
  case False
  obtain i where i: "c = ord ! i" "i < length ord" using assms(2) by (metis in_set_conv_nth)
  have "(x, c) \<in> (set E)\<^sup>+" using False assms(3) by (metis rtranclD)
  then obtain j where "j < i" "x = ord ! j" using before_path [OF assms(1) _ i] by blast
  then show ?thesis using i(2) by simp
qed (use assms in simp)

lemma before_acyclic:
  assumes "before ord" and "distinct ord" and "x \<in> set ord"
  shows "(x, x) \<notin> (set E)\<^sup>+"
proof
  assume "(x, x) \<in> (set E)\<^sup>+"
  moreover obtain i where i: "x = ord ! i" "i < length ord" using assms(3) by (metis in_set_conv_nth)
  ultimately obtain j where "j < i" "x = ord ! j" using before_path [OF assms(1) _ i] by blast
  then show False using i assms(2) nth_eq_iff_index_eq by fastforce
qed

lemma rest_behind_cycle:
  assumes "kahn_inv [] ord ind"
  shows "ids - set ord = behind_cycle \<inter> ids"
proof (intro equalityI subsetI)
  fix c assume c: "c \<in> behind_cycle \<inter> ids"
  then obtain x where x: "(x, x) \<in> (set E)\<^sup>+" "(x, c) \<in> (set E)\<^sup>*" by (auto simp: behind_cycle_def)
  have "before ord" "distinct ord" using assms by (simp_all add: kahn_inv_def)
  then have "c \<notin> set ord" using x before_closed before_acyclic by blast
  then show "c \<in> ids - set ord" using c by simp
next
  fix c assume c: "c \<in> ids - set ord"
  have pred: "\<exists>n. (n, m) \<in> set E \<and> n \<in> ids - set ord" if m: "m \<in> ids - set ord" for m
  proof -
    have "pending_edges ord m \<noteq> 0" using assms m by (auto simp: kahn_inv_def)
    then obtain n where "(n, m) \<in> set E" "n \<notin> set ord" unfolding pending_zero by blast
    then show ?thesis using within [of n m] by blast
  qed
  show "c \<in> behind_cycle \<inter> ids"
  proof (rule ccontr)
    assume no: "c \<notin> behind_cycle \<inter> ids"
    let ?A = "{y \<in> ids - set ord. (y, c) \<in> (set E)\<^sup>*}"
    let ?r = "set E \<inter> ?A \<times> ?A"
    have "acyclic ?r"
      unfolding acyclic_def
    proof (intro allI notI)
      fix x assume x: "(x, x) \<in> ?r\<^sup>+"
      then obtain z where "(x, z) \<in> ?r" by (meson tranclD)
      then have xc: "(x, c) \<in> (set E)\<^sup>*" by simp
      have "(x, x) \<in> (set E)\<^sup>+" by (rule trancl_mono [OF x]) blast
      then have "c \<in> behind_cycle" using xc unfolding behind_cycle_def by (intro CollectI exI conjI)
      then show False using no c by simp
    qed
    moreover have "finite ?r" by simp
    ultimately have wf: "wf ?r" by (rule finite_acyclic_wf [rotated])
    have "c \<in> ?A" using c by simp
    then obtain m where m: "m \<in> ?A" "\<And>y. (y, m) \<in> ?r \<Longrightarrow> y \<notin> ?A" by (rule wfE_min [OF wf]) blast
    have "m \<in> ids - set ord" "(m, c) \<in> (set E)\<^sup>*" using m(1) by simp_all
    then obtain n where n: "(n, m) \<in> set E" "n \<in> ids - set ord" "(n, c) \<in> (set E)\<^sup>*"
      using pred [of m] converse_rtrancl_into_rtrancl [of _ m "set E" c] by metis
    then have nA: "n \<in> ?A" by simp
    have "(n, m) \<in> ?r" using n(1) nA m(1) by simp
    then show False using m(2) nA by (metis (lifting))
  qed
qed

lemma behind_cycle_ids: "behind_cycle \<subseteq> ids"
proof
  fix c assume "c \<in> behind_cycle"
  then obtain x where x: "(x, x) \<in> (set E)\<^sup>+" "(x, c) \<in> (set E)\<^sup>*" by (auto simp: behind_cycle_def)
  then have "(x, c) \<in> (set E)\<^sup>+" by (rule trancl_rtrancl_trancl)
  then show "c \<in> ids" using within by (metis tranclD2)
qed

end

text \<open>The graph of a runbook.\<close>

interpretation rbg: step_graph "set (step_ids rb)" "rb_edges rb" for rb
proof unfold_locales
  fix n c assume "(n, c) \<in> set (rb_edges rb)"
  then show "n \<in> set (step_ids rb) \<and> c \<in> set (step_ids rb)" unfolding rb_edges_set by (auto simp: step_ids_def)
qed simp

text \<open>
  What the steps say they need, of each other: a need of a step the runbook does not have is no
  dependency (the checker reports it), and neither is a step's need of itself.
\<close>

definition depends :: "runbook \<Rightarrow> (string \<times> string) set" where
  "depends rb = {(n, i). n \<noteq> i \<and> n \<in> st_id ` set (rb_steps rb)
     \<and> (\<exists>s \<in> set (rb_steps rb). st_id s = i \<and> n \<in> set (st_needs s))}"

lemma depends_edges: "depends rb = set (rb_edges rb)"
  by (auto simp: depends_def rb_edges_set step_ids_def)

lemma kahn_start:
  "rbg.kahn_inv rb (distinct_first [] (filter (\<lambda>i. fst (build_graph rb) i = 0) (step_ids rb))) [] (fst (build_graph rb))"
  "snd (build_graph rb) = rbg.children rb"
proof -
  have g: "build_graph rb = (rbg.pending_edges rb [], rbg.children rb)"
    by (simp add: build_graph_def build_graph_fold rbg.pending_edges_def rbg.children_def fun_eq_iff)
  show "snd (build_graph rb) = rbg.children rb" by (simp add: g)
  show "rbg.kahn_inv rb (distinct_first [] (filter (\<lambda>i. fst (build_graph rb) i = 0) (step_ids rb))) [] (fst (build_graph rb))"
    by (auto simp: g rbg.kahn_inv_def distinct_first_set distinct_first_distinct rbg.before_def)
qed

lemma topological_result:
  obtains ord ind where "rbg.kahn_inv rb [] ord ind"
    "topological_order rb = (if length ord = card (set (step_ids rb)) then Inr ord
       else Inl (sorted_list_of_set (set (filter (\<lambda>i. 0 < ind i) (step_ids rb)))))"
proof -
  have c: "card (set (step_ids rb)) - length [] \<le> length (rb_steps rb)"
    using card_length [of "step_ids rb"] by (simp add: step_ids_def)
  obtain ord ind where k: "kahn (length (rb_steps rb)) (snd (build_graph rb))
      (distinct_first [] (filter (\<lambda>i. fst (build_graph rb) i = 0) (step_ids rb))) [] (fst (build_graph rb)) = ([], ord, ind)"
      "rbg.kahn_inv rb [] ord ind"
    using rbg.kahn_drains [OF kahn_start(1) c] unfolding kahn_start(2) by metis
  show ?thesis
    by (rule that [OF k(2)]) (use k(1) in \<open>simp add: topological_order_def Let_def case_prod_beta\<close>)
qed

lemma topological_order_spec:
  "case topological_order rb of
     Inr ord \<Rightarrow> acyclic (depends rb) \<and> distinct ord \<and> set ord = set (step_ids rb)
       \<and> (\<forall>i < length ord. \<forall>n. (n, ord ! i) \<in> depends rb \<longrightarrow> n \<in> set (take i ord))
   | Inl cs \<Rightarrow> \<not> acyclic (depends rb) \<and> sorted cs \<and> distinct cs
       \<and> set cs = {c. \<exists>x. (x, x) \<in> (depends rb)\<^sup>+ \<and> (x, c) \<in> (depends rb)\<^sup>*}"
proof -
  obtain ord ind where inv: "rbg.kahn_inv rb [] ord ind" and t: "topological_order rb =
      (if length ord = card (set (step_ids rb)) then Inr ord
       else Inl (sorted_list_of_set (set (filter (\<lambda>i. 0 < ind i) (step_ids rb)))))"
    by (rule topological_result)
  have o: "distinct ord" "set ord \<subseteq> set (step_ids rb)" "rbg.before rb ord"
    and ind: "\<forall>c \<in> set (step_ids rb). ind c = 0 \<longleftrightarrow> c \<in> set ord"
    using rbg.kahn_invD [OF inv] by (simp_all only: append_Nil2)
  note rest = rbg.rest_behind_cycle [OF inv]
  show ?thesis
  proof (cases "length ord = card (set (step_ids rb))")
    case True
    have all: "set ord = set (step_ids rb)"
      using o(2) True distinct_card [OF o(1)] by (intro card_subset_eq) simp_all
    have "acyclic (depends rb)"
      unfolding acyclic_def depends_edges
    proof (intro allI notI)
      fix x assume x: "(x, x) \<in> (set (rb_edges rb))\<^sup>+"
      then have "x \<in> set (step_ids rb)" using rbg.within by (metis tranclD)
      then show False using x rbg.before_acyclic [OF o(3,1)] all by blast
    qed
    then show ?thesis using True o all by (simp add: t rbg.before_def depends_edges)
  next
    case False
    have "set ord \<noteq> set (step_ids rb)" using False distinct_card [OF o(1)] by metis
    then obtain c where "c \<in> rbg.behind_cycle rb" using rest o(2) by blast
    then have cyc: "\<not> acyclic (depends rb)" by (auto simp: rbg.behind_cycle_def acyclic_def depends_edges)
    have "set (filter (\<lambda>i. 0 < ind i) (step_ids rb)) = set (step_ids rb) - set ord" using ind by auto
    also have "\<dots> = rbg.behind_cycle rb" using rest rbg.behind_cycle_ids by blast
    finally have cs: "set (filter (\<lambda>i. 0 < ind i) (step_ids rb)) = rbg.behind_cycle rb" .
    have fin: "finite (rbg.behind_cycle rb)" unfolding cs [symmetric] by simp
    show ?thesis
      using cyc sorted_list_of_set(1) [OF fin]
      by (simp only: t cs False if_False sum.case sorted_sorted_list_of_set distinct_sorted_list_of_set simp_thms)
        (simp add: rbg.behind_cycle_def depends_edges)
  qed
qed

text \<open>
  C13. The topological order is exact, for the needs the steps declare of other steps. If an order is
  returned, it lists every distinct step once, each after all the other steps it needs, and those
  needs have no cycle. If it is refused, there is a cycle through two or more steps, and the steps
  named are exactly those on such a cycle or behind one, sorted. The loop always ends within as many
  turns as there are steps. A step's need of itself counts for nothing here, as in the code: such a
  step is ordered like any other.
\<close>
theorem topological_order_exact:
  "case topological_order rb of
     Inr ord \<Rightarrow> acyclic (depends rb) \<and> distinct ord \<and> set ord = set (step_ids rb)
       \<and> (\<forall>i < length ord. \<forall>n. (n, ord ! i) \<in> depends rb \<longrightarrow> n \<in> set (take i ord))
   | Inl cs \<Rightarrow> \<not> acyclic (depends rb) \<and> sorted cs \<and> distinct cs
       \<and> set cs = {c. \<exists>x. (x, x) \<in> (depends rb)\<^sup>+ \<and> (x, c) \<in> (depends rb)\<^sup>*}"
  by (rule topological_order_spec)

definition demo_step :: "string \<Rightarrow> string list \<Rightarrow> step" where
  "demo_step i ns = \<lparr> st_id = i, st_uses = ''distill'', st_with = [], st_needs = ns, st_out = None \<rparr>"

definition demo_diamond :: runbook where
  "demo_diamond = \<lparr> rb_name = ''r'', rb_steps =
     [demo_step ''d'' [''b'', ''c''], demo_step ''b'' [''a''], demo_step ''c'' [''a'', ''a''], demo_step ''a'' []] \<rparr>"

definition demo_knot :: runbook where
  "demo_knot = \<lparr> rb_name = ''r'', rb_steps =
     [demo_step ''c'' [''b''], demo_step ''b'' [''a''], demo_step ''a'' [''b''], demo_step ''z'' []] \<rparr>"

definition demo_selfish :: runbook where
  "demo_selfish = \<lparr> rb_name = ''r'', rb_steps = [demo_step ''b'' [''b'', ''a'', ''none''], demo_step ''a'' []] \<rparr>"

lemma topological_order_exact_witness:
  "topological_order demo_diamond = Inr [''a'', ''b'', ''c'', ''d''] \<and> acyclic (depends demo_diamond)
   \<and> topological_order demo_knot = Inl [''a'', ''b'', ''c''] \<and> \<not> acyclic (depends demo_knot)
   \<and> topological_order demo_selfish = Inr [''a'', ''b''] \<and> acyclic (depends demo_selfish)"
proof -
  have d: "topological_order demo_diamond = Inr [''a'', ''b'', ''c'', ''d'']" by code_simp
  have k: "topological_order demo_knot = Inl [''a'', ''b'', ''c'']" by code_simp
  have e: "topological_order demo_selfish = Inr [''a'', ''b'']" by code_simp
  show ?thesis
    using topological_order_exact [of demo_diamond] topological_order_exact [of demo_knot]
      topological_order_exact [of demo_selfish] by (simp add: d k e)
qed

end
