(* ===== verification/RunbookCheck.thy ===== *)
theory RunbookCheck
  imports RunbookOrder
begin

text \<open>
  What the checker accepts, as a typing judgement on runbooks, and the proof that the checker
  decides it.
\<close>

definition input_typed :: "runbook \<Rightarrow> registry \<Rightarrow> step \<Rightarrow> capability \<Rightarrow> string \<times> expr \<Rightarrow> bool" where
  "input_typed rb reg s cap kv \<longleftrightarrow>
     (case cap_param cap (fst kv) of
        None \<Rightarrow> False
      | Some pm \<Rightarrow>
          (case snd kv of
             Literal t v \<Rightarrow> t = pm_ty pm
           | BadRef raw \<Rightarrow> False
           | Ref p q \<Rightarrow> p \<in> set (st_needs s)
               \<and> (case rb_step rb p of None \<Rightarrow> False
                  | Some s' \<Rightarrow> st_out s' = Some q
                      \<and> (case reg_get reg (st_uses s') of None \<Rightarrow> True | Some c \<Rightarrow> cap_out c = pm_ty pm))))"

definition step_typed :: "runbook \<Rightarrow> registry \<Rightarrow> step \<Rightarrow> bool" where
  "step_typed rb reg s \<longleftrightarrow> set (st_needs s) \<subseteq> set (step_ids rb)
     \<and> (case reg_get reg (st_uses s) of None \<Rightarrow> False
        | Some cap \<Rightarrow> list_all (input_typed rb reg s cap) (st_with s)
            \<and> list_all (\<lambda>p. pm_required p \<longrightarrow> pm_name p \<in> set (map fst (st_with s))) (cap_params cap))"

definition well_typed :: "runbook \<Rightarrow> registry \<Rightarrow> bool" where
  "well_typed rb reg \<longleftrightarrow> distinct (step_ids rb) \<and> list_all (step_typed rb reg) (rb_steps rb) \<and> acyclic (depends rb)"

lemma rb_step_ids: "rb_step rb p = None \<longleftrightarrow> p \<notin> set (step_ids rb)"
  by (auto simp: rb_step_def find_None_iff step_ids_def)

lemma rb_step_Some: "rb_step rb p = Some s \<Longrightarrow> st_id s = p \<and> s \<in> set (rb_steps rb)"
  by (auto simp: rb_step_def find_Some_iff)

lemma rb_step_unique: "distinct (step_ids rb) \<Longrightarrow> s \<in> set (rb_steps rb) \<Longrightarrow> rb_step rb (st_id s) = Some s"
proof -
  assume d: "distinct (step_ids rb)" and s: "s \<in> set (rb_steps rb)"
  then have "rb_step rb (st_id s) \<noteq> None" by (simp add: rb_step_ids step_ids_def)
  then obtain s' where "rb_step rb (st_id s) = Some s'" by blast
  moreover from rb_step_Some [OF this] have "s' = s"
    using d s by (auto simp: step_ids_def distinct_map dest: inj_onD)
  ultimately show ?thesis by simp
qed

text \<open>The table of output types is the lookup of the step, when ids are distinct.\<close>

definition declared_out :: "registry \<Rightarrow> step \<Rightarrow> ty option" where
  "declared_out reg s = (case (reg_get reg (st_uses s), st_out s) of (Some cap, Some _) \<Rightarrow> Some (cap_out cap) | _ \<Rightarrow> None)"

lemma note_out_eq: "note_out reg s m = (case declared_out reg s of None \<Rightarrow> m | Some t \<Rightarrow> m(st_id s \<mapsto> t))"
  by (auto simp: note_out_def declared_out_def split: option.splits)

lemma out_types_fold:
  assumes "distinct (map st_id ss)"
  shows "fold (note_out reg) ss m p =
     (case find (\<lambda>s. st_id s = p) ss of None \<Rightarrow> m p
      | Some s \<Rightarrow> (case declared_out reg s of None \<Rightarrow> m p | Some t \<Rightarrow> Some t))"
  using assms
proof (induction ss arbitrary: m)
  case (Cons s ss)
  have none: "find (\<lambda>s. st_id s = p) ss = None" if "p = st_id s"
    using Cons.prems that by (auto simp: find_None_iff) (metis image_eqI)
  show ?case
    using Cons.IH [of "note_out reg s m"] Cons.prems none by (auto simp: note_out_eq split: option.splits)
qed simp

lemma out_types_step:
  assumes "distinct (step_ids rb)" and "rb_step rb p = Some s"
  shows "out_types rb reg p = declared_out reg s"
  using out_types_fold [of "rb_steps rb" reg Map.empty p] assms
  by (simp add: out_types_def step_ids_def rb_step_def split: option.splits)

section \<open>Errors of each part\<close>

lemmas diag_sev = diag_error_def diag_warn_def dangling_ref_def undeclared_ref_def malformed_ref_def

lemma errors_append [simp]: "has_errors (a @ b) \<longleftrightarrow> has_errors a \<or> has_errors b"
  by (simp add: has_errors_def)

lemma errors_concat_map: "has_errors (concat (map f xs)) \<longleftrightarrow> (\<exists>x \<in> set xs. has_errors (f x))"
  by (induction xs) (auto simp: has_errors_def)

lemma errors_list [simp]: "\<not> has_errors []" "has_errors (d # ds) \<longleftrightarrow> dg_severity d = SevError \<or> has_errors ds"
  by (simp_all add: has_errors_def)

lemma errors_if: "has_errors (if b then ds else es) \<longleftrightarrow> (if b then has_errors ds else has_errors es)"
  by simp

lemma input_errors:
  assumes "distinct (step_ids rb)"
  shows "has_errors (check_input dbg rb reg s cap kv) \<longleftrightarrow> \<not> input_typed rb reg s cap kv"
proof (cases "cap_param cap (fst kv)")
  case None
  then show ?thesis by (simp add: check_input_def input_typed_def diag_sev Let_def)
next
  case (Some pm)
  show ?thesis
  proof (cases "snd kv")
    case (Ref p q)
    show ?thesis
    proof (cases "rb_step rb p")
      case None
      then have "p \<notin> set (step_ids rb)" by (simp add: rb_step_ids)
      then show ?thesis by (simp add: check_input_def input_typed_def Some Ref None diag_sev Let_def)
    next
      case (Some s')
      then have "p \<in> set (step_ids rb)" using rb_step_ids [of rb p] by simp
      then show ?thesis
        using out_types_step [OF assms Some, of reg]
        by (auto simp: check_input_def input_typed_def \<open>cap_param cap (fst kv) = Some pm\<close> Ref Some diag_sev Let_def declared_out_def
            split: option.splits)
    qed
  qed (simp_all add: check_input_def input_typed_def Some diag_sev Let_def)
qed

lemma step_errors:
  assumes "distinct (step_ids rb)"
  shows "has_errors (check_step dbg rb reg s) \<longleftrightarrow> \<not> step_typed rb reg s"
proof (cases "reg_get reg (st_uses s)")
  case None
  then show ?thesis by (simp add: check_step_def step_typed_def diag_sev Let_def)
next
  case (Some cap)
  have needs: "has_errors (concat (map (\<lambda>n. if n \<notin> set (step_ids rb) then [diag_error MissingNeed j (m n)] else []) ns))
      \<longleftrightarrow> \<not> set ns \<subseteq> set (step_ids rb)" for j m ns
    unfolding errors_concat_map by (auto simp: diag_sev)
  have params: "has_errors (concat (map (\<lambda>p. if pm_required p \<and> pm_name p \<notin> K then [diag_error MissingParam j (m p)] else []) ps))
      \<longleftrightarrow> \<not> list_all (\<lambda>p. pm_required p \<longrightarrow> pm_name p \<in> K) ps" for j m ps K
    unfolding errors_concat_map by (auto simp: diag_sev list_all_iff)
  have inputs: "has_errors (concat (map (check_input dbg rb reg s cap) (st_with s)))
      \<longleftrightarrow> \<not> list_all (input_typed rb reg s cap) (st_with s)"
    unfolding errors_concat_map input_errors [OF assms] by (auto simp: list_all_iff)
  have warn: "\<not> has_errors (if b then [diag_warn k j m] else [])" for b k j m by (simp add: diag_sev)
  show ?thesis
    by (simp only: check_step_def step_typed_def Some Let_def option.case errors_append needs params inputs warn) blast
qed

lemma repeats_Nil: "repeats seen xs = [] \<longleftrightarrow> distinct xs \<and> set xs \<inter> set seen = {}"
  by (induction xs arbitrary: seen) auto

lemma duplicate_errors:
  "distinct_first [] (repeats [] xs) = [] \<longleftrightarrow> distinct xs"
  using distinct_first_set [of "[]" "repeats [] xs"] repeats_Nil [of "[]" xs] by (metis Diff_empty empty_set inf_bot_right set_empty)

lemma order_errors: "(\<exists>ord. topological_order rb = Inr ord) \<longleftrightarrow> acyclic (depends rb)"
  using topological_order_spec [of rb] by (cases "topological_order rb") auto

lemma check_decides: "\<not> has_errors (check dbg rb reg) \<longleftrightarrow> well_typed rb reg"
proof -
  have d: "has_errors (map (\<lambda>d. diag_error DuplicateStepId (Some d) (m d)) ds) \<longleftrightarrow> ds \<noteq> []" for m and ds :: "string list"
    by (cases ds) (simp_all add: diag_sev)
  have c: "has_errors (case topological_order rb of Inl cycle \<Rightarrow> [diag_error CycleFound None (m cycle)] | Inr _ \<Rightarrow> [])
      \<longleftrightarrow> \<not> acyclic (depends rb)" for m
    using order_errors [of rb] by (cases "topological_order rb") (auto simp: diag_sev)
  show ?thesis
  proof (cases "distinct (step_ids rb)")
    case True
    have "has_errors (concat (map (check_step dbg rb reg) (rb_steps rb))) \<longleftrightarrow> \<not> list_all (step_typed rb reg) (rb_steps rb)"
      unfolding errors_concat_map step_errors [OF True] by (auto simp: list_all_iff)
    then show ?thesis using True by (simp add: check_def well_typed_def d c duplicate_errors)
  next
    case False
    then show ?thesis by (simp add: check_def well_typed_def d duplicate_errors)
  qed
qed

text \<open>
  C12. The checker decides well-typedness: it reports no error exactly when step ids are distinct,
  every need names a step, every capability is known, every input has the declared type of its
  parameter (a reference being to a declared dependency that publishes that output at that type),
  no required parameter is missing and the dependencies have no cycle.
\<close>
theorem check_accepts_exactly: "\<not> has_errors (check dbg rb reg) \<longleftrightarrow> well_typed rb reg"
  by (rule check_decides)

end
