(* ===== verification/RunbookRun.thy ===== *)
theory RunbookRun
  imports RunbookCheck "HOL-Library.Sublist"
begin

text \<open>
  The plan and the executor of \<open>daemon/src/runbook.rs\<close>. The router is an argument, as in the code:
  a function from a resolved step and a state to a new state and what it did with the step.
\<close>

section \<open>The plan\<close>

datatype input_source = SrcLiteral ty | SrcEdge string string | SrcBad string

record plan_step =
  ps_id :: string
  ps_uses :: string
  ps_will_park :: bool
  ps_known :: bool
  ps_inputs :: "(string \<times> input_source) list"
  ps_produces :: "string option"

record run_plan =
  rp_name :: string
  rp_steps :: "plan_step list"
  rp_park_count :: nat
  rp_diagnostics :: "diagnostic list"

definition is_runnable :: "run_plan \<Rightarrow> bool" where
  "is_runnable p \<longleftrightarrow> \<not> has_errors (rp_diagnostics p)"

definition source_of :: "expr \<Rightarrow> input_source" where
  "source_of e = (case e of Literal t v \<Rightarrow> SrcLiteral t | Ref p q \<Rightarrow> SrcEdge p q | BadRef raw \<Rightarrow> SrcBad raw)"

definition step_consequential :: "registry \<Rightarrow> step \<Rightarrow> bool" where
  "step_consequential reg s = (map_option cap_privilege (reg_get reg (st_uses s)) = Some PConsequential)"

definition walk_order :: "runbook \<Rightarrow> string list" where
  "walk_order rb = (case topological_order rb of Inr ord \<Rightarrow> ord | Inl _ \<Rightarrow> step_ids rb)"

definition plan_of_step :: "registry \<Rightarrow> step \<Rightarrow> plan_step" where
  "plan_of_step reg s =
     \<lparr> ps_id = st_id s, ps_uses = st_uses s, ps_will_park = step_consequential reg s,
       ps_known = (reg_get reg (st_uses s) \<noteq> None),
       ps_inputs = sort_key fst (map (\<lambda>(k, e). (k, source_of e)) (st_with s)), ps_produces = st_out s \<rparr>"

definition plan_runbook :: "(string \<Rightarrow> string) \<Rightarrow> runbook \<Rightarrow> registry \<Rightarrow> run_plan" where
  "plan_runbook dbg rb reg =
     (let steps = map (plan_of_step reg) (List.map_filter (rb_step rb) (walk_order rb)) in
      \<lparr> rp_name = rb_name rb, rp_steps = steps, rp_park_count = length (filter ps_will_park steps),
        rp_diagnostics = check dbg rb reg \<rparr>)"

section \<open>The executor\<close>

record resolved_step =
  rs_id :: string
  rs_uses :: string
  rs_consequential :: bool
  rs_input :: "(string \<times> json) list"

datatype step_result = StepProduced json | StepParked string | StepRefused string

datatype run_outcome = RunDone | RunParked | RunRefused | RunBlocked

record step_outcome =
  so_id :: string
  so_uses :: string
  so_outcome :: run_outcome
  so_detail :: string

record run_report =
  rr_name :: string
  rr_steps :: "step_outcome list"
  rr_refused_unsound :: bool

type_synonym 'w router = "resolved_step \<Rightarrow> 'w \<Rightarrow> 'w \<times> step_result"

text \<open>The loop over the \<open>with\<close> entries: the input map, or the name the step is blocked on.\<close>

fun resolve_inputs :: "(string \<Rightarrow> json option) \<Rightarrow> (string \<times> expr) list \<Rightarrow> (string \<times> json) list \<Rightarrow> string + (string \<times> json) list" where
  "resolve_inputs produced [] acc = Inr acc"
| "resolve_inputs produced ((k, e) # kvs) acc =
     (case e of
        Literal t v \<Rightarrow> resolve_inputs produced kvs (bt_insert k v acc)
      | Ref p q \<Rightarrow> (case produced p of
            Some v \<Rightarrow> resolve_inputs produced kvs (bt_insert k v acc)
          | None \<Rightarrow> Inl p)
      | BadRef raw \<Rightarrow> Inl raw)"

text \<open>A need is a barrier: the first one that is not done blocks the step before its inputs are read.\<close>

definition resolve_step :: "registry \<Rightarrow> (string \<Rightarrow> json option) \<Rightarrow> string list \<Rightarrow> step \<Rightarrow> string + resolved_step" where
  "resolve_step reg produced completed s =
     (case find (\<lambda>d. d \<notin> set completed) (st_needs s) of
        Some d \<Rightarrow> Inl d
      | None \<Rightarrow>
          (case resolve_inputs produced (st_with s) [] of
             Inl d \<Rightarrow> Inl d
           | Inr input \<Rightarrow> Inr \<lparr> rs_id = st_id s, rs_uses = st_uses s,
               rs_consequential = step_consequential reg s, rs_input = input \<rparr>))"

definition blocked_detail :: "string \<Rightarrow> string" where
  "blocked_detail dep = ''blocked: dependency '' @ dquoted dep
     @ '' produced no output (it parked, was refused, or was itself blocked)''"

definition outcome_of :: "step_result \<Rightarrow> run_outcome \<times> string" where
  "outcome_of r = (case r of StepProduced v \<Rightarrow> (RunDone, ''done'') | StepParked prompt \<Rightarrow> (RunParked, prompt)
     | StepRefused reason \<Rightarrow> (RunRefused, reason))"

record run_state =
  produced_of :: "string \<Rightarrow> json option"
  completed_of :: "string list"
  outcomes_of :: "step_outcome list"

definition note_result :: "step \<Rightarrow> step_result \<Rightarrow> run_state \<Rightarrow> run_state" where
  "note_result s r st =
     (case r of
        StepProduced v \<Rightarrow> st\<lparr> produced_of := (if st_out s = None then produced_of st else (produced_of st)(st_id s \<mapsto> v)),
          completed_of := st_id s # completed_of st \<rparr>
      | _ \<Rightarrow> st)"

definition add_outcome :: "step \<Rightarrow> run_outcome \<times> string \<Rightarrow> run_state \<Rightarrow> run_state" where
  "add_outcome s od st = st\<lparr> outcomes_of := outcomes_of st @
     [\<lparr> so_id = st_id s, so_uses = st_uses s, so_outcome = fst od, so_detail = snd od \<rparr>] \<rparr>"

definition run_one :: "registry \<Rightarrow> 'w router \<Rightarrow> step \<Rightarrow> run_state \<Rightarrow> 'w \<Rightarrow> run_state \<times> 'w" where
  "run_one reg route s st w =
     (case resolve_step reg (produced_of st) (completed_of st) s of
        Inl dep \<Rightarrow> (add_outcome s (RunBlocked, blocked_detail dep) st, w)
      | Inr resolved \<Rightarrow>
          (let (w', r) = route resolved w in (add_outcome s (outcome_of r) (note_result s r st), w')))"

fun run_walk :: "runbook \<Rightarrow> registry \<Rightarrow> 'w router \<Rightarrow> string list \<Rightarrow> run_state \<Rightarrow> 'w \<Rightarrow> run_state \<times> 'w" where
  "run_walk rb reg route [] st w = (st, w)"
| "run_walk rb reg route (i # is) st w =
     (case rb_step rb i of
        None \<Rightarrow> run_walk rb reg route is st w
      | Some s \<Rightarrow> (let (st', w') = run_one reg route s st w in run_walk rb reg route is st' w'))"

definition run_start :: run_state where
  "run_start = \<lparr> produced_of = Map.empty, completed_of = [], outcomes_of = [] \<rparr>"

definition run_runbook :: "(string \<Rightarrow> string) \<Rightarrow> runbook \<Rightarrow> registry \<Rightarrow> 'w router \<Rightarrow> 'w \<Rightarrow> run_report \<times> 'w" where
  "run_runbook dbg rb reg route w =
     (if has_errors (check dbg rb reg)
      then (\<lparr> rr_name = rb_name rb, rr_steps = [], rr_refused_unsound = True \<rparr>, w)
      else let (st, w') = run_walk rb reg route (walk_order rb) run_start w in
           (\<lparr> rr_name = rb_name rb, rr_steps = outcomes_of st, rr_refused_unsound = False \<rparr>, w'))"

section \<open>The trace of a run\<close>

text \<open>A router that also records, in order, every step it was asked to route and its answer.\<close>

type_synonym trace = "(resolved_step \<times> step_result) list"

definition traced :: "'w router \<Rightarrow> ('w \<times> trace) router" where
  "traced route x wl = (let (w', r) = route x (fst wl) in ((w', snd wl @ [(x, r)]), r))"

definition has_produced :: "trace \<Rightarrow> string \<Rightarrow> json \<Rightarrow> bool" where
  "has_produced P i v \<longleftrightarrow> (\<exists>y. (y, StepProduced v) \<in> set P \<and> rs_id y = i)"

definition input_from :: "trace \<Rightarrow> string \<times> expr \<Rightarrow> string \<times> json \<Rightarrow> bool" where
  "input_from P ke kv \<longleftrightarrow> fst kv = fst ke
     \<and> (case snd ke of Literal t u \<Rightarrow> snd kv = u | Ref p q \<Rightarrow> has_produced P p (snd kv) | BadRef raw \<Rightarrow> False)"

text \<open>A routed step is a step of the runbook whose needs are all done and whose inputs are its literals and the values earlier steps produced.\<close>

definition justified :: "runbook \<Rightarrow> registry \<Rightarrow> trace \<Rightarrow> resolved_step \<Rightarrow> bool" where
  "justified rb reg P x \<longleftrightarrow>
     (case rb_step rb (rs_id x) of
        None \<Rightarrow> False
      | Some s \<Rightarrow> rs_uses x = st_uses s \<and> rs_consequential x = step_consequential reg s
          \<and> (\<forall>n \<in> set (st_needs s). \<exists>v. has_produced P n v)
          \<and> list_all2 (input_from P) (st_with s) (rs_input x))"

definition all_justified :: "runbook \<Rightarrow> registry \<Rightarrow> trace \<Rightarrow> bool" where
  "all_justified rb reg L \<longleftrightarrow> (\<forall>i < length L. justified rb reg (take i L) (fst (L ! i)))"

lemma all_justified_snoc:
  "all_justified rb reg (L @ [e]) \<longleftrightarrow> all_justified rb reg L \<and> justified rb reg L (fst e)"
  by (auto simp: all_justified_def nth_append less_Suc_eq)

definition accounted :: "trace \<Rightarrow> step_outcome \<Rightarrow> bool" where
  "accounted L so \<longleftrightarrow>
     (case so_outcome so of
        RunDone \<Rightarrow> \<exists>v. has_produced L (so_id so) v
      | RunParked \<Rightarrow> \<exists>y. (y, StepParked (so_detail so)) \<in> set L \<and> rs_id y = so_id so
      | RunRefused \<Rightarrow> \<exists>y. (y, StepRefused (so_detail so)) \<in> set L \<and> rs_id y = so_id so
      | RunBlocked \<Rightarrow> so_id so \<notin> set (map (rs_id \<circ> fst) L))"

lemma bt_insert_end: "\<forall>e \<in> set acc. fst e < k \<Longrightarrow> bt_insert k v acc = acc @ [(k, v)]"
  by (induction acc) auto

lemma resolve_inputs_from:
  assumes "resolve_inputs produced kes acc = Inr input" and "sorted_wrt (<) (map fst acc @ map fst kes)"
    and "\<And>p v. produced p = Some v \<Longrightarrow> has_produced P p v"
  shows "\<exists>ins. input = acc @ ins \<and> list_all2 (input_from P) kes ins"
  using assms(1,2)
proof (induction kes arbitrary: acc)
  case (Cons ke kes)
  obtain k e where ke: "ke = (k, e)" by (cases ke)
  have ins: "bt_insert k v acc = acc @ [(k, v)]" for v
    by (rule bt_insert_end) (use Cons.prems(2) in \<open>auto simp: ke sorted_wrt_append\<close>)
  have srt: "sorted_wrt (<) (map fst (acc @ [(k, v)]) @ map fst kes)" for v :: json
    using Cons.prems(2) by (auto simp: ke sorted_wrt_append)
  have go: ?case if "resolve_inputs produced kes (bt_insert k v acc) = Inr input" "input_from P (k, e) (k, v)" for v
    using Cons.IH [OF that(1) [unfolded ins] srt] that(2) by (auto simp: ke)
  show ?case
  proof (cases e)
    case (Literal t v)
    then show ?thesis using Cons.prems(1) go [of v] by (simp add: ke input_from_def)
  next
    case (Ref p q)
    then obtain v where v: "produced p = Some v" using Cons.prems(1) by (cases "produced p") (simp_all add: ke)
    then show ?thesis using Cons.prems(1) go [of v] assms(3) [OF v] Ref by (simp add: ke input_from_def)
  next
    case (BadRef raw)
    then show ?thesis using Cons.prems(1) by (simp add: ke)
  qed
qed simp

text \<open>The state of the walk against the trace so far; \<open>done\<close> are the ids already visited.\<close>

definition walk_inv :: "runbook \<Rightarrow> registry \<Rightarrow> string list \<Rightarrow> run_state \<Rightarrow> trace \<Rightarrow> bool" where
  "walk_inv rb reg visited st L \<longleftrightarrow>
     map so_id (outcomes_of st) = visited
     \<and> (\<forall>i \<in> set (completed_of st). \<exists>v. has_produced L i v)
     \<and> (\<forall>p v. produced_of st p = Some v \<longrightarrow> has_produced L p v)
     \<and> all_justified rb reg L \<and> subseq (map (rs_id \<circ> fst) L) visited
     \<and> list_all (accounted L) (outcomes_of st)"

lemma has_produced_more: "has_produced P i v \<Longrightarrow> has_produced (P @ Q) i v"
  by (auto simp: has_produced_def)

lemma has_produced_last: "has_produced (L @ [(x, StepProduced v)]) (rs_id x) v"
  by (auto simp: has_produced_def)

lemma accounted_more:
  assumes "accounted L so" and "so_id so \<noteq> rs_id (fst e)"
  shows "accounted (L @ [e]) so"
  using assms by (auto simp: accounted_def split: run_outcome.splits intro: has_produced_more)

lemma subseq_subset: "subseq xs ys \<Longrightarrow> set xs \<subseteq> set ys"
  by (induction rule: list_emb.induct) auto

lemma subseq_keeps_distinct: "subseq xs ys \<Longrightarrow> distinct ys \<Longrightarrow> distinct xs"
  by (induction rule: list_emb.induct) (auto dest: subseq_subset)

lemma run_one_inv:
  assumes inv: "walk_inv rb reg visited st L" and s: "rb_step rb i = Some s" and new: "i \<notin> set visited"
    and srt: "bt_ok (st_with s)"
    and run: "run_one reg (traced route) s st (w, L) = (st', (w', L'))"
  shows "walk_inv rb reg (visited @ [i]) st' L'"
proof -
  have id: "st_id s = i" using rb_step_Some [OF s] by simp
  have vis: "set (map (rs_id \<circ> fst) L) \<subseteq> set visited" using inv by (intro subseq_subset) (simp add: walk_inv_def)
  show ?thesis
  proof (cases "resolve_step reg (produced_of st) (completed_of st) s")
    case (Inl dep)
    then have st': "st' = add_outcome s (RunBlocked, blocked_detail dep) st" "L' = L"
      using run by (simp_all add: run_one_def)
    have "accounted L \<lparr> so_id = i, so_uses = st_uses s, so_outcome = RunBlocked, so_detail = blocked_detail dep \<rparr>"
      using vis new by (auto simp: accounted_def)
    moreover have "subseq (map (rs_id \<circ> fst) L) (visited @ [i])" using inv by (auto simp: walk_inv_def)
    ultimately show ?thesis using inv by (simp add: walk_inv_def st' add_outcome_def id)
  next
    case (Inr x)
    obtain w2 r where r: "route x w = (w2, r)" by (cases "route x w")
    have st': "st' = add_outcome s (outcome_of r) (note_result s r st)" "L' = L @ [(x, r)]"
      using run Inr by (simp_all add: run_one_def traced_def r)
    have needs: "find (\<lambda>d. d \<notin> set (completed_of st)) (st_needs s) = None"
      using Inr by (auto simp: resolve_step_def split: option.splits)
    obtain input where input: "resolve_inputs (produced_of st) (st_with s) [] = Inr input"
        "x = \<lparr> rs_id = i, rs_uses = st_uses s, rs_consequential = step_consequential reg s, rs_input = input \<rparr>"
      using Inr needs id by (auto simp: resolve_step_def split: sum.splits)
    have "list_all2 (input_from L) (st_with s) input"
      using resolve_inputs_from [OF input(1)] srt inv by (simp add: bt_ok_def walk_inv_def)
    moreover have "\<forall>n \<in> set (st_needs s). \<exists>v. has_produced L n v"
      using needs inv by (auto simp: find_None_iff walk_inv_def)
    ultimately have just: "justified rb reg L x" by (simp add: justified_def input(2) s)
    have xi: "rs_id x = i" by (simp add: input(2))
    have acc: "list_all (accounted (L @ [(x, r)])) (outcomes_of st)"
    proof -
      have "so_id so \<noteq> rs_id x" if "so \<in> set (outcomes_of st)" for so
        using imageI [OF that, of so_id] inv new xi by (auto simp: walk_inv_def)
      then show ?thesis using inv by (auto simp: walk_inv_def list_all_iff intro!: accounted_more)
    qed
    have last: "accounted (L @ [(x, r)]) \<lparr> so_id = i, so_uses = st_uses s, so_outcome = fst (outcome_of r), so_detail = snd (outcome_of r) \<rparr>"
      using xi has_produced_last [of L x] by (cases r) (auto simp: accounted_def outcome_of_def)
    have comp: "\<forall>j \<in> set (completed_of (note_result s r st)). \<exists>v. has_produced (L @ [(x, r)]) j v"
      using inv xi id has_produced_last [of L x] has_produced_more [of L _ _ "[(x, r)]"]
      by (cases r) (fastforce simp: note_result_def walk_inv_def)+
    have prod: "\<forall>p v. produced_of (note_result s r st) p = Some v \<longrightarrow> has_produced (L @ [(x, r)]) p v"
      using inv xi id has_produced_last [of L x] has_produced_more [of L _ _ "[(x, r)]"]
      by (cases r) (auto simp: note_result_def walk_inv_def split: if_splits)
    have out: "outcomes_of (note_result s r st) = outcomes_of st" by (cases r) (simp_all add: note_result_def)
    have "subseq (map (rs_id \<circ> fst) (L @ [(x, r)])) (visited @ [i])"
      using inv xi by (auto simp: walk_inv_def intro!: list_emb_append_mono)
    then show ?thesis
      using inv just acc last comp prod
      by (simp add: walk_inv_def st' add_outcome_def id out all_justified_snoc)
  qed
qed

lemma run_walk_inv:
  assumes "walk_inv rb reg visited st L" and "distinct (visited @ order)" and "set order \<subseteq> set (step_ids rb)"
    and "\<forall>s \<in> set (rb_steps rb). bt_ok (st_with s)"
    and "run_walk rb reg (traced route) order st (w, L) = (st', (w', L'))"
  shows "walk_inv rb reg (visited @ order) st' L'"
  using assms
proof (induction order arbitrary: visited st w L)
  case (Cons i order)
  obtain s where s: "rb_step rb i = Some s" using Cons.prems(3) rb_step_ids [of rb i] by auto
  obtain st2 w2 L2 where one: "run_one reg (traced route) s st (w, L) = (st2, (w2, L2))" by (metis prod_cases3)
  have "bt_ok (st_with s)" using rb_step_Some [OF s] Cons.prems(4) by blast
  then have inv: "walk_inv rb reg (visited @ [i]) st2 L2"
    using run_one_inv [OF Cons.prems(1) s _ _ one] Cons.prems(2) by simp
  show ?case using Cons.IH [OF inv] Cons.prems s one by simp
qed simp

section \<open>What a run does\<close>

lemma runbook_trace:
  assumes "\<forall>s \<in> set (rb_steps rb). bt_ok (st_with s)"
    and "run_runbook dbg rb reg (traced route) (w, []) = (rep, (w', L))"
  shows "if well_typed rb reg
     then (\<exists>order. topological_order rb = Inr order \<and> map so_id (rr_steps rep) = order
         \<and> subseq (map (rs_id \<circ> fst) L) order) \<and> all_justified rb reg L
         \<and> list_all (accounted L) (rr_steps rep) \<and> \<not> rr_refused_unsound rep
     else L = [] \<and> w' = w \<and> rr_refused_unsound rep \<and> rr_steps rep = []"
proof (cases "well_typed rb reg")
  case True
  then have ok: "\<not> has_errors (check dbg rb reg)" by (simp add: check_decides)
  have "acyclic (depends rb)" using True by (simp add: well_typed_def)
  then obtain order where order: "topological_order rb = Inr order" using order_errors by blast
  then have spec: "distinct order" "set order = set (step_ids rb)" using topological_order_spec [of rb] by simp_all
  obtain st where walk: "run_walk rb reg (traced route) order run_start (w, []) = (st, (w', L))" "rr_steps rep = outcomes_of st"
      "\<not> rr_refused_unsound rep"
    using assms(2) ok order by (auto simp: run_runbook_def walk_order_def split: prod.splits)
  have "walk_inv rb reg [] run_start []" by (simp add: walk_inv_def run_start_def all_justified_def)
  from run_walk_inv [OF this _ _ assms(1) walk(1)] spec have "walk_inv rb reg order st L" by simp
  then show ?thesis using True walk(2,3) order by (simp add: walk_inv_def)
next
  case False
  then have "has_errors (check dbg rb reg)" using check_decides by blast
  then show ?thesis using False assms(2) by (auto simp: run_runbook_def)
qed

section \<open>A small run\<close>

definition demo_rb :: runbook where
  "demo_rb = \<lparr> rb_name = ''standup'', rb_steps =
     [\<lparr> st_id = ''post'', st_uses = ''slack_post_message'',
        st_with = [(''channel'', Literal TyStr (JStr ''dev'')), (''text'', Ref ''note'' ''gist'')], st_needs = [''note''], st_out = None \<rparr>,
      \<lparr> st_id = ''note'', st_uses = ''distill'', st_with = [(''text'', Literal TyStr (JStr ''long''))], st_needs = [],
        st_out = Some ''gist'' \<rparr>] \<rparr>"

text \<open>A router that answers every capability with a value of its declared type.\<close>

definition demo_value :: "ty \<Rightarrow> json" where
  "demo_value t = (case t of TyStr \<Rightarrow> JStr ''short'' | TyInt \<Rightarrow> JInt 0 | TyFloat \<Rightarrow> JFloat 0 | TyBool \<Rightarrow> JBool True
     | TyList \<Rightarrow> JArr [] | TyMap \<Rightarrow> JObj [])"

definition demo_route :: "nat router" where
  "demo_route x w = (Suc w,
     case reg_get builtin_registry (rs_uses x) of
       None \<Rightarrow> StepRefused ''unknown''
     | Some c \<Rightarrow> if rs_consequential x then StepParked ''Post it?'' else StepProduced (demo_value (cap_out c)))"

lemma demo_bt: "\<forall>s \<in> set (rb_steps demo_rb). bt_ok (st_with s)"
  by (simp add: demo_rb_def bt_ok_def)

definition demo_ran :: trace where
  "demo_ran = 
       [(\<lparr> rs_id = ''note'', rs_uses = ''distill'', rs_consequential = False, rs_input = [(''text'', JStr ''long'')] \<rparr>, StepProduced (JStr ''short'')),
        (\<lparr> rs_id = ''post'', rs_uses = ''slack_post_message'', rs_consequential = True,
           rs_input = [(''channel'', JStr ''dev''), (''text'', JStr ''short'')] \<rparr>, StepParked ''Post it?'')]"

definition demo_report :: run_report where
  "demo_report = \<lparr> rr_name = ''standup'', rr_steps =
        [\<lparr> so_id = ''note'', so_uses = ''distill'', so_outcome = RunDone, so_detail = ''done'' \<rparr>,
         \<lparr> so_id = ''post'', so_uses = ''slack_post_message'', so_outcome = RunParked, so_detail = ''Post it?'' \<rparr>],
       rr_refused_unsound = False \<rparr>"

lemma demo_runs:
  "run_runbook id demo_rb builtin_registry (traced demo_route) (0, []) = (demo_report, (2, demo_ran))"
  by code_simp

lemma demo_typed: "well_typed demo_rb builtin_registry"
proof -
  have "\<not> has_errors (check id demo_rb builtin_registry)" by code_simp
  then show ?thesis by (simp add: check_decides)
qed

section \<open>Properties of runs\<close>

text \<open>
  C10. A runbook runs one justified step at a time. Whatever the router does, a runbook that is not
  well typed routes nothing; a well-typed one routes a subsequence of its topological order, each
  step at most once, and every routed step is the step the file declares, with the privilege of the
  registry, after all its needs were done, on its literals and the very values earlier steps
  produced.
\<close>
theorem runbook_runs_justified_steps:
  assumes "\<forall>s \<in> set (rb_steps rb). bt_ok (st_with s)"
    and "run_runbook dbg rb reg (traced route) (w, []) = (rep, (w', L))"
  shows "if well_typed rb reg
     then (\<exists>order. topological_order rb = Inr order \<and> distinct order \<and> subseq (map (rs_id \<circ> fst) L) order)
       \<and> (\<forall>i < length L. justified rb reg (take i L) (fst (L ! i)))
     else L = [] \<and> w' = w \<and> rr_refused_unsound rep"
  using runbook_trace [OF assms] topological_order_spec [of rb]
  by (auto simp: all_justified_def split: if_splits)

lemma runbook_runs_justified_steps_witness: "all_justified demo_rb builtin_registry demo_ran"
  unfolding all_justified_def
  using runbook_runs_justified_steps [OF demo_bt demo_runs] demo_typed by simp

text \<open>
  Every step is accounted for. The report of a well-typed runbook has one entry for each step, in
  topological order: done exactly when the step was routed and produced a value, parked or refused
  with the text of the router, and blocked when it was never routed.
\<close>
theorem runbook_report_accounts:
  assumes "\<forall>s \<in> set (rb_steps rb). bt_ok (st_with s)" and "well_typed rb reg"
    and "run_runbook dbg rb reg (traced route) (w, []) = (rep, (w', L))"
  shows "map so_id (rr_steps rep) = walk_order rb \<and> distinct (map so_id (rr_steps rep))
    \<and> set (map so_id (rr_steps rep)) = set (step_ids rb) \<and> list_all (accounted L) (rr_steps rep)"
  using runbook_trace [OF assms(1,3)] assms(2) topological_order_spec [of rb]
  by (auto simp: walk_order_def)

lemma runbook_report_accounts_witness:
  "map so_id (rr_steps demo_report) = walk_order demo_rb \<and> list_all (accounted demo_ran) (rr_steps demo_report)"
  using runbook_report_accounts [OF demo_bt demo_typed demo_runs] by blast

end
