(* ===== verification/RunbookTypes.thy ===== *)
theory RunbookTypes
  imports RunbookRun
begin

text \<open>
  Type soundness of runbooks: if every router answer has the type the registry declares for the
  capability, no step of a well-typed runbook is ever routed on an input of the wrong type.
\<close>

definition json_ty :: "json \<Rightarrow> ty option" where
  "json_ty v = (case v of JNull \<Rightarrow> None | JBool _ \<Rightarrow> Some TyBool | JInt _ \<Rightarrow> Some TyInt | JFloat _ \<Rightarrow> Some TyFloat
     | JStr _ \<Rightarrow> Some TyStr | JArr _ \<Rightarrow> Some TyList | JObj _ \<Rightarrow> Some TyMap)"

definition literals_ok :: "runbook \<Rightarrow> bool" where
  "literals_ok rb \<longleftrightarrow> (\<forall>s \<in> set (rb_steps rb). \<forall>(k, e) \<in> set (st_with s).
     case e of Literal t v \<Rightarrow> json_ty v = Some t | _ \<Rightarrow> True)"

definition answers_typed :: "registry \<Rightarrow> 'w router \<Rightarrow> bool" where
  "answers_typed reg route \<longleftrightarrow> (\<forall>x w w' v. route x w = (w', StepProduced v) \<longrightarrow>
     (\<forall>c. reg_get reg (rs_uses x) = Some c \<longrightarrow> json_ty v = Some (cap_out c)))"

definition inputs_typed :: "registry \<Rightarrow> resolved_step \<Rightarrow> bool" where
  "inputs_typed reg x \<longleftrightarrow>
     (case reg_get reg (rs_uses x) of
        None \<Rightarrow> False
      | Some cap \<Rightarrow>
          list_all (\<lambda>(k, v). json_ty v = map_option pm_ty (cap_param cap k)) (rs_input x)
          \<and> list_all (\<lambda>p. pm_required p \<longrightarrow> pm_name p \<in> set (map fst (rs_input x))) (cap_params cap))"

section \<open>Literals the parser makes\<close>

lemma toml_literal: "json_ty (toml_to_json v) = (case v of TFloat w \<Rightarrow> json_ty (json_float w) | _ \<Rightarrow> Some (of_toml v))"
  by (cases v) (simp_all add: json_ty_def of_toml_def)

text \<open>The finite floats; a literal that is infinite or not a number becomes null.\<close>

definition finite_toml :: "toml \<Rightarrow> bool" where
  "finite_toml v = (case v of TFloat w \<Rightarrow> json_float w \<noteq> JNull | _ \<Rightarrow> True)"

lemma to_expr_literal: "finite_toml v \<Longrightarrow> to_expr v = Literal t u \<Longrightarrow> json_ty u = Some t"
proof -
  assume f: "finite_toml v" and e: "to_expr v = Literal t u"
  have "t = of_toml v \<and> u = toml_to_json v"
    using e by (cases v) (auto simp: to_expr_def split: option.splits list.splits if_splits)
  moreover have "json_ty (toml_to_json v) = Some (of_toml v)"
    using f by (cases v) (auto simp: toml_literal finite_toml_def json_float_def json_ty_def of_toml_def split: if_splits)
  ultimately show ?thesis by simp
qed

lemma parse_steps_with:
  assumes "parse_steps raws = Inr ss" and "s \<in> set ss"
  shows "\<exists>rs \<in> set raws. st_with s = map (\<lambda>(k, v). (k, to_expr v)) (raw_with rs)"
  using assms
proof (induction raws arbitrary: ss)
  case (Cons rs raws)
  obtain s1 ss1 where p: "parse_step rs = Inr s1" "parse_steps raws = Inr ss1" "ss = s1 # ss1"
    using Cons.prems(1) by (auto split: sum.splits)
  have "st_with s1 = map (\<lambda>(k, v). (k, to_expr v)) (raw_with rs)"
    using p(1) by (auto simp: parse_step_def split: if_splits)
  then show ?case using Cons.IH [OF p(2)] Cons.prems(2) p(3) by auto
qed simp

definition raw_ok :: "raw_file \<Rightarrow> bool" where
  "raw_ok raw \<longleftrightarrow> (\<forall>rs \<in> set (raw_steps raw). bt_ok (raw_with rs) \<and> (\<forall>(k, v) \<in> set (raw_with rs). finite_toml v))"

lemma parsed_ok:
  assumes "parse_runbook (Inr raw) = Inr rb" and "raw_ok raw"
  shows "literals_ok rb" "\<forall>s \<in> set (rb_steps rb). bt_ok (st_with s)"
proof -
  have ss: "parse_steps (raw_steps raw) = Inr (rb_steps rb)"
    using assms(1) by (auto simp: parse_runbook_def split: if_splits sum.splits)
  have src: "\<exists>rs :: raw_step. bt_ok (raw_with rs) \<and> (\<forall>(k, v) \<in> set (raw_with rs). finite_toml v)
      \<and> st_with s = map (\<lambda>(k, v). (k, to_expr v)) (raw_with rs)" if "s \<in> set (rb_steps rb)" for s
  proof -
    note found = parse_steps_with [OF ss that]
    obtain rs :: raw_step where "rs \<in> set (raw_steps raw)" "st_with s = map (\<lambda>(k, v). (k, to_expr v)) (raw_with rs)"
      using found by blast
    then show ?thesis using assms(2) unfolding raw_ok_def by (intro exI [of _ rs]) simp
  qed
  show "literals_ok rb"
    unfolding literals_ok_def
  proof (intro ballI, clarify)
    fix s k e assume "s \<in> set (rb_steps rb)" "(k, e) \<in> set (st_with s)"
    then obtain v where "finite_toml v" "e = to_expr v" using src by fastforce
    then show "case e of Literal t v \<Rightarrow> json_ty v = Some t | _ \<Rightarrow> True"
      using to_expr_literal [of v] by (auto split: expr.splits)
  qed
  show "\<forall>s \<in> set (rb_steps rb). bt_ok (st_with s)"
  proof
    fix s assume "s \<in> set (rb_steps rb)"
    then obtain rs :: raw_step where rs: "bt_ok (raw_with rs)" "st_with s = map (\<lambda>(k, v). (k, to_expr v)) (raw_with rs)"
      using src by blast
    have "map fst (st_with s) = map fst (raw_with rs)" by (simp add: rs(2) case_prod_unfold)
    then show "bt_ok (st_with s)" using rs(1) by (simp add: bt_ok_def)
  qed
qed

section \<open>Soundness\<close>

lemma run_walk_answers:
  assumes "\<forall>(x, r) \<in> set L. \<exists>w w'. route x w = (w', r)"
    and "run_walk rb reg (traced route) order st (w, L) = (st', (w', L'))"
  shows "\<forall>(x, r) \<in> set L'. \<exists>w w'. route x w = (w', r)"
  using assms
proof (induction order arbitrary: st w L)
  case (Cons i order)
  show ?case
  proof (cases "rb_step rb i")
    case None
    then show ?thesis using Cons by simp
  next
    case (Some s)
    obtain st2 w2 L2 where one: "run_one reg (traced route) s st (w, L) = (st2, (w2, L2))" by (metis prod_cases3)
    have "\<forall>(x, r) \<in> set L2. \<exists>w w'. route x w = (w', r)"
    proof (cases "resolve_step reg (produced_of st) (completed_of st) s")
      case (Inr x)
      obtain w3 r where r: "route x w = (w3, r)" by (cases "route x w")
      then have "L2 = L @ [(x, r)]" using one Inr by (simp add: run_one_def traced_def)
      moreover have "\<exists>w w'. route x w = (w', r)" using r by blast
      ultimately show ?thesis using Cons.prems(1) by auto
    qed (use one Cons.prems(1) in \<open>simp add: run_one_def\<close>)
    then show ?thesis using Cons.IH Cons.prems(2) Some one by auto
  qed
qed simp

lemma run_answers:
  assumes "run_runbook dbg rb reg (traced route) (w, []) = (rep, (w', L))" and "(x, r) \<in> set L"
  shows "\<exists>w w'. route x w = (w', r)"
proof (cases "has_errors (check dbg rb reg)")
  case False
  then obtain st where "run_walk rb reg (traced route) (walk_order rb) run_start (w, []) = (st, (w', L))"
    using assms(1) by (auto simp: run_runbook_def split: prod.splits)
  from run_walk_answers [OF _ this] assms(2) show ?thesis by auto
qed (use assms in \<open>simp add: run_runbook_def\<close>)

text \<open>
  C31. Well-typed runbooks do not go wrong. A runbook that was parsed from a file with finite numbers
  and passes the checker, run through a router whose answers have the declared types, routes every
  step with all its required parameters and only with inputs of their declared types.
\<close>
theorem well_typed_runbooks_are_safe:
  assumes "parse_runbook (Inr raw) = Inr rb" and "raw_ok raw" and "answers_typed reg route"
    and "run_runbook dbg rb reg (traced route) (w, []) = (rep, (w', L))"
  shows "list_all (\<lambda>(x, r). inputs_typed reg x) L"
proof (cases "well_typed rb reg")
  case True
  note ok = parsed_ok [OF assms(1,2)]
  have just: "all_justified rb reg L" using runbook_trace [OF ok(2) assms(4)] True by simp
  have typed: "step_typed rb reg s" if "s \<in> set (rb_steps rb)" for s
    using True that by (simp add: well_typed_def list_all_iff)
  have produced: "json_ty v = Some (cap_out c)"
    if h: "has_produced (take i L) p v" "rb_step rb p = Some s'" "i \<le> length L" "reg_get reg (st_uses s') = Some c"
    for i p v s' c
  proof -
    obtain y :: resolved_step where y: "(y, StepProduced v) \<in> set (take i L)" "rs_id y = p" using h(1) unfolding has_produced_def by blast
    then obtain j where j: "j < length L" "L ! j = (y, StepProduced v)" by (auto simp: in_set_conv_nth)
    then have "justified rb reg (take j L) y" using just by (auto simp: all_justified_def)
    then have "rs_uses y = st_uses s'" using y(2) h(2) by (simp add: justified_def)
    moreover have "\<exists>w w'. route y w = (w', StepProduced v)" using run_answers [OF assms(4)] j nth_mem by metis
    ultimately show ?thesis using assms(3) h(4) unfolding answers_typed_def by metis
  qed
  show ?thesis
    unfolding list_all_length
  proof (intro allI impI)
    fix i assume i: "i < length L"
    let ?x = "fst (L ! i)"
    have "justified rb reg (take i L) ?x" using just i by (simp add: all_justified_def)
    then obtain s where s: "rb_step rb (rs_id ?x) = Some s" "rs_uses ?x = st_uses s"
        "list_all2 (input_from (take i L)) (st_with s) (rs_input ?x)"
      by (auto simp: justified_def split: option.splits)
    note st = typed [OF conjunct2 [OF rb_step_Some [OF s(1)]]]
    then obtain cap where cap: "reg_get reg (st_uses s) = Some cap" "list_all (input_typed rb reg s cap) (st_with s)"
        "list_all (\<lambda>p. pm_required p \<longrightarrow> pm_name p \<in> set (map fst (st_with s))) (cap_params cap)"
      by (auto simp: step_typed_def split: option.splits)
    have keys: "map fst (rs_input ?x) = map fst (st_with s)"
      using s(3) by (induction rule: list_all2_induct) (auto simp: input_from_def)
    have one: "json_ty (snd kv) = map_option pm_ty (cap_param cap (fst kv))"
      if "ke \<in> set (st_with s)" "input_from (take i L) ke kv" for ke kv
    proof -
      have t: "input_typed rb reg s cap ke" using cap(2) that(1) by (simp add: list_all_iff)
      then obtain pm where pm: "cap_param cap (fst ke) = Some pm" by (auto simp: input_typed_def split: option.splits)
      show ?thesis
      proof (cases "snd ke")
        case (Literal t u)
        then have "json_ty u = Some t"
          using ok(1) that(1) rb_step_Some [OF s(1)] by (cases ke) (fastforce simp: literals_ok_def)
        then show ?thesis using t that(2) Literal pm by (simp add: input_typed_def input_from_def)
      next
        case (Ref p q)
        then obtain s' where s': "rb_step rb p = Some s'"
            "\<And>c. reg_get reg (st_uses s') = Some c \<Longrightarrow> cap_out c = pm_ty pm"
          using t pm by (auto simp: input_typed_def split: option.splits)
        have "step_typed rb reg s'" using typed rb_step_Some [OF s'(1)] by blast
        then obtain c where c: "reg_get reg (st_uses s') = Some c" by (auto simp: step_typed_def split: option.splits)
        have "has_produced (take i L) p (snd kv)" using that(2) Ref by (simp add: input_from_def)
        from produced [OF this s'(1) _ c] i s'(2) [OF c] show ?thesis using that(2) pm by (simp add: input_from_def)
      qed (use t pm in \<open>simp add: input_typed_def\<close>)
    qed
    have "\<forall>kv \<in> set (rs_input ?x). json_ty (snd kv) = map_option pm_ty (cap_param cap (fst kv))"
    proof
      fix kv assume "kv \<in> set (rs_input ?x)"
      then obtain j where j: "j < length (rs_input ?x)" "kv = rs_input ?x ! j" by (metis in_set_conv_nth)
      then have "input_from (take i L) (st_with s ! j) kv" "st_with s ! j \<in> set (st_with s)"
        using s(3) by (auto simp: list_all2_conv_all_nth)
      then show "json_ty (snd kv) = map_option pm_ty (cap_param cap (fst kv))" using one by blast
    qed
    then have "inputs_typed reg ?x" using cap(1,3) s(2) keys by (auto simp: inputs_typed_def list_all_iff)
    then show "case L ! i of (x, r) \<Rightarrow> inputs_typed reg x" by (simp add: case_prod_unfold)
  qed
next
  case False
  then have "L = []" using runbook_trace [OF parsed_ok(2) [OF assms(1,2)] assms(4)] by simp
  then show ?thesis by simp
qed

definition note_and_post :: raw_file where
  "note_and_post = \<lparr> raw_name = ''standup'', raw_steps =
     [\<lparr> raw_id = ''post'', raw_uses = ''slack_post_message'',
        raw_with = [(''channel'', TString ''dev''), (''text'', TString ''${note.gist}'')], raw_needs = [''note''], raw_out = None \<rparr>,
      \<lparr> raw_id = ''note'', raw_uses = ''distill'', raw_with = [(''text'', TString ''long'')], raw_needs = [],
        raw_out = Some ''gist'' \<rparr>] \<rparr>"

lemma note_and_post_parses: "parse_runbook (Inr note_and_post) = Inr demo_rb"
  by (simp add: parse_runbook_def note_and_post_def demo_rb_def parse_step_def to_expr_def str_simps trim_list_def
      strip_prefix_def strip_suffix_def ends_with_def starts_with_def of_toml_def)

lemma well_typed_runbooks_are_safe_witness:
  "list_all (\<lambda>(x, r). inputs_typed builtin_registry x) demo_ran"
proof (rule well_typed_runbooks_are_safe [OF note_and_post_parses _ _ demo_runs])
  show "raw_ok note_and_post" by (simp add: raw_ok_def note_and_post_def bt_ok_def finite_toml_def)
  have "json_ty (demo_value t) = Some t" for t by (cases t) (simp_all add: demo_value_def json_ty_def)
  then show "answers_typed builtin_registry demo_route"
    by (auto simp: answers_typed_def demo_route_def split: option.splits if_splits)
qed

end
