(* ===== verification/RunbookVoice.thy ===== *)
theory RunbookVoice
  imports RunbookTypes ActionJournal
begin

text \<open>
  The spoken surface of \<open>daemon/src/runbook.rs\<close>: the names it accepts, the classifier and the load of
  a runbook from its directory. \<open>str::to_lowercase\<close> is the parameter \<open>low\<close>, the files of the disk are
  a map from paths to contents, and the TOML reader is the parameter \<open>rd\<close>.
\<close>

section \<open>Names\<close>

definition RUNBOOK_SUBDIR :: string where
  "RUNBOOK_SUBDIR = ''state/runbooks''"

definition MAX_RUNBOOK_NAME_LEN :: nat where
  "MAX_RUNBOOK_NAME_LEN = 64"

text \<open>The bytes of an admitted name. Every byte of a character beyond ASCII is over 127.\<close>

definition stem_char :: "char \<Rightarrow> bool" where
  "stem_char c \<longleftrightarrow> ascii_alnum c \<or> c \<in> {CHR ''.'', CHR ''_'', CHR ''-''}"

definition drop_extension :: "string \<Rightarrow> string" where
  "drop_extension s =
     (case strip_suffix ''.runbook.toml'' s of Some r \<Rightarrow> r
      | None \<Rightarrow> (case strip_suffix ''.runbook'' s of Some r \<Rightarrow> r
      | None \<Rightarrow> (case strip_suffix ''.toml'' s of Some r \<Rightarrow> r | None \<Rightarrow> s)))"

definition normalize_runbook_name :: "(string \<Rightarrow> string) \<Rightarrow> string \<Rightarrow> string" where
  "normalize_runbook_name low raw =
     (let stem = trim (drop_extension (low (trim raw))) in
      if stem = [] \<or> MAX_RUNBOOK_NAME_LEN < length stem then []
      else if starts_with ''.'' stem \<or> str_contains stem ''/'' \<or> str_contains stem [CHR 0x5C] \<or> str_contains stem ''..'' then []
      else if \<not> list_all stem_char stem then []
      else stem)"

section \<open>The classifier\<close>

datatype runbook_command = PlanCmd string | RunCmd string

definition cmd_name :: "runbook_command \<Rightarrow> string" where
  "cmd_name c = (case c of PlanCmd n \<Rightarrow> n | RunCmd n \<Rightarrow> n)"

definition PLAN_FRAMES :: "string list" where
  "PLAN_FRAMES = [''show me what the '', ''show me what my '', ''show what the '', ''show what my '',
     ''tell me what the '', ''tell me what my '',
     ''what would the '', ''what would my '', ''what does the '', ''what does my '']"

definition PLAN_TAILS :: "string list" where
  "PLAN_TAILS = [''would do'', ''would run'', ''will do'', ''does'', ''do'']"

definition named :: "string \<Rightarrow> string option" where
  "named n = (if n = [] then None else Some n)"

definition plan_dry_run_name :: "(string \<Rightarrow> string) \<Rightarrow> string \<Rightarrow> string option" where
  "plan_dry_run_name low t =
     (case find_map (\<lambda>f. strip_prefix f t) PLAN_FRAMES of
        None \<Rightarrow> None
      | Some rest \<Rightarrow>
          (case split_once '' runbook '' rest of
             None \<Rightarrow> None
           | Some (name, tail) \<Rightarrow>
               if trim tail \<notin> set PLAN_TAILS then None else named (normalize_runbook_name low name)))"

text \<open>A loop over leads: the first one that starts the text and leaves an admitted name.\<close>

definition named_after_lead :: "(string \<Rightarrow> string) \<Rightarrow> string list \<Rightarrow> string \<Rightarrow> string option" where
  "named_after_lead low leads t =
     find_map (\<lambda>lead. Option.bind (strip_prefix lead t) (\<lambda>rest. named (normalize_runbook_name low rest))) leads"

definition DETERMINERS :: "string list" where
  "DETERMINERS = [''the'', ''a'', ''an'', ''my'', ''our'', ''your'', ''this'', ''that'', ''it'']"

definition named_before_noun :: "(string \<Rightarrow> string) \<Rightarrow> string list \<Rightarrow> string \<Rightarrow> string option" where
  "named_before_noun low leads t =
     (case strip_suffix '' runbook'' t of
        None \<Rightarrow> None
      | Some b \<Rightarrow>
          find_map (\<lambda>lead. Option.bind (strip_prefix lead (trim_end b)) (\<lambda>rest.
             let name = normalize_runbook_name low rest in
             if name \<noteq> [] \<and> name \<notin> set DETERMINERS then Some name else None)) leads)"

definition PLAN_LEADS :: "string list" where
  "PLAN_LEADS = [''plan the runbook '', ''plan runbook '', ''preview the runbook '', ''preview runbook '']"

definition PLAN_VERBS :: "string list" where
  "PLAN_VERBS = [''plan the '', ''plan my '', ''plan '', ''preview the '', ''preview my '', ''preview '']"

definition RUN_LEADS :: "string list" where
  "RUN_LEADS = [''run the runbook '', ''run runbook '', ''execute the runbook '', ''execute runbook '']"

definition RUN_VERBS :: "string list" where
  "RUN_VERBS = [''run the '', ''run my '', ''run '', ''execute the '', ''execute my '', ''execute '']"

definition spoken_text :: "(string \<Rightarrow> string) \<Rightarrow> string \<Rightarrow> string" where
  "spoken_text low txt = trim (trim_end_matches [CHR ''.'', CHR ''!'', CHR ''?''] (low (trim txt)))"

definition classify_runbook_command :: "(string \<Rightarrow> string) \<Rightarrow> string \<Rightarrow> runbook_command option" where
  "classify_runbook_command low txt =
     (let t = spoken_text low txt in
      case named_after_lead low PLAN_LEADS t of Some n \<Rightarrow> Some (PlanCmd n)
      | None \<Rightarrow> (case named_before_noun low PLAN_VERBS t of Some n \<Rightarrow> Some (PlanCmd n)
      | None \<Rightarrow> (case plan_dry_run_name low t of Some n \<Rightarrow> Some (PlanCmd n)
      | None \<Rightarrow> (case named_after_lead low RUN_LEADS t of Some n \<Rightarrow> Some (RunCmd n)
      | None \<Rightarrow> (case named_before_noun low RUN_VERBS t of Some n \<Rightarrow> Some (RunCmd n)
      | None \<Rightarrow> None)))))"

section \<open>The load\<close>

text \<open>\<open>Path::join\<close> on Unix.\<close>

definition join_path :: "string \<Rightarrow> string \<Rightarrow> string" where
  "join_path base p =
     (if starts_with ''/'' p then p
      else if base = [] \<or> ends_with ''/'' base then base @ p else base @ ''/'' @ p)"

definition runbook_path :: "string \<Rightarrow> string \<Rightarrow> string" where
  "runbook_path root name = join_path (join_path root RUNBOOK_SUBDIR) (name @ ''.runbook.toml'')"

definition load_runbook ::
    "(string \<Rightarrow> string) \<Rightarrow> (string \<Rightarrow> string + raw_file) \<Rightarrow> (string \<Rightarrow> string option) \<Rightarrow> string \<Rightarrow> string \<Rightarrow> string + runbook" where
  "load_runbook low rd files root raw =
     (let name = normalize_runbook_name low raw in
      if name = [] then Inl (apos ''that isn'' ''t a valid runbook name'')
      else case files (runbook_path root name) of
        None \<Rightarrow> Inl (''I have no runbook named '' @ dquoted name)
      | Some src \<Rightarrow>
          (case parse_runbook (rd src) of
             Inl e \<Rightarrow> Inl (''runbook '' @ dquoted name @ apos '' didn'' ''t parse: '' @ e)
           | Inr rb \<Rightarrow> Inr rb))"

section \<open>Confinement\<close>

definition plain_stem :: "string \<Rightarrow> bool" where
  "plain_stem s \<longleftrightarrow> s \<noteq> [] \<and> length s \<le> 64 \<and> list_all stem_char s \<and> hd s \<noteq> CHR ''.'' \<and> \<not> str_contains s ''..''"

lemma normalized_stem: "normalize_runbook_name low raw = [] \<or> plain_stem (normalize_runbook_name low raw)"
proof -
  have "hd s \<noteq> CHR ''.''" if "\<not> starts_with ''.'' s" "s \<noteq> []" for s
    using that by (cases s) (simp_all add: starts_with_def)
  then show ?thesis
    by (auto simp: normalize_runbook_name_def plain_stem_def Let_def MAX_RUNBOOK_NAME_LEN_def)
qed

lemma admitted_stem: "normalize_runbook_name low raw \<noteq> [] \<Longrightarrow> plain_stem (normalize_runbook_name low raw)"
  using normalized_stem by blast

lemma named_stem: "named (normalize_runbook_name low raw) = Some n \<Longrightarrow> plain_stem n"
  using normalized_stem [of low raw] by (auto simp: named_def split: if_splits)

lemma after_lead_stem:
  "named_after_lead low leads t = Some n \<Longrightarrow> plain_stem n \<and> (\<exists>l \<in> set leads. starts_with l t)"
  by (auto simp: named_after_lead_def strip_prefix_def bind_eq_Some_conv split: if_splits
      dest!: find_map_Some intro: named_stem)

lemma before_noun_stem:
  "named_before_noun low leads t = Some n \<Longrightarrow> plain_stem n \<and> (\<exists>b. strip_suffix '' runbook'' t = Some b
     \<and> (\<exists>l \<in> set leads. starts_with l (trim_end b)))"
  by (auto simp: named_before_noun_def strip_prefix_def bind_eq_Some_conv Let_def split: if_splits option.splits
      dest!: find_map_Some intro: admitted_stem)

lemma dry_run_stem: "plan_dry_run_name low t = Some n \<Longrightarrow> plain_stem n"
  by (auto simp: plan_dry_run_name_def split: option.splits if_splits prod.splits intro: named_stem)

lemma classified_stem: "classify_runbook_command low txt = Some c \<Longrightarrow> plain_stem (cmd_name c)"
  unfolding classify_runbook_command_def Let_def
  by (auto simp: cmd_name_def split: option.splits dest: after_lead_stem before_noun_stem dry_run_stem)

lemma load_agrees:
  assumes "\<And>n. plain_stem n \<Longrightarrow> files (runbook_path root n) = files' (runbook_path root n)"
  shows "load_runbook low rd files root raw = load_runbook low rd files' root raw"
  using assms normalized_stem [of low raw] by (auto simp: load_runbook_def Let_def)

text \<open>An admitted name is one component of a path: it has no separator and is no dot entry.\<close>

lemma stem_component: "plain_stem n \<Longrightarrow> CHR ''/'' \<notin> set n \<and> n \<noteq> ''.'' \<and> n \<noteq> ''..''"
  by (auto simp: plain_stem_def list_all_iff stem_char_def ascii_alnum_def ascii_upper_def ascii_lower_def ascii_digit_def)

lemma stem_path:
  assumes "plain_stem n" and "root \<noteq> []" and "\<not> ends_with ''/'' root"
  shows "runbook_path root n = root @ ''/state/runbooks/'' @ n @ ''.runbook.toml''"
proof -
  obtain c r where n: "n = c # r" "stem_char c" using assms(1) by (cases n) (auto simp: plain_stem_def)
  have "c \<noteq> CHR ''/''" using stem_component [OF assms(1)] n by auto
  moreover have "join_path root RUNBOOK_SUBDIR = root @ ''/state/runbooks''"
    using assms(2,3) by (simp add: join_path_def RUNBOOK_SUBDIR_def starts_with_def)
  ultimately show ?thesis
    using n by (simp add: runbook_path_def join_path_def starts_with_def ends_with_def)
qed

lemma starts_with_longer: "starts_with l s \<Longrightarrow> starts_with l (s @ r)"
  by (auto simp: starts_with_iff)

lemma before_noun_start:
  assumes "named_before_noun low leads t = Some n"
  shows "\<exists>l \<in> set leads. starts_with l t"
proof -
  obtain b l where b: "strip_suffix '' runbook'' t = Some b" "l \<in> set leads" "starts_with l (trim_end b)"
    using before_noun_stem [OF assms] by blast
  obtain r1 r2 where "b = trim_end b @ r1" "t = b @ r2" using trim_end_start strip_suffix_start [OF b(1)] by blast
  then have "t = trim_end b @ (r1 @ r2)" by simp
  then show ?thesis using b(2) starts_with_longer [OF b(3)] by metis
qed

lemma shorter_start: "starts_with (a @ b) t \<Longrightarrow> starts_with a t"
  by (auto simp: starts_with_iff)

lemma run_verb:
  assumes "l \<in> set (RUN_LEADS @ RUN_VERBS)" and "starts_with l t"
  shows "starts_with ''run '' t \<or> starts_with ''execute '' t"
proof -
  have "starts_with ''run '' l \<or> starts_with ''execute '' l"
    using assms(1) by (auto simp: RUN_LEADS_def RUN_VERBS_def starts_with_def)
  then obtain a b where "l = a @ b" "a = ''run '' \<or> a = ''execute ''"
    unfolding starts_with_iff by blast
  then show ?thesis using shorter_start assms(2) by blast
qed

lemma run_words:
  assumes "classify_runbook_command low txt = Some (RunCmd n)"
  shows "starts_with ''run '' (spoken_text low txt) \<or> starts_with ''execute '' (spoken_text low txt)"
proof -
  let ?t = "spoken_text low txt"
  have "named_after_lead low RUN_LEADS ?t = Some n \<or> named_before_noun low RUN_VERBS ?t = Some n"
    using assms by (auto simp: classify_runbook_command_def Let_def split: option.splits)
  then obtain l where "l \<in> set (RUN_LEADS @ RUN_VERBS)" "starts_with l ?t"
    using after_lead_stem before_noun_start by (metis UnI1 UnI2 set_append)
  then show ?thesis by (rule run_verb)
qed

text \<open>
  A spoken runbook command is confined to one file. The command names a plain stem, the load
  that follows reads at most the one file of a plain stem directly inside \<open>state/runbooks\<close> under the
  root, whatever else is on the disk, and a command that runs anything opens with run or execute.
\<close>
theorem spoken_runbook_is_confined:
  assumes "classify_runbook_command low txt = Some cmd" and "root \<noteq> []" and "\<not> ends_with ''/'' root"
  shows "plain_stem (cmd_name cmd)
    \<and> (\<exists>n. plain_stem n \<and> CHR ''/'' \<notin> set n
        \<and> (\<forall>rd files files'. files (root @ ''/state/runbooks/'' @ n @ ''.runbook.toml'')
             = files' (root @ ''/state/runbooks/'' @ n @ ''.runbook.toml'')
             \<longrightarrow> load_runbook low rd files root (cmd_name cmd) = load_runbook low rd files' root (cmd_name cmd)))
    \<and> (\<forall>n. cmd = RunCmd n \<longrightarrow> starts_with ''run '' (spoken_text low txt) \<or> starts_with ''execute '' (spoken_text low txt))"
proof (intro conjI allI impI)
  show stem: "plain_stem (cmd_name cmd)" by (rule classified_stem [OF assms(1)])
  show "starts_with ''run '' (spoken_text low txt) \<or> starts_with ''execute '' (spoken_text low txt)" if "cmd = RunCmd n" for n
    using run_words assms(1) that by blast
  let ?n = "normalize_runbook_name low (cmd_name cmd)"
  show "\<exists>n. plain_stem n \<and> CHR ''/'' \<notin> set n
        \<and> (\<forall>rd files files'. files (root @ ''/state/runbooks/'' @ n @ ''.runbook.toml'')
             = files' (root @ ''/state/runbooks/'' @ n @ ''.runbook.toml'')
             \<longrightarrow> load_runbook low rd files root (cmd_name cmd) = load_runbook low rd files' root (cmd_name cmd))"
  proof (cases "?n = []")
    case True
    then show ?thesis using stem stem_component [OF stem] by (auto simp: load_runbook_def)
  next
    case False
    note n = admitted_stem [OF False]
    have "load_runbook low rd files root (cmd_name cmd) = load_runbook low rd files' root (cmd_name cmd)"
      if "files (root @ ''/state/runbooks/'' @ ?n @ ''.runbook.toml'') = files' (root @ ''/state/runbooks/'' @ ?n @ ''.runbook.toml'')"
      for rd files files'
      using that unfolding stem_path [OF n assms(2,3), symmetric] by (simp add: load_runbook_def Let_def)
    then show ?thesis using n stem_component [OF n] by blast
  qed
qed

lemma demo_spoken:
  "classify_runbook_command to_ascii_lowercase ''Run the standup runbook.'' = Some (RunCmd ''standup'')"
proof -
  have t: "spoken_text to_ascii_lowercase ''Run the standup runbook.'' = ''run the standup runbook''"
    by (simp add: spoken_text_def str_simps trim_list_def trim_end_matches_def)
  have e: "trim_end ''run the standup'' = ''run the standup''"
    by (simp add: trim_end_def chars_ascii str_simps is_whitespace_byte)
  have n: "normalize_runbook_name to_ascii_lowercase ''standup'' = ''standup''"
    by (simp add: normalize_runbook_name_def drop_extension_def strip_suffix_def ends_with_def starts_with_def str_simps
        trim_list_def stem_char_def MAX_RUNBOOK_NAME_LEN_def)
  show ?thesis
    by (simp add: classify_runbook_command_def t Let_def named_after_lead_def PLAN_LEADS_def named_before_noun_def PLAN_VERBS_def
        strip_prefix_def strip_suffix_def ends_with_def starts_with_def e n plan_dry_run_name_def PLAN_FRAMES_def
        RUN_LEADS_def RUN_VERBS_def DETERMINERS_def)
qed

lemma spoken_runbook_is_confined_witness:
  "plain_stem ''standup'' \<and> (starts_with ''run '' (spoken_text to_ascii_lowercase ''Run the standup runbook.'')
     \<or> starts_with ''execute '' (spoken_text to_ascii_lowercase ''Run the standup runbook.''))"
proof -
  have "''/opt'' \<noteq> []" "\<not> ends_with ''/'' ''/opt''" by (simp_all add: ends_with_def)
  from spoken_runbook_is_confined [OF demo_spoken this] show ?thesis by (simp add: cmd_name_def)
qed

end
