(* ===== verification/RunbookLive.thy ===== *)
theory RunbookLive
  imports RunbookVoice ChokeSafety
begin

text \<open>
  Runbooks in the running daemon: \<open>classify_step_outcome\<close> of \<open>daemon/src/runbook.rs\<close> and
  \<open>handle_runbook_command\<close> with its router of \<open>daemon/src/router.rs\<close>, over the chokepoint. Each step
  sees its own outside (clock and answers), chosen by the id of the step. Telemetry frames are left out.
\<close>

section \<open>The live router\<close>

definition classify_step_outcome :: "bool \<Rightarrow> string \<Rightarrow> bool \<Rightarrow> step_result" where
  "classify_step_outcome consequential out is_error =
     (if is_error then StepRefused out
      else if consequential then StepParked out
      else StepProduced (JStr out))"

definition live_router :: "(string \<Rightarrow> outside) \<Rightarrow> string list \<Rightarrow> string \<Rightarrow> world router" where
  "live_router X allowed ns x w =
     (let (w', out, err, eff) = execute_tool (X (rs_id x)) (rs_uses x) (JObj (rs_input x)) allowed ns False False w
      in (w', classify_step_outcome (rs_consequential x) out err))"

definition plural :: "nat \<Rightarrow> string" where
  "plural n = (if n = 1 then [] else ''s'')"

definition error_count :: "diagnostic list \<Rightarrow> nat" where
  "error_count ds = length (filter (\<lambda>d. dg_severity d = SevError) ds)"

definition plan_reply :: "run_plan \<Rightarrow> string" where
  "plan_reply p =
     (let errs = error_count (rp_diagnostics p); n = length (rp_steps p) in
      ''Runbook '' @ dquoted (rp_name p) @ '', sir: '' @ nat_text n @ '' step'' @ plural n @ '', '' @ nat_text (rp_park_count p)
        @ '' will park for a fresh spoken confirm.''
        @ (if is_runnable p then '' It type-checks and is ready to run.''
           else '' It has '' @ nat_text errs @ '' error'' @ plural errs @ apos '' and will NOT run until they'' ''re fixed.''))"

definition outcome_count :: "run_outcome \<Rightarrow> run_report \<Rightarrow> nat" where
  "outcome_count k r = length (filter (\<lambda>s. so_outcome s = k) (rr_steps r))"

definition awaiting_text :: string where
  "awaiting_text = '' The most recent parked step is awaiting your '' @ dquoted ''yes''
     @ ''; each consequential step re-gates fresh '' @ dash @ '' none was pre-approved.''"

definition run_reply :: "(string \<Rightarrow> string) \<Rightarrow> runbook \<Rightarrow> run_report \<Rightarrow> string" where
  "run_reply dbg rb r =
     (if rr_refused_unsound r then
        (let errs = error_count (check dbg rb builtin_registry) in
         ''Runbook '' @ dquoted (rb_name rb) @ apos '' didn'' ''t type-check, sir '' @ dash @ '' I refused to run it ('' @ nat_text errs
           @ '' error'' @ plural errs @ ''). Say '' @ dquoted (''plan the runbook '' @ rb_name rb) @ apos '' and I'' ''ll show you what''
           @ [CHR 0x27] @ ''s wrong.'')
      else
        ''Ran runbook '' @ dquoted (rr_name r) @ '' ('' @ nat_text (length (rr_steps r)) @ '' step'' @ plural (length (rr_steps r))
          @ ''), sir: '' @ nat_text (outcome_count RunDone r) @ '' done, '' @ nat_text (outcome_count RunParked r)
          @ '' parked for confirm, '' @ nat_text (outcome_count RunRefused r) @ '' refused, ''
          @ nat_text (outcome_count RunBlocked r) @ '' blocked.''
          @ (if 0 < outcome_count RunParked r then awaiting_text else []))"

record runbook_env =
  re_enabled :: bool
  re_max_steps :: nat
  re_root :: string
  re_low :: "string \<Rightarrow> string"
  re_reader :: "string \<Rightarrow> string + raw_file"
  re_files :: "string \<Rightarrow> string option"
  re_debug :: "string \<Rightarrow> string"

definition RUNBOOKS_OFF :: string where
  "RUNBOOKS_OFF = ''Runbooks are off ([runbook].enabled = false), sir '' @ dash @ apos '' I'' ''m not planning or running any.''"

definition handle_runbook_command ::
    "runbook_env \<Rightarrow> (string \<Rightarrow> outside) \<Rightarrow> string list \<Rightarrow> string \<Rightarrow> runbook_command \<Rightarrow> world \<Rightarrow> world \<times> string" where
  "handle_runbook_command R X allowed ns cmd w =
     (if \<not> re_enabled R then (w, RUNBOOKS_OFF)
      else case load_runbook (re_low R) (re_reader R) (re_files R) (re_root R) (cmd_name cmd) of
        Inl e \<Rightarrow> (w, e @ '', sir.'')
      | Inr rb \<Rightarrow>
          if re_max_steps R < length (rb_steps rb)
          then (w, ''Runbook '' @ dquoted (rb_name rb) @ '' has '' @ nat_text (length (rb_steps rb)) @ '' steps, over the ''
                 @ nat_text (re_max_steps R) @ ''-step bound, sir '' @ dash @ apos '' I won'' ''t run an unbounded DAG.'')
          else (case cmd of
             PlanCmd _ \<Rightarrow> (w, plan_reply (plan_runbook (re_debug R) rb builtin_registry))
           | RunCmd _ \<Rightarrow>
               (let (rep, w') = run_runbook (re_debug R) rb builtin_registry (live_router X allowed ns) w
                in (w', run_reply (re_debug R) rb rep))))"

section \<open>Runs, with and without the trace\<close>

text \<open>A step of the runbook, resolved.\<close>

definition step_of :: "runbook \<Rightarrow> registry \<Rightarrow> resolved_step \<Rightarrow> bool" where
  "step_of rb reg x \<longleftrightarrow> (\<exists>s \<in> set (rb_steps rb). rs_uses x = st_uses s \<and> rs_consequential x = step_consequential reg s)"

lemma resolve_step_of:
  assumes "resolve_step reg P C s = Inr x" and "s \<in> set (rb_steps rb)"
  shows "step_of rb reg x"
  using assms by (force simp: resolve_step_def step_of_def split: option.splits sum.splits)

lemma run_walk_traced:
  "run_walk rb reg (traced route) order st (w, L) = (st', wl) \<Longrightarrow> run_walk rb reg route order st w = (st', fst wl)"
proof (induction order arbitrary: st w L)
  case (Cons i order)
  show ?case
  proof (cases "rb_step rb i")
    case (Some s)
    obtain st2 w2 L2 where one: "run_one reg (traced route) s st (w, L) = (st2, (w2, L2))" by (metis prod_cases3)
    then have "run_one reg route s st w = (st2, w2)"
      by (auto simp: run_one_def traced_def split: sum.splits prod.splits)
    then show ?thesis using Cons.IH Cons.prems Some one by simp
  qed (use Cons in simp)
qed auto

lemma run_traced:
  assumes "run_runbook dbg rb reg route w = (rep, w')"
  obtains L where "run_runbook dbg rb reg (traced route) (w, []) = (rep, (w', L))"
proof (cases "has_errors (check dbg rb reg)")
  case True
  then show ?thesis using assms that [of "[]"] by (simp add: run_runbook_def)
next
  case False
  obtain st w2 L where t: "run_walk rb reg (traced route) (walk_order rb) run_start (w, []) = (st, (w2, L))" by (metis prod_cases3)
  then have "run_walk rb reg route (walk_order rb) run_start w = (st, w2)" using run_walk_traced by fastforce
  then show ?thesis using assms that [of L] t False by (simp add: run_runbook_def)
qed

text \<open>A relation every routed step keeps is kept by the run.\<close>

lemma run_walk_rule:
  assumes "\<And>w. Q w w" and "\<And>u v w. Q u v \<Longrightarrow> Q v w \<Longrightarrow> Q u w"
    and "\<And>x w. step_of rb reg x \<Longrightarrow> Q w (fst (route x w))"
  shows "Q w (snd (run_walk rb reg route order st w))"
proof (induction order arbitrary: st w)
  case (Cons i order)
  show ?case
  proof (cases "rb_step rb i")
    case (Some s)
    obtain st2 w2 where one: "run_one reg route s st w = (st2, w2)" by (cases "run_one reg route s st w")
    have "Q w w2"
    proof (cases "resolve_step reg (produced_of st) (completed_of st) s")
      case (Inr x)
      then show ?thesis using one assms(3) [OF resolve_step_of [OF Inr, of rb], of w] rb_step_Some [OF Some]
        by (auto simp: run_one_def split: prod.splits)
    qed (use one assms(1) in \<open>simp add: run_one_def\<close>)
    then show ?thesis using Cons.IH [of w2 st2] assms(2) Some one by auto
  qed (use Cons in simp)
qed (simp add: assms(1))

lemma run_rule:
  assumes "\<And>w. Q w w" and "\<And>u v w. Q u v \<Longrightarrow> Q v w \<Longrightarrow> Q u w"
    and "\<And>x w. well_typed rb reg \<Longrightarrow> step_of rb reg x \<Longrightarrow> Q w (fst (route x w))"
    and "run_runbook dbg rb reg route w = (rep, w')"
  shows "Q w w'"
proof (cases "well_typed rb reg")
  case True
  then have "w' = snd (run_walk rb reg route (walk_order rb) run_start w)"
    using assms(4) check_decides [of dbg rb reg] by (auto simp: run_runbook_def split: prod.splits)
  then show ?thesis using run_walk_rule [where Q = Q, OF assms(1,2) assms(3) [OF True]] by simp
next
  case False
  then have "w' = w" using assms(4) check_decides [of dbg rb reg] by (simp add: run_runbook_def)
  then show ?thesis by (simp add: assms(1))
qed

section \<open>Nothing fires\<close>

definition quiet_step :: "world \<Rightarrow> world \<Rightarrow> bool" where
  "quiet_step w w' \<longleftrightarrow> (\<exists>cs. w_calls w' = w_calls w @ cs \<and> filter fires cs = [])"

lemma quiet_step_refl: "quiet_step w w"
  by (simp add: quiet_step_def)

lemma quiet_step_trans: "quiet_step u v \<Longrightarrow> quiet_step v w \<Longrightarrow> quiet_step u w"
  by (auto simp: quiet_step_def)

lemma quiet_new: "quiet_step w w' \<Longrightarrow> filter fires (new_calls w w') = []"
  by (auto simp: quiet_step_def new_calls_def)

lemma unattended_quiet:
  assumes "serde_objects X" and "no_unlock X" and "tn \<noteq> ''forge_app''"
  shows "quiet_step w (fst (execute_tool X tn (JObj m) al ns uo False w))"
proof -
  obtain w' out err eff where res: "execute_tool_bound X tn (JObj m) al ns uo False True w = (w', out, err, eff)"
    by (metis prod_cases4)
  obtain cs where cs: "w_calls w' = w_calls w @ cs" using execute_calls_grow [of X tn "JObj m" al ns uo False True w] res by auto
  have "only_authorised X tn (JObj m) al ns uo False w (w', out, err, eff)"
    using execute_authorised [OF assms(1,2), of "JObj m" tn al ns uo False w True] res by (simp add: is_object_def)
  then have "filter fires cs = []"
    using assms(3) by (auto simp: only_authorised_def new_calls_def cs authorised_def split: list.splits)
  then show ?thesis using res cs by (auto simp: execute_tool_def quiet_step_def)
qed

lemma live_fst: "fst (live_router X al ns x w) = fst (execute_tool (X (rs_id x)) (rs_uses x) (JObj (rs_input x)) al ns False False w)"
  by (simp add: live_router_def split: prod.splits)

text \<open>The tools a well-typed runbook can name.\<close>

lemma builtin_names: "map cap_name builtin_registry = [''github_list_prs'', ''gmail_list_recent'', ''recall_semantic'', ''distill'',
    ''slack_post_message'', ''gmail_send'', ''github_open_pr'']"
  by (simp add: builtin_registry_def builtin_seed_def)

lemma reg_get_name: "reg_get reg n = Some c \<Longrightarrow> n \<in> set (map cap_name reg)"
  by (auto simp: reg_get_def find_Some_iff) (metis image_eqI nth_mem set_rev length_rev)

lemma typed_uses:
  assumes "well_typed rb reg" and "step_of rb reg x"
  shows "rs_uses x \<in> set (map cap_name reg)"
proof -
  obtain s where s: "s \<in> set (rb_steps rb)" "rs_uses x = st_uses s" using assms(2) by (auto simp: step_of_def)
  then have "step_typed rb reg s" using assms(1) by (simp add: well_typed_def list_all_iff)
  then obtain c where "reg_get reg (st_uses s) = Some c" by (auto simp: step_typed_def split: option.splits)
  then show ?thesis using reg_get_name s(2) by metis
qed

lemma run_quiet:
  assumes "\<And>i. serde_objects (X i) \<and> no_unlock (X i)"
    and "run_runbook dbg rb builtin_registry (live_router X al ns) w = (rep, w')"
  shows "quiet_step w w'"
  using quiet_step_refl quiet_step_trans
proof (rule run_rule [where Q = quiet_step, OF _ _ _ assms(2)])
  fix x w assume "well_typed rb builtin_registry" "step_of rb builtin_registry x"
  from typed_uses [OF this] have "rs_uses x \<noteq> ''forge_app''" by (auto simp: builtin_names)
  then show "quiet_step w (fst (live_router X al ns x w))" using unattended_quiet assms(1) live_fst by metis
qed

lemma runbook_command_cases:
  assumes "handle_runbook_command R X al ns cmd w = (w', reply)"
  shows "w' = w \<or> (\<exists>rb rep n. cmd = RunCmd n \<and> run_runbook (re_debug R) rb builtin_registry (live_router X al ns) w = (rep, w'))"
  using assms by (auto simp: handle_runbook_command_def split: if_splits sum.splits runbook_command.splits prod.splits)

lemma runbook_command_quiet:
  assumes "\<forall>i. serde_objects (X i) \<and> no_unlock (X i)" and "handle_runbook_command R X al ns cmd w = (w', reply)"
  shows "quiet_step w w'"
proof -
  have X: "serde_objects (X i) \<and> no_unlock (X i)" for i using assms(1) by blast
  show ?thesis using runbook_command_cases [OF assms(2)] run_quiet [where X = X, OF X] quiet_step_refl by blast
qed

text \<open>
  C11. A spoken runbook command fires nothing. Whatever the runbook, the policies and the answers of
  the outside, planning makes no call at all and running makes no call that acts on the world: every
  consequential step is parked, previewed, refused or blocked, also under a policy of always.
\<close>
theorem runbook_fires_nothing:
  assumes "\<forall>i. serde_objects (X i) \<and> no_unlock (X i)"
    and "handle_runbook_command R X al ns cmd w = (w', reply)"
  shows "filter fires (new_calls w w') = [] \<and> ((\<exists>n. cmd = PlanCmd n) \<longrightarrow> w' = w)"
  using quiet_new [OF runbook_command_quiet [OF assms]] runbook_command_cases [OF assms(2)] by auto

section \<open>No prompt is left\<close>

definition no_new_prompt :: "world \<Rightarrow> world \<Rightarrow> bool" where
  "no_new_prompt w w' \<longleftrightarrow> prompted (stop_confirm (w_stop w')) = None
     \<or> prompted (stop_confirm (w_stop w')) = prompted (stop_confirm (w_stop w))"

lemma no_new_prompt_refl: "no_new_prompt w w"
  by (simp add: no_new_prompt_def)

lemma no_new_prompt_trans: "no_new_prompt u v \<Longrightarrow> no_new_prompt v w \<Longrightarrow> no_new_prompt u w"
  by (auto simp: no_new_prompt_def)

lemma same_stop_prompt: "w_stop w' = w_stop w \<Longrightarrow> no_new_prompt w w'"
  by (simp add: no_new_prompt_def)

lemma racing_prompt: "no_new_prompt w (racing X r w)"
  by (auto simp: racing_def no_new_prompt_def lockdown_panic_def lockdown_unlock_def confirm_clear_def Let_def
      set_flag_def write_marker_def remove_marker_def stop_record_def split: option.splits bool.splits)

lemma row_prompt [simp]:
  "no_new_prompt u (audit_row X ns tn pv d r w) = no_new_prompt u w"
  "no_new_prompt u (journal_row X ns tn i pv out al b via w) = no_new_prompt u w"
  "no_new_prompt u (log_call c w) = no_new_prompt u w"
  "no_new_prompt (audit_row X ns tn pv d r w) u = no_new_prompt w u"
  "no_new_prompt (log_call c w) u = no_new_prompt w u"
  by (simp_all add: no_new_prompt_def audit_row_def journal_row_def log_call_def)

lemma park_prompt: "park X False p w = (w', prompt) \<Longrightarrow> no_new_prompt w w'"
  by (auto simp: park_def no_new_prompt_def park_ctx_def park_inner_def set_confirm_def Let_def split: prod.splits)

lemma manager_prompt: "manager_call X f ag s t i m w = (w', out, err) \<Longrightarrow> no_new_prompt w w'"
  using manager_call_calls same_stop_prompt by blast

lemma dispatch_prompt:
  assumes "dispatch_tool X tn inp ns uo w = (w', out, err)"
  shows "no_new_prompt w w'"
proof -
  have g: "no_new_prompt w w'" if "gated_dispatch X tn inp c w = (w', out, err)" for c
  proof (cases "pre_gate X tn inp (is_locked_down (w_stop w))")
    case None
    let ?w1 = "racing X (fst (race X tn inp)) w"
    have "no_new_prompt w ?w1" by (rule racing_prompt)
    moreover have "no_new_prompt ?w1 (racing X (snd (race X tn inp)) (log_call (Gated tn inp (gate ?w1 c)) ?w1))"
      using racing_prompt [of "log_call (Gated tn inp (gate ?w1 c)) ?w1" X "snd (race X tn inp)"] by simp
    ultimately show ?thesis using that None no_new_prompt_trans by (auto simp: gated_dispatch_def Let_def)
  qed (use that in \<open>simp add: gated_dispatch_def no_new_prompt_refl\<close>)
  have k: "no_new_prompt w w'" if "skill_invoke_dispatch X n a c w = (w', out, err)" for n a c
    using that by (auto simp: skill_invoke_dispatch_def no_new_prompt_refl split: option.splits if_splits)
  show ?thesis
    using assms unfolding dispatch_tool_def
    by (auto simp: no_new_prompt_refl split: if_splits option.splits dest: g k manager_prompt)
qed

lemma gated_prompt:
  assumes "execute_gated X tn inp al ns uo False w = (w', out, err, eff)"
  shows "no_new_prompt w w'"
proof -
  obtain w1 pv e where d: "dispatch_tool X tn (force_confirm inp False) ns uo w = (w1, pv, e)" by (metis prod_cases3)
  define dec where "dec = downgrade_always_if_unattended (evaluate_global (w_policy w1) tn ns pv) False"
  have dec: "dec \<noteq> Always" by (simp add: dec_def downgrade_Always)
  note u = assms [unfolded execute_gated_def Let_def d prod.case dec_def [symmetric]]
  have "no_new_prompt w1 w'"
    using u dec by (auto simp: no_new_prompt_refl split: if_splits prod.splits dest: park_prompt)
  then show ?thesis using dispatch_prompt [OF d] no_new_prompt_trans by blast
qed

lemma mcp_prompt:
  assumes "execute_mcp_tool X tn inp ns uo False w = (w', out, err, eff)"
  shows "no_new_prompt w w'"
proof (cases "parse_flat_tool_name tn")
  case None
  then show ?thesis using assms by (simp add: execute_mcp_tool_def no_new_prompt_refl)
next
  case (Some st)
  obtain server tool where st: "st = (server, tool)" by (cases st)
  let ?ag = "agent_id_from_namespace ns"
  obtain w1 pv e where d: "manager_call X tn ?ag server tool inp ModeDryRun w = (w1, pv, e)" by (metis prod_cases3)
  obtain w2 o2 e2 where d2: "manager_call X tn ?ag server tool inp ModeExecute w = (w2, o2, e2)" by (metis prod_cases3)
  define dec where "dec = downgrade_always_if_unattended (evaluate_global (w_policy w1) tn ns pv) False"
  have dec: "dec \<noteq> Always" by (simp add: dec_def downgrade_Always)
  note u = assms [unfolded execute_mcp_tool_def Let_def Some st option.case d d2 prod.case dec_def [symmetric]]
  have "no_new_prompt w2 w' \<or> no_new_prompt w w' \<or> no_new_prompt w1 w'"
    using u dec by (auto simp: no_new_prompt_refl split: if_splits prod.splits dest: park_prompt)
  moreover have "no_new_prompt w w1" "no_new_prompt w w2" using manager_prompt d d2 by blast+
  ultimately show ?thesis using no_new_prompt_trans by blast
qed

lemma execute_prompt: "no_new_prompt w (fst (execute_tool X tn inp al ns uo False w))"
proof -
  have d: "no_new_prompt w (fst (dispatch_tool X tn inp ns uo w))" using dispatch_prompt by (metis prod_cases3 fst_conv)
  have g: "no_new_prompt w (fst (execute_gated X tn inp al ns uo False w))" using gated_prompt by (metis prod_cases4 fst_conv)
  have m: "no_new_prompt w (fst (execute_mcp_tool X tn inp ns uo False w))" using mcp_prompt by (metis prod_cases4 fst_conv)
  show ?thesis
    using d g m unfolding execute_tool_def execute_tool_bound_def
    by (auto simp: Let_def no_new_prompt_refl split: option.splits prod.splits)
qed

lemma run_prompt: "run_runbook dbg rb reg (live_router X al ns) w = (rep, w') \<Longrightarrow> no_new_prompt w w'"
  by (rule run_rule [where Q = no_new_prompt, OF no_new_prompt_refl no_new_prompt_trans]) (simp_all add: live_fst execute_prompt)

text \<open>
  The reply to a run asks for a yes that cannot be given. When no heard prompt is pending, a
  spoken yes after a runbook run takes nothing, at any later time and whatever was parked, although
  the reply says that the most recent parked step is awaiting it: the steps are parked as unheard.
\<close>
theorem parked_runbook_step_takes_no_yes:
  assumes "handle_runbook_command R X al ns cmd w = (w', reply)" and "prompted (stop_confirm (w_stop w)) = None"
  shows "take_live now (stop_confirm (w_stop w')) = (stop_confirm (w_stop w'), None)"
proof -
  have "no_new_prompt w w'" using runbook_command_cases [OF assms(1)] run_prompt no_new_prompt_refl by blast
  then have "prompted (stop_confirm (w_stop w')) = None" using assms(2) by (simp add: no_new_prompt_def)
  then show ?thesis by (simp add: take_live_def split: option.splits)
qed

definition demo_runbooks :: runbook_env where
  "demo_runbooks = \<lparr> re_enabled = True, re_max_steps = 32, re_root = ''/opt'', re_low = to_ascii_lowercase,
     re_reader = (\<lambda>_. Inr note_and_post), re_files = (\<lambda>_. Some []), re_debug = id \<rparr>"

lemma runbook_fires_nothing_witness:
  "filter fires (new_calls demo_world (fst (handle_runbook_command demo_runbooks (\<lambda>_. demo_outside) [''*''] ''agent.darwin''
     (RunCmd ''standup'') demo_world))) = []"
proof -
  obtain w' reply where r: "handle_runbook_command demo_runbooks (\<lambda>_. demo_outside) [''*''] ''agent.darwin''
     (RunCmd ''standup'') demo_world = (w', reply)" by (metis prod.exhaust)
  show ?thesis using runbook_fires_nothing [OF _ r] demo_serde demo_no_unlock by (simp add: r)
qed

lemma parked_runbook_step_takes_no_yes_witness:
  "snd (take_live 0 (stop_confirm (w_stop (fst (handle_runbook_command demo_runbooks (\<lambda>_. demo_outside) [''*''] ''agent.darwin''
     (RunCmd ''standup'') demo_world))))) = None"
proof -
  obtain w' reply where r: "handle_runbook_command demo_runbooks (\<lambda>_. demo_outside) [''*''] ''agent.darwin''
     (RunCmd ''standup'') demo_world = (w', reply)" by (metis prod.exhaust)
  have "prompted (stop_confirm (w_stop demo_world)) = None" by (simp add: demo_world_def boot_state_def confirm_init_def)
  from parked_runbook_step_takes_no_yes [OF r this, of 0] show ?thesis by (simp add: r)
qed

section \<open>Data never flows\<close>

text \<open>\<open>dispatch_tool\<close> has no arm of the name \<open>distill\<close>: the call is an unknown tool, an error.\<close>

definition distill_unknown :: "outside \<Rightarrow> bool" where
  "distill_unknown X \<longleftrightarrow> (\<forall>inp. snd (plain X ''distill'' inp False))"

definition is_edge :: "expr \<Rightarrow> bool" where
  "is_edge e = (case e of Ref p q \<Rightarrow> True | _ \<Rightarrow> False)"

lemma distill_fails:
  assumes "distill_unknown X"
  shows "fst (snd (snd (execute_tool X ''distill'' inp al ns False False w)))"
proof -
  have n: "\<not> is_mcp_flat_name ''distill''" "\<not> starts_with ''app__'' ''distill''" "\<not> is_consequential_tool ''distill''" by code_simp+
  have "snd (snd (dispatch_tool X ''distill'' inp ns False w))"
    using assms n by (simp add: dispatch_tool_def distill_unknown_def)
  then show ?thesis
    using n by (auto simp: execute_tool_def execute_tool_bound_def tool_needs_park_def Let_def split: option.splits prod.splits)
qed

lemma live_produces:
  assumes "distill_unknown (X (rs_id x))" and "live_router X al ns x w = (w', StepProduced v)"
  shows "\<not> rs_consequential x \<and> rs_uses x \<noteq> ''distill''"
  using assms distill_fails [OF assms(1), of "JObj (rs_input x)" al ns w]
  by (auto simp: live_router_def classify_step_outcome_def split: prod.splits if_splits)

text \<open>No parameter of the registry takes the list the two benign tools declare.\<close>

lemma builtin_types:
  "list_all (\<lambda>c. (cap_out c = TyList \<or> cap_privilege c = PConsequential \<or> cap_name c = ''distill''
       \<or> cap_name c = ''recall_semantic'')
     \<and> list_all (\<lambda>p. pm_ty p = TyStr \<or> pm_ty p = TyInt) (cap_params c)) builtin_registry"
  by code_simp

lemma reg_get_in: "reg_get reg n = Some c \<Longrightarrow> c \<in> set reg \<and> cap_name c = n"
  by (auto simp: reg_get_def find_Some_iff) (metis nth_mem set_rev length_rev)

lemma cap_param_in: "cap_param c k = Some p \<Longrightarrow> p \<in> set (cap_params c)"
  by (auto simp: cap_param_def find_Some_iff)

lemma edge_producer:
  assumes "well_typed rb builtin_registry" and "rb_step rb i = Some s" and "(k, Ref p q) \<in> set (st_with s)"
    and "rb_step rb p = Some s'"
  shows "step_consequential builtin_registry s' \<or> st_uses s' = ''distill''"
proof -
  have typed: "step_typed rb builtin_registry u" if "u \<in> set (rb_steps rb)" for u
    using assms(1) that by (simp add: well_typed_def list_all_iff)
  obtain cap where cap: "reg_get builtin_registry (st_uses s) = Some cap" "input_typed rb builtin_registry s cap (k, Ref p q)"
    using typed [of s] rb_step_Some [OF assms(2)] assms(3) by (auto simp: step_typed_def list_all_iff split: option.splits)
  obtain c where c: "reg_get builtin_registry (st_uses s') = Some c"
    using typed [of s'] rb_step_Some [OF assms(4)] by (auto simp: step_typed_def split: option.splits)
  obtain pm where pm: "pm \<in> set (cap_params cap)" "cap_out c = pm_ty pm"
    using cap(2) assms(4) c by (auto simp: input_typed_def split: option.splits dest: cap_param_in)
  have "pm_ty pm = TyStr \<or> pm_ty pm = TyInt"
    using builtin_types reg_get_in [OF cap(1)] pm(1) by (auto simp: list_all_iff)
  then have "cap_out c = TyStr \<or> cap_out c = TyInt" using pm(2) by simp
  moreover have "cap_name c = ''recall_semantic'' \<Longrightarrow> cap_out c = TyList"
  proof -
    have "list_all (\<lambda>c. cap_name c = ''recall_semantic'' \<longrightarrow> cap_out c = TyList) builtin_registry" by code_simp
    then show "cap_name c = ''recall_semantic'' \<Longrightarrow> cap_out c = TyList" using reg_get_in [OF c] by (simp add: list_all_iff)
  qed
  ultimately have "cap_privilege c = PConsequential \<or> cap_name c = ''distill''"
    using builtin_types reg_get_in [OF c] by (auto simp: list_all_iff)
  then show ?thesis using c reg_get_in [OF c] by (auto simp: step_consequential_def)
qed

text \<open>An edge whose producer never produces keeps its step from being routed.\<close>

lemma edge_not_routed:
  assumes "all_justified rb builtin_registry L" and "well_typed rb builtin_registry"
    and "\<And>y v. (y, StepProduced v) \<in> set L \<Longrightarrow> \<not> rs_consequential y \<and> rs_uses y \<noteq> ''distill''"
    and "i < length L" and "rb_step rb (rs_id (fst (L ! i))) = Some s"
  shows "\<not> list_ex (\<lambda>(k, e). is_edge e) (st_with s)"
proof
  assume "list_ex (\<lambda>(k, e). is_edge e) (st_with s)"
  then obtain j where j: "j < length (st_with s)" "is_edge (snd (st_with s ! j))"
    by (auto simp: list_ex_iff in_set_conv_nth case_prod_unfold)
  then obtain k p q where e: "st_with s ! j = (k, Ref p q)"
    by (cases "st_with s ! j"; cases "snd (st_with s ! j)") (auto simp: is_edge_def)
  have just: "justified rb builtin_registry (take n L) (fst (L ! n))" if "n < length L" for n
    using assms(1) that by (simp add: all_justified_def)
  have "input_from (take i L) (st_with s ! j) (rs_input (fst (L ! i)) ! j)"
    using just [OF assms(4)] assms(5) j(1) by (simp add: justified_def list_all2_conv_all_nth)
  then obtain v where "has_produced (take i L) p v" by (auto simp: input_from_def e)
  then obtain y :: resolved_step where y: "(y, StepProduced v) \<in> set (take i L)" "rs_id y = p"
    unfolding has_produced_def by blast
  then obtain n where n: "n < length L" "L ! n = (y, StepProduced v)" by (auto simp: in_set_conv_nth)
  obtain s' where s': "rb_step rb p = Some s'" "rs_uses y = st_uses s'" "rs_consequential y = step_consequential builtin_registry s'"
    using just [OF n(1)] n(2) y(2) by (auto simp: justified_def split: option.splits)
  have "(k, Ref p q) \<in> set (st_with s)" using e j(1) nth_mem by metis
  from edge_producer [OF assms(2,5) this s'(1)] show False
    using assms(3) [of y v] s'(2,3) n nth_mem by metis
qed

text \<open>
  In the daemon no data edge of a runbook ever carries a value. Every step of a well-typed runbook
  that takes an input from another step is reported as blocked, in every run: the only tools of the
  registry whose outputs have the type of a parameter are the ones that park, which produce nothing,
  and \<open>distill\<close>, which no arm of the dispatcher runs.
\<close>
theorem runbook_edges_always_block:
  assumes "\<forall>s \<in> set (rb_steps rb). bt_ok (st_with s)" and "\<forall>i. distill_unknown (X i)"
    and "run_runbook dbg rb builtin_registry (live_router X al ns) w = (rep, w')"
    and "so \<in> set (rr_steps rep)" and "rb_step rb (so_id so) = Some s" and "list_ex (\<lambda>(k, e). is_edge e) (st_with s)"
  shows "so_outcome so = RunBlocked"
proof -
  obtain L where run: "run_runbook dbg rb builtin_registry (traced (live_router X al ns)) (w, []) = (rep, (w', L))"
    by (rule run_traced [OF assms(3)])
  note tr = runbook_trace [OF assms(1) run]
  then have wt: "well_typed rb builtin_registry" using assms(4) by (auto split: if_splits)
  then have just: "all_justified rb builtin_registry L" and acc: "accounted L so"
    using tr assms(4) by (auto simp: list_all_iff)
  have prod: "\<not> rs_consequential y \<and> rs_uses y \<noteq> ''distill''" if "(y, StepProduced v) \<in> set L" for y v
    using run_answers [OF run that] live_produces assms(2) by blast
  have "so_id so \<noteq> rs_id (fst (L ! i))" if "i < length L" for i
  proof
    assume "so_id so = rs_id (fst (L ! i))"
    then have "rb_step rb (rs_id (fst (L ! i))) = Some s" using assms(5) by simp
    from edge_not_routed [OF just wt _ that this] prod assms(6) show False by blast
  qed
  then have "so_id so \<notin> rs_id ` fst ` set L" by (auto simp: in_set_conv_nth) (metis fst_conv)
  then show ?thesis using acc by (force simp: accounted_def has_produced_def split: run_outcome.splits)
qed

definition bare_outside :: outside where
  "bare_outside = demo_outside\<lparr> plain := (\<lambda>_ _ _. (''unknown tool'', True)) \<rparr>"

lemma runbook_edges_always_block_witness:
  "\<exists>so \<in> set (rr_steps (fst (run_runbook id demo_rb builtin_registry (live_router (\<lambda>_. bare_outside) [''*''] ''agent.darwin'') demo_world))).
     so_id so = ''post'' \<and> so_outcome so = RunBlocked"
proof -
  obtain rep w' where r: "run_runbook id demo_rb builtin_registry (live_router (\<lambda>_. bare_outside) [''*''] ''agent.darwin'') demo_world
      = (rep, w')" by (metis prod.exhaust)
  obtain L where "run_runbook id demo_rb builtin_registry (traced (live_router (\<lambda>_. bare_outside) [''*''] ''agent.darwin'')) (demo_world, [])
      = (rep, (w', L))" by (rule run_traced [OF r])
  from runbook_trace [OF demo_bt this] demo_typed obtain order where
    order: "topological_order demo_rb = Inr order" "map so_id (rr_steps rep) = order" by auto
  have "''post'' \<in> set order" using order(1) topological_order_spec [of demo_rb] by (simp add: demo_rb_def step_ids_def)
  then obtain so where so: "so \<in> set (rr_steps rep)" "so_id so = ''post''" using order(2) by auto
  have s: "rb_step demo_rb ''post'' = Some (hd (rb_steps demo_rb))" by (simp add: rb_step_def demo_rb_def)
  have "so_outcome so = RunBlocked"
    by (rule runbook_edges_always_block [OF demo_bt _ r so(1), of "hd (rb_steps demo_rb)"])
      (simp_all add: distill_unknown_def bare_outside_def so(2) s, simp add: demo_rb_def is_edge_def)
  then show ?thesis using so by (auto simp: r)
qed

text \<open>A step that needs itself passes the checker, and is blocked in every run, whatever the router does.\<close>

lemma self_need_blocks:
  assumes "\<forall>s \<in> set (rb_steps rb). bt_ok (st_with s)" and "run_runbook dbg rb reg route w = (rep, w')"
    and "so \<in> set (rr_steps rep)" and "rb_step rb (so_id so) = Some s" and "so_id so \<in> set (st_needs s)"
  shows "so_outcome so = RunBlocked"
proof -
  obtain L where run: "run_runbook dbg rb reg (traced route) (w, []) = (rep, (w', L))"
    by (rule run_traced [OF assms(2)])
  note tr = runbook_trace [OF assms(1) run]
  then have wt: "well_typed rb reg" using assms(3) by (auto split: if_splits)
  then have just: "all_justified rb reg L" and acc: "accounted L so" using tr assms(3) by (auto simp: list_all_iff)
  obtain order where "topological_order rb = Inr order" "subseq (map (rs_id \<circ> fst) L) order" using tr wt by auto
  then have dist: "distinct (map (rs_id \<circ> fst) L)" using topological_order_spec [of rb] by (auto dest: subseq_keeps_distinct)
  have "so_id so \<noteq> rs_id (fst (L ! i))" if i: "i < length L" for i
  proof
    assume e: "so_id so = rs_id (fst (L ! i))"
    have "justified rb reg (take i L) (fst (L ! i))" using just i by (simp add: all_justified_def)
    then obtain v where "has_produced (take i L) (rs_id (fst (L ! i))) v" using assms(4,5) e by (auto simp: justified_def)
    then obtain y :: resolved_step where y: "(y, StepProduced v) \<in> set (take i L)" "rs_id y = rs_id (fst (L ! i))"
      unfolding has_produced_def by blast
    then obtain j where "j < i" "L ! j = (y, StepProduced v)" using i by (auto simp: in_set_conv_nth)
    then show False using dist y(2) i by (auto simp: distinct_conv_nth) (metis fst_conv less_irrefl less_trans)
  qed
  then have "so_id so \<notin> rs_id ` fst ` set L" by (auto simp: in_set_conv_nth) (metis fst_conv)
  then show ?thesis using acc by (force simp: accounted_def has_produced_def split: run_outcome.splits)
qed

end
