(* ===== verification/ModelTier.thy ===== *)
theory ModelTier
  imports GuestScope
begin

text \<open>
  The choice of the brain that answers a turn, from \<open>daemon/src/model_tier.rs\<close>: the tiers and the
  process-wide override, the resolver with the fold of the dollar budget, the sub-choice among warm
  local models under the battery and thermal throttle, and the spoken commands that set the override.
  A confidence is an \<open>f64\<close>: the comparison \<open><\<close> on it is the parameter \<open>lt\<close>. \<open>str::to_lowercase\<close> is
  \<open>low\<close> and \<open>char::is_alphanumeric\<close> outside ASCII is \<open>ua\<close>. The size estimate of a local model and the
  plan of the warm set, which are floating-point arithmetic, are left out; the plan is an argument.
\<close>

section \<open>Tiers\<close>

datatype tier = TierLocal | TierFast | TierHeavy

datatype tier_reason = ByOverride | ByAuto | ByBudget | ByFallback

datatype model_choice = LocalModel | CloudModel string

datatype pressure = NoPressure | Ease | Floor

record tier_config =
  conversation_route :: string
  heavy_model :: string
  fast_model :: string

definition tier_is_cloud :: "tier \<Rightarrow> bool" where
  "tier_is_cloud t \<longleftrightarrow> t = TierFast \<or> t = TierHeavy"

fun tier_rank :: "tier \<Rightarrow> nat" where
  "tier_rank TierLocal = 0"
| "tier_rank TierFast = 1"
| "tier_rank TierHeavy = 2"

definition tier_from_route :: "string \<Rightarrow> tier" where
  "tier_from_route r = (if r = ''cloud_heavy'' then TierHeavy else if r = ''cloud_fast'' then TierFast else TierLocal)"

definition is_hard :: "('f \<Rightarrow> 'f \<Rightarrow> bool) \<Rightarrow> string \<Rightarrow> 'f \<Rightarrow> 'f \<Rightarrow> bool" where
  "is_hard lt complexity confidence threshold \<longleftrightarrow> complexity = ''heavy'' \<or> lt confidence threshold"

fun auto_tier :: "tier \<Rightarrow> bool \<Rightarrow> tier" where
  "auto_tier TierLocal hard = TierLocal"
| "auto_tier TierFast hard = (if hard then TierHeavy else TierFast)"
| "auto_tier TierHeavy hard = (if hard then TierHeavy else TierFast)"

fun budget_floor_tier :: "tier \<Rightarrow> pressure \<Rightarrow> tier" where
  "budget_floor_tier t NoPressure = t"
| "budget_floor_tier t Ease = (if tier_rank t \<le> tier_rank TierFast then t else TierFast)"
| "budget_floor_tier t Floor = TierLocal"

definition resolve_tier :: "tier_config \<Rightarrow> tier option \<Rightarrow> bool \<Rightarrow> bool \<Rightarrow> pressure \<Rightarrow> tier \<times> tier_reason" where
  "resolve_tier C override hard cloud_reachable budget =
     (case override of
        Some forced \<Rightarrow> if tier_is_cloud forced \<and> \<not> cloud_reachable then (TierLocal, ByFallback) else (forced, ByOverride)
      | None \<Rightarrow>
          (let auto = auto_tier (tier_from_route (conversation_route C)) hard;
               floored = budget_floor_tier auto budget;
               budget_lowered = (tier_rank floored < tier_rank auto)
           in if tier_is_cloud floored \<and> \<not> cloud_reachable then (TierLocal, ByFallback)
              else (floored, if budget_lowered then ByBudget else ByAuto)))"

definition active_tier :: "tier_config \<Rightarrow> tier option \<Rightarrow> tier" where
  "active_tier C override = (case override of Some t \<Rightarrow> t | None \<Rightarrow> tier_from_route (conversation_route C))"

fun tier_to_model :: "tier \<Rightarrow> tier_config \<Rightarrow> model_choice" where
  "tier_to_model TierHeavy C = CloudModel (heavy_model C)"
| "tier_to_model TierFast C = CloudModel (fast_model C)"
| "tier_to_model TierLocal C = LocalModel"

text \<open>Where a conversation turn is answered (\<open>router.rs\<close>).\<close>

definition conversation_brain ::
    "('f \<Rightarrow> 'f \<Rightarrow> bool) \<Rightarrow> 'f \<Rightarrow> tier_config \<Rightarrow> tier option \<Rightarrow> pressure \<Rightarrow> bool \<Rightarrow> string \<Rightarrow> 'f \<Rightarrow> model_choice \<times> tier \<times> tier_reason" where
  "conversation_brain lt threshold C override budget cloud_key_present complexity confidence =
     (let (t, why) = resolve_tier C override (is_hard lt complexity confidence threshold) cloud_key_present budget
      in (tier_to_model t C, t, why))"

section \<open>The local sub-choice\<close>

datatype local_sub_tier = SubFast | SubCapable | SubAuto

datatype thermal_state = Nominal | Fair | Serious | Critical

datatype throttle_reason = ThrottleDisabled | ThrottleNominal | LowBattery | ThermalPressure

record throttle_plan =
  tier_pref :: local_sub_tier
  defer_heavy :: bool
  throttle_why :: throttle_reason

record power_config =
  power_adaptive :: bool
  low_battery_pct :: nat

definition neutral_plan :: "throttle_reason \<Rightarrow> throttle_plan" where
  "neutral_plan why = \<lparr> tier_pref = SubAuto, defer_heavy = False, throttle_why = why \<rparr>"

definition is_pressured :: "thermal_state \<Rightarrow> bool" where
  "is_pressured t \<longleftrightarrow> t = Serious \<or> t = Critical"

definition throttle_decision :: "nat option \<Rightarrow> bool \<Rightarrow> thermal_state \<Rightarrow> power_config \<Rightarrow> throttle_plan" where
  "throttle_decision battery on_ac thermal C =
     (if \<not> power_adaptive C then neutral_plan ThrottleDisabled
      else if is_pressured thermal
      then \<lparr> tier_pref = SubFast, defer_heavy = True, throttle_why = ThermalPressure \<rparr>
      else case (if on_ac then None else battery) of
        Some pct \<Rightarrow> if pct < low_battery_pct C
                    then \<lparr> tier_pref = SubFast, defer_heavy = True, throttle_why = LowBattery \<rparr>
                    else neutral_plan ThrottleNominal
      | None \<Rightarrow> neutral_plan ThrottleNominal)"

definition throttled_sub_tier :: "throttle_plan \<Rightarrow> bool \<Rightarrow> local_sub_tier" where
  "throttled_sub_tier plan hard = (if tier_pref plan = SubFast \<and> hard then SubAuto else tier_pref plan)"

definition select_local_model :: "string list \<Rightarrow> local_sub_tier \<Rightarrow> bool \<Rightarrow> string" where
  "select_local_model plan sub hard =
     (case plan of
        [] \<Rightarrow> []
      | [base] \<Rightarrow> base
      | base # fast # _ \<Rightarrow>
          (case sub of SubCapable \<Rightarrow> base | SubFast \<Rightarrow> fast | SubAuto \<Rightarrow> if hard then base else fast))"

section \<open>The spoken commands\<close>

datatype swap_intent = SwapHeavy | SwapFast | SwapLocal | SwapAuto

fun to_override :: "swap_intent \<Rightarrow> tier option" where
  "to_override SwapHeavy = Some TierHeavy"
| "to_override SwapFast = Some TierFast"
| "to_override SwapLocal = Some TierLocal"
| "to_override SwapAuto = None"

fun swap_ack :: "swap_intent \<Rightarrow> string" where
  "swap_ack SwapHeavy = ''Switching to the powerful model.''"
| "swap_ack SwapFast = ''Fast mode.''"
| "swap_ack SwapLocal = ''Going offline - staying on device.''"
| "swap_ack SwapAuto = apos ''Auto - I'' ''ll pick the best model per request.''"

definition AUTO_PHRASES :: "string list" where
  "AUTO_PHRASES =
     [''auto mode'', ''automatic mode'', ''go auto'', ''switch to auto'', ''set to auto'',
      ''back to auto'', ''back to normal'', ''default mode'', ''back to default'',
      ''let darwin decide'', ''let darwin pick'', ''let you decide'', ''you decide which model'',
      ''pick for me'', ''pick the model for me'', ''choose the model for me'',
      ''decide the model for me'', ''automatic model'', ''automatically pick'',
      ''automatically choose'', ''go back to automatic model'', ''back to automatic model'',
      ''go back to automatic selection'', ''back to automatic selection'',
      ''automatic model selection'', ''pick the model yourself'', ''choose the model yourself'',
      ''you pick the model'', ''you choose the model'']"

definition LOCAL_PHRASES :: "string list" where
  "LOCAL_PHRASES =
     [''work offline'', ''go offline'', ''offline mode'', ''switch to offline'', ''private mode'',
      ''go private'', ''stay on device'', ''stay on-device'', ''on device only'', ''on-device only'',
      ''keep it on device'', ''keep it on-device'', ''use the local model'', ''use local model'',
      ''switch to local'', ''use the on-device model'', ''off the grid'', ''local model only'',
      ''local only'', apos ''don'' ''t use the cloud'', ''dont use the cloud'',
      ''do not use the cloud'', ''stay off the cloud'', ''keep it off the cloud'']"

definition HEAVY_PHRASES :: "string list" where
  "HEAVY_PHRASES =
     [''use the powerful model'', ''use the most powerful model'', ''use the heavy model'',
      ''use the best model'', ''use the strongest model'', ''use the smartest model'',
      ''use the big model'', ''powerful model'', ''heavy model'', ''strongest model'',
      ''smartest model'', ''best model'', ''switch to opus'', ''use opus'',
      ''switch to the powerful model'', ''switch to the heavy model'', ''max power'', ''maximum power'',
      ''full power'', ''power mode'', ''heavy mode'', ''go heavy'', ''think harder about'',
      ''think harder on'', ''think harder please'', ''think about this harder'',
      ''think this through harder'']"

definition FAST_PHRASES :: "string list" where
  "FAST_PHRASES =
     [''use the fast model'', ''use the quick model'', ''use the light model'', ''use the lite model'',
      ''fast model'', ''quick model'', ''light model'', ''go fast'', ''speed mode'', ''fast mode'',
      ''switch to haiku'', ''use haiku'', ''switch to fast'', ''switch to the fast model'',
      ''lightweight model'', ''light mode model'']"

definition SWAP_LEADS :: "string list" where
  "SWAP_LEADS =
     [''hey darwin'', ''ok darwin'', ''okay darwin'', ''hi darwin'', ''darwin'', ''hey'', ''ok'',
      ''okay'', ''please'', ''pls'', ''can you'', ''could you'', ''would you'', ''will you'',
      ''can we'', apos ''let'' ''s'', ''lets'', ''let us'', ''i want you to'',
      apos ''i'' ''d like you to'', ''i would like you to'', ''i need you to'', ''you should'',
      ''you can'', ''just'', ''use the'', ''use a'', ''use'', ''switch to the'', ''switch to'',
      ''turn on'', ''enable'', ''put it in'', ''put yourself in'', ''set it to'', ''switch it to'',
      ''run in'', ''do this in'', ''run this in'', ''we should'', ''i think we should'',
      ''maybe we should'', apos ''i'' ''d like'', ''id like'', ''i would like'', ''i want'', ''i need'']"

text \<open>A text that starts with an alphanumeric character, and one without its leading other characters.\<close>

definition starts_alnum :: "(rchar \<Rightarrow> bool) \<Rightarrow> string \<Rightarrow> bool" where
  "starts_alnum ua s = (case chars s of [] \<Rightarrow> False | c # _ \<Rightarrow> is_alphanumeric ua c)"

definition skip_to_alnum :: "(rchar \<Rightarrow> bool) \<Rightarrow> string \<Rightarrow> string" where
  "skip_to_alnum ua s = concat (dropWhile (\<lambda>c. \<not> is_alphanumeric ua c) (chars s))"

definition opens_with_phrase :: "(rchar \<Rightarrow> bool) \<Rightarrow> string \<Rightarrow> string \<Rightarrow> bool" where
  "opens_with_phrase ua s p = (case strip_prefix p s of Some rest \<Rightarrow> \<not> starts_alnum ua rest | None \<Rightarrow> False)"

definition strip_one_command_lead :: "(rchar \<Rightarrow> bool) \<Rightarrow> string \<Rightarrow> string option" where
  "strip_one_command_lead ua s =
     find_map (\<lambda>lead. case strip_prefix lead s of
         None \<Rightarrow> None
       | Some rest \<Rightarrow> if starts_alnum ua rest then None else Some (skip_to_alnum ua rest)) SWAP_LEADS"

definition match_control_phrase :: "(rchar \<Rightarrow> bool) \<Rightarrow> string \<Rightarrow> swap_intent option" where
  "match_control_phrase ua s =
     (if list_ex (opens_with_phrase ua s) AUTO_PHRASES then Some SwapAuto
      else if list_ex (opens_with_phrase ua s) LOCAL_PHRASES then Some SwapLocal
      else if list_ex (opens_with_phrase ua s) HEAVY_PHRASES then Some SwapHeavy
      else if list_ex (opens_with_phrase ua s) FAST_PHRASES then Some SwapFast
      else None)"

lemma skip_to_alnum_end: "\<exists>sep. s = sep @ skip_to_alnum ua s \<and> list_all (\<lambda>c. \<not> is_alphanumeric ua c) (takeWhile (\<lambda>c. \<not> is_alphanumeric ua c) (chars s))
    \<and> sep = concat (takeWhile (\<lambda>c. \<not> is_alphanumeric ua c) (chars s))"
proof -
  let ?P = "\<lambda>c. \<not> is_alphanumeric ua c"
  have "concat (takeWhile ?P (chars s)) @ concat (dropWhile ?P (chars s)) = s"
    by (simp flip: concat_append)
  then show ?thesis by (auto simp: skip_to_alnum_def list_all_iff dest: set_takeWhileD)
qed

lemma skip_to_alnum_length: "length (skip_to_alnum ua s) \<le> length s"
  using skip_to_alnum_end [of s ua] by (metis le_add2 length_append)

lemma swap_leads_nonempty: "[] \<notin> set SWAP_LEADS"
  by (simp add: SWAP_LEADS_def apos_def)

lemma strip_one_lead:
  assumes "strip_one_command_lead ua s = Some r"
  obtains lead rest where "lead \<in> set SWAP_LEADS" "s = lead @ rest" "\<not> starts_alnum ua rest" "r = skip_to_alnum ua rest"
  using find_map_Some [OF assms [unfolded strip_one_command_lead_def]]
  by (auto simp: strip_prefix_Some split: option.splits if_splits)

lemma strip_one_lead_shorter: "strip_one_command_lead ua s = Some r \<Longrightarrow> length r < length s"
proof (elim strip_one_lead)
  fix lead rest assume l: "lead \<in> set SWAP_LEADS" "s = lead @ rest" "r = skip_to_alnum ua rest"
  then have "lead \<noteq> []" using swap_leads_nonempty by metis
  then show ?thesis using l(2,3) skip_to_alnum_length [of ua rest] by (simp add: le_imp_less_Suc neq_Nil_conv) (auto simp: neq_Nil_conv)
qed

text \<open>The loop peels one wrapper at a time; each is not empty, so it ends.\<close>

function classify_swap_head :: "(rchar \<Rightarrow> bool) \<Rightarrow> string \<Rightarrow> swap_intent option" where
  "classify_swap_head ua s =
     (case match_control_phrase ua s of
        Some i \<Rightarrow> Some i
      | None \<Rightarrow> (case strip_one_command_lead ua s of None \<Rightarrow> None | Some r \<Rightarrow> classify_swap_head ua r))"
  by pat_completeness auto
termination by (relation "measure (length \<circ> snd)") (simp_all add: strip_one_lead_shorter)

declare classify_swap_head.simps [simp del]

definition classify_model_swap :: "(string \<Rightarrow> string) \<Rightarrow> (rchar \<Rightarrow> bool) \<Rightarrow> string \<Rightarrow> swap_intent option" where
  "classify_model_swap low ua u =
     (let lowered = low (trim u) in
      if lowered = [] then None else classify_swap_head ua (skip_to_alnum ua lowered))"

section \<open>What the resolver picks\<close>

text \<open>
  The resolved tier is a cloud tier only when the cloud is reachable. Without an override it is
  never above the automatic pick for the turn, and it is local when the route is local or the budget
  is spent; with one it is the tier of the override, or local when that one needs an unreachable
  cloud. The reason names which of these happened.
\<close>
theorem resolved_tier_is_bounded:
  "case resolve_tier C ov hard reachable budget of (t, why) \<Rightarrow>
     (tier_is_cloud t \<longrightarrow> reachable)
     \<and> (case ov of
          Some f \<Rightarrow> (t, why) = (if tier_is_cloud f \<longrightarrow> reachable then (f, ByOverride) else (TierLocal, ByFallback))
        | None \<Rightarrow>
            tier_rank t \<le> tier_rank (auto_tier (tier_from_route (conversation_route C)) hard)
            \<and> (tier_from_route (conversation_route C) = TierLocal \<or> budget = Floor \<longrightarrow> t = TierLocal)
            \<and> (budget = Ease \<longrightarrow> t \<noteq> TierHeavy)
            \<and> (why = ByAuto \<longleftrightarrow> t = auto_tier (tier_from_route (conversation_route C)) hard)
            \<and> (why = ByFallback \<longrightarrow> \<not> reachable) \<and> why \<noteq> ByOverride)"
  by (cases "tier_from_route (conversation_route C)"; cases budget; cases ov)
    (auto simp: resolve_tier_def Let_def tier_is_cloud_def split: tier.splits)

lemma resolved_tier_is_bounded_witness:
  "tier_rank (fst (resolve_tier \<lparr> conversation_route = ''cloud_heavy'', heavy_model = [], fast_model = [] \<rparr> None True True Ease)) \<le> 2"
  using resolved_tier_is_bounded
    [where C = "\<lparr> conversation_route = ''cloud_heavy'', heavy_model = [], fast_model = [] \<rparr>" and ov = None and hard = True
       and reachable = True and budget = Ease]
  by (auto split: prod.splits simp: tier_from_route_def)

section \<open>What the commands say\<close>

definition swap_phrases :: "swap_intent \<Rightarrow> string list" where
  "swap_phrases i = (case i of SwapAuto \<Rightarrow> AUTO_PHRASES | SwapLocal \<Rightarrow> LOCAL_PHRASES
                     | SwapHeavy \<Rightarrow> HEAVY_PHRASES | SwapFast \<Rightarrow> FAST_PHRASES)"

lemma match_control_opens:
  assumes "match_control_phrase ua s = Some i"
  obtains p rest where "p \<in> set (swap_phrases i)" "s = p @ rest" "\<not> starts_alnum ua rest"
  using assms
  by (auto simp: match_control_phrase_def swap_phrases_def list_ex_iff opens_with_phrase_def strip_prefix_Some
      split: if_splits option.splits)

text \<open>A run of request wrappers, each cut at a word boundary.\<close>

inductive lead_run :: "(rchar \<Rightarrow> bool) \<Rightarrow> string \<Rightarrow> string \<Rightarrow> bool" for ua where
  done_run: "lead_run ua s s"
| one_more: "lead_run ua (skip_to_alnum ua rest) h \<Longrightarrow> lead \<in> set SWAP_LEADS \<Longrightarrow> \<not> starts_alnum ua rest \<Longrightarrow>
    lead_run ua (lead @ rest) h"

lemma classify_head_reading:
  assumes "classify_swap_head ua s = Some i"
  shows "\<exists>p rest. lead_run ua s (p @ rest) \<and> p \<in> set (swap_phrases i) \<and> \<not> starts_alnum ua rest"
  using assms
proof (induction ua s rule: classify_swap_head.induct)
  case (1 ua s)
  show ?case
  proof (cases "match_control_phrase ua s")
    case (Some j)
    then have "j = i" using 1(2) by (simp add: classify_swap_head.simps)
    then show ?thesis using Some by (metis match_control_opens done_run)
  next
    case None
    then obtain r where r: "strip_one_command_lead ua s = Some r" "classify_swap_head ua r = Some i"
      using 1(2) by (auto simp: classify_swap_head.simps [of ua s] split: option.splits)
    from 1(1) [OF None r] obtain p rest where "lead_run ua r (p @ rest)" "p \<in> set (swap_phrases i)" "\<not> starts_alnum ua rest"
      by blast
    then show ?thesis using r(1) by (metis strip_one_lead one_more)
  qed
qed

text \<open>
  An utterance re-aims the model only as a command: after trimming and lowering and skipping what
  precedes the first word, it is a run of request wrappers, each ending at a word boundary, followed
  by a phrase of exactly that intent which again ends at a word boundary.
\<close>
theorem model_swap_is_commanded:
  assumes "classify_model_swap low ua u = Some i"
  shows "\<exists>p rest. lead_run ua (skip_to_alnum ua (low (trim u))) (p @ rest) \<and> p \<in> set (swap_phrases i) \<and> \<not> starts_alnum ua rest"
  using assms classify_head_reading by (auto simp: classify_model_swap_def Let_def split: if_splits)

lemma back_to_normal_is_auto: "classify_model_swap to_ascii_lowercase ua ''back to normal'' = Some SwapAuto"
proof -
  have l: "to_ascii_lowercase (trim ''back to normal'') = ''back to normal''"
    by (simp add: to_ascii_lowercase_def str_simps trim_list_def)
  have "skip_to_alnum ua ''back to normal'' = ''back to normal''"
    by (simp add: skip_to_alnum_def str_simps)
  moreover have "opens_with_phrase ua ''back to normal'' ''back to normal''"
    by (simp add: opens_with_phrase_def strip_prefix_def starts_with_def starts_alnum_def str_simps)
  then have "match_control_phrase ua ''back to normal'' = Some SwapAuto"
    by (simp add: match_control_phrase_def AUTO_PHRASES_def)
  ultimately show ?thesis
    by (simp add: classify_model_swap_def l classify_swap_head.simps Let_def)
qed

lemma model_swap_is_commanded_witness:
  "\<exists>p rest. lead_run (\<lambda>_. False) (skip_to_alnum (\<lambda>_. False) (to_ascii_lowercase (trim ''back to normal''))) (p @ rest)
     \<and> p \<in> set (swap_phrases SwapAuto) \<and> \<not> starts_alnum (\<lambda>_. False) rest"
  by (rule model_swap_is_commanded [OF back_to_normal_is_auto])

end
