(* ===== verification/Whisper.thy ===== *)
theory Whisper
  imports ModelTier
begin

text \<open>
  Whisper mode, from \<open>daemon/src/prosody.rs\<close>: the state machine with its master switch and the
  automatic engagement, and the parser of the spoken toggle, which is anchored at the end of the
  utterance. \<open>str::to_lowercase\<close> is \<open>low\<close>; the \<open>f32\<close> comparison with the quiet threshold is the
  parameter \<open>below\<close>.
\<close>

section \<open>The state\<close>

datatype whisper_command = WhisperOn | WhisperOff

record whisper_config =
  whisper_feature :: bool
  whisper_auto :: bool

definition whisper_apply :: "whisper_config \<Rightarrow> whisper_command \<Rightarrow> bool \<Rightarrow> bool" where
  "whisper_apply C cmd on = (if \<not> whisper_feature C then False else cmd = WhisperOn)"

definition WHISPER_SUSTAINED_SAMPLES :: nat where
  "WHISPER_SUSTAINED_SAMPLES = 6"

definition is_sustained_quiet :: "('f \<Rightarrow> bool) \<Rightarrow> 'f list \<Rightarrow> bool" where
  "is_sustained_quiet below energies \<longleftrightarrow> WHISPER_SUSTAINED_SAMPLES \<le> length energies \<and> list_all below energies"

definition apply_auto_engage :: "whisper_config \<Rightarrow> ('f \<Rightarrow> bool) \<Rightarrow> 'f list \<Rightarrow> bool \<Rightarrow> bool" where
  "apply_auto_engage C below energies on =
     (if \<not> whisper_feature C \<or> \<not> whisper_auto C then on else on \<or> is_sustained_quiet below energies)"

section \<open>The parser\<close>

definition TRAILING_FILLER :: "string list" where
  "TRAILING_FILLER =
     [''please'', ''now'', ''sir'', ''ok'', ''okay'', ''thanks'', ''thank you'', ''for me'', ''again'']"

definition WHISPER_OFF :: "string list" where
  "WHISPER_OFF =
     [''back to normal'', ''speak normally'', ''speak up'', ''out loud'', ''normal voice'',
      ''stop whispering'', ''stop the whispering'', ''quit whispering'', ''stop whisper mode'',
      ''turn off whisper mode'']"

definition WHISPER_ON :: "string list" where
  "WHISPER_ON =
     [''whisper mode'', ''whisper to me'', ''whisper it'', ''start whispering'', ''speak quietly'',
      ''speak softly'', ''be discreet'', ''discreet mode'', ''keep it down'', ''keep your voice down'',
      ''lower your voice'', ''talk quietly'', ''talk softly'', ''talk quieter'', ''speak quieter'']"

definition WHISPER_ON_EXACT :: "string list" where
  "WHISPER_ON_EXACT = [''whisper'', ''discreet'']"

definition ADDRESS_LEADS :: "string list" where
  "ADDRESS_LEADS =
     [''hey darwin'', ''ok darwin'', ''okay darwin'', ''hi darwin'', ''hello darwin'', ''darwin'',
      ''hey'', ''hi'', ''hello'', ''ok'', ''okay'', ''please'', ''pls'', ''kindly'', ''i want you to'',
      apos ''i'' ''d like you to'', ''id like you to'', ''i would like you to'', ''i need you to'',
      apos ''i'' ''ll need you to'', ''can you'', ''could you'', ''would you'', ''will you'',
      ''can we'', ''could we'', ''you can'', ''you could'', ''you should'', ''you may'', ''try to'',
      ''try and'', apos ''let'' ''s'', ''lets'', ''let us'', ''just'', ''switch to'', ''switch it to'',
      ''put yourself in'', ''go into'', ''go back to'', ''back to'', ''turn on'', ''enable'',
      ''set yourself to'', ''say that'', ''say it'', ''actually'', ''sorry'', ''alright'',
      ''all right'', ''anyway'', ''maybe'', ''well'', ''so'', ''then'', ''and'', ''but'', ''also'',
      ''how about you'', ''what about you'', ''go'']"

definition whisper_normalize :: "(string \<Rightarrow> string) \<Rightarrow> string \<Rightarrow> string" where
  "whisper_normalize low u =
     join '' '' (split_whitespace (low (trim_end_matches [CHR ''.'', CHR ''!'', CHR ''?'', CHR '',''] (trim u))))"

text \<open>One round of the filler loop: the first filler that ends the text at a word boundary goes.\<close>

definition drop_filler :: "string \<Rightarrow> string option" where
  "drop_filler s =
     find_map (\<lambda>f. case strip_suffix f s of
         Some pre \<Rightarrow> if pre = [] \<or> ends_with '' '' pre then Some (trim_end pre) else None
       | None \<Rightarrow> None) TRAILING_FILLER"

lemma filler_nonempty: "[] \<notin> set TRAILING_FILLER"
  by (simp add: TRAILING_FILLER_def)

lemma strip_suffix_Some: "strip_suffix p s = Some b \<longleftrightarrow> s = b @ p"
  by (auto simp: strip_suffix_def ends_with_iff)

lemma drop_filler_Some:
  assumes "drop_filler s = Some r"
  obtains f pre where "f \<in> set TRAILING_FILLER" "s = pre @ f" "pre = [] \<or> ends_with '' '' pre" "r = trim_end pre"
  using find_map_Some [OF assms [unfolded drop_filler_def]]
  by (auto simp: strip_suffix_Some split: option.splits if_splits)

lemma drop_filler_shorter: "drop_filler s = Some r \<Longrightarrow> length r < length s"
proof (elim drop_filler_Some)
  fix f pre assume *: "f \<in> set TRAILING_FILLER" "s = pre @ f" "r = trim_end pre"
  then have "f \<noteq> []" using filler_nonempty by metis
  then have "length pre < length s" using *(2) by simp
  then show ?thesis using trim_end_start [of pre] *(3) by (metis le_add1 le_less_trans length_append)
qed

function strip_trailing_filler :: "string \<Rightarrow> string" where
  "strip_trailing_filler s = (case drop_filler s of None \<Rightarrow> s | Some r \<Rightarrow> strip_trailing_filler r)"
  by pat_completeness auto
termination by (relation "measure length") (simp_all add: drop_filler_shorter)

declare strip_trailing_filler.simps [simp del]

definition drop_address :: "(rchar \<Rightarrow> bool) \<Rightarrow> string \<Rightarrow> string option" where
  "drop_address ua s =
     find_map (\<lambda>lead. case strip_prefix lead s of
         Some t \<Rightarrow> if starts_alnum ua t then None
                   else Some (trim (dropWhile (\<lambda>c. c = CHR '' '' \<or> c = CHR '','') t))
       | None \<Rightarrow> None) ADDRESS_LEADS"

lemma address_nonempty: "[] \<notin> set ADDRESS_LEADS"
  by (simp add: ADDRESS_LEADS_def apos_def)

lemma drop_address_Some:
  assumes "drop_address ua s = Some r"
  obtains lead rest where "lead \<in> set ADDRESS_LEADS" "s = lead @ rest" "\<not> starts_alnum ua rest"
    "r = trim (dropWhile (\<lambda>c. c = CHR '' '' \<or> c = CHR '','') rest)"
  using find_map_Some [OF assms [unfolded drop_address_def]]
  by (auto simp: strip_prefix_Some split: option.splits if_splits)

lemma drop_address_shorter: "drop_address ua s = Some r \<Longrightarrow> length r < length s"
proof (elim drop_address_Some)
  fix lead rest assume *: "lead \<in> set ADDRESS_LEADS" "s = lead @ rest"
    "r = trim (dropWhile (\<lambda>c. c = CHR '' '' \<or> c = CHR '','') rest)"
  then have "lead \<noteq> []" using address_nonempty by metis
  then have "length rest < length s" using *(2) by simp
  then show ?thesis
    using trim_length [of "dropWhile (\<lambda>c. c = CHR '' '' \<or> c = CHR '','') rest"]
      length_dropWhile_le [of "\<lambda>c. c = CHR '' '' \<or> c = CHR '',''" rest] unfolding *(3) by linarith
qed

function peels_to_nothing :: "(rchar \<Rightarrow> bool) \<Rightarrow> string \<Rightarrow> bool" where
  "peels_to_nothing ua s =
     (if s = [] then True else case drop_address ua s of None \<Rightarrow> False | Some r \<Rightarrow> peels_to_nothing ua r)"
  by pat_completeness auto
termination by (relation "measure (length \<circ> snd)") (simp_all add: drop_address_shorter)

declare peels_to_nothing.simps [simp del]

definition head_is_only_an_address :: "(rchar \<Rightarrow> bool) \<Rightarrow> string \<Rightarrow> bool" where
  "head_is_only_an_address ua pre = peels_to_nothing ua (trim pre)"

definition ends_with_phrase :: "(rchar \<Rightarrow> bool) \<Rightarrow> string \<Rightarrow> string list \<Rightarrow> bool" where
  "ends_with_phrase ua norm phrases =
     list_ex (\<lambda>p. norm = p \<or> (case strip_suffix p norm of
         Some pre \<Rightarrow> ends_with '' '' pre \<and> head_is_only_an_address ua pre | None \<Rightarrow> False)) phrases"

definition parse_whisper_command :: "(string \<Rightarrow> string) \<Rightarrow> (rchar \<Rightarrow> bool) \<Rightarrow> string \<Rightarrow> whisper_command option" where
  "parse_whisper_command low ua txt =
     (let u = strip_trailing_filler (whisper_normalize low txt) in
      if u = [] then None
      else if ends_with_phrase ua u WHISPER_OFF then Some WhisperOff
      else if ends_with_phrase ua u WHISPER_ON then Some WhisperOn
      else if u \<in> set WHISPER_ON_EXACT then Some WhisperOn
      else None)"

section \<open>What a toggle says\<close>

definition whisper_phrases :: "whisper_command \<Rightarrow> string list" where
  "whisper_phrases c = (case c of WhisperOff \<Rightarrow> WHISPER_OFF | WhisperOn \<Rightarrow> WHISPER_ON @ WHISPER_ON_EXACT)"

text \<open>Fillers taken off the end, and address wrappers taken off the start until nothing is left.\<close>

inductive filler_run :: "string \<Rightarrow> string \<Rightarrow> bool" where
  no_filler: "filler_run s s"
| one_filler: "filler_run (trim_end pre) u \<Longrightarrow> f \<in> set TRAILING_FILLER \<Longrightarrow> pre = [] \<or> ends_with '' '' pre \<Longrightarrow> filler_run (pre @ f) u"

inductive address_run :: "(rchar \<Rightarrow> bool) \<Rightarrow> string \<Rightarrow> bool" for ua where
  no_address: "address_run ua []"
| one_address: "address_run ua (trim (dropWhile (\<lambda>c. c = CHR '' '' \<or> c = CHR '','') rest)) \<Longrightarrow> lead \<in> set ADDRESS_LEADS \<Longrightarrow>
    \<not> starts_alnum ua rest \<Longrightarrow> address_run ua (lead @ rest)"

lemma strip_filler_run: "filler_run s (strip_trailing_filler s)"
proof (induction s rule: strip_trailing_filler.induct)
  case (1 s)
  show ?case
  proof (cases "drop_filler s")
    case None
    then show ?thesis by (simp add: strip_trailing_filler.simps [of s] no_filler)
  next
    case (Some r)
    with 1 show ?thesis
      by (auto simp: strip_trailing_filler.simps [of s] elim!: drop_filler_Some intro: one_filler)
  qed
qed

lemma peels_address_run: "peels_to_nothing ua s \<Longrightarrow> address_run ua s"
proof (induction ua s rule: peels_to_nothing.induct)
  case (1 ua s)
  then show ?case
    by (auto simp: peels_to_nothing.simps [of ua s] no_address split: if_splits option.splits elim!: drop_address_Some intro!: one_address)
qed

lemma ends_with_phrase_reading:
  assumes "ends_with_phrase ua u ps"
  shows "\<exists>pre p. u = pre @ p \<and> p \<in> set ps \<and> (pre = [] \<or> ends_with '' '' pre \<and> address_run ua (trim pre))"
  using assms peels_address_run
  by (fastforce simp: ends_with_phrase_def list_ex_iff strip_suffix_Some head_is_only_an_address_def split: option.splits)

text \<open>
  An utterance toggles whisper mode only as a command: once the trailing fillers are taken off, it
  ends with a phrase of exactly that toggle, and what stands before it, if anything, is nothing but
  wrappers that address the assistant, each ending at a word boundary.
\<close>
theorem whisper_toggle_is_commanded:
  assumes "parse_whisper_command low ua txt = Some c"
  shows "\<exists>pre p. filler_run (whisper_normalize low txt) (pre @ p) \<and> p \<in> set (whisper_phrases c)
     \<and> (pre = [] \<or> ends_with '' '' pre \<and> address_run ua (trim pre))"
proof -
  let ?u = "strip_trailing_filler (whisper_normalize low txt)"
  have "ends_with_phrase ua ?u (whisper_phrases c) \<or> ?u \<in> set (whisper_phrases c)"
    using assms
    by (auto simp: parse_whisper_command_def Let_def whisper_phrases_def ends_with_phrase_def split: if_splits)
  then obtain pre p where "?u = pre @ p" "p \<in> set (whisper_phrases c)" "pre = [] \<or> ends_with '' '' pre \<and> address_run ua (trim pre)"
    using ends_with_phrase_reading by (metis append_Nil)
  then show ?thesis using strip_filler_run by metis
qed

lemma speak_up_is_off: "parse_whisper_command to_ascii_lowercase ua ''Speak up.'' = Some WhisperOff"
proof -
  have n: "whisper_normalize to_ascii_lowercase ''Speak up.'' = ''speak up''"
    by (simp add: whisper_normalize_def to_ascii_lowercase_def trim_end_matches_def str_simps trim_list_def split_on.simps)
  have "drop_filler ''speak up'' = None"
    by (simp add: drop_filler_def TRAILING_FILLER_def strip_suffix_def ends_with_def)
  then have "strip_trailing_filler ''speak up'' = ''speak up''" by (simp add: strip_trailing_filler.simps)
  moreover have "ends_with_phrase ua ''speak up'' WHISPER_OFF" by (simp add: ends_with_phrase_def WHISPER_OFF_def)
  ultimately show ?thesis by (simp add: parse_whisper_command_def n Let_def)
qed

lemma whisper_toggle_is_commanded_witness:
  "\<exists>pre p. filler_run (whisper_normalize to_ascii_lowercase ''Speak up.'') (pre @ p) \<and> p \<in> set (whisper_phrases WhisperOff)
     \<and> (pre = [] \<or> ends_with '' '' pre \<and> address_run (\<lambda>_. False) (trim pre))"
  by (rule whisper_toggle_is_commanded [OF speak_up_is_off])

end
