(* ===== verification/CommandTurn.thy ===== *)
theory CommandTurn
  imports UndoTurn Roster VaultMode Macros RunbookLive Whisper ConfirmReply
begin

text \<open>
  The front of a spoken turn: the part of \<open>route\<close> in \<open>daemon/src/router.rs\<close> that comes before any
  classifier or model, from its entry to the undo command, in the order of the code. What follows is
  the rest of \<open>route\<close>: the result \<open>Onward\<close> hands it the reachability of the cloud. The further
  classifiers a guest is refused are a parameter of the record \<open>front\<close>. Telemetry frames and log
  lines are left out.
\<close>

section \<open>The state of the daemon\<close>

text \<open>The queue of the Vision app, when it is registered.\<close>

record vision_app =
  va_running :: bool
  va_open :: bool
  va_ops :: "string list"

record daemon =
  d_world :: world
  d_vault :: vault_state
  d_anchor :: "restore_anchor option"
  d_recording :: recording_slot
  d_facts :: facts
  d_vision :: "vision_app option"
  d_override :: "tier option"
  d_whisper :: bool

record front =
  fe_out :: outside
  fe_steps :: "string \<Rightarrow> outside"
  fe_low :: "string \<Rightarrow> string"
  fe_ua :: "rchar \<Rightarrow> bool"
  fe_policy :: policy_codec
  fe_roster :: roster
  fe_macros :: macro_codec
  fe_macro_cfg :: macro_config
  fe_runbooks :: runbook_env
  fe_other_denied :: "string \<Rightarrow> string option"
  fe_whisper_cfg :: whisper_config

record route_outcome =
  ro_response :: string
  ro_agent :: string
  ro_namespace :: string

datatype route_result = Handled route_outcome | Onward bool

definition by_lead :: "front \<Rightarrow> string \<Rightarrow> route_result" where
  "by_lead F resp = (let a = orchestrator (fe_roster F) in
     Handled \<lparr> ro_response = resp, ro_agent = ag_name a, ro_namespace = ag_namespace a \<rparr>)"

section \<open>The arms\<close>

definition CAPTURE_STOPS :: "string list" where
  "CAPTURE_STOPS = [''{'' @ dquoted ''op'' @ '':'' @ dquoted ''watch.stop'' @ ''}'',
     ''{'' @ dquoted ''op'' @ '':'' @ dquoted ''screen.context.stop'' @ ''}'']"

definition stop_all_captures :: "vision_app option \<Rightarrow> vision_app option" where
  "stop_all_captures v =
     (case v of None \<Rightarrow> None
      | Some a \<Rightarrow> if va_running a \<and> va_open a then Some (a\<lparr> va_ops := va_ops a @ CAPTURE_STOPS \<rparr>) else Some a)"

definition action_phrase :: "string \<Rightarrow> string" where
  "action_phrase tool =
     (if tool = ''gmail_send'' then ''send that email''
      else if tool = ''slack_post_message'' then ''post that Slack message''
      else if tool = ''x_post'' then ''post that tweet''
      else if tool = ''linkedin_post'' then ''publish that LinkedIn post''
      else if tool = ''github_open_pr'' then ''open that pull request''
      else if tool = ''github_comment_issue'' then ''post that comment''
      else if tool = ''gcal_create_event'' then ''create that event''
      else if tool = ''gdrive_upload_text'' then ''upload that file''
      else if tool = ''dume_control'' then ''make that change''
      else if tool = ''gads_pause_campaign'' \<or> tool = ''meta_pause_campaign'' then ''pause that campaign''
      else if tool = ''gads_enable_campaign'' \<or> tool = ''meta_resume_campaign'' then ''resume that campaign''
      else if tool = ''gads_set_budget'' \<or> tool = ''meta_set_budget'' then ''change that budget''
      else ''go ahead with that'')"

definition cancel_phrase :: "string \<Rightarrow> string" where
  "cancel_phrase tool = apos ''Cancelled. I won'' ''t '' @ action_phrase tool @ ''.''"

text \<open>The reply to a parked action: \<open>None\<close> when the turn goes on.\<close>

definition answer_pending :: "front \<Rightarrow> string \<Rightarrow> world \<Rightarrow> world \<times> route_outcome option" where
  "answer_pending F txt w =
     (let X = fe_out F; (c, taken) = take_live (o_now X) (stop_confirm (w_stop w)); w1 = set_confirm c w in
      case taken of
        None \<Rightarrow> (w1, None)
      | Some p \<Rightarrow>
          (let by = (\<lambda>resp. Some \<lparr> ro_response = resp, ro_agent = ag_name (agent_for_namespace (fe_roster F) (p_agent p)),
                                   ro_namespace = p_agent p \<rparr>) in
           case resolve_reply (fe_ua F) p txt cancel_phrase of
             Replay q \<Rightarrow>
               (let (w2, out, err) = replay_confirmed_action X q w1;
                    w3 = set_confirm (fst (peek_pending (o_now X) (stop_confirm (w_stop w2)))) w2
                in (w3, by out))
           | Cancelled ack \<Rightarrow> (audit_row X (p_agent p) (p_tool p) (p_tool p) Ask Denied w1, by ack)
           | PassThrough \<Rightarrow> (w1, None)))"

definition guest_denied_fast_path :: "front \<Rightarrow> string \<Rightarrow> string option" where
  "guest_denied_fast_path F txt =
     (if classify_policy_command txt \<noteq> None then Some ''policy controls''
      else if classify_model_swap (fe_low F) (fe_ua F) txt \<noteq> None then Some ''model controls''
      else if parse_whisper_command (fe_low F) (fe_ua F) txt \<noteq> None then Some ''voice-mode controls''
      else if classify_vault_command (fe_low F) txt \<noteq> None then Some ''vault controls''
      else if classify_macro_command (fe_low F) txt \<noteq> None then Some ''saved macros''
      else if classify_runbook_command (fe_low F) txt \<noteq> None then Some ''runbooks''
      else if classify_undo_command (fe_low F) txt \<noteq> None then Some ''undo history''
      else fe_other_denied F txt)"

definition guest_path_refusal :: "string \<Rightarrow> string" where
  "guest_path_refusal category = apos ''I can'' ''t do that in guest mode '' @ dash @ apos '' that would use the owner'' ''s ''
     @ category @ '', which is off-limits to a guest. I can talk, translate, and give non-personal status. The owner can do it.''"

text \<open>The policy command, on the disk the daemon shares.\<close>

definition policy_arm :: "front \<Rightarrow> string \<Rightarrow> world \<Rightarrow> world \<times> string option" where
  "policy_arm F txt w =
     (let (P, dk, ack) = handle_user_policy_text (fe_policy F) txt (w_policy w) (stop_disk (w_stop w))
      in (w\<lparr> w_policy := P, w_stop := (w_stop w)\<lparr> stop_disk := dk \<rparr> \<rparr>, ack))"

definition vault_arm :: "bool \<Rightarrow> daemon \<Rightarrow> daemon" where
  "vault_arm on d =
     (let v = fst (vault_set on (d_vault d)); w = d_world d in
      d\<lparr> d_vault := v, d_world := w\<lparr> w_boundary := (w_boundary w)\<lparr> vault_active := vault_is_active v \<rparr> \<rparr> \<rparr>)"

definition macro_arm :: "front \<Rightarrow> macro_command \<Rightarrow> daemon \<Rightarrow> daemon \<times> string" where
  "macro_arm F cmd d =
     (let ((r, fs), resp) = handle_macro_command (fe_macros F) (fe_low F) (fe_macro_cfg F) (w_scope (d_world d))
        (o_ts (fe_out F)) cmd (d_recording d, d_facts d)
      in (d\<lparr> d_recording := r, d_facts := fs \<rparr>, resp))"

definition whisper_ack :: "whisper_config \<Rightarrow> bool \<Rightarrow> string" where
  "whisper_ack C now_on =
     (if \<not> whisper_feature C then apos ''Discreet mode isn'' ''t enabled, sir.''
      else if now_on then ''Speaking discreetly, sir.'' else ''Back to my normal voice, sir.'')"

text \<open>The two commands that call tools: runbooks and undo.\<close>

definition tool_arms :: "front \<Rightarrow> string \<Rightarrow> bool \<Rightarrow> daemon \<Rightarrow> daemon \<times> route_result" where
  "tool_arms F txt cloud d =
     (case classify_runbook_command (fe_low F) txt of
        Some c \<Rightarrow>
          (let a = orchestrator (fe_roster F);
               (w', resp) = handle_runbook_command (fe_runbooks F) (fe_steps F) (ag_tools a) (ag_namespace a) c (d_world d)
           in (d\<lparr> d_world := w' \<rparr>, by_lead F resp))
      | None \<Rightarrow>
      (case classify_undo_command (fe_low F) txt of
        Some c \<Rightarrow>
          (let (w', resp) = handle_undo_command (fe_out F) (d_anchor d) c (d_world d)
           in (d\<lparr> d_world := w' \<rparr>, by_lead F resp))
      | None \<Rightarrow> (d, Onward cloud)))"

text \<open>The commands after the gates: policy, model swap, whisper, vault, macros, runbooks, undo.\<close>

definition command_arms :: "front \<Rightarrow> string \<Rightarrow> bool \<Rightarrow> daemon \<Rightarrow> daemon \<times> route_result" where
  "command_arms F txt cloud d =
     (let (wp, ack) = policy_arm F txt (d_world d) in
      case ack of Some a \<Rightarrow> (d\<lparr> d_world := wp \<rparr>, by_lead F a)
      | None \<Rightarrow>
      (case classify_model_swap (fe_low F) (fe_ua F) txt of
        Some i \<Rightarrow> (d\<lparr> d_override := to_override i \<rparr>, by_lead F (swap_ack i))
      | None \<Rightarrow>
      (case parse_whisper_command (fe_low F) (fe_ua F) txt of
        Some c \<Rightarrow> (let now_on = whisper_apply (fe_whisper_cfg F) c (d_whisper d)
                   in (d\<lparr> d_whisper := now_on \<rparr>, by_lead F (whisper_ack (fe_whisper_cfg F) now_on)))
      | None \<Rightarrow>
      (case classify_vault_command (fe_low F) txt of
        Some c \<Rightarrow> (vault_arm (c = VaultOn) d, by_lead F (vault_ack (c = VaultOn)))
      | None \<Rightarrow>
      (case (case classify_macro_command (fe_low F) txt of
               Some (Replaying n) \<Rightarrow> None | Some c \<Rightarrow> Some c | None \<Rightarrow> None) of
        Some c \<Rightarrow> (let (d', resp) = macro_arm F c d in (d', by_lead F resp))
      | None \<Rightarrow> tool_arms F txt cloud d)))))"

section \<open>The front of a turn\<close>

definition panic_arm :: "front \<Rightarrow> daemon \<Rightarrow> daemon" where
  "panic_arm F d =
     (let X = fe_out F; w = d_world d in
      d\<lparr> d_world := w\<lparr> w_stop := fst (lockdown_panic (o_ext X) (o_ts X) (w_stop w)) \<rparr>,
         d_vision := stop_all_captures (d_vision d) \<rparr>)"

definition unlock_arm :: "front \<Rightarrow> daemon \<Rightarrow> daemon \<times> string" where
  "unlock_arm F d =
     (let X = fe_out F; w = d_world d; (s, msg) = lockdown_unlock (o_ext X) (o_ts X) (w_stop w)
      in (d\<lparr> d_world := w\<lparr> w_stop := s \<rparr> \<rparr>, msg))"

definition gated_commands :: "front \<Rightarrow> string \<Rightarrow> bool \<Rightarrow> daemon \<Rightarrow> daemon \<times> route_result" where
  "gated_commands F txt cloud d =
     (let w = d_world d in
      if \<not> allow_noncly (current_turn_gate (w_gate w)) then (d, by_lead F unrecognized_refusal)
      else case (if is_guest_turn (w_scope w) then guest_denied_fast_path F txt else None) of
        Some category \<Rightarrow> (d, by_lead F (guest_path_refusal category))
      | None \<Rightarrow> command_arms F txt cloud d)"

definition route_front :: "front \<Rightarrow> string \<Rightarrow> bool \<Rightarrow> daemon \<Rightarrow> daemon \<times> route_result" where
  "route_front F txt cloud_reachable d =
     (let w = d_world d; cloud = deny_cloud (w_scope w) (vault_deny_cloud (d_vault d) cloud_reachable) in
      if is_panic_intent (fe_ua F) txt then (panic_arm F d, by_lead F PANIC_CONFIRMATION)
      else if is_unlock_intent (fe_ua F) txt then (let (d', msg) = unlock_arm F d in (d', by_lead F msg))
      else (let (w', answered) = answer_pending F txt w; d' = d\<lparr> d_world := w' \<rparr> in
            case answered of Some r \<Rightarrow> (d', Handled r) | None \<Rightarrow> gated_commands F txt cloud d'))"

section \<open>Frames of the arms\<close>

lemma set_confirm_frames [simp]:
  "w_stop (set_confirm c w) = (w_stop w)\<lparr> stop_confirm := c \<rparr>" "w_gate (set_confirm c w) = w_gate w"
  "w_scope (set_confirm c w) = w_scope w" "w_policy (set_confirm c w) = w_policy w" "w_mcp (set_confirm c w) = w_mcp w"
  "w_journal (set_confirm c w) = w_journal w" "w_plan (set_confirm c w) = w_plan w"
  "consequential_allowed (set_confirm c w) = consequential_allowed w"
  by (simp_all add: set_confirm_def consequential_allowed_def is_locked_down_def)

lemma set_confirm_plan: "compute_plan X tn inp b (set_confirm c w) = compute_plan X tn inp b w"
  by (simp add: compute_plan_def)

lemma take_live_taken:
  assumes "take_live now c = (c', Some p)"
  shows "slot c = Some p \<and> prompted c = Some (p_id p) \<and> live_at now p \<and> c' = confirm_init"
  using assms by (auto simp: take_live_def Let_def confirm_init_def split: option.splits if_splits)

lemma take_live_None: "take_live now c = (c', None) \<Longrightarrow> c' = c \<or> c' = confirm_init"
  by (auto simp: take_live_def Let_def confirm_init_def split: option.splits if_splits)

lemma resolve_Replay: "resolve_reply ua p txt f = Replay q \<Longrightarrow> q = p \<and> classify_confirmation ua txt = Affirm"
  by (auto simp: resolve_reply_def split: confirm_reply.splits)

lemma answer_cases:
  assumes "answer_pending F txt w = (w', answered)"
  obtains (idle) c where "answered = None" "w' = set_confirm c w" "c = stop_confirm (w_stop w) \<or> c = confirm_init"
  | (denied) p where "answered \<noteq> None" "w' = audit_row (fe_out F) (p_agent p) (p_tool p) (p_tool p) Ask Denied (set_confirm confirm_init w)"
      "slot (stop_confirm (w_stop w)) = Some p" "classify_confirmation (fe_ua F) txt \<noteq> Affirm"
  | (replayed) p w2 out err c where "answered \<noteq> None" "slot (stop_confirm (w_stop w)) = Some p"
      "prompted (stop_confirm (w_stop w)) = Some (p_id p)" "live_at (o_now (fe_out F)) p"
      "classify_confirmation (fe_ua F) txt = Affirm"
      "replay_confirmed_action (fe_out F) p (set_confirm confirm_init w) = (w2, out, err)" "w' = set_confirm c w2"
proof -
  obtain c taken where t: "take_live (o_now (fe_out F)) (stop_confirm (w_stop w)) = (c, taken)" by fastforce
  note u = assms [unfolded answer_pending_def Let_def t prod.case]
  show ?thesis
  proof (cases taken)
    case None
    then show ?thesis using idle [of c] u take_live_None t by auto
  next
    case (Some p)
    note p = take_live_taken [OF t [unfolded Some]]
    show ?thesis
    proof (cases "resolve_reply (fe_ua F) p txt cancel_phrase")
      case (Replay q)
      obtain w2 out err where r: "replay_confirmed_action (fe_out F) p (set_confirm confirm_init w) = (w2, out, err)" by (metis prod_cases3)
      show ?thesis
        by (rule replayed [OF _ _ _ _ _ r]) (use u Some Replay p r resolve_Replay [OF Replay] in auto)
    next
      case (Cancelled ack)
      then have "classify_confirmation (fe_ua F) txt \<noteq> Affirm" by (auto simp: resolve_reply_def split: confirm_reply.splits)
      then show ?thesis using denied [of p] u Some Cancelled p by auto
    next
      case PassThrough
      then show ?thesis using idle [of c] u Some p by auto
    qed
  qed
qed

section \<open>Nothing fires without a yes\<close>

text \<open>Every stored inverse is one the journal derived.\<close>

definition journal_derived :: "journal_state \<Rightarrow> bool" where
  "journal_derived g \<longleftrightarrow> list_all (\<lambda>e. \<exists>tool inp out. je_inverse e = derive_inverse tool inp out) (entries g)"

definition undo_fires :: "outside \<Rightarrow> world \<Rightarrow> call \<Rightarrow> bool" where
  "undo_fires X w c \<longleftrightarrow>
     (\<exists>e t i n. entries (w_journal w) \<noteq> [] \<and> e = last (entries (w_journal w)) \<and> je_inverse e = InvReady t i n
        \<and> authorised X t i (je_allowed e) (je_agent e) True True w c)"

lemma authorised_confirm [simp]:
  "authorised X tn inp al ns uo ct (set_confirm k w) c = authorised X tn inp al ns uo ct w c"
  by (rule authorised_cong) (simp_all add: set_confirm_def)

lemma authorised_journal [simp]:
  "authorised X tn inp al ns uo ct (set_journal g w) c = authorised X tn inp al ns uo ct w c"
  by (rule authorised_cong) (simp_all add: set_journal_def)

lemma undo_turn_fires:
  assumes "serde_objects X" and "no_unlock X" and "journal_derived (w_journal w)"
    and "handle_undo_command X a cmd w = (w', resp)"
  shows "filter fires (new_calls w w') = [] \<or> (cmd = UndoLast \<and> (\<exists>c. filter fires (new_calls w w') = [c] \<and> undo_fires X w c))"
proof (cases cmd)
  case UndoStatus
  then show ?thesis using assms(4) by (simp add: handle_undo_command_def new_calls_def)
next
  case UndoLast
  obtain g prep where pr: "prepare_undo (o_ext X) (w_journal w) = (g, prep)" by fastforce
  note u = assms(4) [unfolded handle_undo_command_def UndoLast undo_command.case Let_def pr prod.case]
  show ?thesis
  proof (cases prep)
    case (UndoReady seq agent tool inp allowed cav pid)
    let ?e = "last (entries (w_journal w))" and ?w1 = "set_journal g w"
    have e: "entries (w_journal w) \<noteq> []" "je_inverse ?e = InvReady tool inp cav" "agent = je_agent ?e" "allowed = je_allowed ?e"
      using pr UndoReady by (auto simp: prepare_undo_def Let_def split: if_splits inverse.splits)
    have "\<exists>t0 i0 o0. je_inverse ?e = derive_inverse t0 i0 o0"
      using assms(3) last_in_set [OF e(1)] unfolding journal_derived_def list_all_iff by (rule bspec)
    then obtain t0 i0 o0 where "derive_inverse t0 i0 o0 = InvReady tool inp cav" using e(2) by auto
    then have obj: "is_object inp" "tool \<noteq> ''forge_app''" using derive_inverse_object by blast+
    obtain w2 out err eff where ex: "execute_tool_bound X tool inp allowed agent True True True ?w1 = (w2, out, err, eff)"
      by (metis prod_cases4)
    have calls: "w_calls w' = w_calls w2"
      using u UndoReady ex by (auto simp: execute_tool_def split: prod.splits if_splits)
    have "only_authorised X tool inp allowed agent True True ?w1 (w2, out, err, eff)"
      using execute_authorised [OF assms(1,2), of inp tool allowed agent True True ?w1 True] ex obj by simp
    then have "filter fires (new_calls w w') = [] \<or> (\<exists>c. filter fires (new_calls w w') = [c] \<and> authorised X tool inp allowed agent True True w c)"
      using obj(2) by (auto simp: only_authorised_def new_calls_def calls split: list.splits)
    then show ?thesis using UndoLast e by (auto simp: undo_fires_def)
  qed (use u in \<open>auto simp: new_calls_def\<close>)
qed

lemma policy_arm_calls: "policy_arm F txt w = (w', ack) \<Longrightarrow> w_calls w' = w_calls w"
  by (auto simp: policy_arm_def split: prod.splits)

lemma vault_arm_calls [simp]: "w_calls (d_world (vault_arm on d)) = w_calls (d_world d)"
  by (simp add: vault_arm_def Let_def)

lemma macro_arm_world: "macro_arm F c d = (d', resp) \<Longrightarrow> d_world d' = d_world d"
  by (auto simp: macro_arm_def split: prod.splits)

lemma command_arms_cases:
  assumes "command_arms F txt cloud d = (d', r)"
  obtains (calm) "w_calls (d_world d') = w_calls (d_world d)"
  | (runbook) c resp where "classify_runbook_command (fe_low F) txt = Some c"
      "handle_runbook_command (fe_runbooks F) (fe_steps F) (ag_tools (orchestrator (fe_roster F)))
         (ag_namespace (orchestrator (fe_roster F))) c (d_world d) = (d_world d', resp)"
  | (inverse) c resp where "classify_undo_command (fe_low F) txt = Some c"
      "handle_undo_command (fe_out F) (d_anchor d) c (d_world d) = (d_world d', resp)"
proof -
  obtain wp ack where pol: "policy_arm F txt (d_world d) = (wp, ack)" by fastforce
  note u = assms [unfolded command_arms_def Let_def pol prod.case]
  show ?thesis
  proof (cases "ack \<noteq> None \<or> classify_model_swap (fe_low F) (fe_ua F) txt \<noteq> None \<or> parse_whisper_command (fe_low F) (fe_ua F) txt \<noteq> None
      \<or> classify_vault_command (fe_low F) txt \<noteq> None
      \<or> (case classify_macro_command (fe_low F) txt of Some (Replaying n) \<Rightarrow> None | Some c \<Rightarrow> Some c | None \<Rightarrow> None) \<noteq> None")
    case True
    then have "w_calls (d_world d') = w_calls (d_world d)"
      using u policy_arm_calls [OF pol] macro_arm_world by (auto split: option.splits prod.splits)
    then show ?thesis by (rule calm)
  next
    case False
    then have v: "tool_arms F txt cloud d = (d', r)" using u by simp
    show ?thesis
    proof (cases "classify_runbook_command (fe_low F) txt")
      case (Some c)
      then show ?thesis using v runbook [OF Some] by (auto simp: tool_arms_def Let_def split: prod.splits)
    next
      case None
      show ?thesis
      proof (cases "classify_undo_command (fe_low F) txt")
        case (Some c)
        then show ?thesis using v None inverse [OF Some] by (auto simp: tool_arms_def split: prod.splits)
      next
        case none: None
        then have "d' = d" using v None by (simp add: tool_arms_def)
        then show ?thesis using calm by simp
      qed
    qed
  qed
qed

text \<open>What may follow from one utterance: nothing, the confirmed action, or the undo.\<close>

definition consented :: "front \<Rightarrow> string \<Rightarrow> world \<Rightarrow> call \<Rightarrow> bool" where
  "consented F txt w c \<longleftrightarrow>
     (\<exists>p. slot (stop_confirm (w_stop w)) = Some p \<and> prompted (stop_confirm (w_stop w)) = Some (p_id p)
        \<and> live_at (o_now (fe_out F)) p \<and> classify_confirmation (fe_ua F) txt = Affirm
        \<and> (consequential_allowed w \<or> p_tool p = ''forge_app'' \<and> \<not> is_locked_down (w_stop w))
        \<and> allow_confirm_replay (current_turn_gate (w_gate w)) \<and> w_scope w = None
        \<and> admits (p_allowed p) (p_tool p) \<and> plan_holds (fe_out F) p w \<and> replayed_call (fe_out F) p c)
     \<or> (classify_undo_command (fe_low F) txt = Some UndoLast \<and> undo_fires (fe_out F) w c)"

definition fires_only :: "(call \<Rightarrow> bool) \<Rightarrow> world \<Rightarrow> world \<Rightarrow> bool" where
  "fires_only P w w' \<longleftrightarrow> (case filter fires (new_calls w w') of [] \<Rightarrow> True | [c] \<Rightarrow> P c | _ \<Rightarrow> False)"

lemma fires_only_same: "w_calls w' = w_calls w \<Longrightarrow> fires_only P w w'"
  by (simp add: fires_only_def new_calls_def)

lemma undo_fires_confirm [simp]: "undo_fires X (set_confirm k w) c = undo_fires X w c"
  by (simp add: undo_fires_def)

lemma commands_consented:
  assumes "serde_objects (fe_out F) \<and> no_unlock (fe_out F)" and "\<forall>i. serde_objects (fe_steps F i) \<and> no_unlock (fe_steps F i)"
    and "journal_derived (w_journal (d_world d))" and "gated_commands F txt cloud d = (d', r)"
  shows "fires_only (\<lambda>c. classify_undo_command (fe_low F) txt = Some UndoLast \<and> undo_fires (fe_out F) (d_world d) c) (d_world d) (d_world d')"
proof -
  consider (same) "d' = d" | (arms) "command_arms F txt cloud d = (d', r)"
    using assms(4) by (auto simp: gated_commands_def Let_def split: if_splits option.splits)
  then show ?thesis
  proof cases
    case same
    then show ?thesis by (simp add: fires_only_same)
  next
    case arms
    then show ?thesis
    proof (cases rule: command_arms_cases)
      case calm
      then show ?thesis by (rule fires_only_same)
    next
      case (runbook c resp)
      have "quiet_step (d_world d) (d_world d')"
        by (rule runbook_command_quiet [OF assms(2) runbook(2)])
      then show ?thesis using quiet_new by (simp add: fires_only_def)
    next
      case (inverse c resp)
      show ?thesis
        using undo_turn_fires [OF conjunct1 [OF assms(1)] conjunct2 [OF assms(1)] assms(3) inverse(2)] inverse(1)
        by (auto simp: fires_only_def)
    qed
  qed
qed

text \<open>
  C1. One utterance fires at most one consequential action, and only by consent. Either it is the
  live, prompted, parked action and the utterance is a clear yes to it, on an owner's turn the voice
  gate admits, with its plan still true, the tool still in the allowlist it was parked with, and the
  switch on and no stop engaged (for a parked \<open>forge_app\<close>, which no switch gates: no stop engaged);
  what fires is then the parked tool on the parked arguments. Or the utterance is an undo command and
  the action is the derived inverse of the last execution, with the switch on, the voice gate and
  the scope admitting it, and the policy answering always for its very preview. No policy, vault,
  macro or runbook command, and no other reply, fires anything.
\<close>
theorem utterance_fires_only_by_consent:
  assumes "serde_objects (fe_out F) \<and> no_unlock (fe_out F)" and "\<forall>i. serde_objects (fe_steps F i) \<and> no_unlock (fe_steps F i)"
    and "journal_derived (w_journal (d_world d))"
    and "route_front F txt cloud d = (d', r)"
  shows "case filter fires (new_calls (d_world d) (d_world d')) of
      [] \<Rightarrow> True | [c] \<Rightarrow> consented F txt (d_world d) c | _ \<Rightarrow> False"
proof -
  let ?w = "d_world d"
  have "fires_only (consented F txt ?w) ?w (d_world d')"
  proof (cases "is_panic_intent (fe_ua F) txt \<or> is_unlock_intent (fe_ua F) txt")
    case True
    then have "w_calls (d_world d') = w_calls ?w"
      using assms(4) by (auto simp: route_front_def Let_def panic_arm_def unlock_arm_def split: if_splits prod.splits)
    then show ?thesis by (rule fires_only_same)
  next
    case False
    obtain w1 answered where ans: "answer_pending F txt ?w = (w1, answered)" by fastforce
    note u = assms(4) [unfolded route_front_def Let_def ans prod.case]
    from ans show ?thesis
    proof (cases rule: answer_cases)
      case (idle c)
      have g: "gated_commands F txt (deny_cloud (w_scope ?w) (vault_deny_cloud (d_vault d) cloud)) (d\<lparr> d_world := w1 \<rparr>) = (d', r)"
        using u False idle(1) by simp
      have "journal_derived (w_journal (d_world (d\<lparr> d_world := w1 \<rparr>)))" using assms(3) idle(2) by simp
      from commands_consented [OF assms(1,2) this g]
      have "fires_only (\<lambda>c. classify_undo_command (fe_low F) txt = Some UndoLast \<and> undo_fires (fe_out F) ?w c) w1 (d_world d')"
        using idle(2) by simp
      then show ?thesis
        using idle(2) by (auto simp: fires_only_def new_calls_def consented_def split: list.splits)
    next
      case (denied p)
      then have "d_world d' = w1" using u False by auto
      then show ?thesis using denied(2) by (intro fires_only_same) simp
    next
      case (replayed p w2 out err c)
      then have d': "d_world d' = w1" using u False by auto
      have "plan_holds (fe_out F) p (set_confirm confirm_init ?w) = plan_holds (fe_out F) p ?w"
        by (simp add: plan_holds_def set_confirm_plan)
      then have "fires_only (consented F txt ?w) (set_confirm confirm_init ?w) w2"
        using replay_authorised [OF conjunct2 [OF assms(1)], of p "set_confirm confirm_init ?w"] replayed
        by (auto simp: fires_only_def consented_def replay_switch_def is_locked_down_def split: list.splits)
      then show ?thesis unfolding d' replayed(7) by (simp add: fires_only_def new_calls_def)
    qed
  qed
  then show ?thesis by (simp add: fires_only_def)
qed

definition demo_front :: front where
  "demo_front = \<lparr> fe_out = demo_outside, fe_steps = (\<lambda>_. demo_outside), fe_low = to_ascii_lowercase,
     fe_ua = (\<lambda>_. False), fe_policy = demo_codec, fe_roster = demo_roster, fe_macros = demo_macros,
     fe_macro_cfg = \<lparr> macros_enabled = True, macros_retention = 50, macros_max_steps = 20 \<rparr>,
     fe_runbooks = demo_runbooks, fe_other_denied = (\<lambda>_. None),
     fe_whisper_cfg = \<lparr> whisper_feature = True, whisper_auto = False \<rparr> \<rparr>"

lemma demo_front_fields:
  "fe_low demo_front = to_ascii_lowercase" "fe_ua demo_front = (\<lambda>_. False)" "fe_out demo_front = demo_outside"
  "fe_other_denied demo_front = (\<lambda>_. None)" "fe_policy demo_front = demo_codec"
  by (simp_all add: demo_front_def)

definition armed_world :: world where
  "armed_world = set_confirm \<lparr> slot = Some demo_confirm, prompted = Some [] \<rparr> demo_world"

definition demo_daemon :: daemon where
  "demo_daemon = \<lparr> d_world = armed_world, d_vault = \<lparr> vault_on = False, turn_vault = None \<rparr>, d_anchor = None, d_recording = None,
     d_facts = [], d_vision = None, d_override = None, d_whisper = True \<rparr>"

lemma yes_affirms: "classify_confirmation (\<lambda>_. False) ''yes'' = Affirm"
proof -
  let ?ts = "split_whitespace (normalize_reply (\<lambda>_. False) ''yes'')"
  have "utf8_valid ''yes''" by (simp add: utf8_valid_ascii ascii_string_def)
  then have "\<forall>w \<in> set ?ts. word w" by (intro split_whitespace_words utf8_valid_normalize)
  moreover have "?ts = [''yes''] @ []" by (simp add: normalize_reply_def curly_quote_def str_simps)
  moreover have "reading ([''yes''] @ []) True"
    by (rule reading.phrase [OF _ reading.empty]) (simp add: affirm_tokens)
  ultimately show ?thesis using classify_tokens_Affirm unfolding classify_confirmation_def by metis
qed

lemma yes_is_no_stop: "is_panic_intent (\<lambda>_. False) ''yes'' = False" "is_unlock_intent (\<lambda>_. False) ''yes'' = False"
  by code_simp+

lemma demo_replay_fires:
  "filter fires (w_calls (fst (replay_confirmed_action demo_outside demo_confirm (set_confirm confirm_init armed_world)))) =
     [post_done]"
  using post_names demo_fields
  by (simp add: replay_confirmed_action_def demo_confirm_def demo_pending_def armed_world_def demo_call_simps
      set_confirm_def demo_world_def consequential_allowed_def is_locked_down_def boot_state_def log_call_def
      journal_row_def audit_row_def)

lemma utterance_fires_only_by_consent_witness:
  "\<exists>d' r. route_front demo_front ''yes'' True demo_daemon = (d', r)
     \<and> filter fires (new_calls armed_world (d_world d')) = [post_done] \<and> consented demo_front ''yes'' armed_world post_done"
proof -
  obtain d' r where e: "route_front demo_front ''yes'' True demo_daemon = (d', r)" by fastforce
  have d: "d_world demo_daemon = armed_world" by (simp add: demo_daemon_def)
  obtain w2 out err where rep: "replay_confirmed_action demo_outside demo_confirm (set_confirm confirm_init armed_world) = (w2, out, err)"
    by (metis prod_cases3)
  have take: "take_live 0 (stop_confirm (w_stop armed_world)) = (confirm_init, Some demo_confirm)"
    by (simp add: armed_world_def set_confirm_def take_live_def demo_confirm_def demo_pending_def live_at_def PENDING_TTL_def
        confirm_init_def Let_def)
  have t: "take_live (o_now (fe_out demo_front)) (stop_confirm (w_stop armed_world)) = (confirm_init, Some demo_confirm)"
    using take by (simp add: demo_front_def demo_outside_def)
  obtain c o2 where "answer_pending demo_front ''yes'' armed_world = (set_confirm c w2, Some o2)"
    by (simp add: answer_pending_def Let_def t [unfolded demo_front_fields] resolve_reply_def demo_front_fields yes_affirms rep)
  then have "d_world d' = set_confirm c w2"
    using e by (auto simp: route_front_def Let_def demo_front_fields yes_is_no_stop d)
  then have fired: "filter fires (new_calls armed_world (d_world d')) = [post_done]"
    using demo_replay_fires rep by (simp add: new_calls_def armed_world_def demo_world_def)
  have "case filter fires (new_calls (d_world demo_daemon) (d_world d')) of
      [] \<Rightarrow> True | [c] \<Rightarrow> consented demo_front ''yes'' (d_world demo_daemon) c | _ \<Rightarrow> False"
    by (rule utterance_fires_only_by_consent [OF _ _ _ e])
      (simp_all add: demo_serde demo_no_unlock demo_front_def d armed_world_def demo_world_def journal_derived_def journal_init_def)
  then show ?thesis using e fired by (simp add: d)
qed

section \<open>What a guest cannot change\<close>

lemma onward_arms:
  assumes "command_arms F txt cloud d = (d', Onward b)"
  shows "b = cloud \<and> d' = d"
  using assms
  by (auto simp: command_arms_def tool_arms_def by_lead_def Let_def split: option.splits prod.splits macro_command.splits)

lemma onward_commands:
  assumes "gated_commands F txt cloud d = (d', Onward b)"
  shows "b = cloud \<and> d' = d"
  using assms onward_arms by (auto simp: gated_commands_def by_lead_def Let_def split: option.splits if_splits)

lemma front_onward:
  assumes "route_front F txt reachable d = (d', Onward b)"
  shows "(b \<longleftrightarrow> reachable \<and> \<not> vault_is_active (d_vault d) \<and> w_scope (d_world d) = None) \<and> d_vault d' = d_vault d"
proof -
  obtain w1 answered where ans: "answer_pending F txt (d_world d) = (w1, answered)" by fastforce
  have "gated_commands F txt (deny_cloud (w_scope (d_world d)) (vault_deny_cloud (d_vault d) reachable)) (d\<lparr> d_world := w1 \<rparr>) = (d', Onward b)"
    using assms by (auto simp: route_front_def Let_def ans by_lead_def split: if_splits option.splits prod.splits)
  from onward_commands [OF this] show ?thesis
    by (auto simp: deny_cloud_def vault_deny_cloud_def deny_cloud_with_def is_guest_turn_def)
qed

text \<open>
  The rest of the turn may use the cloud exactly when the cloud is reachable, the vault is not
  active and the turn is no guest turn; a turn that goes on has left the vault as it was.
\<close>
theorem onward_cloud_exactly:
  assumes "route_front F txt reachable d = (d', Onward b)"
  shows "(b \<longleftrightarrow> reachable \<and> \<not> vault_is_active (d_vault d) \<and> w_scope (d_world d) = None) \<and> d_vault d' = d_vault d"
  by (rule front_onward [OF assms])

definition idle_daemon :: daemon where
  "idle_daemon = demo_daemon\<lparr> d_world := demo_world \<rparr>"

text \<open>No classifier reads a command in an empty utterance.\<close>

lemma empty_is_no_command:
  "is_panic_intent ua [] = False" "is_unlock_intent ua [] = False" "classify_policy_command [] = None"
  "classify_model_swap to_ascii_lowercase ua [] = None" "parse_whisper_command to_ascii_lowercase ua [] = None"
  "classify_vault_command to_ascii_lowercase [] = None" "classify_macro_command to_ascii_lowercase [] = None"
  "classify_runbook_command to_ascii_lowercase [] = None" "classify_undo_command to_ascii_lowercase [] = None"
  subgoal by code_simp
  subgoal by code_simp
  subgoal by code_simp
  subgoal by (simp add: classify_model_swap_def to_ascii_lowercase_def str_simps trim_list_def)
  subgoal by code_simp
  subgoal by code_simp
  subgoal by code_simp
  subgoal by code_simp
  subgoal by code_simp
  done

lemma idle_answer: "answer_pending demo_front txt demo_world = (demo_world, None)"
  by (simp add: answer_pending_def demo_front_fields demo_world_def boot_state_def confirm_init_def take_live_def set_confirm_def)

lemma idle_policy: "classify_policy_command txt = None \<Longrightarrow> snd (policy_arm demo_front txt demo_world) = None"
  by (simp add: policy_arm_def handle_user_policy_text_def)

lemma idle_onward: "snd (route_front demo_front [] True idle_daemon) = Onward True"
proof -
  obtain wp where p: "policy_arm demo_front [] demo_world = (wp, None)"
    using idle_policy [OF empty_is_no_command(3)] by (metis prod.collapse)
  have g: "allow_noncly (current_turn_gate (w_gate demo_world))" "w_scope demo_world = None"
    by (simp_all add: demo_world_def allow_noncly_def current_turn_gate_def OFF_GATE_def)
  have c: "d_world idle_daemon = demo_world" "vault_is_active (d_vault idle_daemon) = False"
    by (simp_all add: idle_daemon_def demo_daemon_def vault_is_active_def)
  show ?thesis
    using g by (simp add: route_front_def Let_def demo_front_fields empty_is_no_command c idle_answer gated_commands_def is_guest_turn_def
        command_arms_def p tool_arms_def deny_cloud_def vault_deny_cloud_def deny_cloud_with_def)
qed

lemma onward_cloud_exactly_witness:
  "True \<longleftrightarrow> \<not> vault_is_active (d_vault idle_daemon) \<and> w_scope (d_world idle_daemon) = None"
proof -
  obtain d' where "route_front demo_front [] True idle_daemon = (d', Onward True)"
    using idle_onward by (metis prod.collapse)
  from onward_cloud_exactly [OF this] show ?thesis by simp
qed

text \<open>The settings and stores of the owner that the front can change.\<close>

definition owner_state :: "daemon \<Rightarrow> vault_state \<times> facts \<times> recording_slot \<times> tier option \<times> bool \<times> policy_layer \<times> journal_state \<times> call list" where
  "owner_state d = (d_vault d, d_facts d, d_recording d, d_override d, d_whisper d, w_policy (d_world d),
     w_journal (d_world d), w_calls (d_world d))"

lemma audit_row_keeps [simp]:
  "w_policy (audit_row X ns tn tg dec oc w) = w_policy w" "w_journal (audit_row X ns tn tg dec oc w) = w_journal w"
  "w_calls (audit_row X ns tn tg dec oc w) = w_calls w"
  by (simp_all add: audit_row_def)

lemma guest_replay:
  assumes "w_scope w \<noteq> None" and "replay_confirmed_action X p w = (w', out, err)"
  shows "w_policy w' = w_policy w \<and> w_journal w' = w_journal w \<and> w_calls w' = w_calls w"
  using assms by (auto simp: replay_confirmed_action_def is_guest_turn_def split: if_splits)

lemma guest_commands:
  assumes "w_scope (d_world d) \<noteq> None" and "gated_commands F txt cloud d = (d', r)"
  shows "d' = d"
proof (cases "allow_noncly (current_turn_gate (w_gate (d_world d))) \<and> guest_denied_fast_path F txt = None")
  case True
  then have none: "classify_policy_command txt = None" "classify_model_swap (fe_low F) (fe_ua F) txt = None"
    "parse_whisper_command (fe_low F) (fe_ua F) txt = None" "classify_vault_command (fe_low F) txt = None"
    "classify_macro_command (fe_low F) txt = None" "classify_runbook_command (fe_low F) txt = None"
    "classify_undo_command (fe_low F) txt = None"
    by (simp_all add: guest_denied_fast_path_def split: if_splits)
  then show ?thesis
    using assms True by (simp add: gated_commands_def is_guest_turn_def command_arms_def tool_arms_def policy_arm_def
        handle_user_policy_text_def split: if_splits)
next
  case False
  then show ?thesis using assms by (auto simp: gated_commands_def is_guest_turn_def Let_def split: if_splits option.splits)
qed

text \<open>
  C8. Whatever a guest says, the front of the turn leaves the state of the owner alone: the vault, the
  facts with the macros, a recording, the model override, the whisper mode, the policies, the journal
  and the calls made are what they were, and the rest of the turn gets no cloud.
\<close>
theorem guest_changes_no_owner_state:
  assumes "w_scope (d_world d) \<noteq> None" and "route_front F txt reachable d = (d', r)"
  shows "owner_state d' = owner_state d \<and> r \<noteq> Onward True"
proof -
  obtain w1 answered where ans: "answer_pending F txt (d_world d) = (w1, answered)" by fastforce
  have w1: "w_policy w1 = w_policy (d_world d) \<and> w_journal w1 = w_journal (d_world d) \<and> w_calls w1 = w_calls (d_world d)"
    using ans
  proof (cases rule: answer_cases)
    case (replayed p w2 out err c)
    then show ?thesis using guest_replay [of "set_confirm confirm_init (d_world d)"] assms(1) by simp
  qed auto
  have sc: "w_scope w1 = w_scope (d_world d)" if "answered = None"
    using ans that by (cases rule: answer_cases) auto
  have "r \<noteq> Onward True" using front_onward assms by metis
  moreover have "owner_state d' = owner_state d"
  proof (cases "is_panic_intent (fe_ua F) txt \<or> is_unlock_intent (fe_ua F) txt \<or> answered \<noteq> None")
    case True
    then show ?thesis
      using assms(2) w1
      by (auto simp: route_front_def Let_def ans panic_arm_def unlock_arm_def owner_state_def split: if_splits prod.splits)
  next
    case False
    then obtain cloud where "gated_commands F txt cloud (d\<lparr> d_world := w1 \<rparr>) = (d', r)"
      using assms(2) by (simp add: route_front_def Let_def ans)
    from guest_commands [OF _ this] show ?thesis using False sc assms(1) w1 by (simp add: owner_state_def)
  qed
  ultimately show ?thesis by simp
qed

definition guest_daemon :: daemon where
  "guest_daemon = demo_daemon\<lparr> d_world := demo_guest \<rparr>"

lemma guest_changes_no_owner_state_witness:
  "owner_state (fst (route_front demo_front ''go dark'' True guest_daemon)) = owner_state guest_daemon"
proof -
  have g: "w_scope (d_world guest_daemon) \<noteq> None"
    by (simp add: guest_daemon_def demo_guest_def demo_view_def install_decision_def decide_def)
  obtain d' r where e: "route_front demo_front ''go dark'' True guest_daemon = (d', r)" by fastforce
  from guest_changes_no_owner_state [OF g e] show ?thesis unfolding e by simp
qed

section \<open>A toggle that is taken for another\<close>

text \<open>
  On an admitted turn of the owner with nothing parked, "back to normal" is answered by the model
  command: the override is cleared and whisper mode stays on, although its parser reads the same words
  as the way out of whisper mode.
\<close>
theorem back_to_normal_keeps_whisper:
  assumes "fe_low F = to_ascii_lowercase" and "fe_ua F = (\<lambda>_. False)"
    and "slot (stop_confirm (w_stop (d_world d))) = None" and "w_scope (d_world d) = None"
    and "allow_noncly (current_turn_gate (w_gate (d_world d)))"
  shows "parse_whisper_command (fe_low F) (fe_ua F) ''back to normal'' = Some WhisperOff
    \<and> (\<exists>d'. route_front F ''back to normal'' reachable d = (d', by_lead F (swap_ack SwapAuto))
         \<and> d_override d' = None \<and> d_whisper d' = d_whisper d)"
proof -
  have u: "is_panic_intent (\<lambda>_. False) ''back to normal'' = False" "is_unlock_intent (\<lambda>_. False) ''back to normal'' = False"
    "classify_policy_command ''back to normal'' = None"
    subgoal by code_simp
    subgoal by code_simp
    subgoal by code_simp
    done
  have off: "parse_whisper_command to_ascii_lowercase (\<lambda>_. False) ''back to normal'' = Some WhisperOff"
  proof -
    have n: "whisper_normalize to_ascii_lowercase ''back to normal'' = ''back to normal''"
      by (simp add: whisper_normalize_def to_ascii_lowercase_def trim_end_matches_def str_simps trim_list_def split_on.simps)
    have "drop_filler ''back to normal'' = None"
      by (simp add: drop_filler_def TRAILING_FILLER_def strip_suffix_def ends_with_def)
    moreover have "ends_with_phrase ua ''back to normal'' WHISPER_OFF" for ua
      by (simp add: ends_with_phrase_def WHISPER_OFF_def)
    ultimately show ?thesis by (simp add: parse_whisper_command_def n Let_def strip_trailing_filler.simps)
  qed
  obtain w1 where a: "answer_pending F ''back to normal'' (d_world d) = (w1, None)" "w_scope w1 = None" "w_gate w1 = w_gate (d_world d)"
    using assms(3,4) by (fastforce simp: answer_pending_def take_live_def Let_def)
  obtain wp where p: "policy_arm F ''back to normal'' w1 = (wp, None)"
    by (simp add: policy_arm_def handle_user_policy_text_def u)
  show ?thesis
    using assms by (simp add: route_front_def Let_def u off a gated_commands_def is_guest_turn_def command_arms_def p back_to_normal_is_auto)
qed

lemma back_to_normal_keeps_whisper_witness:
  "\<exists>d'. route_front demo_front ''back to normal'' True idle_daemon = (d', by_lead demo_front (swap_ack SwapAuto))
     \<and> d_whisper d' = d_whisper idle_daemon"
proof -
  have h: "fe_low demo_front = to_ascii_lowercase" "fe_ua demo_front = (\<lambda>_. False)"
    "slot (stop_confirm (w_stop (d_world idle_daemon))) = None" "w_scope (d_world idle_daemon) = None"
    "allow_noncly (current_turn_gate (w_gate (d_world idle_daemon)))"
    by (simp_all add: demo_front_fields idle_daemon_def demo_daemon_def demo_world_def boot_state_def confirm_init_def
        current_turn_gate_def OFF_GATE_def allow_noncly_def)
  show ?thesis using back_to_normal_keeps_whisper [OF h] by blast
qed

end
