(* ===== verification/MacroReplay.thy ===== *)
theory MacroReplay
  imports CommandTurn ConfirmReply
begin

text \<open>
  The replay of a macro in the turn loop (\<open>daemon/src/main.rs\<close>): the branch before \<open>route\<close> that takes
  "replay macro X" with its guest guard, \<open>replay_macro_live\<close>, and the capture of a command into a
  running recording after its turn, with the explain classifier of \<open>daemon/src/explain.rs\<close> that the
  capture consults. The inference server that classifies an utterance is the parameter
  \<open>lv_classify\<close>, and what \<open>route\<close> does after its modelled front is \<open>lv_rest\<close>: the properties hold for
  every such continuation. The spoken text of the summary, which leaves out what was already played,
  is not modelled; the returned text is.
\<close>

section \<open>Explain requests\<close>

datatype explain_query = ExplainLast | ExplainAgent string

definition LAST_PHRASES :: "string list" where
  "LAST_PHRASES =
     [''why did you do that'', ''why did you do this'', ''why did you do it'', apos ''why'' ''d you do that'',
      ''why did you do'', ''why did you'', ''why did you decide that'', ''why did you choose that'',
      ''why did you say that'', ''why did you respond that way'', ''why that decision'',
      ''explain your last decision'', ''explain that decision'', ''explain your decision'',
      ''explain your reasoning'', ''explain your last answer'', ''explain yourself'',
      ''what made you do that'', ''what was your reasoning'', ''how did you decide that'']"

definition DECISION_NOUNS :: "string list" where
  "DECISION_NOUNS = [''decision'', ''decisions'', ''reasoning'', ''call'', ''choice'', ''answer'', ''rationale'']"

definition DECISION_CUES :: "string list" where
  "DECISION_CUES = [''do that'', ''do this'', ''do it'', ''decide'', ''chose'', ''choose'', ''handle'',
     ''pick'', ''answer'', ''respond'', ''say that'', ''said that'', ''act on'', ''run that'']"

definition NAME_STOP :: "string list" where
  "NAME_STOP = [''you'', ''it'', ''that'', ''this'', ''we'', ''they'', ''he'', ''she'', ''the'', ''there'',
     ''not'', ''so'', ''though'', ''now'', ''then'', ''me'', ''us'', ''do'', ''did'', ''does'',
     ''agent'', ''assistant'', ''model'', ''system'']"

definition is_name_token :: "string \<Rightarrow> bool" where
  "is_name_token w \<longleftrightarrow> 2 \<le> length (chars w) \<and> length (chars w) \<le> 20
     \<and> list_all (\<lambda>c. c \<noteq> [] \<and> tl c = [] \<and> (ascii_upper (hd c) \<or> ascii_lower (hd c))) (chars w) \<and> w \<notin> set NAME_STOP"

definition has_decision_tail :: "string \<Rightarrow> bool" where
  "has_decision_tail s = list_ex (str_contains s) DECISION_CUES"

definition explained_name :: "string list \<Rightarrow> string option" where
  "explained_name ws =
     (if 3 \<le> length ws \<and> ws ! 0 = ''explain'' then
        (case (case strip_suffix (apos [] ''s'') (ws ! 1) of Some st \<Rightarrow> Some st | None \<Rightarrow> strip_suffix (apos ''s'' []) (ws ! 1)) of
           Some st \<Rightarrow> if is_name_token st \<and> ws ! 2 \<in> set DECISION_NOUNS then Some st else None
         | None \<Rightarrow> None)
      else None)"

definition before_agent :: "string list \<Rightarrow> string option" where
  "before_agent ws =
     (let pos = length (takeWhile (\<lambda>w. w \<noteq> ''agent'') ws) in
      if pos < length ws \<and> 2 \<le> pos \<and> is_name_token (ws ! (pos - 1)) then Some (ws ! (pos - 1)) else None)"

definition named_by_tail :: "string list \<Rightarrow> string option" where
  "named_by_tail ws =
     (if 4 \<le> length ws \<and> ws ! 1 = ''did'' then
        (let i = (if ws ! 2 = ''the'' then 3 else 2) in
         if is_name_token (ws ! i) \<and> has_decision_tail (join '' '' (drop (i + 1) ws)) then Some (ws ! i) else None)
      else None)"

definition agent_query :: "string \<Rightarrow> string option" where
  "agent_query t =
     (let ws = split_whitespace t in
      case explained_name ws of Some n \<Rightarrow> Some n
      | None \<Rightarrow> if ws = [] \<or> ws ! 0 \<noteq> ''why'' then None
                else (case before_agent ws of Some n \<Rightarrow> Some n | None \<Rightarrow> named_by_tail ws))"

definition classify_explain_intent :: "(string \<Rightarrow> string) \<Rightarrow> string \<Rightarrow> explain_query option" where
  "classify_explain_intent low txt =
     (let t = trim (trim_end_matches [CHR '',''] (trim (trim_end_matches [CHR ''.'', CHR ''!'', CHR ''?''] (low (trim txt))))) in
      case agent_query t of Some n \<Rightarrow> Some (ExplainAgent n)
      | None \<Rightarrow> if t \<in> set LAST_PHRASES then Some ExplainLast else None)"

section \<open>The turn loop around the router\<close>

record live =
  lv_front :: front
  lv_classify :: "string \<Rightarrow> string + string"
  lv_rest :: "string \<Rightarrow> string \<Rightarrow> bool \<Rightarrow> daemon \<Rightarrow> daemon \<times> (string + string)"

definition live_route :: "live \<Rightarrow> string \<Rightarrow> string \<Rightarrow> bool \<Rightarrow> daemon \<Rightarrow> daemon \<times> (string + string)" where
  "live_route V intent txt reachable d =
     (case route_front (lv_front V) txt reachable d of
        (d', Handled r) \<Rightarrow> (d', Inr (ro_response r))
      | (d', Onward cloud) \<Rightarrow> lv_rest V intent txt cloud d')"

definition route_once :: "live \<Rightarrow> bool \<Rightarrow> string \<Rightarrow> daemon \<Rightarrow> daemon \<times> string" where
  "route_once V reachable utterance d =
     (case lv_classify V utterance of
        Inl e \<Rightarrow> (d, apos ''couldn'' ''t classify '' @ dquoted utterance @ '' ('' @ e @ '')'')
      | Inr intent \<Rightarrow>
          (case live_route V intent utterance reachable d of
             (d', Inr out) \<Rightarrow> (d', out)
           | (d', Inl e) \<Rightarrow> (d', ''step failed: '' @ e)))"

definition REPLAY_OFF :: string where
  "REPLAY_OFF = ''Macros are off ([macros].enabled = false), sir '' @ dash @ apos '' there'' ''s nothing to replay.''"

definition replay_summary :: "macro \<Rightarrow> (string \<times> string) list \<Rightarrow> string" where
  "replay_summary m steps =
     trim_end (''Replayed macro '' @ dquoted (mc_name m) @ '' ('' @ nat_text (length (mc_steps m)) @ '' steps), sir.'' @ [CHR 0x0A]
       @ concat (map (\<lambda>(_, out). ''- '' @ trim out @ [CHR 0x0A]) steps))"

definition replay_macro_live :: "live \<Rightarrow> string \<Rightarrow> bool \<Rightarrow> daemon \<Rightarrow> daemon \<times> string" where
  "replay_macro_live V name reachable d =
     (let F = lv_front V in
      if \<not> macros_enabled (fe_macro_cfg F) then (d, REPLAY_OFF)
      else case macro_load (fe_macros F) (fe_low F) name (d_facts d) of
        None \<Rightarrow> (d, ''I have no macro called '' @ dquoted name @ '' to replay, sir.'')
      | Some m \<Rightarrow>
          (let (d', steps) = macro_replay (fe_macros F) (fe_low F) (d_facts d) name (route_once V reachable) d
           in (d', replay_summary m steps)))"

definition GUEST_REPLAY :: string where
  "GUEST_REPLAY = apos ''I can'' ''t replay macros in guest mode '' @ dash
     @ apos '' those re-run the owner'' ''s saved commands. The owner can do it.''"

text \<open>After a routed turn, a command is captured into the running recording.\<close>

definition capture_turn :: "live \<Rightarrow> string \<Rightarrow> string \<Rightarrow> daemon \<Rightarrow> daemon" where
  "capture_turn V txt intent d =
     (let low = fe_low (lv_front V) in
      if is_recording (d_recording d) \<and> classify_macro_command low txt = None \<and> classify_undo_command low txt = None
         \<and> classify_explain_intent low txt = None
      then d\<lparr> d_recording := capture (w_scope (d_world d)) txt intent (d_recording d) \<rparr> else d)"

text \<open>One utterance in the turn loop: a replay, or a classified and routed command.\<close>

definition spoken_turn :: "live \<Rightarrow> string \<Rightarrow> bool \<Rightarrow> daemon \<Rightarrow> daemon \<times> string option" where
  "spoken_turn V txt reachable d =
     (case classify_macro_command (fe_low (lv_front V)) txt of
        Some (Replaying name) \<Rightarrow>
          if is_guest_turn (w_scope (d_world d)) then (d, Some GUEST_REPLAY)
          else (let (d', resp) = replay_macro_live V name reachable d in (d', Some resp))
      | _ \<Rightarrow>
          (case lv_classify V txt of
             Inl e \<Rightarrow> (d, None)
           | Inr intent \<Rightarrow>
               (case live_route V intent txt reachable d of
                  (d', Inl e) \<Rightarrow> (d', None)
                | (d', Inr out) \<Rightarrow> (capture_turn V txt intent d', Some out))))"

section \<open>A replay fires nothing of its own\<close>

lemma replay_steps_append:
  "fst (replay_steps f (a @ b) w) = fst (replay_steps f b (fst (replay_steps f a w)))"
  by (induction a arbitrary: w) (simp_all add: Let_def split_def)

text \<open>The calls made between two worlds, of which those that fire satisfy \<open>P\<close>.\<close>

definition fires_within :: "(call \<Rightarrow> bool) \<Rightarrow> world \<Rightarrow> world \<Rightarrow> bool" where
  "fires_within P w w' \<longleftrightarrow> (\<exists>cs. w_calls w' = w_calls w @ cs \<and> list_all P (filter fires cs))"

lemma fires_within_same: "w_calls w' = w_calls w \<Longrightarrow> fires_within P w w'"
  by (simp add: fires_within_def)

lemma fires_within_quiet: "quiet_step w w' \<Longrightarrow> fires_within P w w'"
  by (auto simp: quiet_step_def fires_within_def)

lemma fires_within_trans: "fires_within P w w' \<Longrightarrow> fires_within P w' w'' \<Longrightarrow> fires_within P w w''"
  unfolding fires_within_def by force

text \<open>A step that no pending action can take for a yes, and that is no undo command.\<close>

definition asks_nothing :: "front \<Rightarrow> string \<Rightarrow> bool" where
  "asks_nothing F u \<longleftrightarrow> classify_confirmation (fe_ua F) u \<noteq> Affirm \<and> classify_undo_command (fe_low F) u \<noteq> Some UndoLast"

lemma front_fires_nothing:
  assumes steps: "\<forall>i. serde_objects (fe_steps F i) \<and> no_unlock (fe_steps F i)"
    and "asks_nothing F u" and "route_front F u reachable d = (d', r)"
  shows "fires_within P (d_world d) (d_world d')"
proof -
  obtain w1 answered where ans: "answer_pending F u (d_world d) = (w1, answered)" by fastforce
  have w1: "w_calls w1 = w_calls (d_world d)"
    using ans assms(2) by (cases rule: answer_cases) (simp_all add: asks_nothing_def)
  consider (same) "w_calls (d_world d') = w_calls (d_world d)"
    | (cmd) cloud where "command_arms F u cloud (d\<lparr> d_world := w1 \<rparr>) = (d', r)"
    using assms(3) w1
    by (auto simp: route_front_def Let_def ans panic_arm_def unlock_arm_def gated_commands_def split: if_splits option.splits prod.splits)
  then show ?thesis
  proof cases
    case same
    then show ?thesis by (rule fires_within_same)
  next
    case cmd
    then show ?thesis
    proof (cases rule: command_arms_cases)
      case calm
      then show ?thesis using w1 by (simp add: fires_within_same)
    next
      case (runbook c resp)
      have "quiet_step w1 (d_world d')" using runbook_command_quiet [OF steps runbook(2)] by simp
      then have "quiet_step (d_world d) (d_world d')" using w1 by (simp add: quiet_step_def)
      then show ?thesis by (rule fires_within_quiet)
    next
      case (inverse c resp)
      then have "c = UndoStatus" using assms(2) by (cases c) (auto simp: asks_nothing_def)
      then have "d_world d' = w1" using inverse(2) by (simp add: handle_undo_command_def)
      then show ?thesis using w1 by (simp add: fires_within_same)
    qed
  qed
qed

lemma route_once_within:
  assumes "\<forall>i. serde_objects (fe_steps (lv_front V) i) \<and> no_unlock (fe_steps (lv_front V) i)"
    and "\<forall>i u c d. fires_within P (d_world d) (d_world (fst (lv_rest V i u c d)))"
    and "asks_nothing (lv_front V) u"
  shows "fires_within P (d_world d) (d_world (fst (route_once V reachable u d)))"
proof (cases "lv_classify V u")
  case (Inl e)
  then show ?thesis by (simp add: route_once_def fires_within_same)
next
  case (Inr i)
  obtain d' r where f: "route_front (lv_front V) u reachable d = (d', r)" by fastforce
  note one = front_fires_nothing [OF assms(1,3) f, of P]
  have "fst (route_once V reachable u d) = fst (live_route V i u reachable d)"
    using Inr by (simp add: route_once_def split: prod.splits sum.splits)
  moreover have "fires_within P (d_world d) (d_world (fst (live_route V i u reachable d)))"
    using one assms(2) fires_within_trans [OF one] by (cases r) (auto simp: live_route_def f)
  ultimately show ?thesis by simp
qed

text \<open>
  C9. Replaying a macro none of whose steps reads as a yes or as an undo command fires nothing of its
  own: whatever is parked and whatever the store holds, every call that fires during the replay was
  made by the continuation of a turn, and so has every property those calls have.
\<close>
theorem replay_adds_no_authority:
  assumes "\<forall>i. serde_objects (fe_steps (lv_front V) i) \<and> no_unlock (fe_steps (lv_front V) i)"
    and "\<forall>i u c d. fires_within P (d_world d) (d_world (fst (lv_rest V i u c d)))"
    and "\<forall>m. macro_load (fe_macros (lv_front V)) (fe_low (lv_front V)) name (d_facts d) = Some m
         \<longrightarrow> list_all (\<lambda>s. asks_nothing (lv_front V) (mst_utterance s)) (mc_steps m)"
    and "replay_macro_live V name reachable d = (d', out)"
  shows "fires_within P (d_world d) (d_world d')"
proof -
  have "fires_within P (d_world d) (d_world (fst (replay_steps (route_once V reachable) ss d)))"
    if "list_all (\<lambda>s. asks_nothing (lv_front V) (mst_utterance s)) ss" for ss d
    using that
  proof (induction ss arbitrary: d)
    case Nil
    then show ?case by (simp add: fires_within_same)
  next
    case (Cons s ss)
    obtain d1 o1 where r: "route_once V reachable (mst_utterance s) d = (d1, o1)" by fastforce
    have "fires_within P (d_world d) (d_world d1)"
      using route_once_within [OF assms(1,2), of "mst_utterance s" d reachable] Cons.prems r by simp
    then show ?case
      using Cons.IH [of d1] Cons.prems r by (auto simp: Let_def split: prod.splits intro: fires_within_trans)
  qed
  then show ?thesis
    using assms(3,4)
    by (auto simp: replay_macro_live_def macro_replay_def Let_def fires_within_same split: if_splits option.splits prod.splits)
      (metis fst_conv)
qed

definition quiet_macro :: macro where
  "quiet_macro = \<lparr> mc_name = ''pause'', mc_steps = [\<lparr> mst_utterance = [], mst_intent = ''chat'' \<rparr>], mc_created = [] \<rparr>"

definition quiet_live :: live where
  "quiet_live = \<lparr> lv_front = demo_front\<lparr> fe_macros := \<lparr> macro_text = (\<lambda>_. []), macro_read = (\<lambda>_. Some quiet_macro) \<rparr> \<rparr>,
     lv_classify = (\<lambda>_. Inr ''chat''), lv_rest = (\<lambda>_ _ _ d. (d, Inr [])) \<rparr>"

lemma replay_adds_no_authority_witness:
  "fires_within (\<lambda>_. False) armed_world (d_world (fst (replay_macro_live quiet_live ''pause'' True
     (demo_daemon\<lparr> d_facts := [\<lparr> f_ts = [], f_key = ''meta.macro.pause'', f_value = [] \<rparr>] \<rparr>))))"
proof -
  let ?d = "demo_daemon\<lparr> d_facts := [\<lparr> f_ts = [], f_key = ''meta.macro.pause'', f_value = [] \<rparr>] \<rparr>"
  obtain d' out where e: "replay_macro_live quiet_live ''pause'' True ?d = (d', out)" by fastforce
  have d: "d_world ?d = armed_world" by (simp add: demo_daemon_def)
  have "classify_confirmation (\<lambda>_. False) [] \<noteq> Affirm"
    by (simp add: classify_confirmation_def normalize_reply_def str_simps classify_tokens_def)
  then have q: "asks_nothing (lv_front quiet_live) []"
    by (simp add: asks_nothing_def quiet_live_def demo_front_fields empty_is_no_command)
  have "fires_within (\<lambda>_. False) (d_world ?d) (d_world d')"
  proof (rule replay_adds_no_authority [OF _ _ _ e])
    show "\<forall>m. macro_load (fe_macros (lv_front quiet_live)) (fe_low (lv_front quiet_live)) ''pause'' (d_facts ?d) = Some m
      \<longrightarrow> list_all (\<lambda>s. asks_nothing (lv_front quiet_live) (mst_utterance s)) (mc_steps m)"
    proof (intro allI impI)
      fix m assume "macro_load (fe_macros (lv_front quiet_live)) (fe_low (lv_front quiet_live)) ''pause'' (d_facts ?d) = Some m"
      then have "m = quiet_macro" by (auto simp: macro_load_def quiet_live_def split: bind_splits)
      then show "list_all (\<lambda>s. asks_nothing (lv_front quiet_live) (mst_utterance s)) (mc_steps m)"
        using q by (simp add: quiet_macro_def)
    qed
  qed (simp_all add: quiet_live_def demo_front_def demo_serde demo_no_unlock fires_within_same)
  then show ?thesis unfolding e d by simp
qed

section \<open>A recorded yes\<close>

lemma yes_step: "mst_utterance (make_step ''yes'' i) = ''yes''"
proof -
  have t: "trim ''yes'' = ''yes''" by (simp add: str_simps trim_list_def)
  have r: "redact ''yes'' = ''yes''" by code_simp
  show ?thesis by (simp add: make_step_def t r bound_text_def MAX_UTTERANCE_LEN_def)
qed

lemma yes_is_plain:
  "trim ''yes'' = ''yes''" "to_ascii_lowercase ''yes'' = ''yes''" "split_whitespace ''yes'' = [''yes'']"
  "trim_end_matches [CHR ''.'', CHR ''!'', CHR ''?''] ''yes'' = ''yes''" "trim_end_matches [CHR '',''] ''yes'' = ''yes''"
  by (simp_all add: str_simps trim_list_def to_ascii_lowercase_def trim_end_matches_def split_on.simps)

lemma yes_is_no_command:
  "classify_macro_command to_ascii_lowercase ''yes'' = None" "classify_undo_command to_ascii_lowercase ''yes'' = None"
  "classify_explain_intent to_ascii_lowercase ''yes'' = None"
  subgoal
    by (simp add: classify_macro_command_def macro_spoken_def yes_is_plain macro_after_lead_def macro_before_noun_def
        strip_prefix_def starts_with_def strip_suffix_def ends_with_def STOP_PHRASES_def LIST_PHRASES_def START_LEADS_def
        REPLAY_LEADS_def FORGET_LEADS_def)
  subgoal by (simp add: classify_undo_command_def yes_is_plain UNDO_PHRASES_def STATUS_PHRASES_def)
  subgoal
    by (simp add: classify_explain_intent_def yes_is_plain agent_query_def explained_name_def LAST_PHRASES_def apos_def)
  done

lemma yes_step_fires:
  assumes low: "fe_low (lv_front V) = to_ascii_lowercase" "fe_ua (lv_front V) = (\<lambda>_. False)" and "lv_classify V ''yes'' = Inr i"
    and armed: "slot (stop_confirm (w_stop (d_world d))) = Some p" "prompted (stop_confirm (w_stop (d_world d))) = Some (p_id p)"
      "live_at (o_now (fe_out (lv_front V))) p"
  shows "w_calls (d_world (fst (route_once V reachable ''yes'' d)))
     = w_calls (fst (replay_confirmed_action (fe_out (lv_front V)) p (set_confirm confirm_init (d_world d))))"
proof -
  let ?F = "lv_front V" and ?w = "set_confirm confirm_init (d_world d)"
  obtain w2 out err where r: "replay_confirmed_action (fe_out ?F) p ?w = (w2, out, err)" by (metis prod_cases3)
  have t: "take_live (o_now (fe_out ?F)) (stop_confirm (w_stop (d_world d))) = (confirm_init, Some p)"
    using armed by (simp add: take_live_def confirm_init_def)
  obtain c o2 where a: "answer_pending ?F ''yes'' (d_world d) = (set_confirm c w2, Some o2)"
    by (simp add: answer_pending_def Let_def t resolve_reply_def low yes_affirms r)
  have "route_front ?F ''yes'' reachable d = (d\<lparr> d_world := set_confirm c w2 \<rparr>, Handled o2)"
    by (simp add: route_front_def Let_def low yes_is_no_stop a)
  then show ?thesis using assms(3) unfolding r by (simp add: route_once_def live_route_def set_confirm_def)
qed

text \<open>
  A spoken yes is captured into a running recording and stored as it was said; when a replay
  reaches it while a prompted action is parked, it confirms that action: the calls of the replay up to
  there are those of the confirmed execution, with no one asked. The text of the module promises that
  a replayed consequential step parks for a fresh yes and that a replay carries no approval.
\<close>
theorem recorded_yes_confirms_on_replay:
  assumes "fe_low (lv_front V) = to_ascii_lowercase" and "fe_ua (lv_front V) = (\<lambda>_. False)" and "lv_classify V ''yes'' = Inr i"
    and "d_recording b = Some q" and "length (rec_steps q) < 256" and "w_scope (d_world b) = None"
    and "macros_enabled (fe_macro_cfg (lv_front V))"
    and "macro_load (fe_macros (lv_front V)) (fe_low (lv_front V)) name (d_facts d) = Some m"
    and "mc_steps m = before @ [make_step ''yes'' i]" and "e = fst (replay_steps (route_once V reachable) before d)"
    and "slot (stop_confirm (w_stop (d_world e))) = Some p" and "prompted (stop_confirm (w_stop (d_world e))) = Some (p_id p)"
    and "live_at (o_now (fe_out (lv_front V))) p"
  shows "d_recording (capture_turn V ''yes'' i b) = Some (q\<lparr> rec_steps := rec_steps q @ [(''yes'', i)] \<rparr>)
    \<and> w_calls (d_world (fst (replay_macro_live V name reachable d)))
      = w_calls (fst (replay_confirmed_action (fe_out (lv_front V)) p (set_confirm confirm_init (d_world e))))"
proof
  show "d_recording (capture_turn V ''yes'' i b) = Some (q\<lparr> rec_steps := rec_steps q @ [(''yes'', i)] \<rparr>)"
    using assms(1,4-6)
    by (simp add: capture_turn_def yes_is_no_command is_recording_def capture_def guest_write_blocked_def is_guest_turn_def)
  have "fst (replay_macro_live V name reachable d) = fst (replay_steps (route_once V reachable) (mc_steps m) d)"
    using assms(7,8) by (simp add: replay_macro_live_def macro_replay_def split: prod.splits)
  also have "\<dots> = fst (route_once V reachable ''yes'' e)"
    by (simp add: assms(9,10) replay_steps_append yes_step split_def Let_def)
  finally show "w_calls (d_world (fst (replay_macro_live V name reachable d)))
      = w_calls (fst (replay_confirmed_action (fe_out (lv_front V)) p (set_confirm confirm_init (d_world e))))"
    using yes_step_fires [OF assms(1-3,11-13)] by simp
qed

definition yes_macro :: macro where
  "yes_macro = \<lparr> mc_name = ''post'', mc_steps = [make_step ''yes'' ''chat''], mc_created = [] \<rparr>"

definition demo_live :: live where
  "demo_live = \<lparr> lv_front = demo_front\<lparr> fe_macros := \<lparr> macro_text = (\<lambda>_. []), macro_read = (\<lambda>_. Some yes_macro) \<rparr> \<rparr>,
     lv_classify = (\<lambda>_. Inr ''chat''), lv_rest = (\<lambda>_ _ _ d. (d, Inr [])) \<rparr>"

lemma recorded_yes_confirms_on_replay_witness:
  "filter fires (w_calls (d_world (fst (replay_macro_live demo_live ''post'' True
      (demo_daemon\<lparr> d_facts := [\<lparr> f_ts = [], f_key = ''meta.macro.post'', f_value = [] \<rparr>] \<rparr>)))))
     = [Gated ''x_post'' (JObj [(''confirm'', JBool True)]) ModeExecute]"
proof -
  let ?d = "demo_daemon\<lparr> d_facts := [\<lparr> f_ts = [], f_key = ''meta.macro.post'', f_value = [] \<rparr>] \<rparr>"
  let ?b = "idle_daemon\<lparr> d_recording := Some \<lparr> rec_name = ''post'', rec_steps = [] \<rparr> \<rparr>"
  have t: "normalize_macro_name to_ascii_lowercase ''post'' = ''post''"
    by (simp add: normalize_macro_name_def bound_text_def MAX_NAME_LEN_def to_ascii_lowercase_def str_simps trim_list_def)
  have m: "macro_load (fe_macros (lv_front demo_live)) (fe_low (lv_front demo_live)) ''post'' (d_facts ?d) = Some yes_macro"
    by (simp add: demo_live_def demo_front_fields macro_load_def macro_key_def MACRO_PREFIX_def get_fact_def t)
  have w: "d_world ?d = armed_world" "fe_out (lv_front demo_live) = demo_outside"
    by (simp_all add: demo_daemon_def demo_live_def demo_front_fields)
  have "w_calls (d_world (fst (replay_macro_live demo_live ''post'' True ?d)))
      = w_calls (fst (replay_confirmed_action (fe_out (lv_front demo_live)) demo_confirm (set_confirm confirm_init (d_world ?d))))"
    by (rule conjunct2, rule recorded_yes_confirms_on_replay [OF _ _ _ _ _ _ _ m, where b = ?b and before = "[]" and i = "''chat''"])
      (simp_all add: w, simp_all add: demo_live_def demo_front_def yes_macro_def armed_world_def demo_world_def idle_daemon_def
        demo_confirm_def demo_pending_def live_at_def demo_outside_def)
  then have "w_calls (d_world (fst (replay_macro_live demo_live ''post'' True ?d)))
      = w_calls (fst (replay_confirmed_action demo_outside demo_confirm (set_confirm confirm_init armed_world)))"
    unfolding w .
  then show ?thesis by (simp add: demo_replay_fires)
qed

end
