(* ===== verification/PanicTurn.thy ===== *)
theory PanicTurn
  imports CommandTurn
begin

text \<open>
  What follows a panic: the front of the turn of \<open>daemon/src/command.rs\<close>, the tool calls and the
  confirmations of \<open>daemon/src/anthropic.rs\<close>, in any order, until an unlock.
\<close>

section \<open>The stop stands and the calls are silent\<close>





lemma lock_frames [simp]:
  "locked (w_stop (audit_row X a t g d out w)) = locked (w_stop w)"
  "locked (w_stop (journal_row X a t i p txt al b v w)) = locked (w_stop w)"
  by (simp_all add: audit_row_def)








section \<open>The front of a turn\<close>






section \<open>After the panic\<close>










end
