(* ===== verification/ChangeQueue.thy ===== *)
theory ChangeQueue
  imports Macros
begin

text \<open>
  The change queue of \<open>daemon/src/changeq.rs\<close>: the kinds of proposal with their stores and apply
  scripts, the provenance trailers, the bounded queue, and the two tools of \<open>daemon/src/anthropic.rs\<close>
  that read it. The queue applies nothing; it names the script a person runs. Log lines and the
  telemetry hub are left out; the frame itself is modelled.
\<close>

unbundle bit_operations_syntax

section \<open>Kinds\<close>

datatype change_kind = HealChange | CodeChange | ForgeChange | OptimizeChange

primrec kind_wire :: "change_kind \<Rightarrow> string" where
  "kind_wire HealChange = ''heal''"
| "kind_wire CodeChange = ''code''"
| "kind_wire ForgeChange = ''forge''"
| "kind_wire OptimizeChange = ''optimize''"

definition kind_from_wire :: "string \<Rightarrow> change_kind option" where
  "kind_from_wire s =
     (if s = ''heal'' then Some HealChange
      else if s = ''code'' then Some CodeChange
      else if s = ''forge'' then Some ForgeChange
      else if s = ''optimize'' then Some OptimizeChange
      else None)"

primrec proposals_subdir :: "change_kind \<Rightarrow> string" where
  "proposals_subdir HealChange = ''state/heal/proposals''"
| "proposals_subdir CodeChange = ''state/code/proposals''"
| "proposals_subdir ForgeChange = ''state/forge/proposals''"
| "proposals_subdir OptimizeChange = ''state/optimize/proposals''"

primrec apply_script :: "change_kind \<Rightarrow> string" where
  "apply_script HealChange = ''scripts/apply_heal.sh''"
| "apply_script CodeChange = ''scripts/apply_code_diff.sh''"
| "apply_script ForgeChange = ''scripts/apply_forge.sh''"
| "apply_script OptimizeChange = ''scripts/apply_optimization.sh''"

text \<open>A \<open>ts\<close> is a \<open>u64\<close>; it is only printed and compared.\<close>

definition artifact_rel :: "change_kind \<Rightarrow> 64 word \<Rightarrow> string" where
  "artifact_rel k ts = proposals_subdir k @ ''/'' @ nat_digits (unat ts)"

definition kind_apply_command :: "change_kind \<Rightarrow> 64 word \<Rightarrow> string" where
  "kind_apply_command k ts = apply_script k @ '' '' @ nat_digits (unat ts)"

section \<open>Provenance\<close>

definition MAX_TRAILER_VALUE_LEN :: nat where
  "MAX_TRAILER_VALUE_LEN = 200"

definition MAX_SUMMARY_LEN :: nat where
  "MAX_SUMMARY_LEN = 300"

definition MAX_ARTIFACT_REL_LEN :: nat where
  "MAX_ARTIFACT_REL_LEN = 400"

text \<open>The bounded copy \<open>clamp\<close>, at a character boundary, without trimming.\<close>

definition clamp :: "nat \<Rightarrow> string \<Rightarrow> string" where
  "clamp n s = (if length s \<le> n then s else take (back_to_boundary s n) s)"

text \<open>\<open>char::is_control\<close>: the characters of the Unicode category Cc.\<close>

definition is_control :: "rchar \<Rightarrow> bool" where
  "is_control c =
     (case c of
        [b] \<Rightarrow> code b < 32 \<or> code b = 127
      | [a, b] \<Rightarrow> a = CHR 0xC2 \<and> 128 \<le> code b \<and> code b < 160
      | _ \<Rightarrow> False)"

text \<open>The loop of \<open>sanitize_trailer_value\<close> over the characters, with its buffer and its flag.\<close>

fun sanitize_chars :: "rchar list \<Rightarrow> string \<Rightarrow> bool \<Rightarrow> string" where
  "sanitize_chars [] out prev_space = out"
| "sanitize_chars (c # cs) out prev_space =
     (if is_whitespace c then
        (if \<not> prev_space \<and> out \<noteq> [] then sanitize_chars cs (out @ '' '') True
         else sanitize_chars cs out prev_space)
      else if is_control c then sanitize_chars cs out prev_space
      else sanitize_chars cs (out @ c) False)"

definition sanitize_trailer_value :: "string \<Rightarrow> string" where
  "sanitize_trailer_value s =
     (let trimmed = trim_end (sanitize_chars (chars (trim s)) [] False);
          clamped = clamp MAX_TRAILER_VALUE_LEN trimmed in
      if clamped = [] then ''unknown'' else clamped)"

record provenance =
  pv_agent :: string
  pv_model :: string
  pv_run :: string
  pv_state :: string

definition provenance_new :: "string \<Rightarrow> string \<Rightarrow> string \<Rightarrow> string \<Rightarrow> provenance" where
  "provenance_new agent model run st =
     \<lparr> pv_agent = sanitize_trailer_value agent, pv_model = sanitize_trailer_value model,
       pv_run = sanitize_trailer_value run, pv_state = sanitize_trailer_value st \<rparr>"

definition trailer_lines :: "provenance \<Rightarrow> string list" where
  "trailer_lines p =
     [''Darwin-Agent: '' @ pv_agent p, ''Darwin-Model: '' @ pv_model p,
      ''Darwin-Run: '' @ pv_run p, ''Darwin-State-Hash: '' @ pv_state p]"

definition trailers_block :: "provenance \<Rightarrow> string" where
  "trailers_block p = join [CHR 0x0A] (trailer_lines p)"

definition SECRETISH_KEYS :: "string list" where
  "SECRETISH_KEYS = [''api_key='', ''apikey='', ''api-key='', ''token='', ''secret='', ''password='', ''bearer '']"

text \<open>One token: a known prefix with eight more bytes, or a long mixed run of 24 characters.\<close>

definition secretish_token :: "string \<Rightarrow> bool" where
  "secretish_token tok =
     (let l = to_ascii_lowercase tok in
      list_ex (\<lambda>p. starts_with p l \<and> length p + 8 \<le> length tok) SECRET_PREFIXES
      \<or> (24 \<le> length (chars tok) \<and> list_ex ascii_alpha tok \<and> list_ex ascii_digit tok
         \<and> list_all (\<lambda>c. ascii_alnum c \<or> c \<in> set ''-_+/='') tok))"

definition looks_secretish :: "string \<Rightarrow> bool" where
  "looks_secretish v =
     (list_ex (\<lambda>key. str_contains (to_ascii_lowercase v) key) SECRETISH_KEYS
      \<or> list_ex secretish_token (split_whitespace v))"

definition is_secret_free :: "provenance \<Rightarrow> bool" where
  "is_secret_free p =
     (\<not> list_ex looks_secretish [pv_agent p, pv_model p, pv_run p, pv_state p])"

text \<open>FNV-1a on 64 bits, printed as sixteen hexadecimal digits.\<close>

definition FNV_BASIS :: "64 word" where
  "FNV_BASIS = 0xcbf29ce484222325"

definition FNV_PRIME :: "64 word" where
  "FNV_PRIME = 0x100000001b3"

definition fnv_step :: "64 word \<Rightarrow> char \<Rightarrow> 64 word" where
  "fnv_step h b = (h XOR of_nat (code b)) * FNV_PRIME"

definition hex_digit :: "nat \<Rightarrow> char" where
  "hex_digit n = (if n < 10 then char_of (48 + n) else char_of (87 + n))"

fun hex_pad :: "nat \<Rightarrow> nat \<Rightarrow> string" where
  "hex_pad 0 n = []"
| "hex_pad (Suc k) n = hex_pad k (n div 16) @ [hex_digit (n mod 16)]"

definition fingerprint :: "string \<Rightarrow> string" where
  "fingerprint bytes = hex_pad 16 (unat (foldl fnv_step FNV_BASIS bytes))"

section \<open>Confined locators\<close>

text \<open>\<open>Path::components\<close> on Unix: empty pieces and inner dots vanish, a leading dot stays.\<close>

datatype component = RootDir | CurDir | ParentDir | Normal string

definition piece_component :: "string \<Rightarrow> component" where
  "piece_component p = (if p = ''..'' then ParentDir else Normal p)"

definition path_components :: "string \<Rightarrow> component list" where
  "path_components s =
     (let pieces = split_on (\<lambda>c. c = CHR ''/'') s in
      (if starts_with ''/'' s then [RootDir] else if hd pieces = ''.'' then [CurDir] else [])
      @ map piece_component (filter (\<lambda>p. p \<noteq> [] \<and> p \<noteq> ''.'') pieces))"

definition is_plain :: "component \<Rightarrow> bool" where
  "is_plain c = (case c of Normal _ \<Rightarrow> True | CurDir \<Rightarrow> True | _ \<Rightarrow> False)"

definition is_confined_artifact :: "string \<Rightarrow> bool" where
  "is_confined_artifact rel =
     (if rel = [] \<or> MAX_ARTIFACT_REL_LEN < length rel then False
      else if starts_with ''/'' rel then False
      else (case path_components rel of
              c # _ \<Rightarrow> c = Normal ''state'' \<and> list_all is_plain (path_components rel)
            | [] \<Rightarrow> False))"

section \<open>The queue\<close>

record pending_change =
  pc_seq :: "64 word"
  pc_kind :: change_kind
  pc_ts :: "64 word"
  pc_artifact :: string
  pc_provenance :: provenance
  pc_summary :: string
  pc_commit :: "string option"

definition change_apply_command :: "pending_change \<Rightarrow> string" where
  "change_apply_command c = kind_apply_command (pc_kind c) (pc_ts c)"

record change_queue =
  cq_enabled :: bool
  cq_bound :: nat
  cq_next :: "64 word"
  cq_items :: "pending_change list"

definition DEFAULT_QUEUE_BOUND :: nat where
  "DEFAULT_QUEUE_BOUND = 64"

definition MAX_QUEUE_BOUND :: nat where
  "MAX_QUEUE_BOUND = 512"

definition clamp_bound :: "nat \<Rightarrow> nat" where
  "clamp_bound b = max 1 (min b MAX_QUEUE_BOUND)"

definition cq_const_new :: change_queue where
  "cq_const_new = \<lparr> cq_enabled = True, cq_bound = DEFAULT_QUEUE_BOUND, cq_next = 1, cq_items = [] \<rparr>"

definition cq_new :: "nat \<Rightarrow> change_queue" where
  "cq_new b = \<lparr> cq_enabled = True, cq_bound = clamp_bound b, cq_next = 1, cq_items = [] \<rparr>"

text \<open>\<open>pop_front\<close> while the queue is over its bound.\<close>

definition evict_to_bound :: "change_queue \<Rightarrow> change_queue" where
  "evict_to_bound q = q\<lparr> cq_items := drop (length (cq_items q) - cq_bound q) (cq_items q) \<rparr>"

definition cq_configure :: "bool \<Rightarrow> nat \<Rightarrow> change_queue \<Rightarrow> change_queue" where
  "cq_configure enabled b q = evict_to_bound (q\<lparr> cq_enabled := enabled, cq_bound := clamp_bound b \<rparr>)"

definition cq_add ::
    "change_kind \<Rightarrow> 64 word \<Rightarrow> provenance \<Rightarrow> string \<Rightarrow> change_queue \<Rightarrow> change_queue \<times> 64 word option" where
  "cq_add k ts p summary q =
     (if \<not> cq_enabled q then (q, None)
      else if \<not> is_secret_free p then (q, None)
      else if \<not> is_confined_artifact (artifact_rel k ts) then (q, None)
      else
        let kept = filter (\<lambda>c. \<not> (pc_kind c = k \<and> pc_ts c = ts)) (cq_items q);
            fresh = \<lparr> pc_seq = cq_next q, pc_kind = k, pc_ts = ts, pc_artifact = artifact_rel k ts,
                      pc_provenance = p, pc_summary = clamp MAX_SUMMARY_LEN (trim summary), pc_commit = None \<rparr> in
        (evict_to_bound (q\<lparr> cq_next := cq_next q + 1, cq_items := kept @ [fresh] \<rparr>), Some (cq_next q)))"

fun set_commit :: "64 word \<Rightarrow> string \<Rightarrow> pending_change list \<Rightarrow> pending_change list" where
  "set_commit s sha [] = []"
| "set_commit s sha (c # cs) =
     (if pc_seq c = s then c\<lparr> pc_commit := Some sha \<rparr> # cs else c # set_commit s sha cs)"

definition cq_mark_committed :: "64 word \<Rightarrow> string \<Rightarrow> change_queue \<Rightarrow> change_queue \<times> bool" where
  "cq_mark_committed s sha q =
     (if list_ex (\<lambda>c. pc_seq c = s) (cq_items q)
      then (q\<lparr> cq_items := set_commit s (sanitize_trailer_value sha) (cq_items q) \<rparr>, True)
      else (q, False))"

definition cq_get :: "64 word \<Rightarrow> change_queue \<Rightarrow> pending_change option" where
  "cq_get s q = find (\<lambda>c. pc_seq c = s) (cq_items q)"

definition cq_find :: "change_kind \<Rightarrow> 64 word \<Rightarrow> change_queue \<Rightarrow> pending_change option" where
  "cq_find k ts q = find (\<lambda>c. pc_kind c = k \<and> pc_ts c = ts) (cq_items q)"

section \<open>The frame and the tools\<close>

definition BRANCH :: string where
  "BRANCH = ''darwin/changeq''"

definition provenance_frame :: "provenance \<Rightarrow> json" where
  "provenance_frame p = JObj [(''agent'', JStr (pv_agent p)), (''model'', JStr (pv_model p)),
     (''run'', JStr (pv_run p)), (''state_hash'', JStr (pv_state p))]"

definition change_frame :: "pending_change \<Rightarrow> json" where
  "change_frame c = JObj
     [(''seq'', JInt (uint (pc_seq c))), (''kind'', JStr (kind_wire (pc_kind c))), (''ts'', JInt (uint (pc_ts c))),
      (''artifact'', JStr (pc_artifact c)), (''summary'', JStr (pc_summary c)),
      (''apply_command'', JStr (change_apply_command c)), (''committed'', JBool (pc_commit c \<noteq> None)),
      (''commit'', case pc_commit c of None \<Rightarrow> JNull | Some s \<Rightarrow> JStr s),
      (''provenance'', provenance_frame (pc_provenance c))]"

definition list_frame :: "pending_change list \<Rightarrow> json" where
  "list_frame items = JObj [(''branch'', JStr BRANCH), (''count'', JInt (int (length items))),
     (''pending'', JArr (map change_frame items))]"

definition revert_args :: "string \<Rightarrow> string list" where
  "revert_args commit = [''revert'', ''--no-edit'', commit]"

definition unknown_kind_reply :: "string \<Rightarrow> string" where
  "unknown_kind_reply k = quoted k @ '' isn'' @ apos [] ''t a change-queue kind, sir '' @ dash
     @ '' it is one of heal, code, forge, or optimize.''"

definition list_line :: "pending_change \<Rightarrow> string" where
  "list_line c = [CHR 0x0A] @ ''- ['' @ kind_wire (pc_kind c) @ ''] '' @ pc_artifact c @ '' #'' @ nat_digits (unat (pc_ts c))
     @ '' ('' @ (if pc_commit c = None then ''queued'' else ''mirrored'') @ '') '' @ dash @ '' '' @ pc_summary c
     @ '' '' @ dash @ '' apply: '' @ change_apply_command c"

definition list_text :: "change_kind option \<Rightarrow> pending_change list \<Rightarrow> string" where
  "list_text filt pending =
     (if pending = [] then
        (case filt of
           Some k \<Rightarrow> ''The change queue has no pending '' @ kind_wire k @ '' proposals, sir '' @ dash
             @ '' nothing is waiting for review.''
         | None \<Rightarrow> ''The change queue is empty, sir '' @ dash @ '' I have no propose-only proposals pending review.'')
      else nat_text (length pending) @ '' proposal'' @ (if length pending = 1 then [] else ''s'')
        @ '' pending in the change queue (review branch '' @ BRANCH @ ''):'' @ concat (map list_line pending)
        @ [CHR 0x0A] @ ''All are PROPOSE-ONLY '' @ dash @ '' nothing is applied. Review a proposal, then run its apply command (it re-validates + applies under that type''
        @ apos [] ''s own gate).'')"

definition changeq_list_tool :: "string option \<Rightarrow> change_queue \<Rightarrow> string" where
  "changeq_list_tool kind_filter q =
     (case (case kind_filter of None \<Rightarrow> None | Some k \<Rightarrow> if trim k = [] then None else Some (trim k)) of
        None \<Rightarrow> list_text None (cq_items q)
      | Some k \<Rightarrow>
          (case kind_from_wire k of
             None \<Rightarrow> unknown_kind_reply k
           | Some kd \<Rightarrow> list_text (Some kd) (filter (\<lambda>c. pc_kind c = kd) (cq_items q))))"

definition apply_reply :: "change_kind \<Rightarrow> 64 word \<Rightarrow> pending_change \<Rightarrow> string" where
  "apply_reply k ts c =
     ''The '' @ kind_wire k @ '' proposal '' @ nat_digits (unat ts) @ '' is PROPOSE-ONLY, sir '' @ dash
     @ '' I have NOT applied it. To apply it, YOU run its existing, re-validating apply command:'' @ [CHR 0x0A] @ ''  ''
     @ change_apply_command c @ [CHR 0x0A] @ ''That script re-validates the change and applies it under ''
     @ kind_wire k @ apos [] ''s own gate; nothing is applied until you run it.''"

definition changeq_apply_tool :: "string \<Rightarrow> 64 word \<Rightarrow> change_queue \<Rightarrow> string" where
  "changeq_apply_tool kind ts q =
     (case kind_from_wire (trim kind) of
        None \<Rightarrow> unknown_kind_reply kind
      | Some k \<Rightarrow>
          (case cq_find k ts q of
             None \<Rightarrow> ''I have no '' @ kind_wire k @ '' proposal queued at '' @ nat_digits (unat ts) @ '', sir '' @ dash
               @ '' check `changeq_list` for the pending proposals. I won'' @ apos [] ''t fabricate an apply route for one that isn''
               @ apos [] ''t there.''
           | Some c \<Rightarrow>
               apply_reply k ts c
               @ (case pc_commit c of
                    None \<Rightarrow> []
                  | Some sha \<Rightarrow> [CHR 0x0A] @ ''It is mirrored onto the '' @ BRANCH
                      @ '' review branch; to roll it back safely: git '' @ join '' '' (revert_args sha) @ ''.'')))"

section \<open>Trailers\<close>

text \<open>Rust text: every character has all its bytes, and those of a long one are not ASCII.\<close>

definition rust_text :: "string \<Rightarrow> bool" where
  "rust_text s \<longleftrightarrow> utf8_valid s \<and> (\<forall>c \<in> set (chars s). length c = 1 \<or> (\<forall>b \<in> set c. \<not> is_ascii b))"

lemma set_trim_list: "set (trim_list P xs) \<subseteq> set xs"
  using trim_list_part [of xs P] by (metis Un_upper1 Un_upper2 dual_order.trans set_append)

lemma chars_trim: "utf8_valid s \<Longrightarrow> chars (trim s) = trim_list is_whitespace (chars s)"
  unfolding trim_def using set_trim_list [of is_whitespace "chars s"]
  by (intro chars_concat_only) (auto simp: utf8_valid_def list_all_iff)

text \<open>A byte of a sanitized value is a space, or stands in a character that is neither space nor control.\<close>

lemma sanitize_chars_bytes:
  "b \<in> set (sanitize_chars cs out ps) \<Longrightarrow>
     b \<in> set out \<or> b = CHR '' '' \<or> (\<exists>c \<in> set cs. b \<in> set c \<and> \<not> is_whitespace c \<and> \<not> is_control c)"
  by (induction cs out ps rule: sanitize_chars.induct) (auto split: if_splits)

lemma set_clamp: "set (clamp n s) \<subseteq> set s"
  by (auto simp: clamp_def dest: in_set_takeD)

lemma clamp_length: "length (clamp n s) \<le> n"
  using back_to_boundary_le [of s n] by (auto simp: clamp_def min_def)

lemma set_trim_end: "set (trim_end s) \<subseteq> set s"
  using trim_end_start [of s] by (metis Un_upper1 set_append)

lemma sanitized_bytes:
  assumes "rust_text s" and "b \<in> set (sanitize_trailer_value s)"
  shows "32 \<le> code b"
proof (cases "b \<in> set (sanitize_chars (chars (trim s)) [] False)")
  case False
  then have "b \<in> set ''unknown''"
    using assms(2) set_clamp set_trim_end by (fastforce simp: sanitize_trailer_value_def Let_def split: if_splits)
  then show ?thesis by auto
next
  case True
  show ?thesis
  proof (cases "b = CHR '' ''")
    case False
    then obtain c where c: "c \<in> set (chars (trim s))" "b \<in> set c" "\<not> is_control c"
      using sanitize_chars_bytes [OF True] by auto
    have "c \<in> set (chars s)"
      using assms(1) chars_trim [of s] set_trim_list [of is_whitespace "chars s"] c(1) by (auto simp: rust_text_def)
    then have "length c = 1 \<or> \<not> is_ascii b" using assms(1) c(2) by (auto simp: rust_text_def)
    then consider "c = [b]" | "\<not> is_ascii b" using c(2) by (cases c) auto
    then show ?thesis using c(3) by cases (auto simp: is_control_def is_ascii_def)
  qed simp
qed

lemma sanitized_size: "sanitize_trailer_value s \<noteq> [] \<and> length (sanitize_trailer_value s) \<le> MAX_TRAILER_VALUE_LEN"
  using clamp_length [of MAX_TRAILER_VALUE_LEN] by (auto simp: sanitize_trailer_value_def Let_def MAX_TRAILER_VALUE_LEN_def)

lemma no_newline: "rust_text s \<Longrightarrow> CHR 0x0A \<notin> set (sanitize_trailer_value s)"
  using sanitized_bytes by fastforce

text \<open>
  C36. No value can break or add a trailer. Whatever text an agent, a model, a run or a state tag brings,
  the block of trailers has exactly the four lines of the code, each value is present, and none is
  over its bound.
\<close>
theorem trailers_cannot_be_forged:
  assumes "rust_text agent" "rust_text model" "rust_text run" "rust_text st"
  defines "p \<equiv> provenance_new agent model run st"
  shows "split_on (\<lambda>c. c = CHR 0x0A) (trailers_block p) = trailer_lines p
    \<and> length (trailer_lines p) = 4
    \<and> (\<forall>v \<in> {pv_agent p, pv_model p, pv_run p, pv_state p}. v \<noteq> [] \<and> length v \<le> MAX_TRAILER_VALUE_LEN)"
proof (intro conjI)
  have free: "x \<in> set l \<Longrightarrow> x \<noteq> CHR 0x0A" if "l \<in> set (trailer_lines p)" for l x
    using that assms no_newline by (auto simp: trailer_lines_def provenance_new_def)
  obtain a b c d where l: "trailer_lines p = [a, b, c, d]" by (simp add: trailer_lines_def)
  have "split_on (\<lambda>x. x = CHR 0x0A) (u @ CHR 0x0A # t) = u # split_on (\<lambda>x. x = CHR 0x0A) t"
    if "u \<in> set (trailer_lines p)" for u t
    using split_on_append_sep [of u "\<lambda>x. x = CHR 0x0A"] free [OF that] by simp
  moreover have "split_on (\<lambda>x. x = CHR 0x0A) d = [d]" using free by (intro split_on_none) (auto simp: l)
  ultimately show "split_on (\<lambda>c. c = CHR 0x0A) (trailers_block p) = trailer_lines p"
    by (simp add: trailers_block_def l)
  show "length (trailer_lines p) = 4" by (simp add: trailer_lines_def)
  show "\<forall>v \<in> {pv_agent p, pv_model p, pv_run p, pv_state p}. v \<noteq> [] \<and> length v \<le> MAX_TRAILER_VALUE_LEN"
    using sanitized_size by (simp add: p_def provenance_new_def)
qed

lemma rust_text_ascii: "ascii_string s \<Longrightarrow> rust_text s"
  by (auto simp: rust_text_def utf8_valid_ascii chars_ascii)

lemma trailers_cannot_be_forged_witness:
  "length (split_on (\<lambda>c. c = CHR 0x0A)
     (trailers_block (provenance_new (''steve'' @ [CHR 0x0A] @ ''Darwin-Agent: root'') ''m'' ''7'' ''f''))) = 4"
  using trailers_cannot_be_forged [of "''steve'' @ [CHR 0x0A] @ ''Darwin-Agent: root''" "''m''" "''7''" "''f''"]
  by (simp add: rust_text_ascii str_simps)

section \<open>The fingerprint\<close>

lemma FNV_PRIME_unit: "FNV_PRIME * 0xce965057aff6957b = 1"
  by (simp add: FNV_PRIME_def)

lemma times_prime_inject:
  assumes "x * FNV_PRIME = y * FNV_PRIME"
  shows "x = y"
proof -
  have "x * FNV_PRIME * 0xce965057aff6957b = y * FNV_PRIME * 0xce965057aff6957b" by (simp only: assms)
  then show ?thesis by (simp only: mult.assoc FNV_PRIME_unit mult_1_right)
qed

lemma xor_inject:
  assumes "x XOR z = y XOR z"
  shows "x = (y :: 64 word)"
proof -
  have "(x XOR z) XOR z = (y XOR z) XOR z" by (simp only: assms)
  then show ?thesis by (simp only: xor.assoc xor_self_eq xor.right_neutral)
qed

lemma of_nat_code_inject: "of_nat (code a) = (of_nat (code b) :: 64 word) \<Longrightarrow> a = b"
proof -
  assume e: "of_nat (code a) = (of_nat (code b) :: 64 word)"
  have "take_bit 64 (code c) = code c" for c :: char
    by (rule take_bit_nat_eq_self, rule less_trans [OF nat_of_char_less_256]) simp
  then have "unat (of_nat (code c) :: 64 word) = code c" for c :: char by (simp add: unsigned_of_nat)
  then have "code a = code b" using e by metis
  then show "a = b" by simp
qed

lemma fnv_inject: "foldl fnv_step h bs = foldl fnv_step h' bs \<Longrightarrow> h = h'"
proof (induction bs arbitrary: h h')
  case (Cons b bs)
  then have "fnv_step h b = fnv_step h' b" by fastforce
  then show ?case unfolding fnv_step_def using times_prime_inject xor_inject by blast
qed simp

lemma hex_digit_inject: "m < 16 \<Longrightarrow> n < 16 \<Longrightarrow> hex_digit m = hex_digit n \<Longrightarrow> m = n"
proof -
  assume b: "m < 16" "n < 16" and e: "hex_digit m = hex_digit n"
  have "code (hex_digit k) = (if k < 10 then 48 + k else 87 + k)" if "k < 16" for k
    using that by (simp add: hex_digit_def)
  then have "(if m < 10 then 48 + m else 87 + m) = (if n < 10 then 48 + n else 87 + n)"
    using b e by metis
  then show "m = n" by (simp split: if_splits)
qed

lemma hex_pad_length [simp]: "length (hex_pad k n) = k"
  by (induction k arbitrary: n) auto

lemma hex_pad_inject: "m < 16 ^ k \<Longrightarrow> n < 16 ^ k \<Longrightarrow> hex_pad k m = hex_pad k n \<Longrightarrow> m = n"
proof (induction k arbitrary: m n)
  case (Suc k)
  have "m div 16 < 16 ^ k" "n div 16 < 16 ^ k" using Suc.prems by (simp_all add: less_mult_imp_div_less mult.commute)
  then have "m div 16 = n div 16" using Suc by auto
  moreover have "m mod 16 = n mod 16" using Suc.prems(3) hex_digit_inject by auto
  ultimately show ?case by (metis div_mult_mod_eq)
qed simp

text \<open>
  The state hash of a proposal notices every change of a single byte: two texts that agree but for
  one byte have the same fingerprint only if that byte is the same. It is always sixteen digits.
\<close>
theorem fingerprint_sees_one_byte:
  "length (fingerprint bytes) = 16 \<and> (fingerprint (u @ [a] @ v) = fingerprint (u @ [b] @ v) \<longleftrightarrow> a = b)"
proof (intro conjI iffI)
  assume e: "fingerprint (u @ [a] @ v) = fingerprint (u @ [b] @ v)"
  have "unat w < 16 ^ 16" for w :: "64 word" using unsigned_less [of w] by simp
  then have "unat (foldl fnv_step FNV_BASIS (u @ [a] @ v)) = unat (foldl fnv_step FNV_BASIS (u @ [b] @ v))"
    using e hex_pad_inject unfolding fingerprint_def by blast
  then have "foldl fnv_step (fnv_step (foldl fnv_step FNV_BASIS u) a) v
      = foldl fnv_step (fnv_step (foldl fnv_step FNV_BASIS u) b) v" by (simp add: word_unat_eq_iff)
  then have "fnv_step (foldl fnv_step FNV_BASIS u) a = fnv_step (foldl fnv_step FNV_BASIS u) b"
    by (rule fnv_inject)
  then have "foldl fnv_step FNV_BASIS u XOR of_nat (code a) = foldl fnv_step FNV_BASIS u XOR of_nat (code b)"
    unfolding fnv_step_def by (rule times_prime_inject)
  then have "of_nat (code a) XOR foldl fnv_step FNV_BASIS u = of_nat (code b) XOR foldl fnv_step FNV_BASIS u"
    by (simp only: xor.commute)
  then show "a = b" using xor_inject of_nat_code_inject by blast
qed (simp_all add: fingerprint_def)

section \<open>Confinement\<close>

lemma nat_digits_length: "0 < k \<Longrightarrow> n < 10 ^ k \<Longrightarrow> length (nat_digits n) \<le> k"
proof (induction n arbitrary: k rule: nat_digits.induct)
  case (1 n)
  show ?case
  proof (cases "n < 10")
    case False
    then obtain j where j: "k = Suc j" "0 < j" using 1(2,3) by (cases k; cases "k - 1") auto
    have "n div 10 < 10 ^ j" using 1(3) j(1) by (simp add: less_mult_imp_div_less mult.commute)
    then have "length (nat_digits (n div 10)) \<le> j" using 1(1) [OF False j(2)] by simp
    then show ?thesis using False j(1) by (subst nat_digits.simps) simp
  qed (use 1(2) in \<open>subst nat_digits.simps, simp\<close>)
qed

lemma ts_digits: "length (nat_digits (unat (ts :: 64 word))) \<le> 20"
proof (rule nat_digits_length)
  have "unat ts < 2 ^ 64" using unsigned_less [of ts] by simp
  then show "unat ts < 10 ^ 20" by simp
qed simp

lemma no_slash: "c \<in> set (nat_digits n) \<Longrightarrow> c \<noteq> CHR ''/'' \<and> c \<noteq> CHR ''.''"
  using nat_digits_ascii_digit [of c n] by (auto simp: ascii_digit_def)

lemma nat_digits_piece: "nat_digits n \<noteq> ''.'' \<and> nat_digits n \<noteq> ''..''"
  using no_slash [of "CHR ''.''" n] by auto

lemma artifact_pieces:
  "\<exists>w. w \<noteq> ''..'' \<and> w \<noteq> ''.'' \<and> w \<noteq> [] \<and>
     split_on (\<lambda>c. c = CHR ''/'') (artifact_rel k ts) = [''state'', w, ''proposals'', nat_digits (unat ts)]"
proof -
  have d: "split_on (\<lambda>c. c = CHR ''/'') (nat_digits (unat ts)) = [nat_digits (unat ts)]"
    using no_slash by (intro split_on_none) auto
  show ?thesis by (cases k) (simp_all add: artifact_rel_def d)
qed

lemma artifact_components:
  "\<exists>w. path_components (artifact_rel k ts)
     = [Normal ''state'', Normal w, Normal ''proposals'', Normal (nat_digits (unat ts))]"
proof -
  obtain w where w: "w \<noteq> ''..''" "w \<noteq> ''.''" "w \<noteq> []"
      "split_on (\<lambda>c. c = CHR ''/'') (artifact_rel k ts) = [''state'', w, ''proposals'', nat_digits (unat ts)]"
    using artifact_pieces [of k ts] by (elim exE conjE)
  have "\<not> starts_with ''/'' (artifact_rel k ts)"
    by (cases k) (simp_all add: artifact_rel_def starts_with_def)
  then show ?thesis using w nat_digits_piece [of "unat ts"] by (simp add: path_components_def piece_component_def)
qed

lemma artifact_confined: "is_confined_artifact (artifact_rel k ts)"
proof -
  obtain w where w: "path_components (artifact_rel k ts)
     = [Normal ''state'', Normal w, Normal ''proposals'', Normal (nat_digits (unat ts))]"
    using artifact_components [of k ts] by (elim exE)
  have "length (artifact_rel k ts) \<le> MAX_ARTIFACT_REL_LEN" "artifact_rel k ts \<noteq> []"
      "\<not> starts_with ''/'' (artifact_rel k ts)"
    using ts_digits [of ts]
    by (cases k; simp add: artifact_rel_def MAX_ARTIFACT_REL_LEN_def starts_with_def)+
  then show ?thesis by (simp add: is_confined_artifact_def w is_plain_def)
qed

text \<open>A confined locator names its pieces below \<open>state\<close> and never climbs.\<close>

lemma confined_components:
  assumes "is_confined_artifact rel"
  shows "\<exists>ws. path_components rel = Normal ''state'' # map Normal ws"
proof -
  obtain cs where c: "path_components rel = Normal ''state'' # cs" "list_all is_plain cs" "\<not> starts_with ''/'' rel"
    using assms by (auto simp: is_confined_artifact_def split: if_splits list.splits)
  define ps where "ps = filter (\<lambda>p. p \<noteq> [] \<and> p \<noteq> ''.'') (split_on (\<lambda>c. c = CHR ''/'') rel)"
  have "Normal ''state'' # cs = map piece_component ps"
    using c(1,3) by (auto simp: path_components_def Let_def ps_def split: if_splits)
  then obtain qs where q: "cs = map piece_component qs" by auto
  have "cs = map Normal qs"
    using c(2) unfolding q by (induction qs) (auto simp: piece_component_def is_plain_def split: if_splits)
  then show ?thesis using c(1) by blast
qed

section \<open>The queue\<close>

text \<open>What every queue the daemon can reach satisfies.\<close>

definition change_ok :: "pending_change \<Rightarrow> bool" where
  "change_ok c \<longleftrightarrow> pc_artifact c = artifact_rel (pc_kind c) (pc_ts c) \<and> is_confined_artifact (pc_artifact c)
     \<and> is_secret_free (pc_provenance c) \<and> length (pc_summary c) \<le> MAX_SUMMARY_LEN"

definition change_key :: "pending_change \<Rightarrow> change_kind \<times> 64 word" where
  "change_key c = (pc_kind c, pc_ts c)"

definition queue_ok :: "change_queue \<Rightarrow> bool" where
  "queue_ok q \<longleftrightarrow> 1 \<le> cq_bound q \<and> cq_bound q \<le> MAX_QUEUE_BOUND \<and> length (cq_items q) \<le> cq_bound q
     \<and> list_all change_ok (cq_items q) \<and> distinct (map change_key (cq_items q))"

text \<open>The queues of a run with \<open>n\<close> registrations.\<close>

inductive queue_run :: "nat \<Rightarrow> change_queue \<Rightarrow> bool" where
  start: "queue_run 0 cq_const_new"
| registered: "queue_run n q \<Longrightarrow> queue_run (Suc n) (fst (cq_add k ts p summary q))"
| configured: "queue_run n q \<Longrightarrow> queue_run n (cq_configure enabled b q)"
| mirrored: "queue_run n q \<Longrightarrow> queue_run n (fst (cq_mark_committed s sha q))"

lemma clamp_bound_range: "1 \<le> clamp_bound b \<and> clamp_bound b \<le> MAX_QUEUE_BOUND"
  by (auto simp: clamp_bound_def MAX_QUEUE_BOUND_def)

lemma set_commit_same:
  "map pc_kind (set_commit s sha cs) = map pc_kind cs" "map pc_ts (set_commit s sha cs) = map pc_ts cs"
  "map pc_seq (set_commit s sha cs) = map pc_seq cs" "map change_key (set_commit s sha cs) = map change_key cs"
  "list_all change_ok (set_commit s sha cs) = list_all change_ok cs"
  by (induction cs) (auto simp: change_ok_def change_key_def)

lemma length_set_commit [simp]: "length (set_commit s sha cs) = length cs"
  using set_commit_same(1) [of s sha cs] by (metis length_map)

lemma queue_ok_evict:
  "1 \<le> cq_bound q \<Longrightarrow> cq_bound q \<le> MAX_QUEUE_BOUND \<Longrightarrow> list_all change_ok (cq_items q) \<Longrightarrow>
     distinct (map change_key (cq_items q)) \<Longrightarrow> queue_ok (evict_to_bound q)"
  by (auto simp: queue_ok_def evict_to_bound_def list_all_iff drop_map [symmetric] dest: in_set_dropD)

text \<open>A registration is refused, and changes nothing, or it appends the fresh entry.\<close>

definition others :: "change_kind \<Rightarrow> 64 word \<Rightarrow> change_queue \<Rightarrow> pending_change list" where
  "others k ts q = filter (\<lambda>c. \<not> (pc_kind c = k \<and> pc_ts c = ts)) (cq_items q)"

definition fresh_change :: "change_kind \<Rightarrow> 64 word \<Rightarrow> provenance \<Rightarrow> string \<Rightarrow> change_queue \<Rightarrow> pending_change" where
  "fresh_change k ts p summary q =
     \<lparr> pc_seq = cq_next q, pc_kind = k, pc_ts = ts, pc_artifact = artifact_rel k ts,
       pc_provenance = p, pc_summary = clamp MAX_SUMMARY_LEN (trim summary), pc_commit = None \<rparr>"

lemma cq_add_cases:
  "cq_add k ts p summary q =
     (if cq_enabled q \<and> is_secret_free p
      then (evict_to_bound (q\<lparr> cq_next := cq_next q + 1, cq_items := others k ts q @ [fresh_change k ts p summary q] \<rparr>),
            Some (cq_next q))
      else (q, None))"
  by (simp add: cq_add_def artifact_confined others_def fresh_change_def)

lemma queue_ok_add: "queue_ok q \<Longrightarrow> queue_ok (fst (cq_add k ts p summary q))"
proof -
  assume q: "queue_ok q"
  have o: "list_all change_ok (others k ts q)" "distinct (map change_key (others k ts q))"
      "(k, ts) \<notin> set (map change_key (others k ts q))"
    using q by (auto simp: queue_ok_def others_def list_all_iff change_key_def distinct_map_filter)
  have f: "is_secret_free p \<Longrightarrow> change_ok (fresh_change k ts p summary q)" "change_key (fresh_change k ts p summary q) = (k, ts)"
    by (simp_all add: fresh_change_def change_ok_def change_key_def artifact_confined clamp_length)
  have "queue_ok (evict_to_bound (q\<lparr> cq_next := cq_next q + 1, cq_items := others k ts q @ [fresh_change k ts p summary q] \<rparr>))"
    if "is_secret_free p"
    by (rule queue_ok_evict) (use q o f that in \<open>auto simp: queue_ok_def\<close>)
  then show ?thesis using q by (simp add: cq_add_cases)
qed

lemma queue_ok_configure: "queue_ok q \<Longrightarrow> queue_ok (cq_configure enabled b q)"
  unfolding cq_configure_def using clamp_bound_range [of b] by (intro queue_ok_evict) (auto simp: queue_ok_def)

lemma queue_ok_mark: "queue_ok q \<Longrightarrow> queue_ok (fst (cq_mark_committed s sha q))"
  by (auto simp: cq_mark_committed_def queue_ok_def set_commit_same)

text \<open>Sequence numbers are below the next one, as long as the counter has not come round.\<close>

definition seqs_ok :: "nat \<Rightarrow> change_queue \<Rightarrow> bool" where
  "seqs_ok n q \<longleftrightarrow> unat (cq_next q) \<le> Suc n \<and> (\<forall>c \<in> set (cq_items q). pc_seq c < cq_next q)
     \<and> distinct (map pc_seq (cq_items q))"

lemma seqs_ok_evict: "seqs_ok n q \<Longrightarrow> seqs_ok n (evict_to_bound q)"
  by (auto simp: seqs_ok_def evict_to_bound_def drop_map [symmetric] dest: in_set_dropD)

lemma unat_Suc: "Suc n < 2 ^ 64 - 1 \<Longrightarrow> unat w \<le> Suc n \<Longrightarrow> unat (w + 1 :: 64 word) = Suc (unat w)"
  by (rule unat_word_ariths(1) [THEN trans]) simp

lemma seqs_ok_add:
  assumes "seqs_ok n q" and "Suc n < 2 ^ 64 - 1"
  shows "seqs_ok (Suc n) (fst (cq_add k ts p summary q))"
proof (cases "snd (cq_add k ts p summary q)")
  case None
  then have "fst (cq_add k ts p summary q) = q" by (auto simp: cq_add_cases split: if_splits)
  then show ?thesis using assms(1) by (auto simp: seqs_ok_def)
next
  case (Some s)
  have n: "unat (cq_next q + 1) = Suc (unat (cq_next q))"
    using unat_Suc [OF assms(2)] assms(1) by (simp add: seqs_ok_def)
  then have less: "w < cq_next q \<Longrightarrow> w < cq_next q + 1" "cq_next q < cq_next q + 1" for w
    by (simp_all add: word_less_nat_alt)
  have o: "set (others k ts q) \<subseteq> set (cq_items q)" "distinct (map pc_seq (others k ts q))"
    using assms(1) by (auto simp: others_def seqs_ok_def distinct_map_filter)
  have "seqs_ok (Suc n) (q\<lparr> cq_next := cq_next q + 1, cq_items := others k ts q @ [fresh_change k ts p summary q] \<rparr>)"
    using assms(1) n less o by (auto simp: seqs_ok_def fresh_change_def)
  then show ?thesis using Some seqs_ok_evict unfolding cq_add_cases by (auto split: if_splits)
qed

lemma seqs_ok_mark: "seqs_ok n q \<Longrightarrow> seqs_ok n (fst (cq_mark_committed s sha q))"
proof -
  assume q: "seqs_ok n q"
  have "pc_seq ` set (set_commit s t cs) = pc_seq ` set cs" for t cs
    by (simp only: list.set_map [symmetric] set_commit_same(3))
  then have "(\<forall>c \<in> set (set_commit s t cs). pc_seq c < b) \<longleftrightarrow> (\<forall>c \<in> set cs. pc_seq c < b)" for t cs b
    by (metis (no_types, lifting) image_iff)
  then show ?thesis using q by (simp add: cq_mark_committed_def seqs_ok_def set_commit_same(3))
qed

lemma queue_run_ok: "queue_run n q \<Longrightarrow> queue_ok q \<and> (n < 2 ^ 64 - 2 \<longrightarrow> seqs_ok n q)"
proof (induction rule: queue_run.induct)
  case start
  then show ?case by (simp add: queue_ok_def cq_const_new_def DEFAULT_QUEUE_BOUND_def MAX_QUEUE_BOUND_def seqs_ok_def)
next
  case (registered n q k ts p summary)
  then show ?case using queue_ok_add seqs_ok_add [of n q] by simp
next
  case (configured n q enabled b)
  then show ?case using queue_ok_configure seqs_ok_evict [of n "q\<lparr> cq_enabled := enabled, cq_bound := clamp_bound b \<rparr>"]
    by (simp add: cq_configure_def seqs_ok_def)
next
  case (mirrored n q s sha)
  then show ?case using queue_ok_mark seqs_ok_mark by blast
qed

text \<open>
  C37. The review lane stays what it promises through any run of registrations, reconfigurations and
  mirror commits: it never holds more than its bound (at most 512), one entry per kind and time, each
  with the locator derived from them, confined below \<open>state\<close>, and with provenance free of secrets;
  and its sequence numbers name one entry each until the 64-bit counter comes round.
\<close>
theorem review_lane_invariant:
  assumes "queue_run n q"
  shows "length (cq_items q) \<le> cq_bound q \<and> cq_bound q \<le> MAX_QUEUE_BOUND \<and> distinct (map change_key (cq_items q))
    \<and> (\<forall>c \<in> set (cq_items q). pc_artifact c = artifact_rel (pc_kind c) (pc_ts c) \<and> is_confined_artifact (pc_artifact c)
         \<and> is_secret_free (pc_provenance c))
    \<and> (n < 2 ^ 64 - 2 \<longrightarrow> distinct (map pc_seq (cq_items q)))"
proof -
  show ?thesis using queue_run_ok [OF assms] by (auto simp: queue_ok_def change_ok_def seqs_ok_def list_all_iff)
qed

text \<open>What was registered is what the apply tool finds, with the script of its kind.\<close>

lemma find_last: "\<forall>y \<in> set xs. \<not> P y \<Longrightarrow> P x \<Longrightarrow> find P (xs @ [x]) = Some x"
  by (induction xs) auto

lemma kind_from_wire_wire [simp]: "kind_from_wire (kind_wire k) = Some k"
  by (cases k) (simp_all add: kind_from_wire_def)

lemma kind_wire_trim [simp]: "trim (kind_wire k) = kind_wire k"
  by (cases k) (simp_all add: trim_ascii str_simps trim_list_id)

lemma cq_add_find:
  assumes "queue_ok q" and "cq_enabled q" and "is_secret_free p"
  shows "cq_find k ts (fst (cq_add k ts p summary q)) = Some (fresh_change k ts p summary q)"
proof -
  have "drop (length (others k ts q @ [fresh_change k ts p summary q]) - cq_bound q) (others k ts q @ [fresh_change k ts p summary q])
      = drop (length (others k ts q @ [fresh_change k ts p summary q]) - cq_bound q) (others k ts q) @ [fresh_change k ts p summary q]"
    using assms(1) by (simp add: queue_ok_def)
  then show ?thesis
    using assms(2,3)
    by (auto simp: cq_find_def cq_add_cases evict_to_bound_def fresh_change_def others_def dest!: in_set_dropD intro!: find_last)
qed

text \<open>
  A proposal that was registered is found under its kind and time, not yet mirrored, and the apply
  tool then answers with the one script of its kind and that time, and with no rollback line; a time
  that is not queued gets no script.
\<close>
theorem registered_proposal_is_offered:
  assumes "queue_run n q" and "cq_enabled q" and "is_secret_free p"
  shows "changeq_apply_tool (kind_wire k) ts (fst (cq_add k ts p summary q)) = apply_reply k ts (fresh_change k ts p summary q)
    \<and> change_apply_command (fresh_change k ts p summary q) = apply_script k @ '' '' @ nat_digits (unat ts)
    \<and> cq_find k ts (fst (cq_add k ts p summary q)) = Some (fresh_change k ts p summary q)"
proof -
  have "queue_ok q" using queue_run_ok [OF assms(1)] by simp
  then have f: "cq_find k ts (fst (cq_add k ts p summary q)) = Some (fresh_change k ts p summary q)"
    using assms(2,3) by (rule cq_add_find)
  then show ?thesis
    by (simp add: changeq_apply_tool_def change_apply_command_def kind_apply_command_def fresh_change_def)
qed

lemmas secret_eval = is_secret_free_def looks_secretish_def secretish_token_def SECRETISH_KEYS_def SECRET_PREFIXES_def
  ascii_alpha_def starts_with_def

definition demo_provenance :: provenance where
  "demo_provenance = \<lparr> pv_agent = ''steve'', pv_model = ''claude-opus-4-8'', pv_run = ''7'', pv_state = ''00ff'' \<rparr>"

lemma demo_provenance_free: "is_secret_free demo_provenance"
  by (simp add: demo_provenance_def secret_eval str_simps)

lemma registered_proposal_is_offered_witness:
  "changeq_apply_tool ''code'' 7 (fst (cq_add CodeChange 7 demo_provenance ''diff'' cq_const_new))
     = apply_reply CodeChange 7 (fresh_change CodeChange 7 demo_provenance ''diff'' cq_const_new)"
  using registered_proposal_is_offered [OF queue_run.start _ demo_provenance_free, of CodeChange 7 "''diff''"]
  by (simp add: cq_const_new_def)

text \<open>A queue after two registrations of one proposal, for the invariant.\<close>

lemma review_lane_invariant_witness:
  "distinct (map change_key (cq_items (fst (cq_add CodeChange 7 demo_provenance ''b''
     (fst (cq_add CodeChange 7 demo_provenance ''a'' cq_const_new))))))"
  using review_lane_invariant [OF queue_run.registered [OF queue_run.registered [OF queue_run.start,
      of CodeChange 7 demo_provenance "''a''"], of CodeChange 7 demo_provenance "''b''"]] by blast

text \<open>
  The guard against secrets is stricter than its purpose: a dated model name has 24 characters or
  more, letters, digits and dashes, so it reads as a token, and a proposal by that model is refused.
\<close>
lemma dated_model_reads_as_secret:
  "pv_model p = ''claude-sonnet-4-5-20250929'' \<Longrightarrow> cq_add k ts p summary q = (q, None)"
  by (simp add: cq_add_cases secret_eval str_simps)

end
