(* ===== verification/ChangeMirror.thy ===== *)
theory ChangeMirror
  imports ChangeQueue
begin

text \<open>
  The mirror of the change queue, \<open>daemon/src/changeq.rs\<close>: the fixed git commands, the sequence
  \<open>commit_change\<close> that copies one proposal onto the review branch, the walk that collects its files
  and one sweep of the mirror task. Running git is a parameter, a function of the world; so is the
  tree on disk. The timer of the task and log lines are left out.
\<close>

section \<open>Commands\<close>

definition BRANCH_REF :: string where
  "BRANCH_REF = ''refs/heads/darwin/changeq''"

type_synonym git_command = "string list"

definition rev_parse_branch_command :: git_command where
  "rev_parse_branch_command = [''rev-parse'', ''--verify'', ''--quiet'', BRANCH_REF]"

definition read_tree_empty_command :: git_command where
  "read_tree_empty_command = [''read-tree'', ''--empty'']"

definition read_tree_command :: "string \<Rightarrow> git_command" where
  "read_tree_command treeish = [''read-tree'', treeish]"

definition hash_object_command :: "string \<Rightarrow> git_command" where
  "hash_object_command path = [''hash-object'', ''-w'', ''--'', path]"

definition update_index_command :: "string \<Rightarrow> string \<Rightarrow> git_command" where
  "update_index_command blob rel = [''update-index'', ''--add'', ''--cacheinfo'', ''100644,'' @ blob @ '','' @ rel]"

definition write_tree_command :: git_command where
  "write_tree_command = [''write-tree'']"

definition commit_tree_command :: "string \<Rightarrow> string option \<Rightarrow> string \<Rightarrow> git_command" where
  "commit_tree_command tree parent msg =
     [''commit-tree'', tree] @ (case parent of None \<Rightarrow> [] | Some p \<Rightarrow> [''-p'', p]) @ [''-m'', msg]"

definition update_ref_command :: "string \<Rightarrow> string option \<Rightarrow> git_command" where
  "update_ref_command new old =
     [''update-ref'', BRANCH_REF, new] @ (case old of None \<Rightarrow> [] | Some o' \<Rightarrow> [o'])"

definition commit_message :: "change_kind \<Rightarrow> 64 word \<Rightarrow> provenance \<Rightarrow> string" where
  "commit_message k ts p = ''changeq: '' @ kind_wire k @ '' proposal '' @ nat_digits (unat ts)
     @ [CHR 0x0A, CHR 0x0A] @ trailers_block p"

section \<open>The runner\<close>

datatype git_outcome = Ran bool string | Unavailable string

text \<open>A runner gets the separate index file, if any, and the command.\<close>

type_synonym 'w runner = "string option \<Rightarrow> git_command \<Rightarrow> 'w \<Rightarrow> git_outcome \<times> 'w"

type_synonym ('w, 'a) act = "'w \<Rightarrow> (string + 'a) \<times> 'w"

text \<open>The early return on an error, and the rest of the function otherwise.\<close>

definition and_then :: "('w, 'a) act \<Rightarrow> ('a \<Rightarrow> ('w, 'b) act) \<Rightarrow> ('w, 'b) act" where
  "and_then m f w = (case m w of (Inl e, w') \<Rightarrow> (Inl e, w') | (Inr x, w') \<Rightarrow> f x w')"

definition give :: "string + 'a \<Rightarrow> ('w, 'a) act" where
  "give r w = (r, w)"

definition subcommand :: "git_command \<Rightarrow> string option" where
  "subcommand c = (case c of [] \<Rightarrow> None | a # _ \<Rightarrow> Some a)"

definition run_ok :: "'w runner \<Rightarrow> string option \<Rightarrow> git_command \<Rightarrow> ('w, string) act" where
  "run_ok run idx cmd w =
     (case run idx cmd w of
        (Ran True out, w') \<Rightarrow> (Inr (trim out), w')
      | (Ran False out, w') \<Rightarrow>
          (if subcommand cmd = Some ''rev-parse'' \<and> trim out = [] then Inr []
           else Inl (''git '' @ (case subcommand cmd of None \<Rightarrow> ''?'' | Some s \<Rightarrow> s) @ '' exited non-zero''), w')
      | (Unavailable reason, w') \<Rightarrow> (Inl reason, w'))"

definition non_empty :: "string \<Rightarrow> string \<Rightarrow> ('w, string) act" where
  "non_empty e s = give (if s = [] then Inl e else Inr s)"

fun stage_files :: "'w runner \<Rightarrow> string \<Rightarrow> (string \<times> string) list \<Rightarrow> ('w, unit) act" where
  "stage_files run idx [] = give (Inr ())"
| "stage_files run idx ((rel, path) # files) =
     and_then (run_ok run (Some idx) (hash_object_command path)) (\<lambda>out.
     and_then (non_empty (''empty blob sha for '' @ rel) out) (\<lambda>blob.
     and_then (run_ok run (Some idx) (update_index_command blob rel)) (\<lambda>_.
     stage_files run idx files)))"

definition commit_change ::
    "'w runner \<Rightarrow> string \<Rightarrow> change_kind \<Rightarrow> 64 word \<Rightarrow> provenance \<Rightarrow> (string \<times> string) list \<Rightarrow> ('w, string) act" where
  "commit_change run idx k ts p files =
     (if \<not> is_secret_free p then give (Inl ''provenance is not secret-free; refusing to commit'')
      else if files = [] then give (Inl ''no artifact files to mirror'')
      else case find (\<lambda>(rel, _). \<not> is_confined_artifact rel) files of
        Some (rel, _) \<Rightarrow> give (Inl (''artifact path not confined under state/: '' @ rel))
      | None \<Rightarrow>
          and_then (run_ok run None rev_parse_branch_command) (\<lambda>tip.
          let parent = (if tip = [] then None else Some tip) in
          and_then (run_ok run (Some idx) (case parent of None \<Rightarrow> read_tree_empty_command | Some t \<Rightarrow> read_tree_command t)) (\<lambda>_.
          and_then (stage_files run idx files) (\<lambda>_.
          and_then (run_ok run (Some idx) write_tree_command) (\<lambda>out.
          and_then (non_empty ''write-tree returned no tree'' out) (\<lambda>tree.
          and_then (run_ok run None (commit_tree_command tree parent (commit_message k ts p))) (\<lambda>out'.
          and_then (non_empty ''commit-tree returned no commit'' out') (\<lambda>commit.
          and_then (run_ok run None (update_ref_command commit parent)) (\<lambda>_.
          give (Inr commit))))))))))"

section \<open>Collecting the files of a proposal\<close>

text \<open>A directory lists its entries; an entry without a readable name or without metadata is skipped.\<close>

datatype node =
    Dir "(string option \<times> node) list"
  | File
  | Symlink
  | Other
  | NoMetadata
  | UnreadableDir

definition MAX_MIRROR_FILES :: nat where
  "MAX_MIRROR_FILES = 64"

fun collect_entries :: "string \<Rightarrow> string \<Rightarrow> (string option \<times> node) list \<Rightarrow> (string \<times> string) list \<Rightarrow> (string \<times> string) list"
and collect_node :: "string \<Rightarrow> string \<Rightarrow> node \<Rightarrow> (string \<times> string) list \<Rightarrow> (string \<times> string) list" where
  "collect_entries dir rel [] out = out"
| "collect_entries dir rel ((name, n) # es) out =
     (if MAX_MIRROR_FILES \<le> length out then out
      else collect_entries dir rel es
        (case name of None \<Rightarrow> out | Some nm \<Rightarrow> collect_node (dir @ ''/'' @ nm) (rel @ ''/'' @ nm) n out))"
| "collect_node dir rel (Dir es) out =
     (if MAX_MIRROR_FILES \<le> length out then out else collect_entries dir rel es out)"
| "collect_node path rel File out = (if is_confined_artifact rel then out @ [(rel, path)] else out)"
| "collect_node path rel n out = out"

text \<open>The top node is what opening the directory reaches; anything but a directory yields no files.\<close>

definition collect_artifact_files :: "string \<Rightarrow> string \<Rightarrow> node \<Rightarrow> (string \<times> string) list" where
  "collect_artifact_files dir rel n =
     take MAX_MIRROR_FILES (case n of Dir es \<Rightarrow> collect_entries dir rel es [] | _ \<Rightarrow> [])"

section \<open>One sweep\<close>

text \<open>The world besides the queue: git, the tree under the repository, and removing the index file.\<close>

record 'w mirror_env =
  me_git :: "'w runner"
  me_tree :: "string \<Rightarrow> 'w \<Rightarrow> node"
  me_remove :: "string \<Rightarrow> 'w \<Rightarrow> 'w"

definition index_path :: "string \<Rightarrow> string" where
  "index_path root = root @ ''/.git/darwin-changeq.index''"

definition mirror_one :: "'w mirror_env \<Rightarrow> string \<Rightarrow> pending_change \<Rightarrow> change_queue \<times> 'w \<Rightarrow> change_queue \<times> 'w" where
  "mirror_one E root c = (\<lambda>(q, w).
     let dir = root @ ''/'' @ pc_artifact c;
         files = collect_artifact_files dir (pc_artifact c) (me_tree E dir w) in
     if files = [] then (q, w)
     else let (r, w') = commit_change (me_git E) (index_path root) (pc_kind c) (pc_ts c) (pc_provenance c) files
                          (me_remove E (index_path root) w) in
       (case r of Inl _ \<Rightarrow> q | Inr sha \<Rightarrow> fst (cq_mark_committed (pc_seq c) sha q),
        me_remove E (index_path root) w'))"

definition mirror_pending_once :: "'w mirror_env \<Rightarrow> string \<Rightarrow> change_queue \<times> 'w \<Rightarrow> change_queue \<times> 'w" where
  "mirror_pending_once E root s = fold (mirror_one E root) (filter (\<lambda>c. pc_commit c = None) (cq_items (fst s))) s"

section \<open>What the sweep may do\<close>

text \<open>A runner that also records what it was asked and what came of it.\<close>

type_synonym git_log = "(string option \<times> git_command \<times> git_outcome) list"

definition logged :: "'w runner \<Rightarrow> ('w \<times> git_log) runner" where
  "logged run idx cmd wl = (let (r, w') = run idx cmd (fst wl) in (r, (w', snd wl @ [(idx, cmd, r)])))"

text \<open>\<open>emits m Q\<close>: whatever \<open>m\<close> appends to the log and returns satisfies \<open>Q\<close>.\<close>

definition emits :: "('w \<times> git_log, 'a) act \<Rightarrow> (git_log \<Rightarrow> string + 'a \<Rightarrow> bool) \<Rightarrow> bool" where
  "emits m Q \<longleftrightarrow> (\<forall>w l. \<exists>new. snd (snd (m (w, l))) = l @ new \<and> Q new (fst (m (w, l))))"

lemma emits_give [intro]: "emits (give r) (\<lambda>n r'. n = [] \<and> r' = r)"
  by (simp add: emits_def give_def)

text \<open>The first act fails, or the second goes on from its result.\<close>

definition seq_post :: "(git_log \<Rightarrow> string + 'a \<Rightarrow> bool) \<Rightarrow> ('a \<Rightarrow> git_log \<Rightarrow> string + 'b \<Rightarrow> bool) \<Rightarrow> git_log \<Rightarrow> string + 'b \<Rightarrow> bool" where
  "seq_post P R n r \<longleftrightarrow> (\<exists>e. r = Inl e \<and> P n (Inl e)) \<or> (\<exists>n1 n2 x. n = n1 @ n2 \<and> P n1 (Inr x) \<and> R x n2 r)"

lemma emits_then [intro]:
  assumes m: "emits m P" and f: "\<And>x. emits (f x) (R x)"
  shows "emits (and_then m f) (seq_post P R)"
  unfolding emits_def
proof (intro allI)
  fix w l
  obtain r w' l' where r: "m (w, l) = (r, (w', l'))" by (metis prod.exhaust)
  then obtain n where n: "l' = l @ n" "P n r" using m unfolding emits_def by (metis fst_conv snd_conv)
  show "\<exists>new. snd (snd (and_then m f (w, l))) = l @ new \<and> seq_post P R new (fst (and_then m f (w, l)))"
  proof (cases r)
    case (Inl e)
    then show ?thesis using r n by (simp add: and_then_def seq_post_def)
  next
    case (Inr x)
    obtain n' where "snd (snd (f x (w', l'))) = l' @ n'" "R x n' (fst (f x (w', l')))"
      using f unfolding emits_def by blast
    then show ?thesis using r n Inr by (auto simp: and_then_def seq_post_def)
  qed
qed

lemma emits_weaken: "emits m P \<Longrightarrow> (\<And>n r. P n r \<Longrightarrow> Q n r) \<Longrightarrow> emits m Q"
  unfolding emits_def by blast

definition ran :: "string option \<Rightarrow> git_command \<Rightarrow> git_log \<Rightarrow> string + string \<Rightarrow> bool" where
  "ran idx cmd n r \<longleftrightarrow> (\<exists>out. n = [(idx, cmd, out)] \<and> (\<forall>e. r = Inl e \<longrightarrow> (\<forall>s. out \<noteq> Ran True s)))"

lemma emits_run [intro]: "emits (run_ok (logged run) idx cmd) (ran idx cmd)"
  by (auto simp: emits_def run_ok_def logged_def ran_def Let_def split: prod.splits git_outcome.splits bool.splits)

lemma emits_non_empty [intro]: "emits (non_empty e s) (\<lambda>n r. n = [] \<and> (\<forall>x. r = Inr x \<longrightarrow> x = s \<and> s \<noteq> []))"
  unfolding non_empty_def by (rule emits_weaken [OF emits_give]) (auto split: if_splits)

text \<open>Staging: two commands for each file, in order, for the blob that git returned.\<close>

definition is_staging :: "string \<Rightarrow> (string \<times> string) list \<Rightarrow> string option \<times> git_command \<times> git_outcome \<Rightarrow> bool" where
  "is_staging idx files e \<longleftrightarrow> fst e = Some idx \<and>
     (\<exists>(rel, path) \<in> set files. fst (snd e) = hash_object_command path \<or> (\<exists>blob. fst (snd e) = update_index_command blob rel))"

fun stages :: "string \<Rightarrow> (string \<times> string) list \<Rightarrow> git_log \<Rightarrow> bool" where
  "stages idx [] n \<longleftrightarrow> n = []"
| "stages idx ((rel, path) # files) n \<longleftrightarrow>
     (\<exists>o1 blob o2 n'. n = (Some idx, hash_object_command path, o1) # (Some idx, update_index_command blob rel, o2) # n'
        \<and> blob \<noteq> [] \<and> stages idx files n')"

definition staged :: "string \<Rightarrow> (string \<times> string) list \<Rightarrow> git_log \<Rightarrow> string + unit \<Rightarrow> bool" where
  "staged idx files n r \<longleftrightarrow> (\<forall>e \<in> set n. is_staging idx files e) \<and> (\<forall>x. r = Inr x \<longrightarrow> stages idx files n)"

lemma is_staging_mono: "\<forall>e \<in> set n. is_staging idx fs e \<Longrightarrow> e \<in> set n \<Longrightarrow> is_staging idx (f # fs) e"
  by (auto simp: is_staging_def)

lemma is_staging_own [simp]:
  "is_staging idx ((rel, path) # fs) (Some idx, hash_object_command path, out)"
  "is_staging idx ((rel, path) # fs) (Some idx, update_index_command blob rel, out)"
  by (auto simp: is_staging_def)

lemma emits_stage [intro]: "emits (stage_files (logged run) idx files) (staged idx files)"
proof (induction files)
  case (Cons f fs)
  obtain rel path where f: "f = (rel, path)" by (cases f)
  show ?case unfolding f stage_files.simps
    by (rule emits_weaken, (rule emits_then emits_run emits_non_empty Cons.IH)+)
      (auto simp: seq_post_def staged_def ran_def dest: is_staging_mono)
qed (auto intro: emits_weaken [OF emits_give] simp: staged_def)

text \<open>
  The whole sequence of a mirror that succeeds: the tip, the seed of the separate index, the files,
  the tree, the commit and the move of the review branch, from the tip it read.
\<close>

definition seed_command :: "string option \<Rightarrow> git_command" where
  "seed_command parent = (case parent of None \<Rightarrow> read_tree_empty_command | Some t \<Rightarrow> read_tree_command t)"

definition full_mirror :: "string \<Rightarrow> string \<Rightarrow> (string \<times> string) list \<Rightarrow> string \<Rightarrow> git_log \<Rightarrow> bool" where
  "full_mirror idx msg files sha n \<longleftrightarrow>
     (\<exists>parent n' tree o1 o2 o3 o4 o5. sha \<noteq> [] \<and> tree \<noteq> [] \<and> parent \<noteq> Some [] \<and> stages idx files n' \<and>
        n = [(None, rev_parse_branch_command, o1), (Some idx, seed_command parent, o2)] @ n'
          @ [(Some idx, write_tree_command, o3), (None, commit_tree_command tree parent msg, o4),
             (None, update_ref_command sha parent, o5)])"

text \<open>A command of the mirror, and the accepted move of a ref.\<close>

definition mirror_command :: "string \<Rightarrow> string \<Rightarrow> (string \<times> string) list \<Rightarrow> string option \<times> git_command \<times> git_outcome \<Rightarrow> bool" where
  "mirror_command idx msg files e \<longleftrightarrow>
     (\<exists>out parent tree sha. e \<in> {(None, rev_parse_branch_command, out), (Some idx, seed_command parent, out),
        (Some idx, write_tree_command, out), (None, commit_tree_command tree parent msg, out),
        (None, update_ref_command sha parent, out)}) \<or> is_staging idx files e"

definition moved_ref :: "string option \<times> git_command \<times> git_outcome \<Rightarrow> bool" where
  "moved_ref e \<longleftrightarrow> subcommand (fst (snd e)) = Some ''update-ref'' \<and> (\<exists>s. snd (snd e) = Ran True s)"

lemma subcommands [simp]:
  "subcommand rev_parse_branch_command = Some ''rev-parse''" "subcommand (seed_command parent) = Some ''read-tree''"
  "subcommand write_tree_command = Some ''write-tree''" "subcommand (commit_tree_command tree parent msg) = Some ''commit-tree''"
  "subcommand (update_ref_command sha parent) = Some ''update-ref''"
  by (simp_all add: subcommand_def rev_parse_branch_command_def seed_command_def read_tree_empty_command_def read_tree_command_def
      write_tree_command_def commit_tree_command_def update_ref_command_def split: option.splits)

lemma staging_moves_nothing: "is_staging idx files e \<Longrightarrow> \<not> moved_ref e"
  by (auto simp: is_staging_def moved_ref_def subcommand_def hash_object_command_def update_index_command_def)

lemma mirror_commands [simp]:
  "mirror_command idx msg files (None, rev_parse_branch_command, out)"
  "mirror_command idx msg files (Some idx, seed_command parent, out)"
  "mirror_command idx msg files (Some idx, write_tree_command, out)"
  "mirror_command idx msg files (None, commit_tree_command tree parent msg, out)"
  "mirror_command idx msg files (None, update_ref_command sha parent, out)"
  "is_staging idx files e \<Longrightarrow> mirror_command idx msg files e"
  by (auto simp: mirror_command_def)

lemma moved_refs [simp]:
  "\<not> moved_ref (i, rev_parse_branch_command, out)" "\<not> moved_ref (i, seed_command parent, out)"
  "\<not> moved_ref (i, write_tree_command, out)" "\<not> moved_ref (i, commit_tree_command tree parent msg, out)"
  "moved_ref (i, update_ref_command sha parent, out) \<longleftrightarrow> (\<exists>s. out = Ran True s)"
  by (simp_all add: moved_ref_def)

definition quiet :: "string \<Rightarrow> string \<Rightarrow> (string \<times> string) list \<Rightarrow> git_log \<Rightarrow> bool" where
  "quiet idx msg files n \<longleftrightarrow> (\<forall>e \<in> set n. mirror_command idx msg files e \<and> \<not> moved_ref e)"

lemma quiet_simps [simp]:
  "quiet idx msg files []" "quiet idx msg files (e # n) \<longleftrightarrow> mirror_command idx msg files e \<and> \<not> moved_ref e \<and> quiet idx msg files n"
  "quiet idx msg files (n @ n') \<longleftrightarrow> quiet idx msg files n \<and> quiet idx msg files n'"
  by (auto simp: quiet_def)

lemma quiet_staged: "staged idx files n r \<Longrightarrow> quiet idx msg files n"
  using staging_moves_nothing by (auto simp: quiet_def staged_def)

text \<open>The sequence from the point where the parent is known.\<close>

definition mirror_rest ::
    "'w runner \<Rightarrow> string \<Rightarrow> string \<Rightarrow> string option \<Rightarrow> (string \<times> string) list \<Rightarrow> ('w, string) act" where
  "mirror_rest run idx msg parent files =
     and_then (run_ok run (Some idx) (seed_command parent)) (\<lambda>_.
     and_then (stage_files run idx files) (\<lambda>_.
     and_then (run_ok run (Some idx) write_tree_command) (\<lambda>out.
     and_then (non_empty ''write-tree returned no tree'' out) (\<lambda>tree.
     and_then (run_ok run None (commit_tree_command tree parent msg)) (\<lambda>out'.
     and_then (non_empty ''commit-tree returned no commit'' out') (\<lambda>commit.
     and_then (run_ok run None (update_ref_command commit parent)) (\<lambda>_.
     give (Inr commit))))))))"

definition rest_post :: "string \<Rightarrow> string \<Rightarrow> string option \<Rightarrow> (string \<times> string) list \<Rightarrow> git_log \<Rightarrow> string + string \<Rightarrow> bool" where
  "rest_post idx msg parent files n r \<longleftrightarrow>
     (\<forall>e. r = Inl e \<longrightarrow> quiet idx msg files n
        \<or> (\<exists>n' sha out. n = n' @ [(None, update_ref_command sha parent, out)] \<and> quiet idx msg files n' \<and> (\<forall>s. out \<noteq> Ran True s)))
     \<and> (\<forall>sha. r = Inr sha \<longrightarrow> sha \<noteq> [] \<and> (\<exists>n' tree o2 o3 o4 o5. tree \<noteq> [] \<and> stages idx files n' \<and> quiet idx msg files n'
          \<and> n = (Some idx, seed_command parent, o2) # n' @ [(Some idx, write_tree_command, o3),
                (None, commit_tree_command tree parent msg, o4), (None, update_ref_command sha parent, o5)]))"

lemma emits_rest: "emits (mirror_rest (logged run) idx msg parent files) (rest_post idx msg parent files)"
proof -
  have known: "\<exists>t. t \<noteq> [] \<and> stages idx files n \<and> quiet idx msg files n
      \<and> commit_tree_command tree parent msg = commit_tree_command t parent msg"
    if "staged idx files n (Inr ())" "tree \<noteq> []" for n tree
    using that quiet_staged by (auto simp: staged_def)
  show ?thesis
    unfolding mirror_rest_def
    by (rule emits_weaken, (rule emits_then emits_run emits_non_empty emits_stage emits_give)+, unfold seq_post_def,
        elim disjE exE conjE) (auto simp: ran_def rest_post_def dest: quiet_staged intro: known)
qed

lemma commit_change_rest:
  "commit_change run idx k ts p files =
     (if \<not> is_secret_free p then give (Inl ''provenance is not secret-free; refusing to commit'')
      else if files = [] then give (Inl ''no artifact files to mirror'')
      else case find (\<lambda>(rel, _). \<not> is_confined_artifact rel) files of
        Some (rel, _) \<Rightarrow> give (Inl (''artifact path not confined under state/: '' @ rel))
      | None \<Rightarrow> and_then (run_ok run None rev_parse_branch_command)
          (\<lambda>tip. mirror_rest run idx (commit_message k ts p) (if tip = [] then None else Some tip) files))"
  unfolding commit_change_def mirror_rest_def seed_command_def Let_def by (rule refl)

text \<open>Nothing is asked of git unless the provenance is free of secrets and every file is confined.\<close>

definition may_mirror :: "provenance \<Rightarrow> (string \<times> string) list \<Rightarrow> bool" where
  "may_mirror p files \<longleftrightarrow> is_secret_free p \<and> files \<noteq> [] \<and> (\<forall>(rel, _) \<in> set files. is_confined_artifact rel)"

lemma may_mirror_find:
  "may_mirror p files \<longleftrightarrow> is_secret_free p \<and> files \<noteq> [] \<and> find (\<lambda>(rel, _). \<not> is_confined_artifact rel) files = None"
  by (auto simp: may_mirror_def find_None_iff)

definition mirror_post :: "string \<Rightarrow> string \<Rightarrow> (string \<times> string) list \<Rightarrow> git_log \<Rightarrow> string + string \<Rightarrow> bool" where
  "mirror_post idx msg files n r \<longleftrightarrow> (\<forall>e \<in> set n. mirror_command idx msg files e)
     \<and> (\<forall>e. r = Inl e \<longrightarrow> (\<forall>x \<in> set n. \<not> moved_ref x)) \<and> (\<forall>sha. r = Inr sha \<longrightarrow> full_mirror idx msg files sha n)"

lemma full_mirrorI:
  "sha \<noteq> [] \<Longrightarrow> tree \<noteq> [] \<Longrightarrow> parent \<noteq> Some [] \<Longrightarrow> stages idx files n' \<Longrightarrow>
     n = [(None, rev_parse_branch_command, o1), (Some idx, seed_command parent, o2)] @ n'
       @ [(Some idx, write_tree_command, o3), (None, commit_tree_command tree parent msg, o4),
          (None, update_ref_command sha parent, o5)] \<Longrightarrow> full_mirror idx msg files sha n"
  unfolding full_mirror_def by (intro exI conjI)

lemma rest_mirror_post:
  assumes "rest_post idx msg parent files n r" and "parent \<noteq> Some []"
  shows "mirror_post idx msg files ((None, rev_parse_branch_command, out) # n) r"
proof (cases r)
  case (Inl e)
  then show ?thesis using assms(1) by (auto simp: rest_post_def mirror_post_def quiet_def)
next
  case (Inr sha)
  then obtain n' tree o2 o3 o4 o5 where "sha \<noteq> []" "tree \<noteq> []" "stages idx files n'"
      "n = (Some idx, seed_command parent, o2) # n' @ [(Some idx, write_tree_command, o3),
         (None, commit_tree_command tree parent msg, o4), (None, update_ref_command sha parent, o5)]"
    using assms(1) by (auto simp: rest_post_def)
  then have "full_mirror idx msg files sha ((None, rev_parse_branch_command, out) # n)"
    using assms(2) by (intro full_mirrorI) auto
  moreover have "\<forall>e \<in> set n. mirror_command idx msg files e"
    using assms(1) Inr by (auto simp: rest_post_def quiet_def)
  ultimately show ?thesis using Inr by (simp add: mirror_post_def)
qed

lemma emits_commit:
  assumes "may_mirror p files"
  shows "emits (commit_change (logged run) idx k ts p files) (mirror_post idx (commit_message k ts p) files)"
proof -
  have "emits (and_then (run_ok (logged run) None rev_parse_branch_command)
          (\<lambda>tip. mirror_rest (logged run) idx (commit_message k ts p) (if tip = [] then None else Some tip) files))
        (mirror_post idx (commit_message k ts p) files)"
  proof (rule emits_weaken [OF emits_then [OF emits_run emits_rest]])
    fix n r
    assume "seq_post (ran None rev_parse_branch_command)
      (\<lambda>tip. rest_post idx (commit_message k ts p) (if tip = [] then None else Some tip) files) n r"
    then consider (err) e out where "r = Inl e" "n = [(None, rev_parse_branch_command, out)]"
      | (ok) out n' tip where "n = (None, rev_parse_branch_command, out) # n'"
          "rest_post idx (commit_message k ts p) (if tip = [] then None else Some tip) files n' r"
      unfolding seq_post_def ran_def by fastforce
    then show "mirror_post idx (commit_message k ts p) files n r"
    proof cases
      case ok
      show ?thesis unfolding ok(1) by (rule rest_mirror_post [OF ok(2)]) simp
    qed (simp add: mirror_post_def)
  qed
  then show ?thesis using assms by (simp add: commit_change_rest may_mirror_find)
qed

text \<open>
  C35. Mirroring a proposal asks git only for the plumbing of its sequence: the index is always the
  separate one, the only ref it names is the review branch, and the only files are those of the
  proposal. When it returns a commit, the whole sequence ran in order and ended by moving the review
  branch from the tip it had read. When it returns an error, the branch was never moved; and with a
  secret in the provenance or a file outside \<open>state\<close>, git is not asked at all.
\<close>
theorem mirror_moves_only_the_review_branch:
  "\<exists>log w' r. commit_change (logged run) idx k ts p files (w, []) = (r, (w', log))
     \<and> (\<forall>e \<in> set log. mirror_command idx (commit_message k ts p) files e)
     \<and> (case r of Inl _ \<Rightarrow> (\<forall>e \<in> set log. \<not> moved_ref e)
        | Inr sha \<Rightarrow> full_mirror idx (commit_message k ts p) files sha log)
     \<and> (may_mirror p files \<or> log = [])"
proof -
  obtain r w' log where r: "commit_change (logged run) idx k ts p files (w, []) = (r, (w', log))" by (metis prod.exhaust)
  show ?thesis
  proof (cases "may_mirror p files")
    case True
    then have "mirror_post idx (commit_message k ts p) files log r"
      using emits_commit [OF True, of run idx k ts] r unfolding emits_def by (metis append_Nil fst_conv snd_conv)
    then show ?thesis using r True by (intro exI [of _ log] exI [of _ w'] exI [of _ r]) (auto simp: mirror_post_def split: sum.splits)
  next
    case False
    then have "log = [] \<and> (\<exists>e. r = Inl e)"
      using r by (auto simp: commit_change_rest may_mirror_find give_def split: if_splits option.splits)
    then show ?thesis using r by auto
  qed
qed

definition demo_git :: "unit runner" where
  "demo_git idx cmd w = (Ran True ''ab12'', w)"

definition demo_files :: "(string \<times> string) list" where
  "demo_files = [(''state/code/proposals/7/diff'', ''/r/diff'')]"

lemma demo_confined: "is_confined_artifact ''state/code/proposals/7/diff''"
  by (simp add: is_confined_artifact_def path_components_def piece_component_def is_plain_def MAX_ARTIFACT_REL_LEN_def starts_with_def)

lemma demo_commit:
  "fst (commit_change (logged demo_git) ''i'' CodeChange 7 demo_provenance demo_files ((), [])) = Inr ''ab12''"
proof -
  have "trim ''ab12'' = ''ab12''" by (simp add: trim_ascii str_simps trim_list_id)
  then show ?thesis
    using demo_confined
    by (simp add: commit_change_rest mirror_rest_def demo_files_def demo_provenance_free and_then_def run_ok_def logged_def demo_git_def
        non_empty_def give_def Let_def)
qed

lemma mirror_moves_only_the_review_branch_witness:
  "\<exists>log. full_mirror ''i'' (commit_message CodeChange 7 demo_provenance) demo_files ''ab12'' log"
  using mirror_moves_only_the_review_branch [of demo_git "''i''" CodeChange 7 demo_provenance demo_files "()"] demo_commit
  by (metis (no_types, lifting) fst_conv sum.case(2))

section \<open>The files and the sweep\<close>

text \<open>A file of the tree, named by the path below its top, reached through directories only.\<close>

inductive file_at :: "node \<Rightarrow> string \<Rightarrow> bool" where
  here: "file_at File []"
| below: "(Some nm, n) \<in> set es \<Longrightarrow> file_at n suf \<Longrightarrow> file_at (Dir es) (''/'' @ nm @ suf)"

definition found :: "string \<Rightarrow> string \<Rightarrow> node \<Rightarrow> (string \<times> string) list \<Rightarrow> bool" where
  "found dir rel n xs \<longleftrightarrow> (\<forall>(r, p) \<in> set xs. is_confined_artifact r \<and> (\<exists>suf. file_at n suf \<and> r = rel @ suf \<and> p = dir @ suf))"

lemma found_below:
  assumes "(Some nm, n) \<in> set es" and "found (dir @ ''/'' @ nm) (rel @ ''/'' @ nm) n xs"
  shows "found dir rel (Dir es) xs"
proof -
  have "\<exists>suf. file_at (Dir es) suf \<and> r = rel @ suf \<and> p = dir @ suf" "is_confined_artifact r" if rp: "(r, p) \<in> set xs" for r p
  proof -
    obtain suf where "file_at n suf" "r = rel @ (''/'' @ nm @ suf)" "p = dir @ (''/'' @ nm @ suf)"
      using assms(2) rp by (auto simp: found_def)
    then show "\<exists>suf. file_at (Dir es) suf \<and> r = rel @ suf \<and> p = dir @ suf" using file_at.below [OF assms(1)] by blast
    show "is_confined_artifact r" using assms(2) rp by (auto simp: found_def)
  qed
  then show ?thesis by (auto simp: found_def)
qed

lemma found_append [simp]: "found dir rel n (xs @ ys) \<longleftrightarrow> found dir rel n xs \<and> found dir rel n ys"
  unfolding found_def set_append by blast

lemma collect_found:
  "\<exists>new. collect_entries dir rel es out = out @ new \<and> (\<forall>pre. found dir rel (Dir (pre @ es)) new)"
  "\<exists>new. collect_node dir rel n out = out @ new \<and> found dir rel n new"
proof (induction dir rel es out and dir rel n out rule: collect_entries_collect_node.induct)
  case (2 dir rel name n es out)
  show ?case
  proof (cases "MAX_MIRROR_FILES \<le> length out")
    case False
    define mid where "mid = (case name of None \<Rightarrow> out | Some nm \<Rightarrow> collect_node (dir @ ''/'' @ nm) (rel @ ''/'' @ nm) n out)"
    obtain m where m: "mid = out @ m" "found dir rel (Dir (pre @ (name, n) # es)) m" for pre
    proof (cases name)
      case None
      then show ?thesis using that [of "[]"] by (simp add: mid_def found_def)
    next
      case (Some nm)
      obtain m where "mid = out @ m" "found (dir @ ''/'' @ nm) (rel @ ''/'' @ nm) n m"
        using 2(1) [OF False] Some by (auto simp: mid_def)
      then show ?thesis using that found_below [of nm n] Some by simp
    qed
    obtain new where new: "collect_entries dir rel es mid = mid @ new" "\<forall>pre. found dir rel (Dir (pre @ es)) new"
      using 2(2) [OF False] mid_def by auto
    have "collect_entries dir rel ((name, n) # es) out = out @ m @ new"
      using False m(1) new(1) by (simp add: mid_def)
    moreover have "found dir rel (Dir (pre @ (name, n) # es)) (m @ new)" for pre
      using m(2) [of pre] spec [OF new(2), of "pre @ [(name, n)]"] by simp
    ultimately show ?thesis by blast
  qed (auto simp: found_def)
next
  case (3 dir rel es out)
  then show ?case
  proof (cases "MAX_MIRROR_FILES \<le> length out")
    case False
    then obtain new where "collect_entries dir rel es out = out @ new" "found dir rel (Dir ([] @ es)) new"
      using 3 by blast
    then show ?thesis using False by auto
  qed (auto simp: found_def)
qed (auto simp: found_def intro: file_at.here)

text \<open>
  The files mirrored for a proposal are regular files of its store, reached through directories only
  and never through a link, each with the locator that matches its place, confined below \<open>state\<close>; and
  there are at most 64.
\<close>
theorem collected_files_are_confined:
  "length (collect_artifact_files dir rel n) \<le> MAX_MIRROR_FILES
   \<and> (\<forall>(r, p) \<in> set (collect_artifact_files dir rel n).
        is_confined_artifact r \<and> (\<exists>suf. file_at n suf \<and> r = rel @ suf \<and> p = dir @ suf))"
proof (cases n)
  case (Dir es)
  obtain new where "collect_entries dir rel es [] = [] @ new" "\<forall>pre. found dir rel (Dir (pre @ es)) new"
    using collect_found(1) by blast
  then have "found dir rel (Dir ([] @ es)) new" by blast
  then have "found dir rel (Dir es) (take MAX_MIRROR_FILES new)" unfolding found_def append_Nil using in_set_takeD by fast
  then show ?thesis using Dir \<open>collect_entries dir rel es [] = [] @ new\<close> by (simp add: collect_artifact_files_def found_def)
qed (simp_all add: collect_artifact_files_def)

lemma mirror_one_run: "queue_run n q \<Longrightarrow> queue_run n (fst (mirror_one E root c (q, w)))"
  by (auto simp: mirror_one_def Let_def queue_run.mirrored split: prod.splits sum.splits)

text \<open>A sweep is a run of mirror commits, so the lane's invariant survives it.\<close>

lemma sweep_run: "queue_run n (fst s) \<Longrightarrow> queue_run n (fst (mirror_pending_once E root s))"
proof -
  have "queue_run n (fst s) \<Longrightarrow> queue_run n (fst (fold (mirror_one E root) cs s))" for cs s
    by (induction cs arbitrary: s) (simp_all, metis mirror_one_run prod.collapse)
  then show "queue_run n (fst s) \<Longrightarrow> ?thesis" by (simp add: mirror_pending_once_def)
qed

end
