(* ===== verification/ShellGuard.thy ===== *)
theory ShellGuard
  imports ChokeProofs RunbookVoice
begin

text \<open>
  The sandboxed shell: the classifier, the sandbox profile and the bounded capture of
  \<open>daemon/src/shell.rs\<close>, and \<open>shell_run_tool\<close> of \<open>daemon/src/anthropic.rs\<close>. The Unicode lower case
  is the parameter \<open>low\<close>. Spawning the process is a parameter; what it reports is turned into the
  result here. Telemetry and log lines are left out.
\<close>

section \<open>Normalization\<close>

text \<open>\<open>str::replace\<close> with a pattern that is not empty.\<close>

function replace_all :: "string \<Rightarrow> string \<Rightarrow> string \<Rightarrow> string" where
  "replace_all p r s =
     (case s of [] \<Rightarrow> []
      | c # cs \<Rightarrow> if p \<noteq> [] \<and> starts_with p s then r @ replace_all p r (drop (length p) s)
                  else c # replace_all p r cs)"
  by pat_completeness auto
termination by (relation "measure (\<lambda>(p, r, s). length s)") auto

declare replace_all.simps [simp del]

definition normalize_byte :: "char \<Rightarrow> string" where
  "normalize_byte c =
     (if c \<in> {CHR 0x27, CHR 0x22, CHR 0x60, CHR 0x5C} then []
      else if c \<in> {CHR 0x09, CHR 0x0A, CHR 0x0D} then '' '' else [c])"

definition normalize_for_classify :: "(string \<Rightarrow> string) \<Rightarrow> string \<Rightarrow> string" where
  "normalize_for_classify low cmd =
     join '' '' (split_whitespace (concat (map normalize_byte
       (replace_all ''$ifs'' '' '' (replace_all ''${ifs}'' '' '' (low cmd))))))"

section \<open>The denylist\<close>

datatype shell_class = Benign | Denylisted string

definition is_delim :: "rchar \<Rightarrow> bool" where
  "is_delim c \<longleftrightarrow> is_whitespace c \<or> c \<in> {'';'', ''|'', ''&'', ''('', '')'', ''/''}"

definition before_ok :: "char option \<Rightarrow> bool" where
  "before_ok p = (case p of None \<Rightarrow> True | Some c \<Rightarrow> c \<in> set '' ;|&()/'' \<or> c = CHR 0x09)"

definition after_ok :: "string \<Rightarrow> bool" where
  "after_ok rest = (case rest of [] \<Rightarrow> True | c # _ \<Rightarrow> \<not> (ascii_alnum c \<or> c = CHR ''_''))"

text \<open>The search over every occurrence of the word, with the byte before the rest of the text.\<close>

fun boundary_match :: "char option \<Rightarrow> string \<Rightarrow> string \<Rightarrow> bool" where
  "boundary_match prev [] w = False"
| "boundary_match prev (c # cs) w =
     ((starts_with w (c # cs) \<and> before_ok prev \<and> after_ok (drop (length w) (c # cs)))
      \<or> boundary_match (Some c) cs w)"

definition word_present :: "string \<Rightarrow> string \<Rightarrow> bool" where
  "word_present text w =
     (list_ex (\<lambda>tok. concat tok = w) (split_on is_delim (chars text)) \<or> boundary_match None text w)"

definition PROTECTED_PATHS :: "string list" where
  "PROTECTED_PATHS = [''/etc'', ''/system'', ''/usr/'', ''/sbin'', ''/var/db'', ''/library/keychains'',
     ''.claude'', ''/state/darwin'', ''state/darwin'', ''keychain'', ''secrets'',
     ''id_rsa'', ''.ssh'', ''.aws'', ''.config/gcloud'', ''/private/etc'']"

definition NETWORK_TOOLS :: "string list" where
  "NETWORK_TOOLS = [''nc'', ''ncat'', ''netcat'', ''ssh'', ''scp'', ''sftp'', ''rsync'', ''telnet'', ''ftp'',
     ''curl'', ''wget'', ''socat'', ''nmap'', ''ssh-keygen'', ''ssh-add'']"

definition targets_protected_path :: "string \<Rightarrow> bool" where
  "targets_protected_path norm =
     (if str_contains norm '' / '' \<or> ends_with '' /'' norm then True
      else list_ex (\<lambda>p. str_contains norm p) PROTECTED_PATHS)"

definition rm_is_recursive_or_forced :: "string \<Rightarrow> bool" where
  "rm_is_recursive_or_forced norm =
     (str_contains norm ''-rf'' \<or> str_contains norm ''-fr'' \<or> str_contains norm ''--recursive''
      \<or> str_contains norm ''--force''
      \<or> list_ex (\<lambda>tok. starts_with ''-'' tok \<and> \<not> starts_with ''--'' tok
           \<and> (CHR ''r'' \<in> set tok \<or> CHR ''R'' \<in> set tok)) (split_whitespace norm))"

definition INTERPRETERS :: "string list" where
  "INTERPRETERS = [''sh'', ''bash'', ''zsh'', ''ksh'', ''dash'', ''python'', ''python3'', ''perl'', ''ruby'', ''node'']"

definition invoked_name :: "string \<Rightarrow> string" where
  "invoked_name seg =
     (let first = (case split_whitespace seg of [] \<Rightarrow> [] | w # _ \<Rightarrow> w)
      in last (split_on (\<lambda>c. c = CHR ''/'') first))"

definition is_pipe_to_shell :: "string \<Rightarrow> bool" where
  "is_pipe_to_shell norm =
     (if CHR ''|'' \<notin> set norm then False
      else list_ex (\<lambda>right. invoked_name right \<in> set INTERPRETERS) (tl (split_on (\<lambda>c. c = CHR ''|'') norm)))"

text \<open>\<open>str::matches(name).count()\<close>: occurrences that do not overlap, of a name that is not empty.\<close>

function count_matches :: "string \<Rightarrow> string \<Rightarrow> nat" where
  "count_matches p s =
     (case s of [] \<Rightarrow> 0
      | c # cs \<Rightarrow> if p \<noteq> [] \<and> starts_with p s then Suc (count_matches p (drop (length p) s))
                  else count_matches p cs)"
  by pat_completeness auto
termination by (relation "measure (\<lambda>(p, s). length s)") auto

declare count_matches.simps [simp del]

definition name_char :: "externals \<Rightarrow> rchar \<Rightarrow> bool" where
  "name_char E c \<longleftrightarrow> is_alphanumeric (ualnum E) c \<or> c = ''_'' \<or> c = '':''"

definition is_fork_bomb_shape :: "externals \<Rightarrow> string \<Rightarrow> bool" where
  "is_fork_bomb_shape E norm =
     (let compact = filter (\<lambda>c. c \<noteq> CHR '' '') norm in
      if \<not> str_contains compact ''(){'' \<or> CHR ''|'' \<notin> set compact \<or> CHR ''&'' \<notin> set compact then False
      else
        let name = concat (rev (takeWhile (name_char E) (rev (chars (before_match ''(){'' compact))))) in
        name \<noteq> [] \<and> 3 \<le> count_matches name compact)"

definition classify_shell_command :: "externals \<Rightarrow> (string \<Rightarrow> string) \<Rightarrow> string \<Rightarrow> shell_class" where
  "classify_shell_command E low cmd =
     (let norm = normalize_for_classify low cmd; has = word_present norm in
      if trim norm = [] then Benign
      else if has ''sudo'' \<or> has ''doas'' \<or> has ''su'' then Denylisted ''privilege escalation (sudo/su/doas)''
      else if has ''rm'' \<and> rm_is_recursive_or_forced norm then Denylisted ''recursive/forced rm''
      else if has ''rm'' \<and> targets_protected_path norm then Denylisted ''rm on a protected/broad path''
      else if has ''dd'' \<or> has ''mkfs'' \<or> str_contains norm ''mkfs.'' \<or> has ''newfs'' \<or> has ''fdisk''
          \<or> (has ''diskutil'' \<and> (str_contains norm ''erase'' \<or> str_contains norm ''reformat'' \<or> str_contains norm ''partitiondisk''))
        then Denylisted ''raw disk / filesystem destroyer (dd/mkfs/diskutil erase)''
      else if (has ''chmod'' \<or> has ''chown'' \<or> has ''chflags'')
          \<and> (str_contains norm ''-r'' \<or> str_contains norm ''-rf'' \<or> str_contains norm ''--recursive'')
        then Denylisted ''recursive chmod/chown''
      else if (has ''chmod'' \<or> has ''chown'') \<and> targets_protected_path norm
        then Denylisted ''chmod/chown on a protected path''
      else if str_contains (filter (\<lambda>c. c \<noteq> CHR '' '') norm) '':(){'' \<or> str_contains norm '':|:&'' \<or> is_fork_bomb_shape E norm
        then Denylisted ''fork bomb''
      else if is_pipe_to_shell norm then Denylisted ''pipe-to-shell (curl|sh / wget|sh)''
      else if list_ex has NETWORK_TOOLS then Denylisted ''networking / remote-access tool''
      else if targets_protected_path norm
        then Denylisted ''writes to a protected location (/etc, /System, ~/.claude, daemon state)''
      else if (has ''kill'' \<or> has ''killall'' \<or> has ''pkill'')
          \<and> (str_contains norm ''darwin'' \<or> str_contains norm ''-9'' \<or> str_contains norm ''launchd'')
        then Denylisted ''killing the daemon / a process''
      else if has ''launchctl'' \<or> (has ''kill'' \<and> str_contains norm ''darwin'') \<or> str_contains norm ''com.darwin''
        then Denylisted ''launchctl / daemon control''
      else if has ''shutdown'' \<or> has ''reboot'' \<or> has ''halt'' then Denylisted ''shutdown / reboot''
      else Benign)"

section \<open>The sandbox profile\<close>

datatype sbpl_op = ReadFile | WriteFile | Network | ProcessFork | ProcessExec

text \<open>A rule allows or denies operations, on a subtree or everywhere; an import brings rules of its own.\<close>

datatype sbpl_line =
    Remark string
  | Rule bool "sbpl_op list" "string option"
  | DenyDefault
  | Import string

primrec op_text :: "sbpl_op \<Rightarrow> string" where
  "op_text ReadFile = ''file-read*''"
| "op_text WriteFile = ''file-write*''"
| "op_text Network = ''network*''"
| "op_text ProcessFork = ''process-fork''"
| "op_text ProcessExec = ''process-exec*''"

definition sbpl_path :: "string \<Rightarrow> string" where
  "sbpl_path p = concat (map (\<lambda>c. if c = CHR 0x5C \<or> c = CHR 0x22 then [CHR 0x5C, c] else [c]) p)"

primrec line_text :: "sbpl_line \<Rightarrow> string" where
  "line_text (Remark s) = s @ [CHR 0x0A]"
| "line_text DenyDefault = ''(deny default)'' @ [CHR 0x0A]"
| "line_text (Import p) = ''(import '' @ dquoted p @ '')'' @ [CHR 0x0A]"
| "line_text (Rule allow ops path) =
     (if allow then ''(allow '' else ''(deny '') @ join '' '' (map op_text ops)
     @ (case path of None \<Rightarrow> [] | Some p \<Rightarrow> '' (subpath '' @ dquoted (sbpl_path p) @ '')'') @ '')'' @ [CHR 0x0A]"

definition BSD_BASE_PROFILE :: string where
  "BSD_BASE_PROFILE = ''/System/Library/Sandbox/Profiles/bsd.sb''"

definition secret_denies :: "string \<Rightarrow> string \<Rightarrow> string list" where
  "secret_denies home daemon_state =
     [join_path home ''.claude'', join_path home ''.ssh'', join_path home ''.aws'',
      join_path home ''Library/Keychains'', daemon_state,
      ''/Library/Keychains'', ''/private/etc'', ''/etc'']"

definition shell_profile_lines :: "bool \<Rightarrow> string \<Rightarrow> string \<Rightarrow> string \<Rightarrow> sbpl_line list" where
  "shell_profile_lines bsd_exists scratch home daemon_state =
     [Remark ''(version 1)'',
      Remark '';; Generated by darwind for the sandboxed shell (#43). DENY-DEFAULT:'',
      Remark '';; everything below is the complete grant set. No network, write only'',
      Remark '';; to the scratch dir, and the Keychain / ~/.claude / daemon state are'',
      Remark '';; EXPLICITLY denied. Mirrors scripts/apply_heal.sh + apps::generate_sbpl.'',
      DenyDefault]
     @ (if bsd_exists then [Import BSD_BASE_PROFILE] else [])
     @ [Remark [], Remark ('';; NO NETWORK '' @ dash @ '' the sandboxed shell cannot reach the network at all.''),
        Rule False [Network] None,
        Remark [], Remark '';; Start the child: /bin/sh -c <cmd>. Allow fork/exec so the shell can'',
        Remark '';; run ordinary utilities; the network + write confinement still bind it.'',
        Rule True [ProcessFork] None, Rule True [ProcessExec] None,
        Remark [], Remark '';; Reads: broad (the shell reads the system + read-only inputs), EXCEPT'',
        Remark '';; the secret stores denied below. file-read* is the weaker grant; the'',
        Remark '';; WRITE confinement + the network deny are the load-bearing limits.'',
        Rule True [ReadFile] None,
        Remark [], Remark ('';; EXPLICIT secret denials (read+write) '' @ dash @ '' last-match-wins puts these''),
        Remark (apos '';; AFTER the broad read allow, so they win. The Keychain, the user'' ''s''),
        Remark (apos '';; ~/.claude memory, the daemon'' ''s own state/db/secrets, and ssh/cloud''),
        Remark '';; credentials are categorically unreachable by a sandboxed command.'']
     @ map (\<lambda>p. Rule False [ReadFile, WriteFile] (Some p)) (secret_denies home daemon_state)
     @ [Remark [], Remark '';; Writes: confined to the scratch dir ONLY. Every other write target'',
        Remark '';; stays denied. This is the single by-construction write confinement.'',
        Rule True [WriteFile] (Some scratch),
        Remark [], Remark '';; Reads INSIDE the scratch dir: re-allowed AFTER the secret denies.'',
        Remark '';; The callers nest scratch under the denied state/ dir, so without this'',
        Remark '';; last-match-wins line a command cannot read back what it just wrote.'',
        Rule True [ReadFile] (Some scratch)]"

definition generate_shell_sbpl :: "bool \<Rightarrow> string \<Rightarrow> string \<Rightarrow> string \<Rightarrow> string" where
  "generate_shell_sbpl bsd_exists scratch home daemon_state =
     concat (map line_text (shell_profile_lines bsd_exists scratch home daemon_state))"

section \<open>Running\<close>

text \<open>What a pipe delivers: data, nothing at its end, or an error. Both end the drain.\<close>

datatype chunk = Data string | ReadError

fun drain_capped :: "nat \<Rightarrow> string \<Rightarrow> chunk list \<Rightarrow> string" where
  "drain_capped cap kept [] = kept"
| "drain_capped cap kept (ReadError # rs) = kept"
| "drain_capped cap kept (Data d # rs) =
     (if d = [] then kept
      else drain_capped cap (if length kept \<le> cap then kept @ take (cap + 1 - length kept) d else kept) rs)"

definition MAX_OUTPUT_BYTES :: nat where
  "MAX_OUTPUT_BYTES = 64 * 1024"

record shell_run_result =
  sr_exit :: "int option"
  sr_stdout :: string
  sr_stderr :: string
  sr_truncated :: bool
  sr_timed_out :: bool

text \<open>How the child ends: an exit code or a signal with its two pipes, a failed wait, or the timeout.\<close>

datatype child_end = Ended "int option" "chunk list" "chunk list" | WaitFailed string | TimedOut

definition bounded_utf8 :: "(string \<Rightarrow> string) \<Rightarrow> string \<Rightarrow> string" where
  "bounded_utf8 lossy buf = lossy (take (min (length buf) MAX_OUTPUT_BYTES) buf)"

definition sandboxed_result :: "(string \<Rightarrow> string) \<Rightarrow> string + child_end \<Rightarrow> string + shell_run_result" where
  "sandboxed_result lossy r =
     (case r of
        Inl e \<Rightarrow> Inl e
      | Inr (WaitFailed e) \<Rightarrow> Inl e
      | Inr TimedOut \<Rightarrow> Inr \<lparr> sr_exit = None, sr_stdout = [], sr_stderr = [], sr_truncated = False, sr_timed_out = True \<rparr>
      | Inr (Ended status out err) \<Rightarrow>
          (let ob = drain_capped MAX_OUTPUT_BYTES [] out; eb = drain_capped MAX_OUTPUT_BYTES [] err in
           Inr \<lparr> sr_exit = status, sr_stdout = bounded_utf8 lossy ob, sr_stderr = bounded_utf8 lossy eb,
                 sr_truncated = (MAX_OUTPUT_BYTES < length ob \<or> MAX_OUTPUT_BYTES < length eb), sr_timed_out = False \<rparr>))"

record shell_env =
  sh_ext :: externals
  sh_low :: "string \<Rightarrow> string"
  sh_lossy :: "string \<Rightarrow> string"
  sh_enabled :: bool
  sh_state :: string
  sh_home :: string
  sh_ts :: nat
  sh_mkdir :: "string \<Rightarrow> bool"
  sh_canonical :: "string \<Rightarrow> string option"
  sh_bsd_exists :: bool
  sh_spawn :: "string \<Rightarrow> string \<Rightarrow> string \<Rightarrow> string + child_end"

definition shell_permitted :: "bool \<Rightarrow> bool" where
  "shell_permitted enabled = enabled"

definition shell_scratch_dir :: "shell_env \<Rightarrow> string" where
  "shell_scratch_dir V = join_path (join_path (join_path (sh_state V) ''shell'') ''scratch'') (nat_text (sh_ts V))"

definition render_shell_result :: "string \<Rightarrow> shell_run_result \<Rightarrow> string" where
  "render_shell_result command r =
     (if sr_timed_out r then ''I ran `'' @ command @ ''` in the sandbox but it exceeded the time limit and I stopped it, sir ''
        @ dash @ '' so I have no complete output to report.''
      else
        let status = (case sr_exit r of
              Some c \<Rightarrow> if c = 0 then ''It completed successfully'' else ''It exited with code '' @ int_string c
            | None \<Rightarrow> ''It was terminated'');
            out = trim (sr_stdout r); err = trim (sr_stderr r);
            body = (if out \<noteq> [] then [CHR 0x0A, CHR 0x0A] @ ''Output:'' @ [CHR 0x0A] @ out else [])
              @ (if err \<noteq> [] then [CHR 0x0A, CHR 0x0A] @ ''Errors:'' @ [CHR 0x0A] @ err else [])
              @ (if out = [] \<and> err = [] then '' (it produced no output).'' else []) in
        ''I ran `'' @ command @ ''` in the deny-default sandbox. '' @ status @ ''.'' @ body
        @ (if sr_truncated r then '' The output was truncated at the size limit.'' else []))"

text \<open>What the tool answers before it reads the gate: it is off, or the command is on the denylist.\<close>

definition shell_pre_gate :: "shell_env \<Rightarrow> string \<Rightarrow> bool \<Rightarrow> string option" where
  "shell_pre_gate V command locked_down =
     (if \<not> shell_permitted (sh_enabled V \<and> \<not> locked_down) then
        Some (''The sandboxed shell is off, sir '' @ dash @ '' enable [shell] in config to let me run commands. While it is off I run nothing and touch no terminal.'')
      else case classify_shell_command (sh_ext V) (sh_low V) command of
        Denylisted reason \<Rightarrow>
          Some (''I won'' @ apos [] ''t run that, sir '' @ dash @ '' it matches a destructive/unsafe pattern ('' @ reason
           @ ''), so I refuse it outright. The sandboxed shell will never run a command like that, even with your confirmation.'')
      | Benign \<Rightarrow> None)"

text \<open>The tool, with the command, profile and directory it hands to the sandbox, if any.\<close>

definition shell_run_tool :: "shell_env \<Rightarrow> world \<Rightarrow> string \<Rightarrow> bool \<Rightarrow> string \<times> (string \<times> string \<times> string) option" where
  "shell_run_tool V w command confirm =
     (case shell_pre_gate V command (is_locked_down (w_stop w)) of
        Some reply \<Rightarrow> (reply, None)
      | None \<Rightarrow>
          (case gate w confirm of
             ModeDryRun \<Rightarrow>
               (''[dry run] Would run `'' @ command @ ''` in a deny-default sandbox (NO network; writes confined to a throwaway scratch dir; the Keychain, ~/.claude, and my own state unreachable). Enable consequential actions and confirm to run it.'', None)
           | ModeExecute \<Rightarrow>
               (let raw = shell_scratch_dir V in
                if \<not> sh_mkdir V raw then
                  (''I couldn'' @ apos [] ''t set up the sandbox scratch directory just now, sir '' @ dash @ '' I ran nothing.'', None)
                else
                  let scratch = (case sh_canonical V raw of Some p \<Rightarrow> p | None \<Rightarrow> raw);
                      profile = generate_shell_sbpl (sh_bsd_exists V) scratch (sh_home V) (sh_state V) in
                  (case sandboxed_result (sh_lossy V) (sh_spawn V command profile scratch) of
                     Inr r \<Rightarrow> render_shell_result command r
                   | Inl e \<Rightarrow> ''I couldn'' @ apos [] ''t run that in the sandbox just now, sir ('' @ e @ ''); nothing else ran.'',
                   Some (command, profile, scratch)))))"

section \<open>What reaches the sandbox\<close>

text \<open>
  C34. A command is handed to the sandbox only if the shell is on, the daemon is not locked down, the
  command passed the denylist, the master switch is on and the call was confirmed; it is then the
  command of the call, under the generated profile of the scratch directory.
\<close>
theorem shell_runs_only_what_passed:
  assumes "shell_run_tool V w command confirm = (reply, Some (cmd, profile, dir))"
  shows "cmd = command \<and> confirm \<and> sh_enabled V \<and> \<not> is_locked_down (w_stop w) \<and> consequential_allowed w
    \<and> classify_shell_command (sh_ext V) (sh_low V) command = Benign
    \<and> profile = generate_shell_sbpl (sh_bsd_exists V) dir (sh_home V) (sh_state V)"
  using assms gate_Execute [of w confirm]
  by (auto simp: shell_run_tool_def shell_pre_gate_def shell_permitted_def Let_def
      split: if_splits shell_class.splits action_mode.splits option.splits)

text \<open>The bounded capture is the prefix of what the pipe delivered, one byte past the cap.\<close>

fun delivered :: "chunk list \<Rightarrow> string" where
  "delivered (Data d # rs) = (if d = [] then [] else d @ delivered rs)"
| "delivered rs = []"

lemma drain_take: "length kept \<le> cap + 1 \<Longrightarrow> drain_capped cap kept rs = take (cap + 1) (kept @ delivered rs)"
proof (induction cap kept rs rule: drain_capped.induct)
  case (3 cap kept d rs)
  show ?case
  proof (cases "length kept \<le> cap \<and> d \<noteq> []")
    case True
    then have b: "length kept + min (length d) (Suc cap - length kept) \<le> Suc cap" by linarith
    then have "drain_capped cap (kept @ take (cap + 1 - length kept) d) rs
        = take (cap + 1) ((kept @ take (cap + 1 - length kept) d) @ delivered rs)"
      using 3(1) True by simp
    moreover have "take (cap + 1) ((kept @ take (cap + 1 - length kept) d) @ xs) = take (cap + 1) (kept @ d @ xs)" for xs
      using True by (cases "length d \<le> cap + 1 - length kept") simp_all
    ultimately show ?thesis using True by simp
  next
    case False
    then show ?thesis using 3 by (cases "d = []") auto
  qed
qed auto

text \<open>
  Output is reported as it came: the two streams are the first 64 KiB of what the pipes delivered,
  and the mark of truncation is set exactly when one of them delivered more.
\<close>
theorem captured_output_is_exact:
  "sandboxed_result lossy (Inr (Ended status out err)) =
     Inr \<lparr> sr_exit = status, sr_stdout = lossy (take MAX_OUTPUT_BYTES (delivered out)),
           sr_stderr = lossy (take MAX_OUTPUT_BYTES (delivered err)),
           sr_truncated = (MAX_OUTPUT_BYTES < length (delivered out) \<or> MAX_OUTPUT_BYTES < length (delivered err)),
           sr_timed_out = False \<rparr>"
proof -
  have "take (min (length (take (n + 1) xs)) n) (take (n + 1) xs) = take n xs" for n and xs :: string
    by (simp add: min_def)
  then show ?thesis by (auto simp: sandboxed_result_def drain_take bounded_utf8_def Let_def min_def)
qed

section \<open>The denylist\<close>

text \<open>The words that are refused wherever they stand as a command.\<close>

definition DENIED_WORDS :: "string list" where
  "DENIED_WORDS = [''sudo'', ''doas'', ''su'', ''dd'', ''mkfs'', ''newfs'', ''fdisk'', ''launchctl'', ''shutdown'', ''reboot'', ''halt'',
     ''nc'', ''ncat'', ''netcat'', ''ssh'', ''scp'', ''sftp'', ''rsync'', ''telnet'', ''ftp'', ''curl'', ''wget'', ''socat'', ''nmap'',
     ''ssh-keygen'', ''ssh-add'']"

text \<open>The tokens of a normalized command: cut at blanks, at shell operators and at slashes.\<close>

definition command_tokens :: "string \<Rightarrow> string list" where
  "command_tokens norm =
     map concat (split_on (\<lambda>c. is_whitespace c \<or> c \<in> {'';'', ''|'', ''&'', ''('', '')'', ''/''}) (chars norm))"

lemma command_tokens_delim: "command_tokens norm = map concat (split_on is_delim (chars norm))"
  by (simp add: command_tokens_def is_delim_def [abs_def])

lemma token_present: "w \<in> set (command_tokens norm) \<Longrightarrow> word_present norm w"
  by (auto simp: command_tokens_delim word_present_def list_ex_iff)

lemma token_not_blank:
  assumes "w \<in> set (command_tokens norm)" and "w \<noteq> []"
  shows "trim norm \<noteq> []"
proof -
  obtain g where g: "g \<in> set (split_on is_delim (chars norm))" "w = concat g"
    using assms(1) by (auto simp: command_tokens_delim)
  then obtain c where c: "c \<in> set g" using assms(2) by (cases g) auto
  then have "c \<in> set (chars norm)" "\<not> is_whitespace c"
    using split_on_pieces [OF g(1) c] by (auto simp: is_delim_def)
  then have "dropWhile is_whitespace (chars norm) \<noteq> []" by (auto simp: dropWhile_eq_Nil_conv)
  then obtain x ys where d: "dropWhile is_whitespace (chars norm) = x # ys" "\<not> is_whitespace x"
      "x \<in> set (chars norm)"
    using dropWhile_start by (metis in_set_conv_decomp)
  have "x \<in> set (trim_list is_whitespace (chars norm))"
  proof -
    have "trim_list is_whitespace (x # ys) = trim_list is_whitespace (chars norm)"
      using d by (simp add: trim_list_def)
    moreover have "x \<in> set (dropWhile is_whitespace (rev (x # ys)))" using d(2) by (induction ys rule: rev_induct) auto
    ultimately show ?thesis using d(2) by (simp add: trim_list_def)
  qed
  then show ?thesis using chars_not_Nil [OF d(3)] by (auto simp: trim_def)
qed

lemma if_denied: "(if c then Denylisted r else x) = Benign \<longleftrightarrow> \<not> c \<and> x = Benign"
  by simp

lemma if_blank: "(if c then Benign else x) = Benign \<longleftrightarrow> c \<or> x = Benign"
  by simp

text \<open>
  C32. Refusal does not depend on how the command is reached. If one of the denied words (privilege,
  disk, daemon, shutdown and network tools) stands as a token of the normalized text, at the start,
  after a blank, an operator or a bracket, or as a piece of a path, the command is on the denylist,
  whatever else it says and however the text is lowered.
\<close>
theorem denied_word_is_refused:
  assumes "w \<in> set DENIED_WORDS" and "w \<in> set (command_tokens (normalize_for_classify low cmd))"
  shows "\<exists>reason. classify_shell_command E low cmd = Denylisted reason"
proof -
  have w: "word_present (normalize_for_classify low cmd) w" using token_present assms(2) .
  have "w \<noteq> []" using assms(1) by (auto simp: DENIED_WORDS_def)
  then have n: "trim (normalize_for_classify low cmd) \<noteq> []" using token_not_blank assms(2) by blast
  show ?thesis
  proof (cases "classify_shell_command E low cmd")
    case Benign
    note refused = this [unfolded classify_shell_command_def Let_def, simplified if_denied if_blank, simplified n list_ex_iff]
    have "w \<in> {''sudo'', ''doas'', ''su'', ''dd'', ''mkfs'', ''newfs'', ''fdisk'', ''launchctl'', ''shutdown'', ''reboot'', ''halt''}
        \<or> w \<in> set NETWORK_TOOLS"
      using assms(1) by (auto simp: DENIED_WORDS_def NETWORK_TOOLS_def)
    then show ?thesis using w refused by blast
  qed blast
qed

lemma split_delim_ascii: "ascii_string s \<Longrightarrow> command_tokens s = split_on (\<lambda>c. ascii_ws c \<or> c \<in> set '';|&()/'') s"
  unfolding command_tokens_delim
  by (simp add: chars_ascii split_on_map comp_def is_delim_def is_whitespace_byte map_concat)

section \<open>Quoting\<close>

lemma replace_all_id: "\<forall>c \<in> set s. c \<noteq> x \<Longrightarrow> replace_all (x # p) r s = s"
  by (induction s) (subst replace_all.simps, simp add: starts_with_def)+

lemma lower_no_dollar: "CHR ''$'' \<notin> set s \<Longrightarrow> CHR ''$'' \<notin> set (to_ascii_lowercase s)"
proof
  assume s: "CHR ''$'' \<notin> set s" and "CHR ''$'' \<in> set (to_ascii_lowercase s)"
  then obtain c where c: "c \<in> set s" "lower_byte c = CHR ''$''" by (auto simp: to_ascii_lowercase_def)
  then have "c = CHR ''$''"
  proof (cases "ascii_upper c")
    case True
    then have "code (lower_byte c) = code c + 32" by (auto simp: lower_byte_def ascii_upper_def)
    then show ?thesis using True c(2) by (simp add: ascii_upper_def)
  qed (simp add: lower_byte_def)
  then show False using c(1) s by simp
qed

text \<open>
  What is relied on of \<open>str::to_lowercase\<close>: it goes character by character, an ASCII letter to its
  small form and any other ASCII character to itself, and it makes no dollar sign of anything else.
  The one character it treats by its context is the capital sigma, which is left out.
\<close>

definition capital_sigma :: rchar where
  "capital_sigma = [CHR 0xCE, CHR 0xA3]"

definition lowers_by_char :: "(string \<Rightarrow> string) \<Rightarrow> bool" where
  "lowers_by_char low \<longleftrightarrow>
     (\<exists>f. (\<forall>c. is_ascii c \<longrightarrow> f [c] = [lower_byte c])
        \<and> (\<forall>g. CHR ''$'' \<notin> set g \<longrightarrow> CHR ''$'' \<notin> set (f g))
        \<and> (\<forall>s. utf8_valid s \<and> capital_sigma \<notin> set (chars s) \<longrightarrow> low s = concat (map f (chars s))))"

lemma ascii_lowers_by_char: "lowers_by_char to_ascii_lowercase"
  unfolding lowers_by_char_def
proof (intro exI [of _ to_ascii_lowercase] conjI allI impI)
  fix s
  have "to_ascii_lowercase s = to_ascii_lowercase (concat (chars s))" by simp
  also have "\<dots> = concat (map to_ascii_lowercase (chars s))" unfolding to_ascii_lowercase_def [abs_def] map_concat ..
  finally show "to_ascii_lowercase s = concat (map to_ascii_lowercase (chars s))" .
qed (use lower_no_dollar in \<open>auto simp: to_ascii_lowercase_def\<close>)

lemma chars_append: "utf8_valid u \<Longrightarrow> chars (u @ v) = chars u @ chars v"
  using chars_concat [of "chars u" v] by (simp add: utf8_valid_def)

lemma lowers_around:
  assumes "lowers_by_char low" and "utf8_valid u" and "utf8_valid v" and "CHR ''$'' \<notin> set (u @ v)"
    and "capital_sigma \<notin> set (chars (u @ v))"
  obtains u' v' where "low (u @ v) = u' @ v'" "CHR ''$'' \<notin> set (u' @ v')"
    "\<And>q. is_ascii q \<Longrightarrow> low (u @ q # v) = u' @ lower_byte q # v'"
proof -
  obtain f where f: "\<And>c. is_ascii c \<Longrightarrow> f [c] = [lower_byte c]" "\<And>g. CHR ''$'' \<notin> set g \<Longrightarrow> CHR ''$'' \<notin> set (f g)"
    "\<And>s. utf8_valid s \<Longrightarrow> capital_sigma \<notin> set (chars s) \<Longrightarrow> low s = concat (map f (chars s))"
    using assms(1) unfolding lowers_by_char_def by blast
  have cs: "chars (u @ v) = chars u @ chars v" "chars (u @ q # v) = chars u @ (if is_ascii q then [q] # chars v else chars (q # v))" for q
    using chars_append [OF assms(2)] by (simp_all add: chars_ascii_Cons)
  have sig: "capital_sigma \<notin> set (chars u)" "capital_sigma \<notin> set (chars v)" "capital_sigma \<noteq> [q]" for q
    using assms(5) by (auto simp: cs(1) capital_sigma_def)
  have part: "CHR ''$'' \<notin> set (concat (map f (chars x)))" if "CHR ''$'' \<notin> set x" for x
  proof -
    have "set x = (\<Union>g \<in> set (chars x). set g)" by (metis concat_chars set_concat)
    then show ?thesis using that f(2) by auto
  qed
  show ?thesis
  proof (rule that [of "concat (map f (chars u))" "concat (map f (chars v))"])
    show "low (u @ v) = concat (map f (chars u)) @ concat (map f (chars v))"
      using f(3) [of "u @ v"] assms(2,3,5) by (simp add: cs(1) utf8_valid_def)
    show "CHR ''$'' \<notin> set (concat (map f (chars u)) @ concat (map f (chars v)))"
      using part [of u] part [of v] assms(4) by simp
    fix q assume q: "is_ascii q"
    have "complete [q]" using utf8_valid_ascii [of "[q]"] q by (simp add: utf8_valid_def ascii_string_def chars_ascii)
    then show "low (u @ q # v) = concat (map f (chars u)) @ lower_byte q # concat (map f (chars v))"
      using f(3) [of "u @ q # v"] assms(2,3) sig f(1) [OF q] q by (simp add: cs(2) utf8_valid_def)
  qed
qed

lemma normalize_plain:
  "CHR ''$'' \<notin> set (low s) \<Longrightarrow> normalize_for_classify low s
     = join '' '' (split_whitespace (concat (map normalize_byte (low s))))"
proof -
  assume "CHR ''$'' \<notin> set (low s)"
  then have "\<forall>c \<in> set (low s). c \<noteq> CHR ''$''" by blast
  then show ?thesis by (simp add: normalize_for_classify_def replace_all_id)
qed

text \<open>
  C33. Quoting hides nothing from the denylist: a quote, a backquote or a backslash put anywhere into a
  command without variables (and without the letter whose small form depends on its context) changes
  neither its normal form nor its class, for any lower case that goes character by character.
\<close>
theorem quoting_hides_nothing:
  assumes "lowers_by_char low" and "utf8_valid u" and "utf8_valid v" and "CHR ''$'' \<notin> set (u @ v)"
    and "capital_sigma \<notin> set (chars (u @ v))" and "q \<in> {CHR 0x27, CHR 0x22, CHR 0x60, CHR 0x5C}"
  shows "normalize_for_classify low (u @ q # v) = normalize_for_classify low (u @ v)
    \<and> classify_shell_command E low (u @ q # v) = classify_shell_command E low (u @ v)"
proof -
  obtain u' v' where low: "low (u @ v) = u' @ v'" "CHR ''$'' \<notin> set (u' @ v')"
    "\<And>q. is_ascii q \<Longrightarrow> low (u @ q # v) = u' @ lower_byte q # v'"
    using lowers_around [OF assms(1-5)] by metis
  have q: "is_ascii q" "lower_byte q = q" "normalize_byte q = []" "q \<noteq> CHR ''$''"
    using assms(6) by (auto simp: is_ascii_def lower_byte_def ascii_upper_def normalize_byte_def)
  have "normalize_for_classify low (u @ q # v) = normalize_for_classify low (u @ v)"
    using low(2) normalize_plain [of low "u @ v"] normalize_plain [of low "u @ q # v"] low(3) [OF q(1)] q
    by (simp add: low(1))
  then show ?thesis by (simp add: classify_shell_command_def)
qed

lemmas shell_eval = classify_shell_command_def normalize_for_classify_def replace_all.simps normalize_byte_def
  word_present_def is_delim_def is_whitespace_byte before_ok_def after_ok_def targets_protected_path_def PROTECTED_PATHS_def
  rm_is_recursive_or_forced_def is_pipe_to_shell_def invoked_name_def INTERPRETERS_def NETWORK_TOOLS_def
  is_fork_bomb_shape_def starts_with_def ends_with_def trim_list_def Let_def

text \<open>Commands of a class the denylist means to refuse that pass it.\<close>

lemma grouped_pipe_passes: "classify_shell_command E to_ascii_lowercase ''cat p | (sh)'' = Benign"
  by (simp add: shell_eval str_simps)

lemma forced_rm_passes: "classify_shell_command E to_ascii_lowercase ''rm -f a'' = Benign"
  by (simp add: shell_eval str_simps)

lemma rm_of_bin_passes: "classify_shell_command E to_ascii_lowercase ''rm /bin/ls'' = Benign"
  by (simp add: shell_eval str_simps)

lemma quoting_hides_nothing_witness:
  "classify_shell_command demo_externals to_ascii_lowercase [CHR ''r'', CHR 0x5C, CHR ''m'', CHR '' '', CHR ''-'', CHR ''r'']
     = Denylisted ''recursive/forced rm''"
proof -
  have "utf8_valid ''r''" "utf8_valid ''m -r''" "capital_sigma \<notin> set (chars (''r'' @ ''m -r''))"
    by (simp_all add: utf8_valid_ascii ascii_string_def is_ascii_def chars_ascii capital_sigma_def)
  from quoting_hides_nothing [OF ascii_lowers_by_char this(1,2) _ this(3), of "CHR 0x5C" demo_externals]
  show ?thesis by (simp add: shell_eval str_simps)
qed

text \<open>A closing bracket is a boundary too.\<close>

lemma bracket_is_a_boundary: "word_present ''(a)rm-rf b'' ''rm''"
  by (simp add: shell_eval str_simps)

section \<open>At the chokepoint\<close>

text \<open>The chokepoint with this arm for \<open>shell_run\<close>: its early answers come back as successful replies.\<close>

definition shell_command :: "json \<Rightarrow> string" where
  "shell_command inp = (case jget_str inp ''command'' of Some c \<Rightarrow> c | None \<Rightarrow> [])"

definition with_shell :: "shell_env \<Rightarrow> outside \<Rightarrow> outside" where
  "with_shell V X = X\<lparr> pre_gate := (\<lambda>tn inp locked_down.
     if tn = ''shell_run'' then map_option (\<lambda>r. (r, False)) (shell_pre_gate V (shell_command inp) locked_down)
     else pre_gate X tn inp locked_down) \<rparr>"

text \<open>
  The module promises that a command on the denylist is never parked. The chokepoint takes the
  refusal for a preview: with the switch on and no rule of the user, the command waits in the slot for
  a yes, although that yes only meets the same refusal.
\<close>
theorem denied_command_is_parked:
  assumes "classify_shell_command (sh_ext V) (sh_low V) (shell_command (force_confirm inp False)) = Denylisted reason"
    and "sh_enabled V" and "parse_confirm X ''shell_run'' (force_confirm inp False) = Some c"
    and "consequential_allowed w"
    and "\<And>pv. downgrade_always_if_unattended (evaluate_global (w_policy w) ''shell_run'' ns pv) ct = Ask"
  shows "case execute_gated (with_shell V X) ''shell_run'' inp al ns uo ct w of (w', out, err, eff) \<Rightarrow>
      eff = EffParked \<and> \<not> err \<and> w_calls w' = w_calls w \<and> slot (stop_confirm (w_stop w')) \<noteq> None"
proof -
  have nl: "\<not> is_locked_down (w_stop w)" using assms(4) by (simp add: consequential_allowed_def split: if_splits)
  obtain pv where pv: "shell_pre_gate V (shell_command (force_confirm inp False)) False = Some pv"
    using assms(1,2) by (simp add: shell_pre_gate_def shell_permitted_def)
  have "\<not> is_mcp_flat_name ''shell_run'' \<and> \<not> starts_with ''app__'' ''shell_run'' \<and> is_consequential_tool ''shell_run''" by code_simp
  then have d: "dispatch_tool (with_shell V X) ''shell_run'' (force_confirm inp False) ns uo w = (w, pv, False)"
    using assms(3) nl pv by (simp add: dispatch_tool_def gated_dispatch_def with_shell_def)
  show ?thesis
    using assms(4,5)
    by (auto simp: execute_gated_def d Let_def park_def park_ctx_def park_inner_def set_confirm_def audit_row_def split: prod.splits)
qed

section \<open>Concrete runs\<close>

definition demo_shell :: shell_env where
  "demo_shell = \<lparr> sh_ext = demo_externals, sh_low = to_ascii_lowercase, sh_lossy = (\<lambda>s. s), sh_enabled = True,
     sh_state = ''/d/state'', sh_home = ''/h'', sh_ts = 7, sh_mkdir = (\<lambda>_. True), sh_canonical = (\<lambda>p. Some p),
     sh_bsd_exists = True, sh_spawn = (\<lambda>_ _ _. Inr (Ended (Some 0) [Data ''ok''] [])) \<rparr>"

lemma demo_ls: "classify_shell_command E to_ascii_lowercase ''ls'' = Benign"
  by (simp add: shell_eval str_simps)

lemma demo_allows: "consequential_allowed demo_world" "\<not> is_locked_down (w_stop demo_world)"
  by (simp_all add: consequential_allowed_def demo_world_def is_locked_down_def boot_state_def)

lemma shell_runs_only_what_passed_witness:
  "\<exists>reply profile dir. shell_run_tool demo_shell demo_world ''ls'' True = (reply, Some (''ls'', profile, dir))
     \<and> profile = generate_shell_sbpl True dir ''/h'' ''/d/state''"
proof -
  obtain reply profile dir where r: "shell_run_tool demo_shell demo_world ''ls'' True = (reply, Some (''ls'', profile, dir))"
    using demo_ls demo_allows gate_Execute [of demo_world True]
    by (simp add: shell_run_tool_def shell_pre_gate_def shell_permitted_def demo_shell_def Let_def split: option.splits)
  from shell_runs_only_what_passed [OF this] show ?thesis using r by (auto simp: demo_shell_def)
qed

lemma denied_word_is_refused_witness:
  "\<exists>reason. classify_shell_command demo_externals to_ascii_lowercase ''ls;/usr/bin/Sudo x'' = Denylisted reason"
proof -
  have "normalize_for_classify to_ascii_lowercase ''ls;/usr/bin/Sudo x'' = ''ls;/usr/bin/sudo x''"
    by (simp add: shell_eval str_simps)
  then have "''sudo'' \<in> set (command_tokens (normalize_for_classify to_ascii_lowercase ''ls;/usr/bin/Sudo x''))"
    by (simp add: split_delim_ascii str_simps)
  then show ?thesis by (rule denied_word_is_refused [rotated]) (simp add: DENIED_WORDS_def)
qed

lemma denied_command_is_parked_witness:
  "case execute_gated (with_shell demo_shell demo_outside) ''shell_run'' (JObj [(''command'', JStr ''sudo ls'')]) [''*''] ''agent.steve''
      True True demo_world of (w', out, err, eff) \<Rightarrow>
      eff = EffParked \<and> \<not> err \<and> w_calls w' = w_calls demo_world \<and> slot (stop_confirm (w_stop w')) \<noteq> None"
proof (rule denied_command_is_parked)
  let ?inp = "JObj [(''command'', JStr ''sudo ls'')]"
  have "shell_command (force_confirm ?inp False) = ''sudo ls''"
    by (simp add: shell_command_def force_confirm_def jget_str_def jget_def as_str_def)
  then show "classify_shell_command (sh_ext demo_shell) (sh_low demo_shell) (shell_command (force_confirm ?inp False))
      = Denylisted ''privilege escalation (sudo/su/doas)''"
    by (simp add: demo_shell_def shell_eval str_simps)
  show "parse_confirm demo_outside ''shell_run'' (force_confirm ?inp False) = Some False"
    by (simp add: demo_outside_def demo_reader_def force_confirm_def)
  show "downgrade_always_if_unattended (evaluate_global (w_policy demo_world) ''shell_run'' ''agent.steve'' pv) True = Ask" for pv
    by (simp add: downgrade_always_if_unattended_def evaluate_global_def evaluate_local_global_def harden_global_def evaluate_def
        store_rules_def empty_store_def demo_world_def demo_layer_def)
qed (simp_all add: demo_allows demo_shell_def)

end
