(* ===== verification/AgentSelect.thy ===== *)
theory AgentSelect
  imports Roster RunbookVoice
begin

text \<open>
  Which agent a request goes to: \<open>select\<close> of \<open>daemon/src/agents.rs\<close> with its cue tables and word
  tests, and the canonical roster. The lower-cased text is \<open>low text\<close>; the Unicode alphanumeric table
  is the parameter \<open>ua\<close>. The semantic fallback ranks by floating-point scores and is not modelled.
\<close>

section \<open>Word tests\<close>

text \<open>The search over every occurrence, with the byte before the rest of the text.\<close>

fun bounded_at :: "(char \<Rightarrow> bool) \<Rightarrow> char option \<Rightarrow> string \<Rightarrow> string \<Rightarrow> bool" where
  "bounded_at inner prev [] needle = False"
| "bounded_at inner prev (c # cs) needle =
     ((starts_with needle (c # cs) \<and> (case prev of None \<Rightarrow> True | Some p \<Rightarrow> \<not> inner p)
       \<and> (case drop (length needle) (c # cs) of [] \<Rightarrow> True | d # _ \<Rightarrow> \<not> inner d))
      \<or> bounded_at inner (Some c) cs needle)"

definition contains_word :: "string \<Rightarrow> string \<Rightarrow> bool" where
  "contains_word haystack needle = (needle \<noteq> [] \<and> bounded_at ascii_alnum None haystack needle)"

text \<open>The phrase test reads each byte as a Latin-1 character: \<open>(byte as char).is_alphanumeric()\<close>.\<close>

definition latin1_alnum :: "char \<Rightarrow> bool" where
  "latin1_alnum c \<longleftrightarrow> ascii_alnum c
     \<or> code c \<in> {0xAA, 0xB2, 0xB3, 0xB5, 0xB9, 0xBA, 0xBC, 0xBD, 0xBE}
     \<or> (0xC0 \<le> code c \<and> code c \<noteq> 0xD7 \<and> code c \<noteq> 0xF7)"

definition agent_contains_phrase :: "string \<Rightarrow> string \<Rightarrow> bool" where
  "agent_contains_phrase haystack needle = (needle \<noteq> [] \<and> bounded_at latin1_alnum None haystack needle)"

definition any_substring :: "string list \<Rightarrow> string \<Rightarrow> bool" where
  "any_substring cues lower = list_ex (\<lambda>cue. str_contains lower cue) cues"

definition any_word :: "string list \<Rightarrow> string \<Rightarrow> bool" where
  "any_word cues lower = list_ex (\<lambda>cue. contains_word lower cue) cues"

section \<open>Cues\<close>

definition EDITH_CUES :: "string list" where
  "EDITH_CUES = [''heads up'', ''anticipate'', ''proactive'', ''watch for'', ''keep an eye'', ''alert me'',
     apos ''what'' ''s coming'', ''whats coming'', ''what is coming'', ''what should i know'',
     ''anything i should know'']"

definition FURY_CUES :: "string list" where
  "FURY_CUES = [''mission'', ''orchestrate'', ''coordinate'', ''run point'', ''campaign'', ''multi-step'',
     ''multistep'', ''end to end'', ''end-to-end'', ''handle all of'', ''take care of everything'',
     ''take care of all of'', ''get the team on'', ''get the whole team'', ''put the team on'',
     ''the whole team on'']"

definition CASSANDRA_MULTI_CUES :: "string list" where
  "CASSANDRA_MULTI_CUES = [''monte carlo'', ''what if'', ''what-if'', ''model this'', ''project this'',
     ''project that'', ''project the'', ''project it'', ''project out'', ''project forward'']"

definition CASSANDRA_WORD_CUES :: "string list" where
  "CASSANDRA_WORD_CUES = [''simulate'', ''simulation'', ''forecast'', ''scenario'', ''scenarios'',
     ''projection'', ''projections'', ''odds'', ''probability'', ''likelihood'']"

definition MNEMOSYNE_CUES :: "string list" where
  "MNEMOSYNE_CUES = [''what did i say'', ''what did i tell you'', ''what do you remember about'',
     ''what do you remember regarding'', ''dig up'', ''recall everything'', ''find that note'', ''when did i'',
     ''have we discussed'', ''did we discuss'', ''surface what you know about'',
     ''what have i told you about'', ''remind me what'', ''pull up what i said'', ''search everything'',
     ''search across everything'', ''search all my'', ''search my stuff'', ''find it across everything'',
     ''across all my sources'', ''search all of my'']"

definition SAGE_MULTI_CUES :: "string list" where
  "SAGE_MULTI_CUES = [''deep dive'', ''deep research'', ''deep-dive'', ''thorough research'',
     ''thorough investigation'', ''research report'', ''research the literature'', ''cite your sources'',
     ''cite sources'', ''with citations'', ''with sources'', ''comprehensive overview'',
     ''comprehensive report'', ''comprehensive write-up'', ''comprehensive writeup'', ''everything about'',
     ''literature review'']"

definition SAGE_WORD_CUES :: "string list" where
  "SAGE_WORD_CUES = [''citations'', ''cited'', ''sourced'', ''literature'']"

definition SAGE_DEPTH_ADVERBS :: "string list" where
  "SAGE_DEPTH_ADVERBS = [''thoroughly'', ''comprehensively'']"

definition SAGE_INVESTIGATION_CONTEXT :: "string list" where
  "SAGE_INVESTIGATION_CONTEXT = [''look into'', ''research'', ''investigate'', ''dig into'', ''read up'',
     ''study'']"

definition VITALIS_MULTI_CUES :: "string list" where
  "VITALIS_MULTI_CUES = [''sleep score'', ''how recovered'', ''how did i sleep'', apos ''how'' ''s my body'',
     ''hows my body'', ''how is my body'', ''resting heart rate'', ''resting hr'']"

definition VITALIS_WORD_CUES :: "string list" where
  "VITALIS_WORD_CUES = [''recovery'', ''strain'', ''hrv'', ''readiness'', ''whoop'', ''biometrics'']"

definition KAREN_MULTI_CUES :: "string list" where
  "KAREN_MULTI_CUES = [''catch me up on messages'', ''catch me up on my messages'', ''what needs a reply'',
     ''what needs my reply'', ''what needs replying'', ''who needs me'', ''who needs a reply'',
     ''clear my inbox'', ''clear out my inbox'', ''draft a reply'', ''draft a response'', ''my email'',
     ''my emails'', ''my messages'']"

definition KAREN_WORD_CUES :: "string list" where
  "KAREN_WORD_CUES = [''triage'', ''inbox'', ''unread'']"

definition DUME_MULTI_CUES :: "string list" where
  "DUME_MULTI_CUES = [''smart home'', ''smart-home'', ''home assistant'', ''living room'', ''dining room'']"

definition DUME_WORD_CUES :: "string list" where
  "DUME_WORD_CUES = [''lights'', ''thermostat'', ''lock'', ''unlock'', ''scene'', ''bedroom'', ''hvac'',
     ''dimmer'']"

definition DUME_DEVICE_CONTEXT :: "string list" where
  "DUME_DEVICE_CONTEXT = [''light'', ''lights'', ''lamp'', ''thermostat'', ''heater'', ''heating'', ''ac'',
     ''air conditioner'', ''fan'', ''lock'', ''door'', ''blinds'', ''shades'', ''outlet'', ''plug'',
     ''switch'', ''bedroom'', ''living room'', ''kitchen'', ''garage'', ''scene'', ''thermostat'', ''hvac'']"

definition DUME_BROAD_VERBS :: "string list" where
  "DUME_BROAD_VERBS = [''turn on'', ''turn off'', ''set the'']"

definition MIDAS_MULTI_CUES :: "string list" where
  "MIDAS_MULTI_CUES = [''how much did i spend'', ''how much have i spent'', apos ''where'' ''s my money'',
     ''wheres my money'', ''where is my money'', ''where did my money go'', ''where does my money go'',
     ''my accounts'', ''my bank'', ''my checking'', ''my savings'', ''cash flow'', ''net worth'',
     ''how much money do i have'', ''my balance'', ''account balance'']"

definition MIDAS_WORD_CUES :: "string list" where
  "MIDAS_WORD_CUES = [''balance'', ''balances'', ''spending'', ''transactions'', ''budget'']"

definition VOYAGER_MULTI_CUES :: "string list" where
  "VOYAGER_MULTI_CUES = [''how long to get'', ''how long does it take to get'', ''how far'', ''travel time'',
     ''coffee near'', ''restaurant near'']"

definition VOYAGER_WORD_CUES :: "string list" where
  "VOYAGER_WORD_CUES = [''directions'', ''route'', ''navigate'', ''nearby'', ''eta'', ''map'', ''maps'']"

definition AEGIS_MULTI_CUES :: "string list" where
  "AEGIS_MULTI_CUES = [''have i been pwned'', ''am i exposed'', ''am i protected'', ''data leak'',
     ''data breach'', ''security posture'', ''privacy check'', ''passwords leaked'', ''password leaked'',
     ''passwords been leaked'', ''my passwords leaked'']"

definition AEGIS_WORD_CUES :: "string list" where
  "AEGIS_WORD_CUES = [''breach'', ''breached'', ''breaches'', ''pwned'', ''filevault'']"

definition BABEL_MULTI_CUES :: "string list" where
  "BABEL_MULTI_CUES = [''translate'', ''translation'', ''how do you say'', ''how would you say'',
     ''what does'', ''say this in'', ''say that in'', ''put this in'']"

definition BABEL_WORD_CUES :: "string list" where
  "BABEL_WORD_CUES = [''interpret'', ''interpreter'']"

definition BABEL_RENDER_VERBS :: "string list" where
  "BABEL_RENDER_VERBS = [''say'', ''translate'', ''render'', ''write'', ''put'', ''how do you say'',
     ''how would you say'']"

definition BABEL_LANGUAGES :: "string list" where
  "BABEL_LANGUAGES = [''spanish'', ''french'', ''german'', ''italian'', ''portuguese'', ''dutch'', ''russian'',
     ''chinese'', ''mandarin'', ''cantonese'', ''japanese'', ''korean'', ''arabic'', ''hindi'', ''hebrew'',
     ''greek'', ''latin'', ''polish'', ''turkish'', ''swedish'', ''norwegian'', ''danish'', ''finnish'',
     ''czech'', ''vietnamese'', ''thai'', ''indonesian'', ''tagalog'', ''swahili'', ''ukrainian'',
     ''romanian'', ''hungarian'']"

definition is_anticipation_query :: "string \<Rightarrow> bool" where
  "is_anticipation_query lower = any_substring EDITH_CUES lower"

definition is_mission_query :: "string \<Rightarrow> bool" where
  "is_mission_query lower =
     list_ex (\<lambda>cue. if CHR '' '' \<in> set cue \<or> CHR ''-'' \<in> set cue then str_contains lower cue else contains_word lower cue) FURY_CUES"

definition is_forecast_query :: "string \<Rightarrow> bool" where
  "is_forecast_query lower = (any_substring CASSANDRA_MULTI_CUES lower \<or> any_word CASSANDRA_WORD_CUES lower)"

definition is_recall_query :: "string \<Rightarrow> bool" where
  "is_recall_query lower = any_substring MNEMOSYNE_CUES lower"

definition is_deep_research_query :: "string \<Rightarrow> bool" where
  "is_deep_research_query lower =
     (any_substring SAGE_MULTI_CUES lower \<or> any_word SAGE_WORD_CUES lower
      \<or> (any_word SAGE_DEPTH_ADVERBS lower \<and> any_substring SAGE_INVESTIGATION_CONTEXT lower))"

definition is_biometric_query :: "string \<Rightarrow> bool" where
  "is_biometric_query lower = (any_substring VITALIS_MULTI_CUES lower \<or> any_word VITALIS_WORD_CUES lower)"

definition is_triage_query :: "string \<Rightarrow> bool" where
  "is_triage_query lower = (any_substring KAREN_MULTI_CUES lower \<or> any_word KAREN_WORD_CUES lower)"

definition is_home_query :: "string \<Rightarrow> bool" where
  "is_home_query lower =
     (any_substring DUME_MULTI_CUES lower \<or> any_word DUME_WORD_CUES lower
      \<or> (any_substring DUME_BROAD_VERBS lower \<and> any_word DUME_DEVICE_CONTEXT lower))"

definition is_personal_finance_query :: "string \<Rightarrow> bool" where
  "is_personal_finance_query lower = (any_substring MIDAS_MULTI_CUES lower \<or> any_word MIDAS_WORD_CUES lower)"

definition is_travel_query :: "string \<Rightarrow> bool" where
  "is_travel_query lower = (any_substring VOYAGER_MULTI_CUES lower \<or> any_word VOYAGER_WORD_CUES lower)"

definition is_exposure_query :: "string \<Rightarrow> bool" where
  "is_exposure_query lower = (any_substring AEGIS_MULTI_CUES lower \<or> any_word AEGIS_WORD_CUES lower)"

text \<open>A language counts when a preposition introduces it, over at most one determiner.\<close>

definition words_of :: "(rchar \<Rightarrow> bool) \<Rightarrow> string \<Rightarrow> string list" where
  "words_of ua lower = map concat (filter (\<lambda>w. w \<noteq> []) (split_on (\<lambda>c. \<not> is_alphanumeric ua c) (chars lower)))"

definition introduced :: "string list \<Rightarrow> nat \<Rightarrow> bool" where
  "introduced ws i =
     (let j = (if 0 < i \<and> ws ! (i - 1) \<in> {''the'', ''a'', ''an''} then i - 1 else i)
      in 0 < j \<and> ws ! (j - 1) \<in> {''in'', ''into'', ''to''})"

definition is_translation_query :: "(rchar \<Rightarrow> bool) \<Rightarrow> string \<Rightarrow> bool" where
  "is_translation_query ua lower =
     (list_ex (\<lambda>cue. if cue = ''what does'' then str_contains lower ''what does'' \<and> str_contains lower ''mean in''
                    else str_contains lower cue) BABEL_MULTI_CUES
      \<or> any_word BABEL_WORD_CUES lower
      \<or> (let ws = words_of ua lower in
          list_ex (\<lambda>lang. list_ex (\<lambda>i. ws ! i = lang \<and> introduced ws i) [0..<length ws]) BABEL_LANGUAGES
          \<and> list_ex (\<lambda>cue. if CHR '' '' \<in> set cue then agent_contains_phrase lower cue else contains_word lower cue) BABEL_RENDER_VERBS))"

section \<open>The choice\<close>

definition by_intent :: "string \<Rightarrow> string option" where
  "by_intent intent =
     (if intent \<in> {''app.launch'', ''app.control''} then Some ''oracle''
      else if intent \<in> {''web.open'', ''file.op''} then Some ''vision''
      else if intent = ''system.query'' then Some ''ultron''
      else if intent \<in> {''memory.store'', ''memory.recall''} then Some ''pepper''
      else if intent \<in> {''docsearch.index'', ''docsearch.forget''} then Some ''mnemosyne''
      else if intent \<in> {''docsearch.build_graph'', ''knowledge.build''} then Some ''mnemosyne''
      else None)"

definition KEYWORDS :: "(string list \<times> string) list" where
  "KEYWORDS =
    [([''bug'', ''build'', ''compile'', ''code'', ''pr'', ''repo'', ''refactor'', ''deploy'',
       ''patch''], ''steve''),
     ([''research'', ''competitor'', ''competitors'', ''trend'', ''trends'', ''osint'', ''ad'', ''ads'',
       ''investigate'', ''lookup'', ''footprint''], ''vision''),
     ([''news'', ''brief'', ''briefing'', ''morning'', ''overnight'', ''headline'', ''headlines'',
       ''schedule'', ''agenda''], ''friday''),
     ([''content'', ''post'', ''caption'', ''draft'', ''write'', ''copy'', ''message'', ''reply'',
       ''tweet'', ''email''], ''veronica''),
     ([''security'', ''monitor'', ''monitoring'', ''threat'', ''intrusion'', ''firewall'', ''defend'',
       ''defensive'', ''lockdown''], ''ultron''),
     ([''market'', ''markets'', ''trade'', ''trading'', ''stock'', ''stocks'', ''crypto'',
       ''portfolio'', ''ticker''], ''gecko''),
     ([''workout'', ''exercise'', ''training'', ''train'', ''nutrition'', ''diet'', ''macros'',
       ''fitness'', ''lift'', ''run''], ''hercules''),
     ([''meeting'', ''meetings'', ''notes'', ''minutes'', ''standup'', ''sync''], ''herald''),
     ([''music'', ''play'', ''song'', ''playlist'', ''track'', ''dj'', ''volume'', ''tune''], ''jerome''),
     ([''remind'', ''reminder'', ''remember'', ''schedule'', ''calendar'', ''reflect'',
       ''consolidate''], ''pepper''),
     ([''workflow'', ''workflows'', ''automate'', ''automation'', ''chain'', ''routine''], ''oracle''),
     ([''chapter'', ''rush'', ''fraternity'', ''sorority'', ''greek'', ''pledge'', ''social''], ''athena''),
     ([''business'', ''metrics'', ''kpi'', ''revenue'', ''decision'', ''strategy''], ''stark'')]"

definition by_keyword :: "string \<Rightarrow> string option" where
  "by_keyword lower = map_option snd (find (\<lambda>(cues, _). any_word cues lower) KEYWORDS)"

text \<open>\<open>if let Some(a) = self.get(name) { return a; }\<close> under a condition, else the rest.\<close>

definition offer :: "roster \<Rightarrow> bool \<Rightarrow> string \<Rightarrow> agent \<Rightarrow> agent" where
  "offer R cond name rest = (if cond then (case get_agent R name of Some a \<Rightarrow> a | None \<Rightarrow> rest) else rest)"

definition offer_opt :: "roster \<Rightarrow> string option \<Rightarrow> agent \<Rightarrow> agent" where
  "offer_opt R name rest = (case name of None \<Rightarrow> rest | Some n \<Rightarrow> offer R True n rest)"

definition select_agent :: "(rchar \<Rightarrow> bool) \<Rightarrow> (string \<Rightarrow> string) \<Rightarrow> roster \<Rightarrow> string \<Rightarrow> string \<Rightarrow> bool \<Rightarrow> agent" where
  "select_agent ua low R intent text cloud_reachable =
     (let lower = low text in
      offer R (\<not> cloud_reachable \<and> intent = ''conversation'') ''hulk'' (
      offer R (is_recall_query lower) ''mnemosyne'' (
      offer_opt R (by_intent intent) (
      offer R (is_anticipation_query lower) ''edith'' (
      offer R (is_mission_query lower) ''fury'' (
      offer R (is_forecast_query lower) ''cassandra'' (
      offer R (is_deep_research_query lower) ''sage'' (
      offer R (is_biometric_query lower) ''vitalis'' (
      offer R (is_exposure_query lower) ''aegis'' (
      offer R (is_triage_query lower) ''karen'' (
      offer R (is_translation_query ua lower) ''babel'' (
      offer R (is_home_query lower) ''dume'' (
      offer R (is_personal_finance_query lower) ''midas'' (
      offer R (is_travel_query lower) ''voyager'' (
      offer_opt R (by_keyword lower) (orchestrator R))))))))))))))))"

section \<open>The canonical roster\<close>

definition CANONICAL_ROSTER :: "(string \<times> string \<times> string \<times> nat \<times> string list) list" where
  "CANONICAL_ROSTER =
    [(''darwin'',
      ''Prime Orchestrator: hears every request, delegates to the right agent, keeps you updated, ensures nothing falls through'',
      ''bm_george'', 190,
      [''*'']),
     (''friday'',
      ''Daily Intel: morning briefs, news, schedule, what-changed-overnight'',
      ''bf_emma'', 35,
      [''conversation'', ''system.query'', ''memory.recall'', ''system_status'', ''recall_facts'',
      ''gcal_list_events'', ''gmail_list_recent'', ''gmail_read_message'', ''gdrive_list_files'',
      ''gdrive_search'', ''world_query'', ''world_update'', ''skill_list'', ''skill_invoke'']),
     (''veronica'',
      ''Content + Comms: drafts content and messages'',
      ''af_bella'', 320,
      [''conversation'', ''memory.store'', ''memory.recall'', ''remember_fact'', ''recall_facts'',
      ''slack_list_channels'', ''slack_read_channel'', ''slack_post_message'', ''gdrive_upload_text'',
      ''connect_x'', ''connect_linkedin'', ''x_recent_tweets'', ''x_mentions'', ''x_post'', ''linkedin_me'',
      ''linkedin_post'', ''world_query'']),
     (''vision'',
      ''Research + OSINT: competitors, trends, ads, deep research on authorized targets'',
      ''bf_isabella'', 265,
      [''conversation'', ''web.open'', ''web.search'', ''file.op'', ''memory.recall'', ''web_search'',
      ''open_url'', ''search_files'', ''recall_facts'', ''world_query'']),
     (''ultron'',
      ''Security + Automation: defensive monitoring of your Mac and LAN; automation, no offensive tooling'',
      ''am_onyx'', 15,
      [''conversation'', ''system.query'', ''memory.recall'', ''system_status'', ''recall_facts'',
      ''world_query'']),
     (''athena'',
      ''Greek-Life Strategy: chapter, rush, and social strategy advisor'',
      ''af_nova'', 50,
      [''conversation'', ''memory.store'', ''memory.recall'', ''remember_fact'', ''recall_facts'',
      ''world_query'']),
     (''stark'',
      ''Business Intel: metrics, competitors, business decisions'',
      ''am_adam'', 205,
      [''conversation'', ''web.search'', ''memory.recall'', ''web_search'', ''recall_facts'',
      ''connect_linkedin'', ''linkedin_me'', ''linkedin_post'', ''connect_google_ads'', ''connect_meta_ads'',
      ''gads_report'', ''gads_pause_campaign'', ''gads_enable_campaign'', ''gads_set_budget'', ''meta_report'',
      ''meta_pause_campaign'', ''meta_resume_campaign'', ''meta_set_budget'', ''world_query'']),
     (''steve'',
      ''CTO + Builds: investigates bugs, makes code changes, opens GitHub PRs (future)'',
      ''am_michael'', 150,
      [''conversation'', ''file.op'', ''system.query'', ''memory.recall'', ''search_files'', ''open_path'',
      ''system_status'', ''recall_facts'', ''github_list_prs'', ''github_get_pr'', ''github_list_issues'',
      ''github_comment_issue'', ''github_open_pr'', ''forge_app'', ''code_explain'', ''code_propose_diff'',
      ''changeq_list'', ''changeq_apply'', ''shell_run'', ''ui_actuate'', ''world_query'']),
     (''oracle'',
      ''Workflows: chains actions into repeatable workflows'',
      ''bm_lewis'', 280,
      [''conversation'', ''app.launch'', ''app.control'', ''system.query'', ''memory.recall'', ''open_app'',
      ''quit_app'', ''system_status'', ''recall_facts'', ''forge_app'', ''standing_create'', ''standing_list'',
      ''standing_cancel'', ''world_query'']),
     (''gecko'',
      ''Markets + Capital: market watch, trading research (no live market feed)'',
      ''bm_daniel'', 120,
      [''conversation'', ''web.search'', ''memory.recall'', ''web_search'', ''recall_facts'',
      ''connect_google_ads'', ''connect_meta_ads'', ''gads_report'', ''gads_pause_campaign'',
      ''gads_enable_campaign'', ''gads_set_budget'', ''meta_report'', ''meta_pause_campaign'',
      ''meta_resume_campaign'', ''meta_set_budget'', ''world_query'']),
     (''hercules'',
      ''Fitness + Nutrition: training and nutrition coaching'',
      ''am_fenrir'', 90,
      [''conversation'', ''memory.store'', ''memory.recall'', ''remember_fact'', ''recall_facts'',
      ''world_query'']),
     (''pepper'',
      ''Personal EA + Reflection: scheduling, reminders, reflective consolidation'',
      ''bf_alice'', 300,
      [''conversation'', ''memory.store'', ''memory.recall'', ''remember_fact'', ''recall_facts'',
      ''gcal_list_events'', ''gcal_create_event'', ''gmail_list_recent'', ''gmail_read_message'',
      ''gmail_send'', ''gdrive_list_files'', ''gdrive_search'', ''gdrive_upload_text'', ''pasteboard_recall'',
      ''pasteboard_put'', ''world_query'', ''world_update'']),
     (''hulk'',
      ''Offline Survival: the all-local mode when the cloud is unreachable'',
      ''am_echo'', 110,
      [''conversation'', ''system.query'', ''app.launch'', ''app.control'', ''file.op'', ''memory.store'',
      ''memory.recall'', ''world_query'']),
     (''herald'',
      ''Meetings: capture, notes, scheduling'',
      ''bm_fable'', 220,
      [''conversation'', ''memory.store'', ''memory.recall'', ''remember_fact'', ''recall_facts'',
      ''gcal_list_events'', ''gcal_create_event'', ''world_query'']),
     (''jerome'',
      ''Leisure + DJ: music and entertainment control'',
      ''af_river'', 340,
      [''conversation'', ''app.launch'', ''app.control'', ''memory.recall'', ''open_app'', ''quit_app'',
      ''recall_facts'', ''world_query'']),
     (''edith'',
      ''Proactive Sentinel: watches your signals and surfaces what matters before you ask'',
      ''af_sky'', 170,
      [''conversation'', ''system.query'', ''memory.recall'', ''system_status'', ''recall_facts'',
      ''gcal_list_events'', ''gmail_list_recent'', ''edith_brief'', ''edith_watch'', ''world_query'']),
     (''fury'',
      ''Mission Orchestrator: decomposes a goal, dispatches the right agents, drives it to done'',
      ''am_eric'', 235,
      [''conversation'', ''system.query'', ''memory.recall'', ''system_status'', ''recall_facts'',
      ''fury_mission'', ''standing_create'', ''standing_list'', ''standing_cancel'', ''mission_save'',
      ''mission_list'', ''mission_resume'', ''mission_cancel'', ''world_query'']),
     (''cassandra'',
      ''Forecast & Simulation: runs the numbers, models scenarios, reports the odds'',
      ''af_aoede'', 250,
      [''conversation'', ''memory.recall'', ''recall_facts'', ''cassandra_forecast'', ''cassandra_simulate'',
      ''world_query'']),
     (''mnemosyne'',
      apos ''Semantic Memory: recalls what you'' ''ve told DARWIN and surfaces the relevant past'',
      ''af_kore'', 130,
      [''conversation'', ''memory.recall'', ''recall_facts'', ''mnemosyne_recall'', ''episodic_recall'',
      ''world_query'', ''world_update'', ''user_model_query'', ''user_model_correct'', ''user_model_forget'',
      ''skill_list'', ''skill_invoke'', ''doc_search'', ''unified_search'', ''artifact_peek'',
      ''share_guard_scrub'', ''pasteboard_recall'', ''aperture_recall'', ''screen_recall'',
      ''docsearch.index'', ''docsearch.forget'', ''docsearch.build_graph'', ''knowledge.build'']),
     (''sage'',
      ''Deep Research: multi-source investigation with cited synthesis'',
      ''am_puck'', 245,
      [''conversation'', ''web.search'', ''web.open'', ''memory.recall'', ''web_search'', ''open_url'',
      ''recall_facts'', ''sage_research'', ''world_query'', ''skill_list'', ''skill_invoke'']),
     (''vitalis'',
      ''Health & Biometrics: tracks recovery, strain, and sleep, and tells you what your body is saying'',
      ''af_heart'', 160,
      [''conversation'', ''memory.recall'', ''recall_facts'', ''connect_whoop'', ''vitalis_recovery'',
      ''vitalis_sleep'', ''vitalis_strain'', ''world_query'']),
     (''karen'',
      ''Comms Autopilot: triages your inbox and channels, drafts replies, sends only on your say-so'',
      ''af_sarah'', 200,
      [''conversation'', ''memory.recall'', ''recall_facts'', ''karen_triage'', ''karen_draft'',
      ''draft_compose'', ''draft_list'', ''draft_forget'', ''gmail_list_recent'', ''gmail_read_message'',
      ''gmail_send'', ''slack_list_channels'', ''slack_read_channel'', ''slack_post_message'', ''x_mentions'',
      ''x_recent_tweets'', ''x_post'', ''world_query'']),
     (''dume'',
      ''Home & Environment: reads and controls your smart-home devices through your hub'',
      ''am_liam'', 140,
      [''conversation'', ''memory.recall'', ''recall_facts'', ''dume_devices'', ''dume_control'',
      ''world_query'']),
     (''midas'',
      ''Personal Treasury: reads your balances and spending and tells you where the money goes '' @ dash @ '' never moves it'',
      ''am_santa'', 100,
      [''conversation'', ''memory.recall'', ''recall_facts'', ''midas_balances'', ''midas_transactions'',
      ''midas_spending'', ''world_query'']),
     (''voyager'',
      ''Travel & Logistics: routes, places, and travel times '' @ dash @ '' gets you there'',
      ''bf_lily'', 180,
      [''conversation'', ''memory.recall'', ''recall_facts'', ''voyager_directions'', ''voyager_places'',
      ''voyager_eta'', ''world_query'']),
     (''aegis'',
      apos ''Defense & Privacy: checks your exposure and the machine'' ''s security posture'',
      ''af_nicole'', 210,
      [''conversation'', ''memory.recall'', ''recall_facts'', ''aegis_breach_check'', ''aegis_posture'',
      ''aegis_introspect'', ''aegis_report'', ''aegis_triage'', ''world_query'']),
     (''babel'',
      ''Translation & Interpretation: renders text between languages and interprets speech turn-by-turn (transcribe -> translate -> speak); continuous real-time live-mic interpretation is device-gated'',
      ''af_jessica'', 155,
      [''conversation'', ''memory.recall'', ''recall_facts'', ''babel_translate'', ''babel_interpret'',
      ''world_query''])]"

definition canonical_agent :: "string \<times> string \<times> string \<times> nat \<times> string list \<Rightarrow> agent" where
  "canonical_agent = (\<lambda>(name, role, voice, hue, tools).
     \<lparr> ag_name = name, ag_role = role, ag_voice = voice, ag_hue = hue,
       ag_persona = ''inference/personas/'' @ name @ ''.txt'', ag_tools = tools, ag_namespace = ''agent.'' @ name \<rparr>)"

definition canonical_agents :: "agent list" where
  "canonical_agents = map canonical_agent CANONICAL_ROSTER"

definition canonical :: roster where
  "canonical = \<lparr> team = canonical_agents, lead_at = 0 \<rparr>"

section \<open>What the choice promises\<close>

lemma trim_list_head: "\<not> P x \<Longrightarrow> \<exists>ys. trim_list P (x # xs) = x # ys"
proof -
  assume x: "\<not> P x"
  have "\<exists>us. dropWhile P (zs @ [x]) = us @ [x]" for zs using x by (induction zs) (auto intro: exI [of _ "[]"])
  then obtain us where "dropWhile P (rev xs @ [x]) = us @ [x]" by blast
  then show ?thesis using x by (simp add: trim_list_def)
qed

lemma trim_head: "is_ascii c \<Longrightarrow> \<not> ascii_ws c \<Longrightarrow> trim (c # s) \<noteq> []"
  using trim_list_head [of is_whitespace "[c]" "chars s"]
  by (auto simp: trim_def chars_ascii_Cons is_whitespace_byte)

lemma canonical_names: "distinct (map ag_name canonical_agents) \<and> canonical_agents \<noteq> []"
  by (simp add: canonical_agents_def CANONICAL_ROSTER_def canonical_agent_def)

lemma canonical_sound: "list_all sound_agent canonical_agents"
  unfolding canonical_agents_def CANONICAL_ROSTER_def canonical_agent_def
  by (simp add: sound_agent_def trim_head ascii_ws_def)

lemma canonical_lead: "position is_orchestrator canonical_agents = Some 0"
  by (simp add: canonical_agents_def CANONICAL_ROSTER_def canonical_agent_def is_orchestrator_def TOOLS_WILDCARD_def)

lemma canonical_loads: "from_agents canonical_agents = Inr canonical"
proof -
  have "is_orchestrator (canonical_agents ! 0) \<and> 0 < length canonical_agents"
    using position_Some [OF canonical_lead] by simp
  then show ?thesis
    using canonical_names canonical_sound canonical_lead
    by (simp add: from_agents_sound canonical_def sound_roster_def orchestrator_def)
qed

definition ACTION_INTENTS :: "string list" where
  "ACTION_INTENTS = [''app.launch'', ''app.control'', ''web.open'', ''file.op'', ''system.query'', ''memory.store'',
     ''memory.recall'', ''docsearch.index'', ''docsearch.forget'', ''docsearch.build_graph'', ''knowledge.build'']"

lemma canonical_owners:
  "list_all (\<lambda>i. case by_intent i of None \<Rightarrow> False
     | Some n \<Rightarrow> (case get_agent canonical n of None \<Rightarrow> False | Some a \<Rightarrow> may_use a i)) ACTION_INTENTS"
  by code_simp

lemma canonical_converse: "list_all (\<lambda>a. may_use a ''conversation'') (team canonical)"
  by code_simp

lemma canonical_missions: "map ag_name (filter (\<lambda>a. may_use a ''fury_mission'') (team canonical)) = [''darwin'', ''fury'']"
  by code_simp

lemma offer_in: "rest \<in> set (team R) \<Longrightarrow> offer R c n rest \<in> set (team R)"
  by (auto simp: offer_def get_agent_def find_Some_iff split: option.splits)

lemma offer_opt_in: "rest \<in> set (team R) \<Longrightarrow> offer_opt R n rest \<in> set (team R)"
  by (auto simp: offer_opt_def offer_in split: option.splits)

lemma select_in_team: "sound_roster R \<Longrightarrow> select_agent ua low R intent text cloud \<in> set (team R)"
  unfolding select_agent_def Let_def
  by (intro offer_in offer_opt_in) (simp add: sound_roster_def orchestrator_def)

lemma canonical_sound_roster: "sound_roster canonical"
  using canonical_loads from_agents_sound by blast

text \<open>
  With the shipped roster the choice and the allowlists agree: whoever \<open>select\<close> names for a
  conversation or, unless the words ask for a recall, for one of the action intents already holds that
  intent, so the isolation step of the router hands the turn to nobody else.
\<close>
theorem canonical_choice_is_not_rerouted:
  assumes "intent = ''conversation'' \<or> intent \<in> set ACTION_INTENTS \<and> \<not> is_recall_query (low text)"
  shows "enforce_tool canonical (select_agent ua low canonical intent text cloud) intent
       = select_agent ua low canonical intent text cloud
    \<and> select_agent ua low canonical intent text cloud \<in> set canonical_agents"
proof -
  let ?a = "select_agent ua low canonical intent text cloud"
  have team: "?a \<in> set (team canonical)" using select_in_team canonical_sound_roster .
  have "may_use ?a intent"
  proof (cases "intent = ''conversation''")
    case True
    then show ?thesis using canonical_converse team by (auto simp: list_all_iff)
  next
    case False
    then have i: "intent \<in> set ACTION_INTENTS" "\<not> is_recall_query (low text)" using assms by auto
    have "case by_intent intent of None \<Rightarrow> False
      | Some n \<Rightarrow> (case get_agent canonical n of None \<Rightarrow> False | Some a \<Rightarrow> may_use a intent)"
      using canonical_owners i(1) by (simp add: list_all_iff)
    then obtain n a where n: "by_intent intent = Some n" "get_agent canonical n = Some a" "may_use a intent"
      by (auto split: option.splits)
    then have "?a = a" using False i(2) by (simp add: select_agent_def offer_def offer_opt_def Let_def)
    then show ?thesis using n(3) by simp
  qed
  then show ?thesis using team by (simp add: enforce_tool_def canonical_def)
qed

lemma canonical_choice_is_not_rerouted_witness:
  "enforce_tool canonical (select_agent (\<lambda>_. False) (\<lambda>s. s) canonical ''web.open'' ''open the news'' True) ''web.open''
     = select_agent (\<lambda>_. False) (\<lambda>s. s) canonical ''web.open'' ''open the news'' True"
proof -
  have "''web.open'' \<in> set ACTION_INTENTS \<and> \<not> is_recall_query ''open the news''" by code_simp
  then show ?thesis using canonical_choice_is_not_rerouted [of "''web.open''" "\<lambda>s. s" "''open the news''"] by blast
qed

end
