(* ===== verification/Mission.thy ===== *)
theory Mission
  imports AgentSelect
begin

text \<open>
  The mission engine of \<open>daemon/src/mission.rs\<close>: a goal is planned, the plan is bounded, each
  sub-task is routed to its owner and dispatched, and the results are told. The planner is a
  parameter, an answer of the cloud. The dispatcher is a parameter that acts on the world; what it may
  call back is the tool \<open>fury_mission\<close>, which re-enters the engine, so the dispatcher takes that
  tool as an argument. The depth of a task is the argument \<open>depth\<close>.
\<close>

definition MAX_SUBTASKS :: nat where
  "MAX_SUBTASKS = 6"

definition MAX_DEPTH :: nat where
  "MAX_DEPTH = 1"

definition MISSION_BUDGET :: nat where
  "MISSION_BUDGET = MAX_SUBTASKS"

record planned_task =
  pt_intent :: string
  pt_instruction :: string

record dispatched =
  dp_agent :: string
  dp_instruction :: string

record sub_result =
  sr_agent :: string
  sr_instruction :: string
  sr_outcome :: string
  sr_failed :: bool

record mission_report =
  mr_goal :: string
  mr_results :: "sub_result list"
  mr_planned :: nat
  mr_truncated :: bool

section \<open>The pure core\<close>

definition nested_mission_refused :: "string \<Rightarrow> string" where
  "nested_mission_refused goal = ''A sub-task can'' @ apos [] ''t launch its own mission, sir '' @ dash
     @ '' missions run exactly one level deep. I did not start '' @ dquoted (trim goal)
     @ ''; ask me for it as a mission of its own and I'' @ apos [] ''ll run it.''"

definition bound_plan :: "planned_task list \<Rightarrow> planned_task list \<times> nat" where
  "bound_plan raw =
     (let cleaned = filter (\<lambda>t. trim (pt_instruction t) \<noteq> []) raw
      in (take MAX_SUBTASKS cleaned, length cleaned))"

definition route_task :: "(rchar \<Rightarrow> bool) \<Rightarrow> (string \<Rightarrow> string) \<Rightarrow> roster \<Rightarrow> bool \<Rightarrow> planned_task \<Rightarrow> dispatched" where
  "route_task ua low R cloud_reachable t =
     (let owner = select_agent ua low R (pt_intent t) (pt_instruction t) cloud_reachable in
      \<lparr> dp_agent = (if ag_name owner = ''fury'' then ag_name (orchestrator R) else ag_name owner),
        dp_instruction = pt_instruction t \<rparr>)"

definition route_plan ::
    "(rchar \<Rightarrow> bool) \<Rightarrow> (string \<Rightarrow> string) \<Rightarrow> roster \<Rightarrow> planned_task list \<Rightarrow> bool \<Rightarrow> dispatched list" where
  "route_plan ua low R plan cloud_reachable = map (route_task ua low R cloud_reachable) plan"

definition RECURSION_CUES :: "string list" where
  "RECURSION_CUES = [''run a mission'', ''launch a mission'', ''start a mission'', ''another mission'',
     ''fury_mission'', ''assemble the team'', ''orchestrate everything'']"

definition would_recurse :: "(string \<Rightarrow> string) \<Rightarrow> string \<Rightarrow> bool" where
  "would_recurse low instruction = any_substring RECURSION_CUES (low instruction)"

definition told :: "sub_result \<Rightarrow> string" where
  "told r =
     (if sr_failed r then sr_agent r @ '' couldn'' @ apos [] ''t complete its piece ('' @ trim (sr_outcome r) @ ''). ''
      else sr_agent r @ '': '' @ trim (sr_outcome r) @ '' '')"

definition synthesize :: "mission_report \<Rightarrow> string" where
  "synthesize rep =
     (if mr_results rep = [] then
        ''I couldn'' @ apos [] ''t break '' @ dquoted (trim (mr_goal rep)) @ '' into anything actionable, sir '' @ dash
        @ '' give me a more concrete objective.''
      else trim (''Mission on '' @ dquoted (trim (mr_goal rep)) @ '', sir. '' @ concat (map told (mr_results rep))
        @ (if mr_truncated rep
           then ''I capped the mission at '' @ nat_text (length (mr_results rep)) @ '' of the '' @ nat_text (mr_planned rep)
             @ '' steps to keep it bounded; the rest weren'' @ apos [] ''t attempted.''
           else ''That'' @ apos [] ''s the team'' @ apos [] ''s report.'')))"

definition offline_degrade :: "string \<Rightarrow> string" where
  "offline_degrade goal = ''Missions need the cloud, sir '' @ dash @ '' I can'' @ apos [] ''t assemble the team offline. Reconnect and I''
     @ apos [] ''ll run '' @ dquoted (trim goal) @ '' for you.''"

section \<open>The engine\<close>

text \<open>A dispatcher: the tool it may call back, the agent, its tools, the instruction and a depth.\<close>

type_synonym 'w dispatcher =
  "(string \<Rightarrow> 'w \<Rightarrow> string \<times> 'w) \<Rightarrow> string \<Rightarrow> string list \<Rightarrow> string \<Rightarrow> nat \<Rightarrow> 'w \<Rightarrow> (string + string) \<times> 'w"

record 'w mission_env =
  mn_ua :: "rchar \<Rightarrow> bool"
  mn_low :: "string \<Rightarrow> string"
  mn_roster :: roster
  mn_planner :: "string \<Rightarrow> 'w \<Rightarrow> (string + planned_task list) \<times> 'w"
  mn_dispatch :: "'w dispatcher"

definition tools_of :: "roster \<Rightarrow> string \<Rightarrow> string list" where
  "tools_of R n = (case get_agent R n of Some a \<Rightarrow> ag_tools a | None \<Rightarrow> [])"

text \<open>The loop over the routed plan, with what is left of the budget.\<close>

definition dispatch_one ::
    "'w mission_env \<Rightarrow> (string \<Rightarrow> 'w \<Rightarrow> string \<times> 'w) \<Rightarrow> dispatched \<Rightarrow> 'w \<Rightarrow> sub_result \<times> 'w" where
  "dispatch_one V tool d w =
     (if would_recurse (mn_low V) (dp_instruction d)
      then (\<lparr> sr_agent = dp_agent d, sr_instruction = dp_instruction d,
              sr_outcome = ''a sub-task cannot launch its own mission'', sr_failed = True \<rparr>, w)
      else let (res, w1) = mn_dispatch V tool (dp_agent d) (tools_of (mn_roster V) (dp_agent d)) (dp_instruction d) 0 w in
        (\<lparr> sr_agent = dp_agent d, sr_instruction = dp_instruction d,
           sr_outcome = (case res of Inl e \<Rightarrow> e | Inr a \<Rightarrow> a), sr_failed = isl res \<rparr>, w1))"

fun run_subtasks ::
    "'w mission_env \<Rightarrow> (string \<Rightarrow> 'w \<Rightarrow> string \<times> 'w) \<Rightarrow> nat \<Rightarrow> dispatched list \<Rightarrow> 'w \<Rightarrow> sub_result list \<times> 'w" where
  "run_subtasks V tool budget [] w = ([], w)"
| "run_subtasks V tool 0 (d # ds) w = ([], w)"
| "run_subtasks V tool (Suc b) (d # ds) w =
     (let (r, w1) = dispatch_one V tool d w; (rs, w2) = run_subtasks V tool b ds w1 in (r # rs, w2))"

definition run_mission_inner ::
    "'w mission_env \<Rightarrow> (string \<Rightarrow> 'w \<Rightarrow> string \<times> 'w) \<Rightarrow> string \<Rightarrow> bool \<Rightarrow> 'w \<Rightarrow> string \<times> 'w" where
  "run_mission_inner V tool goal cloud_reachable w =
     (if \<not> cloud_reachable then (offline_degrade goal, w)
      else case mn_planner V goal w of
        (Inl e, w1) \<Rightarrow> (''I couldn'' @ apos [] ''t plan that mission, sir '' @ dash @ '' '' @ e
            @ ''. Give me the objective again, more concretely.'', w1)
      | (Inr raw, w1) \<Rightarrow>
          (let (bounded, planned) = bound_plan raw;
               (results, w2) = run_subtasks V tool MISSION_BUDGET
                 (route_plan (mn_ua V) (mn_low V) (mn_roster V) bounded cloud_reachable) w1
           in (synthesize \<lparr> mr_goal = goal, mr_results = results, mr_planned = planned,
                 mr_truncated = (length bounded < planned \<or> length results < length bounded) \<rparr>, w2)))"

text \<open>The tool a sub-task sees is the engine one level deeper, so the bound on the depth ends the recursion.\<close>

function run_mission :: "'w mission_env \<Rightarrow> nat \<Rightarrow> bool \<Rightarrow> string \<Rightarrow> 'w \<Rightarrow> string \<times> 'w" where
  "run_mission V depth cloud_reachable goal w =
     (if MAX_DEPTH \<le> depth then (nested_mission_refused goal, w)
      else run_mission_inner V (run_mission V (depth + 1) cloud_reachable) goal cloud_reachable w)"
  by pat_completeness auto
termination by (relation "measure (\<lambda>(V, depth, c, g, w). MAX_DEPTH - depth)") auto

declare run_mission.simps [simp del]

section \<open>The planner's text\<close>

definition PLANNING_HEAD :: string where
  "PLANNING_HEAD = ''You are FURY, a mission orchestrator. Break this goal into a SHORT ordered list of at most '' @ nat_text MAX_SUBTASKS
     @ '' concrete, single-step sub-tasks, each a plain instruction a specialist could carry out in ONE turn. Do NOT nest missions or create a sub-task that itself orchestrates others. Output ONE sub-task per line, no numbering, no commentary.''"

definition planning_prompt :: "string \<Rightarrow> string" where
  "planning_prompt goal = PLANNING_HEAD @ [CHR 0x0A, CHR 0x0A] @ ''GOAL: '' @ goal"

text \<open>\<open>str::lines\<close>: a terminated line loses one carriage return.\<close>

definition drop_cr :: "string \<Rightarrow> string" where
  "drop_cr l = (if l \<noteq> [] \<and> last l = CHR 0x0D then butlast l else l)"

definition lines_of :: "string \<Rightarrow> string list" where
  "lines_of s = (let ps = split_on (\<lambda>c. c = CHR 0x0A) s
     in map drop_cr (butlast ps) @ (if last ps = [] then [] else [last ps]))"

definition MARKERS :: "string list" where
  "MARKERS = [''- '', ''* '', [CHR 0xE2, CHR 0x80, CHR 0xA2, CHR '' ''], [CHR 0xE2, CHR 0x80, CHR 0x93] @ ''  '', dash @ '' '']"

definition strip_list_marker :: "string \<Rightarrow> string" where
  "strip_list_marker line =
     (let t = trim_start line;
          head = takeWhile (\<lambda>c. c \<noteq> CHR ''.'' \<and> c \<noteq> CHR '')'') t in
      if length head < length t \<and> head \<noteq> [] \<and> list_all ascii_digit head then trim_start (drop (Suc (length head)) t)
      else case find_map (\<lambda>m. strip_prefix m t) MARKERS of
        Some rest \<Rightarrow> trim_start rest | None \<Rightarrow> t)"

definition parse_plan :: "string \<Rightarrow> planned_task list" where
  "parse_plan raw =
     map (\<lambda>l. \<lparr> pt_intent = ''conversation'', pt_instruction = l \<rparr>)
       (filter (\<lambda>l. l \<noteq> []) (map (\<lambda>l. strip_list_marker (trim l)) (lines_of raw)))"

section \<open>The dispatcher of the daemon\<close>

text \<open>
  \<open>CloudDispatcher\<close>: the second depth guard, the strip of the mission tool, then the cloud tool loop
  of the agent, a parameter, under the tools that are left.
\<close>

definition cloud_dispatch ::
    "(string \<Rightarrow> string) \<Rightarrow> ((string \<Rightarrow> 'w \<Rightarrow> string \<times> 'w) \<Rightarrow> string \<Rightarrow> string list \<Rightarrow> string \<Rightarrow> 'w \<Rightarrow> (string + string) \<times> 'w) \<Rightarrow> 'w dispatcher" where
  "cloud_dispatch low loop tool agent tools instruction depth w =
     (if MAX_DEPTH \<le> depth \<or> would_recurse low instruction
      then (Inl ''a sub-task cannot launch its own mission (depth guard)'', w)
      else loop tool agent (filter (\<lambda>t. t \<noteq> ''fury_mission'') tools) instruction w)"

section \<open>What the engine promises\<close>

text \<open>The tool that a sub-task of a mission sees is the refusal; nothing runs one level deeper.\<close>

definition refusal :: "string \<Rightarrow> 'w \<Rightarrow> string \<times> 'w" where
  "refusal goal w = (nested_mission_refused goal, w)"

lemma nested_is_refused: "run_mission V 1 c = refusal"
  by (rule ext, rule ext) (simp add: run_mission.simps MAX_DEPTH_def refusal_def)

lemma run_mission_top: "run_mission V 0 c goal w = run_mission_inner V refusal goal c w"
  using nested_is_refused [of V c] by (simp add: run_mission.simps [of V 0] MAX_DEPTH_def)

lemma run_mission_deep: "0 < depth \<Longrightarrow> run_mission V depth c goal w = refusal goal w"
  by (simp add: run_mission.simps MAX_DEPTH_def refusal_def)

lemma run_subtasks_length: "length (fst (run_subtasks V tool b ds w)) = min b (length ds)"
proof (induction ds arbitrary: b w)
  case (Cons d ds)
  then show ?case by (cases b) (simp_all add: case_prod_beta)
qed simp

lemma dispatch_one_spent:
  assumes "\<And>n ts i w. spent (snd (mn_dispatch V tool n ts i 0 w)) \<le> spent w + (k::nat)"
  shows "spent (snd (dispatch_one V tool d w)) \<le> spent w + k"
  using assms by (simp add: dispatch_one_def case_prod_beta)

lemma run_subtasks_spent:
  assumes "\<And>n ts i w. spent (snd (mn_dispatch V tool n ts i 0 w)) \<le> spent w + (k::nat)"
  shows "spent (snd (run_subtasks V tool b ds w)) \<le> spent w + b * k"
proof (induction ds arbitrary: b w)
  case (Cons d ds)
  have "spent (snd (dispatch_one V tool d w)) \<le> spent w + k" using dispatch_one_spent assms .
  then show ?case using Cons [of "b - 1" "snd (dispatch_one V tool d w)"] by (cases b) (auto simp: case_prod_beta)
qed simp

text \<open>
  C38. The ceiling on the cost of a mission. When a plan costs at most \<open>p\<close> and one sub-task at most \<open>k\<close>
  with a mission tool that does nothing, a mission costs at most \<open>p + 6 * k\<close>, whatever missions the
  sub-tasks ask for themselves.
\<close>

theorem mission_cost_is_bounded:
  assumes "\<And>g w. spent (snd (mn_planner V g w)) \<le> spent w + p"
    and "\<And>tool n ts i w. (\<And>g x. snd (tool g x) = x) \<Longrightarrow> spent (snd (mn_dispatch V tool n ts i 0 w)) \<le> spent w + (k::nat)"
  shows "spent (snd (run_mission V depth cloud goal w)) \<le> spent w + p + 6 * k"
proof (cases "depth = 0 \<and> cloud")
  case True
  obtain r w1 where pl: "mn_planner V goal w = (r, w1)" by fastforce
  have w1: "spent w1 \<le> spent w + p" using assms(1) [of goal w] pl by simp
  have "spent (snd (run_subtasks V refusal MISSION_BUDGET ds w1)) \<le> spent w1 + 6 * k" for ds
    using run_subtasks_spent [of spent V refusal k 6 ds w1] assms(2) [of refusal]
    by (simp add: refusal_def MISSION_BUDGET_def MAX_SUBTASKS_def)
  then have "spent (snd (run_subtasks V refusal MISSION_BUDGET ds w1)) \<le> spent w + p + 6 * k" for ds
    using w1 by (meson add_le_mono le_refl order_trans)
  then show ?thesis using True pl w1
    by (auto simp: run_mission_top run_mission_inner_def split: sum.splits prod.splits) (metis snd_conv)
next
  case False
  then show ?thesis by (cases "depth = 0") (auto simp: run_mission_top run_mission_deep run_mission_inner_def refusal_def)
qed

definition demo_mission :: "nat mission_env" where
  "demo_mission = \<lparr> mn_ua = (\<lambda>_. False), mn_low = (\<lambda>s. s), mn_roster = canonical,
     mn_planner = (\<lambda>g w. (Inr (replicate 9 \<lparr> pt_intent = ''conversation'', pt_instruction = ''once more'' \<rparr>), w + 1)),
     mn_dispatch = (\<lambda>tool n ts i d w. case tool ''again'' (w + 1) of (r, x) \<Rightarrow> (Inr r, x)) \<rparr>"

lemma mission_cost_is_bounded_witness: "snd (run_mission demo_mission 0 True ''a campaign'' 0) \<le> 7"
  using mission_cost_is_bounded [of "\<lambda>w. w" demo_mission 1 1 0 True "''a campaign''" 0]
  by (simp add: demo_mission_def case_prod_beta)

lemma routed_in_team:
  assumes "sound_roster R" and "ag_name (orchestrator R) \<noteq> ''fury''"
  obtains a where "a \<in> set (team R)" "ag_name a \<noteq> ''fury''" "dp_agent (route_task ua low R c t) = ag_name a"
proof -
  have o: "orchestrator R \<in> set (team R)" using assms(1) by (simp add: sound_roster_def orchestrator_def)
  let ?s = "select_agent ua low R (pt_intent t) (pt_instruction t) c"
  show ?thesis
  proof (cases "ag_name ?s = ''fury''")
    case True
    then show ?thesis using o assms by (intro that [of "orchestrator R"]) (simp_all add: route_task_def)
  next
    case False
    then show ?thesis using select_in_team [OF assms(1)] by (intro that [of ?s]) (simp_all add: route_task_def)
  qed
qed

lemma run_subtasks_cong:
  assumes "\<And>d w. d \<in> set ds \<Longrightarrow> dispatch_one V tool d w = dispatch_one V' tool d w"
  shows "run_subtasks V tool b ds w = run_subtasks V' tool b ds w"
  using assms
proof (induction ds arbitrary: b w)
  case (Cons d ds)
  then show ?case by (cases b) simp_all
qed simp

text \<open>
  C39. The scope of the sub-tasks, with the daemon's dispatcher. A mission calls the cloud tool loop only as
  a rostered agent other than fury, with the tools of that agent less the mission tool, and with a
  mission tool that refuses: two loops that agree on these calls give the same mission.
\<close>

theorem sub_tasks_stay_in_scope:
  assumes "sound_roster (mn_roster V)" and "ag_name (orchestrator (mn_roster V)) \<noteq> ''fury''"
    and "\<And>a i w. a \<in> set (team (mn_roster V)) \<Longrightarrow> ag_name a \<noteq> ''fury'' \<Longrightarrow> \<not> would_recurse (mn_low V) i \<Longrightarrow>
      loop refusal (ag_name a) (filter (\<lambda>t. t \<noteq> ''fury_mission'') (ag_tools a)) i w
      = loop' refusal (ag_name a) (filter (\<lambda>t. t \<noteq> ''fury_mission'') (ag_tools a)) i w"
  shows "run_mission (V\<lparr> mn_dispatch := cloud_dispatch (mn_low V) loop \<rparr>) depth cloud goal w
       = run_mission (V\<lparr> mn_dispatch := cloud_dispatch (mn_low V) loop' \<rparr>) depth cloud goal w"
proof -
  let ?R = "mn_roster V" and ?A = "V\<lparr> mn_dispatch := cloud_dispatch (mn_low V) loop \<rparr>"
    and ?B = "V\<lparr> mn_dispatch := cloud_dispatch (mn_low V) loop' \<rparr>"
  have "dispatch_one ?A refusal d x = dispatch_one ?B refusal d x"
    if "d \<in> set (route_plan (mn_ua V) (mn_low V) ?R ts c)" for d x ts c
  proof -
    have "d \<in> route_task (mn_ua V) (mn_low V) ?R c ` set ts" using that by (simp add: route_plan_def)
    then obtain t where "d = route_task (mn_ua V) (mn_low V) ?R c t" by blast
    then obtain a where a: "a \<in> set (team ?R)" "ag_name a \<noteq> ''fury''" "dp_agent d = ag_name a"
      using routed_in_team [OF assms(1,2)] by metis
    then have "tools_of ?R (dp_agent d) = ag_tools a" using get_agent_name [OF assms(1)] by (simp add: tools_of_def)
    then show ?thesis using a assms(3) [OF a(1,2), of "dp_instruction d" x]
      by (simp add: dispatch_one_def cloud_dispatch_def MAX_DEPTH_def)
  qed
  then have sub: "run_subtasks ?A refusal b (route_plan (mn_ua V) (mn_low V) ?R ts c) x
      = run_subtasks ?B refusal b (route_plan (mn_ua V) (mn_low V) ?R ts c) x" for b ts c x
    by (rule run_subtasks_cong)
  then have "run_mission_inner ?A refusal goal cloud w = run_mission_inner ?B refusal goal cloud w"
    by (simp add: run_mission_inner_def split: prod.splits sum.splits)
  then show ?thesis by (cases "depth = 0") (simp_all add: run_mission_top run_mission_deep)
qed

lemma sub_tasks_stay_in_scope_witness:
  "run_mission (demo_mission\<lparr> mn_dispatch := cloud_dispatch (\<lambda>s. s) (\<lambda>tool n ts i w. (Inr n, w + 1)) \<rparr>) 0 True ''a campaign'' 0
   = run_mission (demo_mission\<lparr> mn_dispatch := cloud_dispatch (\<lambda>s. s)
       (\<lambda>tool n ts i w. if n = ''fury'' \<or> ''fury_mission'' \<in> set ts \<or> fst (tool i w) \<noteq> nested_mission_refused i
          then (Inr ''out of scope'', 0) else (Inr n, w + 1)) \<rparr>) 0 True ''a campaign'' 0"
proof -
  have "ag_name (orchestrator canonical) \<noteq> ''fury''" by code_simp
  then show ?thesis
    using sub_tasks_stay_in_scope [of demo_mission "\<lambda>tool n ts i w. (Inr n, w + 1)"
        "\<lambda>tool n ts i w. if n = ''fury'' \<or> ''fury_mission'' \<in> set ts \<or> fst (tool i w) \<noteq> nested_mission_refused i
          then (Inr ''out of scope'', 0) else (Inr n, w + 1)" 0 True "''a campaign''" 0]
      canonical_sound_roster by (simp add: demo_mission_def refusal_def)
qed

text \<open>The report answers for every step that fits, in the order of the plan, and says when it stopped.\<close>

lemma run_subtasks_instructions:
  "map sr_instruction (fst (run_subtasks V tool b ds w)) = map dp_instruction (take b ds)"
proof (induction ds arbitrary: b w)
  case (Cons d ds)
  then show ?case by (cases b) (simp_all add: case_prod_beta dispatch_one_def)
qed simp

lemma trim_closed:
  assumes "is_ascii h" "\<not> ascii_ws h"
  shows "trim (h # t @ ''.'') = h # t @ ''.''"
proof -
  let ?s = "h # t @ ''.''"
  obtain cs c where c: "chars ?s = cs @ [c]" by (metis concat_chars concat.simps(1) list.distinct(1) rev_exhaust)
  have "c \<noteq> []" using chars_not_Nil [of c ?s] c by simp
  have "concat (cs @ [c]) = ?s" unfolding c [symmetric] by (rule concat_chars)
  then have "last (concat cs @ c) = last ?s" by simp
  then have "last c = CHR ''.''" using \<open>c \<noteq> []\<close> by simp
  then have w: "\<not> is_whitespace c" by (auto simp: is_whitespace_def whitespace_chars_eval)
  have h: "chars ?s = [h] # chars (t @ ''.'')" "\<not> is_whitespace [h]"
    using assms by (auto simp: chars_ascii_Cons is_whitespace_byte)
  have "dropWhile is_whitespace (chars ?s) = chars ?s" using h by simp
  moreover have "dropWhile is_whitespace (rev (chars ?s)) = rev (chars ?s)" using w unfolding c by simp
  ultimately have "trim_list is_whitespace (chars ?s) = chars ?s" by (simp only: trim_list_def rev_rev_ident)
  then show ?thesis by (simp only: trim_def concat_chars)
qed

lemma trim_mission: "e = y @ ''.'' \<Longrightarrow> trim (''Mission on '' @ x @ e) = ''Mission on '' @ x @ e"
  using trim_closed [of "CHR ''M''" "''ission on '' @ x @ y"] by (simp add: is_ascii_def ascii_ws_def)

lemma trim_whole: "trim (''Mission on '' @ x @ ''That'' @ apos [] ''s the team'' @ apos [] ''s report.'')
  = ''Mission on '' @ x @ ''That'' @ apos [] ''s the team'' @ apos [] ''s report.''"
  by (rule trim_mission [where y = "''That'' @ apos [] ''s the team'' @ apos [] ''s report''"]) (simp add: apos_def)

lemma trim_capped: "trim (''Mission on '' @ x @ ''I capped the mission at '' @ a @ '' of the '' @ b
    @ '' steps to keep it bounded; the rest weren'' @ apos [] ''t attempted.'')
  = ''Mission on '' @ x @ ''I capped the mission at '' @ a @ '' of the '' @ b
    @ '' steps to keep it bounded; the rest weren'' @ apos [] ''t attempted.''"
  by (rule trim_mission [where y = "''I capped the mission at '' @ a @ '' of the '' @ b
    @ '' steps to keep it bounded; the rest weren'' @ apos [] ''t attempted''"]) (simp add: apos_def)

lemma synthesize_results:
  assumes "rs \<noteq> []"
  shows "synthesize \<lparr> mr_goal = goal, mr_results = rs, mr_planned = n, mr_truncated = tr \<rparr>
    = ''Mission on '' @ dquoted (trim goal) @ '', sir. '' @ concat (map told rs)
      @ (if tr then ''I capped the mission at '' @ nat_text (length rs) @ '' of the '' @ nat_text n
             @ '' steps to keep it bounded; the rest weren'' @ apos [] ''t attempted.''
         else ''That'' @ apos [] ''s the team'' @ apos [] ''s report.'')"
  using assms trim_whole [of "dquoted (trim goal) @ '', sir. '' @ concat (map told rs)"]
    trim_capped [of "dquoted (trim goal) @ '', sir. '' @ concat (map told rs)" "nat_text (length rs)" "nat_text n"]
  unfolding synthesize_def by (cases tr) (simp_all only: sub_result.simps mission_report.simps if_True if_False append_assoc)

theorem mission_reports_every_step:
  assumes "mn_planner V goal w = (Inr raw, w1)"
    and "steps = filter (\<lambda>t. trim (pt_instruction t) \<noteq> []) raw" and "steps \<noteq> []"
  shows "\<exists>rs. map sr_instruction rs = map pt_instruction (take 6 steps)
    \<and> fst (run_mission V 0 True goal w) = ''Mission on '' @ dquoted (trim goal) @ '', sir. '' @ concat (map told rs)
        @ (if length steps \<le> 6 then ''That'' @ apos [] ''s the team'' @ apos [] ''s report.''
           else ''I capped the mission at 6 of the '' @ nat_text (length steps)
             @ '' steps to keep it bounded; the rest weren'' @ apos [] ''t attempted.'')"
proof -
  let ?ds = "route_plan (mn_ua V) (mn_low V) (mn_roster V) (take 6 steps) True"
  let ?rs = "fst (run_subtasks V refusal 6 ?ds w1)"
  have i: "map sr_instruction ?rs = map pt_instruction (take 6 steps)"
    by (simp add: run_subtasks_instructions route_plan_def route_task_def Let_def comp_def)
  have six: "nat_text 6 = ''6''" by code_simp
  have l: "length ?rs = min 6 (length steps)" by (simp add: run_subtasks_length route_plan_def)
  then have "?rs \<noteq> []" using assms(3) by (auto simp: min_def split: if_splits)
  then have "fst (run_mission V 0 True goal w) = synthesize \<lparr> mr_goal = goal, mr_results = ?rs,
      mr_planned = length steps, mr_truncated = (6 < length steps) \<rparr>"
    using assms(1) l by (auto simp: run_mission_top run_mission_inner_def bound_plan_def assms(2) [symmetric]
      MAX_SUBTASKS_def MISSION_BUDGET_def case_prod_beta min_def)
  then show ?thesis using i l synthesize_results [OF \<open>?rs \<noteq> []\<close>]
    by (intro exI [of _ ?rs]) (simp add: six min_def)
qed

lemma mission_reports_every_step_witness:
  "\<exists>rs. map sr_instruction rs = replicate 6 ''once more''
    \<and> fst (run_mission demo_mission 0 True ''a campaign'' 0)
      = ''Mission on '' @ dquoted (trim ''a campaign'') @ '', sir. '' @ concat (map told rs)
        @ ''I capped the mission at 6 of the '' @ nat_text 9 @ '' steps to keep it bounded; the rest weren'' @ apos [] ''t attempted.''"
proof -
  let ?t = "\<lparr> pt_intent = ''conversation'', pt_instruction = ''once more'' \<rparr>"
  have "trim (''once more'') \<noteq> []" by code_simp
  then have f: "replicate 9 ?t = filter (\<lambda>t. trim (pt_instruction t) \<noteq> []) (replicate 9 ?t)" by simp
  show ?thesis
    using mission_reports_every_step [of demo_mission "''a campaign''" 0 "replicate 9 ?t" 1 "replicate 9 ?t", OF _ f]
    by (simp add: demo_mission_def min_def)
qed

end
