(* ===== verification/DurableMission.thy ===== *)
theory DurableMission
  imports Mission Macros
begin

text \<open>
  The durable missions of \<open>daemon/src/durable_missions.rs\<close> and their tools in \<open>anthropic.rs\<close>: a mission
  is one JSON row of the fact table, comes back paused, and runs only by an explicit resume through the
  engine of the theory Mission. The world is the fact table and whatever else the planner and the
  dispatcher change. The text of a record (serde_json), SHA-256, hex and Unicode lowering are parameters,
  the clock readings are arguments; errors of the database and telemetry frames are outside the model.
\<close>

definition DEFAULT_RETENTION :: nat where
  "DEFAULT_RETENTION = 50"

definition MISSION_PREFIX :: string where
  "MISSION_PREFIX = ''meta.mission.''"

definition DURABLE_GOAL_LEN :: nat where
  "DURABLE_GOAL_LEN = 600"

datatype mission_status = MPaused | MActive | MDone | MCancelled

definition mission_status_text :: "mission_status \<Rightarrow> string" where
  "mission_status_text s = (case s of MPaused \<Rightarrow> ''paused'' | MActive \<Rightarrow> ''active'' | MDone \<Rightarrow> ''done'' | MCancelled \<Rightarrow> ''cancelled'')"

datatype step_status = SPending | SDone | SFailed

record durable_step =
  dst_instruction :: string
  dst_status :: step_status

record durable_mission =
  dm_id :: string
  dm_goal :: string
  dm_status :: mission_status
  dm_steps :: "durable_step list"
  dm_created :: string

record durable_codec =
  dm_text :: "durable_mission \<Rightarrow> string"
  dm_read :: "string \<Rightarrow> durable_mission option"
  dm_ext :: externals
  dm_low :: "string \<Rightarrow> string"

section \<open>The store\<close>

definition mission_id :: "durable_codec \<Rightarrow> string \<Rightarrow> string" where
  "mission_id C goal = hex (dm_ext C) (take 6 (sha256 (dm_ext C) (dm_low C (trim goal))))"

definition new_durable :: "durable_codec \<Rightarrow> string \<Rightarrow> string \<Rightarrow> durable_mission" where
  "new_durable C created goal =
     (let g = bound_text DURABLE_GOAL_LEN goal in
      \<lparr> dm_id = mission_id C g, dm_goal = g, dm_status = MPaused, dm_steps = [], dm_created = created \<rparr>)"

definition durable_key :: "string \<Rightarrow> string" where
  "durable_key mid = MISSION_PREFIX @ mid"

definition durable_save :: "durable_codec \<Rightarrow> scope option \<Rightarrow> string \<Rightarrow> durable_mission \<Rightarrow> facts \<Rightarrow> facts" where
  "durable_save C turn ts m fs = upsert_fact_at turn (durable_key (dm_id m)) (dm_text C m) ts fs"

definition evict_missions :: "nat \<Rightarrow> facts \<Rightarrow> facts" where
  "evict_missions keep fs =
     (let rows = recall_facts_limited MISSION_PREFIX 1024 fs in
      if length rows \<le> keep then fs
      else fold (\<lambda>kv fs. fst (delete_fact (fst kv) fs)) (drop keep rows) fs)"

definition durable_create ::
    "durable_codec \<Rightarrow> scope option \<Rightarrow> string \<Rightarrow> string \<Rightarrow> nat \<Rightarrow> string \<Rightarrow> facts \<Rightarrow> facts \<times> durable_mission" where
  "durable_create C turn created ts retention goal fs =
     (let m = new_durable C created goal in (evict_missions (max retention 1) (durable_save C turn ts m fs), m))"

definition paused_on_load :: "mission_status \<Rightarrow> mission_status" where
  "paused_on_load s = (case s of MDone \<Rightarrow> MDone | MCancelled \<Rightarrow> MCancelled | MActive \<Rightarrow> MPaused | MPaused \<Rightarrow> MPaused)"

definition as_loaded :: "durable_mission \<Rightarrow> durable_mission" where
  "as_loaded m = m\<lparr> dm_status := paused_on_load (dm_status m) \<rparr>"

definition durable_load :: "durable_codec \<Rightarrow> string \<Rightarrow> facts \<Rightarrow> durable_mission option" where
  "durable_load C mid fs = map_option as_loaded (Option.bind (get_fact (durable_key (trim mid)) fs) (dm_read C))"

definition durable_list :: "durable_codec \<Rightarrow> facts \<Rightarrow> durable_mission list" where
  "durable_list C fs = map as_loaded (List.map_filter (\<lambda>kv. dm_read C (snd kv)) (recall_facts_limited MISSION_PREFIX 512 fs))"

definition durable_cancel :: "string \<Rightarrow> facts \<Rightarrow> facts \<times> bool" where
  "durable_cancel mid fs = delete_fact (durable_key (trim mid)) fs"

section \<open>Resuming\<close>

text \<open>
  \<open>CountingDispatcher\<close>: the world is paired with the count of the tasks handed to the inner dispatcher.
  The tool of a sub-task is the one the inner dispatcher knows, so it sees and changes the inner world.
\<close>

definition counting_dispatch :: "'w dispatcher \<Rightarrow> (nat \<times> 'w) dispatcher" where
  "counting_dispatch D tool agent tools instruction depth = (\<lambda>(n, w).
     let (r, w') = D (\<lambda>g x. let (t, y) = tool g (Suc n, x) in (t, snd y)) agent tools instruction depth w
     in (r, (Suc n, w')))"

definition counting :: "'w mission_env \<Rightarrow> (nat \<times> 'w) mission_env" where
  "counting V = \<lparr> mn_ua = mn_ua V, mn_low = mn_low V, mn_roster = mn_roster V,
     mn_planner = (\<lambda>g (n, w). let (r, w') = mn_planner V g w in (r, (n, w'))),
     mn_dispatch = counting_dispatch (mn_dispatch V) \<rparr>"

definition durable_resume ::
    "durable_codec \<Rightarrow> scope option \<Rightarrow> string \<Rightarrow> string \<Rightarrow> (facts \<times> 'v) mission_env \<Rightarrow> nat \<Rightarrow> bool \<Rightarrow> string
       \<Rightarrow> facts \<times> 'v \<Rightarrow> string \<times> (facts \<times> 'v)" where
  "durable_resume C turn t1 t2 V depth cloud mid w =
     (case durable_load C mid (fst w) of
        None \<Rightarrow> (''I have no durable mission with id '' @ mid @ '' to resume.'', w)
      | Some m \<Rightarrow>
          if dm_status m = MDone then (''Mission '' @ dquoted (dm_goal m) @ '' already completed; nothing to resume.'', w)
          else if dm_status m = MCancelled
          then (''Mission '' @ dquoted (dm_goal m) @ '' was cancelled; re-establish it to run again.'', w)
          else
            (let fs1 = durable_save C turn t1 (m\<lparr> dm_status := MActive \<rparr>) (fst w);
                 (answer, n, fs2, v) = run_mission (counting V) depth cloud (dm_goal m) (0, fs1, snd w);
                 fs3 = durable_save C turn t2 (m\<lparr> dm_status := if 0 < n then MDone else MPaused \<rparr>) fs2
             in (answer, fs3, v)))"

section \<open>The tools\<close>

record missions_config =
  mc_durable :: bool
  mc_retention :: nat

definition missions_config_of :: "missions_config option \<Rightarrow> missions_config" where
  "missions_config_of cfg = (case cfg of Some c \<Rightarrow> c | None \<Rightarrow> \<lparr> mc_durable = False, mc_retention = DEFAULT_RETENTION \<rparr>)"

definition bracketed_id :: "durable_mission \<Rightarrow> string" where
  "bracketed_id m = ''['' @ dm_id m @ ''] '' @ dquoted (dm_goal m)"

definition mission_save_tool ::
    "durable_codec \<Rightarrow> missions_config option \<Rightarrow> scope option \<Rightarrow> string \<Rightarrow> string \<Rightarrow> string \<Rightarrow> facts \<Rightarrow> string \<times> facts" where
  "mission_save_tool C cfg turn created ts goal fs =
     (if \<not> mc_durable (missions_config_of cfg)
      then (''Durable missions are OFF ([missions].durable = false), so I saved nothing. Enable them to persist a mission across restarts.'', fs)
      else if trim goal = [] then (''I need a goal to save as a durable mission, sir.'', fs)
      else let (fs', m) = durable_create C turn created ts (mc_retention (missions_config_of cfg)) (trim goal) fs in
        (''Saved durable mission '' @ bracketed_id m @ '' '' @ dash @ apos '' it'' ''s PAUSED and won'' @ apos [] ''t run on its own. Say '' @ apos [] ''resume mission ''
           @ dm_id m @ apos [] '' when you want me to run it (each consequential step still asks first).'', fs'))"

definition mission_row :: "durable_mission \<Rightarrow> string" where
  "mission_row m = ''- '' @ bracketed_id m @ '' '' @ dash @ '' '' @ mission_status_text (dm_status m) @ '' ('' @ nat_text (length (dm_steps m))
     @ '' step'' @ (if length (dm_steps m) = 1 then [] else ''s'') @ '')'' @ [CHR 0x0A]"

definition mission_state_note :: "bool \<Rightarrow> string" where
  "mission_state_note durable =
     (if durable then ''Durable missions are enabled '' @ dash @ '' saved ones are PAUSED and run only when you resume them.''
      else ''Durable missions are OFF ([missions].durable = false) '' @ dash @ '' these are not being persisted.'')"

definition mission_list_tool :: "durable_codec \<Rightarrow> missions_config option \<Rightarrow> facts \<Rightarrow> string" where
  "mission_list_tool C cfg fs =
     (let note = mission_state_note (mc_durable (missions_config_of cfg)); ms = durable_list C fs in
      if ms = [] then ''No durable missions are saved. '' @ note
      else ''Durable missions:'' @ [CHR 0x0A] @ concat (map mission_row ms) @ note)"

definition mission_resume_tool ::
    "durable_codec \<Rightarrow> missions_config option \<Rightarrow> scope option \<Rightarrow> string \<Rightarrow> string \<Rightarrow> (facts \<times> 'v) mission_env \<Rightarrow> nat \<Rightarrow> bool \<Rightarrow> string
       \<Rightarrow> facts \<times> 'v \<Rightarrow> string \<times> (facts \<times> 'v)" where
  "mission_resume_tool C cfg turn t1 t2 V depth key mid w =
     (if \<not> mc_durable (missions_config_of cfg)
      then (''Durable missions are OFF ([missions].durable = false), so there is nothing to resume.'', w)
      else durable_resume C turn t1 t2 (V\<lparr> mn_roster := canonical \<rparr>) depth key mid w)"

definition mission_cancel_tool :: "string \<Rightarrow> facts \<Rightarrow> string \<times> facts" where
  "mission_cancel_tool mid fs =
     (case durable_cancel mid fs of
        (fs', True) \<Rightarrow> (''Cancelled durable mission '' @ trim mid @ ''.'', fs')
      | (fs', False) \<Rightarrow> (''I have no durable mission with id '' @ trim mid @ '' to cancel.'', fs'))"

section \<open>What a durable mission promises\<close>

text \<open>The law of the codec that the records rest on.\<close>

definition durable_codec_ok :: "durable_codec \<Rightarrow> bool" where
  "durable_codec_ok C \<longleftrightarrow> (\<forall>m. dm_read C (dm_text C m) = Some m)"

lemma not_active_on_load: "paused_on_load s \<noteq> MActive"
  by (cases s) (simp_all add: paused_on_load_def)

lemma loaded_not_active: "durable_load C mid fs = Some m \<Longrightarrow> dm_status m \<noteq> MActive"
  using not_active_on_load by (auto simp: durable_load_def as_loaded_def)

lemma listed_not_active: "m \<in> set (durable_list C fs) \<Longrightarrow> dm_status m \<noteq> MActive"
  using not_active_on_load by (auto simp: durable_list_def as_loaded_def)

lemma load_saved:
  assumes "durable_codec_ok C" and "\<not> guest_write_blocked turn" and "dm_id m = trim mid"
  shows "durable_load C mid (durable_save C turn ts m fs) = Some (as_loaded m)"
  using assms by (simp add: durable_load_def durable_save_def durable_codec_ok_def get_fact_upsert)

text \<open>The count is the number of the tasks that reach the dispatcher.\<close>

definition reaches :: "(string \<Rightarrow> string) \<Rightarrow> dispatched \<Rightarrow> bool" where
  "reaches low d \<longleftrightarrow> \<not> would_recurse low (dp_instruction d)"

lemma count_subtasks:
  "fst (snd (run_subtasks (counting V) tool b ds nw)) = fst nw + length (filter (reaches (mn_low V)) (take b ds))"
proof (induction ds arbitrary: b nw)
  case (Cons d ds)
  have "fst (snd (dispatch_one (counting V) tool d nw)) = fst nw + (if reaches (mn_low V) d then 1 else 0)"
    by (cases nw) (simp add: dispatch_one_def counting_def counting_dispatch_def reaches_def case_prod_beta)
  then show ?case using Cons by (cases b) (simp_all add: case_prod_beta)
qed simp

text \<open>Whether a resume reaches a dispatch: on its own level, online, with a plan that has a plain step.\<close>

definition run_starts :: "'w mission_env \<Rightarrow> nat \<Rightarrow> bool \<Rightarrow> string \<Rightarrow> 'w \<Rightarrow> bool" where
  "run_starts V depth cloud goal w \<longleftrightarrow> depth = 0 \<and> cloud
     \<and> (case fst (mn_planner V goal w) of Inl _ \<Rightarrow> False
        | Inr raw \<Rightarrow> list_ex (\<lambda>t. \<not> would_recurse (mn_low V) (pt_instruction t)) (fst (bound_plan raw)))"

lemma count_mission: "0 < fst (snd (run_mission (counting V) depth cloud goal (0, w))) \<longleftrightarrow> run_starts V depth cloud goal w"
proof (cases "depth = 0 \<and> cloud")
  case True
  obtain r w1 where p: "mn_planner V goal w = (r, w1)" by fastforce
  then have p': "mn_planner (counting V) goal (0, w) = (r, (0, w1))" by (simp add: counting_def)
  show ?thesis
  proof (cases r)
    case (Inr raw)
    let ?ds = "route_plan (mn_ua V) (mn_low V) (mn_roster V) (fst (bound_plan raw)) True"
    have "0 < length (filter (reaches (mn_low V)) (take MISSION_BUDGET ?ds)) \<longleftrightarrow>
        list_ex (\<lambda>t. \<not> would_recurse (mn_low V) (pt_instruction t)) (fst (bound_plan raw))"
      by (auto simp: bound_plan_def MISSION_BUDGET_def route_plan_def reaches_def route_task_def Let_def filter_empty_conv
        list_ex_iff filter_map comp_def take_map)
    then show ?thesis using True p p' Inr
      by (simp add: run_mission_top run_mission_inner_def run_starts_def case_prod_beta count_subtasks)
         (simp add: counting_def)
  qed (use True p p' in \<open>simp add: run_mission_top run_mission_inner_def run_starts_def\<close>)
next
  case False
  then show ?thesis by (cases "depth = 0") (auto simp: run_mission_top run_mission_deep run_mission_inner_def refusal_def run_starts_def)
qed

lemma resume_run:
  assumes "durable_codec_ok C" and "\<not> guest_write_blocked turn"
    and "durable_load C mid fs = Some m" and "dm_status m = MPaused" and "dm_id m = trim mid"
  shows "durable_load C mid (fst (snd (durable_resume C turn t1 t2 V depth cloud mid (fs, v))))
    = Some (m\<lparr> dm_status := if run_starts V depth cloud (dm_goal m) (durable_save C turn t1 (m\<lparr> dm_status := MActive \<rparr>) fs, v)
        then MDone else MPaused \<rparr>)"
proof -
  let ?w = "(durable_save C turn t1 (m\<lparr> dm_status := MActive \<rparr>) fs, v)"
  obtain a n fs2 v2 where r: "run_mission (counting V) depth cloud (dm_goal m) (0, ?w) = (a, n, fs2, v2)" by (metis prod_cases4)
  have n: "0 < n \<longleftrightarrow> run_starts V depth cloud (dm_goal m) ?w" using count_mission [of V depth cloud "dm_goal m" ?w] by (simp add: r)
  have "snd (durable_resume C turn t1 t2 V depth cloud mid (fs, v))
      = (durable_save C turn t2 (m\<lparr> dm_status := if 0 < n then MDone else MPaused \<rparr>) fs2, v2)"
    using assms(3,4) r by (simp add: durable_resume_def Let_def)
  then show ?thesis using load_saved [OF assms(1,2), of "m\<lparr> dm_status := if 0 < n then MDone else MPaused \<rparr>" mid] assms(5) n
    by (simp add: as_loaded_def paused_on_load_def)
qed

text \<open>
  C40. A resume marks the mission done exactly when the engine handed a step to an agent. An attempt that
  could not start, offline, without a plan or from inside another mission, leaves it as it was: paused
  and resumable.
\<close>

theorem resume_done_exactly:
  assumes "durable_codec_ok C" and "\<not> guest_write_blocked turn"
    and "durable_load C mid fs = Some m" and "dm_status m = MPaused" and "dm_id m = trim mid"
  shows "durable_load C mid (fst (snd (durable_resume C turn t1 t2 V depth cloud mid (fs, v))))
    = Some (m\<lparr> dm_status := if run_starts V depth cloud (dm_goal m) (durable_save C turn t1 (m\<lparr> dm_status := MActive \<rparr>) fs, v)
        then MDone else MPaused \<rparr>)"
  by (rule resume_run [OF assms])

text \<open>A mission that is done or cancelled does not run again, and an unknown one runs nothing.\<close>

lemma terminal_not_rerun:
  assumes "\<And>m. durable_load C mid (fst w) = Some m \<Longrightarrow> dm_status m = MDone \<or> dm_status m = MCancelled"
  shows "snd (durable_resume C turn t1 t2 V depth cloud mid w) = w"
  using assms by (auto simp: durable_resume_def split: option.splits)

text \<open>
  A cancel that lands while the resume is planning does not last: the last save of the resume writes the
  row again, here after a plan that failed.
\<close>

lemma cancel_during_resume_is_undone:
  assumes "durable_codec_ok C" and "\<not> guest_write_blocked turn"
    and "durable_load C mid fs = Some m" and "dm_status m = MPaused" and "dm_id m = trim mid"
    and "\<And>g w. mn_planner V g w = (Inl ''overloaded'', (fst (durable_cancel mid (fst w)), snd w))"
  shows "durable_load C mid (fst (snd (durable_resume C turn t1 t2 V 0 True mid (fs, v)))) = Some m"
proof -
  have "\<not> run_starts V 0 True (dm_goal m) w" for w using assms(6) by (simp add: run_starts_def)
  then show ?thesis using resume_run [OF assms(1-5), of t1 t2 V 0 True v] assms(4) by simp
qed

section \<open>A concrete store\<close>

definition demo_step_text :: "durable_step \<Rightarrow> string list" where
  "demo_step_text s = [dst_instruction s, (case dst_status s of SPending \<Rightarrow> ''p'' | SDone \<Rightarrow> ''d'' | SFailed \<Rightarrow> ''f'')]"

fun demo_steps_of :: "string list \<Rightarrow> durable_step list" where
  "demo_steps_of (i # t # r) =
     \<lparr> dst_instruction = i, dst_status = (if t = ''p'' then SPending else if t = ''d'' then SDone else SFailed) \<rparr> # demo_steps_of r"
| "demo_steps_of _ = []"

definition demo_status_of :: "string \<Rightarrow> mission_status" where
  "demo_status_of s = (if s = ''paused'' then MPaused else if s = ''active'' then MActive else if s = ''done'' then MDone else MCancelled)"

definition demo_missions :: durable_codec where
  "demo_missions = \<lparr>
     dm_text = (\<lambda>m. concat (map demo_field
       ([dm_id m, dm_goal m, mission_status_text (dm_status m), dm_created m] @ concat (map demo_step_text (dm_steps m))))),
     dm_read = (\<lambda>s. case demo_fields [] s of
       i # g # t # c # r \<Rightarrow> Some \<lparr> dm_id = i, dm_goal = g, dm_status = demo_status_of t, dm_steps = demo_steps_of r, dm_created = c \<rparr>
     | _ \<Rightarrow> None),
     dm_ext = demo_externals, dm_low = to_ascii_lowercase \<rparr>"

lemma demo_missions_ok: "durable_codec_ok demo_missions"
proof -
  have steps: "demo_steps_of (concat (map demo_step_text ss)) = ss" for ss
    by (induction ss) (auto simp: demo_step_text_def split: step_status.splits)
  have status: "demo_status_of (mission_status_text t) = t" for t
    by (cases t) (simp_all add: mission_status_text_def demo_status_of_def)
  show ?thesis
    unfolding durable_codec_ok_def demo_missions_def
    by (simp add: steps status demo_fields_all del: concat.simps map_append list.map)
qed

definition demo_saved :: durable_mission where
  "demo_saved = \<lparr> dm_id = ''c0de'', dm_goal = ''plan the trip'', dm_status = MActive, dm_steps = [], dm_created = ''2026'' \<rparr>"

definition demo_crew :: "(facts \<times> nat) mission_env" where
  "demo_crew = \<lparr> mn_ua = (\<lambda>_. False), mn_low = (\<lambda>s. s), mn_roster = canonical,
     mn_planner = (\<lambda>g w. (Inr [\<lparr> pt_intent = ''conversation'', pt_instruction = ''find a hotel'' \<rparr>], w)),
     mn_dispatch = (\<lambda>tool n ts i d w. (Inr ''booked'', (fst w, snd w + 1))) \<rparr>"

lemma demo_saved_loads:
  "durable_load demo_missions ''c0de'' (durable_save demo_missions None ts demo_saved []) = Some (demo_saved\<lparr> dm_status := MPaused \<rparr>)"
proof -
  have "trim ''c0de'' = ''c0de''" by code_simp
  then show ?thesis using load_saved [OF demo_missions_ok, of None demo_saved "''c0de''" ts "[]"]
    by (simp add: guest_write_blocked_def is_guest_turn_def demo_saved_def as_loaded_def paused_on_load_def)
qed

lemma resume_done_exactly_witness:
  "map_option dm_status (durable_load demo_missions ''c0de'' (fst (snd (durable_resume demo_missions None ''1'' ''2'' demo_crew 0 True ''c0de''
     (durable_save demo_missions None ''0'' demo_saved [], 0))))) = Some MDone
   \<and> map_option dm_status (durable_load demo_missions ''c0de'' (fst (snd (durable_resume demo_missions None ''1'' ''2'' demo_crew 0 False ''c0de''
     (durable_save demo_missions None ''0'' demo_saved [], 0))))) = Some MPaused"
proof -
  have t: "trim ''c0de'' = ''c0de''" by code_simp
  have "list_ex (\<lambda>t. \<not> would_recurse (\<lambda>s. s) (pt_instruction t)) (fst (bound_plan [\<lparr> pt_intent = ''conversation'', pt_instruction = ''find a hotel'' \<rparr>]))"
    by code_simp
  then have s: "run_starts demo_crew 0 True g w" "\<not> run_starts demo_crew 0 False g w" for g w
    by (simp_all add: run_starts_def demo_crew_def)
  show ?thesis
    using resume_done_exactly [OF demo_missions_ok _ demo_saved_loads [of "''0''"], of None "''1''" "''2''" demo_crew 0 True 0]
      resume_done_exactly [OF demo_missions_ok _ demo_saved_loads [of "''0''"], of None "''1''" "''2''" demo_crew 0 False 0] s t
    by (simp add: guest_write_blocked_def is_guest_turn_def demo_saved_def)
qed

end
