(* ===== verification/Overnight.thy ===== *)
theory Overnight
  imports Macros Disk "HOL-Library.Signed_Division"
begin

text \<open>
  The overnight queue of \<open>daemon/src/overnight.rs\<close> and the tick of \<open>main.rs\<close> that runs it: a bounded list
  of tasks in one file, a run of every queued task through a completion without tools while the owner is
  away, and the morning brief. The world is the disk and whatever else a completion changes while it is
  awaited. The text of a queue (serde_json), the ids of \<open>DefaultHasher\<close>, the parser of timestamps and
  whether a write is reported as done are parameters; an instant is a number of nanoseconds.
\<close>

definition MAX_QUEUE :: nat where
  "MAX_QUEUE = 20"

definition PROMPT_MAX :: nat where
  "PROMPT_MAX = 2000"

definition RESULT_MAX :: nat where
  "RESULT_MAX = 4000"

definition BRIEF_ITEMS :: nat where
  "BRIEF_ITEMS = 8"

datatype task_status = TQueued | TDone | TFailed

definition task_wire :: "task_status \<Rightarrow> string" where
  "task_wire s = (case s of TQueued \<Rightarrow> ''queued'' | TDone \<Rightarrow> ''done'' | TFailed \<Rightarrow> ''failed'')"

record overnight_task =
  ot_id :: string
  ot_prompt :: string
  ot_agent :: string
  ot_enqueued :: string
  ot_status :: task_status
  ot_result :: string

record brief_item =
  bi_prompt :: string
  bi_result :: string
  bi_status :: string

record morning_brief =
  mb_done :: nat
  mb_failed :: nat
  mb_pending :: nat
  mb_items :: "brief_item list"

record overnight_env =
  ov_text :: "overnight_task list \<Rightarrow> string"
  ov_read :: "string \<Rightarrow> overnight_task list option"
  ov_id :: "string \<Rightarrow> string \<Rightarrow> string"
  ov_instant :: "string \<Rightarrow> int option"
  ov_write_ok :: "disk \<Rightarrow> string \<Rightarrow> string \<Rightarrow> bool"

definition bound_chars :: "nat \<Rightarrow> string \<Rightarrow> string" where
  "bound_chars n s = concat (take n (chars (redact s)))"

section \<open>The files\<close>

definition queue_root :: "string \<Rightarrow> string" where
  "queue_root root = root @ ''/state/overnight''"

definition queue_path :: "string \<Rightarrow> string" where
  "queue_path root = queue_root root @ ''/queue.json''"

definition last_run_path :: "string \<Rightarrow> string" where
  "last_run_path root = queue_root root @ ''/last_run.txt''"

definition load_queue :: "overnight_env \<Rightarrow> string \<Rightarrow> disk \<Rightarrow> overnight_task list" where
  "load_queue E root d =
     (case Option.bind (read_file d (queue_path root)) (ov_read E) of Some ts \<Rightarrow> ts | None \<Rightarrow> [])"

definition save_queue :: "overnight_env \<Rightarrow> string \<Rightarrow> overnight_task list \<Rightarrow> disk \<Rightarrow> bool \<times> disk" where
  "save_queue E root ts d =
     (ov_write_ok E d (queue_path root) (ov_text E ts), write_file (queue_path root) (ov_text E ts) d)"

definition read_last_run :: "overnight_env \<Rightarrow> string \<Rightarrow> disk \<Rightarrow> int option" where
  "read_last_run E root d = Option.bind (read_file d (last_run_path root)) (\<lambda>s. ov_instant E (trim s))"

definition write_last_run :: "string \<Rightarrow> string \<Rightarrow> disk \<Rightarrow> disk" where
  "write_last_run root now d = write_file (last_run_path root) now d"

section \<open>The queue\<close>

definition queued :: "overnight_task \<Rightarrow> bool" where
  "queued t \<longleftrightarrow> ot_status t = TQueued"

definition new_task :: "overnight_env \<Rightarrow> string \<Rightarrow> string \<Rightarrow> string \<Rightarrow> overnight_task" where
  "new_task E prompt agent enqueued =
     \<lparr> ot_id = ov_id E prompt enqueued, ot_prompt = bound_chars PROMPT_MAX prompt, ot_agent = bound_chars 64 agent,
       ot_enqueued = enqueued, ot_status = TQueued, ot_result = [] \<rparr>"

fun remove_first :: "('a \<Rightarrow> bool) \<Rightarrow> 'a list \<Rightarrow> 'a list option" where
  "remove_first P [] = None"
| "remove_first P (x # xs) = (if P x then Some xs else map_option (Cons x) (remove_first P xs))"

definition plan_enqueue ::
    "overnight_env \<Rightarrow> overnight_task list \<Rightarrow> string \<Rightarrow> string \<Rightarrow> string \<Rightarrow> overnight_task list option" where
  "plan_enqueue E tasks prompt agent enqueued =
     map_option (\<lambda>ts. ts @ [new_task E prompt agent enqueued])
       (if MAX_QUEUE \<le> length tasks then remove_first (\<lambda>t. \<not> queued t) tasks else Some tasks)"

definition enqueue ::
    "overnight_env \<Rightarrow> string \<Rightarrow> bool \<Rightarrow> bool \<Rightarrow> string \<Rightarrow> string \<Rightarrow> string \<Rightarrow> disk \<Rightarrow> string \<times> disk" where
  "enqueue E root enabled cloud_key_present raw agent now d =
     (if \<not> enabled
      then (''Overnight agents are off, sir '' @ dash @ '' turn on [overnight].enabled and I'' @ apos [] ''ll run queued work while you'' @ apos [] ''re away.'', d)
      else let prompt = trim raw in
      if prompt = []
      then (apos ''There'' ''s nothing to queue, sir '' @ dash @ '' tell me what to look into overnight.'', d)
      else case plan_enqueue E (load_queue E root d) prompt agent now of
        None \<Rightarrow> (''The overnight queue is full, sir '' @ dash @ '' I'' @ apos [] ''ll run the pending ones first.'', d)
      | Some updated \<Rightarrow>
          let n = length (filter queued updated); (saved, d') = save_queue E root updated d;
              plural = (if n = 1 then [] else ''s'') in
          if \<not> saved
          then (apos ''I couldn'' ''t save the overnight queue, sir '' @ dash @ '' the task is NOT queued. Check the state directory and try again.'', d')
          else if \<not> cloud_key_present
          then (''Saved to the overnight queue, sir '' @ dash @ '' '' @ nat_text n @ '' task'' @ plural @ '' '' @ dash @ apos '' but there'' ''s no Anthropic API key on file, so overnight work won''
                  @ apos [] ''t run until one is. Add a key and I'' @ apos [] ''ll pick it up the next time you'' @ apos [] ''re away.'', d')
          else (''Queued for tonight, sir '' @ dash @ '' '' @ nat_text n @ '' task'' @ plural @ '' waiting for the next time you'' @ apos [] ''re away.'', d'))"

section \<open>The run\<close>

datatype presence = Away | Present | Focused

definition should_run_now :: "presence \<Rightarrow> int option \<Rightarrow> int \<Rightarrow> int \<Rightarrow> bool" where
  "should_run_now p last_run now min_gap_secs =
     (if p \<noteq> Away then False
      else case last_run of None \<Rightarrow> True | Some prev \<Rightarrow> min_gap_secs \<le> (now - prev) sdiv 1000000000)"

text \<open>A completion is awaited on the world, which other turns may change meanwhile.\<close>

type_synonym 'v completion = "string \<Rightarrow> disk \<times> 'v \<Rightarrow> (string + string) \<times> (disk \<times> 'v)"

definition run_task :: "'v completion \<Rightarrow> overnight_task \<Rightarrow> disk \<times> 'v \<Rightarrow> overnight_task \<times> (disk \<times> 'v)" where
  "run_task run t w =
     (case run (ot_prompt t) w of
        (Inr text, w') \<Rightarrow> (t\<lparr> ot_result := bound_chars RESULT_MAX text, ot_status := TDone \<rparr>, w')
      | (Inl e, w') \<Rightarrow> (t\<lparr> ot_result := bound_chars 200 e, ot_status := TFailed \<rparr>, w'))"

fun run_tasks :: "'v completion \<Rightarrow> overnight_task list \<Rightarrow> disk \<times> 'v \<Rightarrow> nat \<times> overnight_task list \<times> (disk \<times> 'v)" where
  "run_tasks run [] w = (0, [], w)"
| "run_tasks run (t # ts) w =
     (if \<not> queued t then let (n, us, w') = run_tasks run ts w in (n, t # us, w')
      else let (u, w1) = run_task run t w; (n, us, w2) = run_tasks run ts w1 in (n + 1, u # us, w2))"

definition run_pending ::
    "overnight_env \<Rightarrow> bool \<Rightarrow> string \<Rightarrow> string \<Rightarrow> 'v completion \<Rightarrow> disk \<times> 'v \<Rightarrow> nat \<times> (disk \<times> 'v)" where
  "run_pending E enabled root now run w =
     (if \<not> enabled then (0, w)
      else let (ran, tasks, d, v) = run_tasks run (load_queue E root (fst w)) w;
               d1 = (if 0 < ran then snd (save_queue E root tasks d) else d)
           in (ran, write_last_run root now d1, v))"

text \<open>One tick of \<open>overnight_task\<close>; the configuration, the stop, the presence, the key and the throttle are read first.\<close>

record tick_view =
  tv_enabled :: bool
  tv_min_gap :: int
  tv_locked :: bool
  tv_presence :: presence
  tv_key :: bool
  tv_defer_heavy :: bool
  tv_now :: int
  tv_now_text :: string

definition overnight_tick :: "overnight_env \<Rightarrow> string \<Rightarrow> tick_view \<Rightarrow> 'v completion \<Rightarrow> disk \<times> 'v \<Rightarrow> nat \<times> (disk \<times> 'v)" where
  "overnight_tick E root T run w =
     (if \<not> tv_enabled T \<or> tv_locked T then (0, w)
      else if \<not> should_run_now (tv_presence T) (read_last_run E root (fst w)) (tv_now T) (tv_min_gap T) then (0, w)
      else if \<not> tv_key T then (0, w)
      else if tv_defer_heavy T then (0, w)
      else run_pending E (tv_enabled T) root (tv_now_text T) run w)"

section \<open>The brief\<close>

definition plan_brief :: "overnight_task list \<Rightarrow> morning_brief" where
  "plan_brief tasks =
     \<lparr> mb_done = length (filter (\<lambda>t. ot_status t = TDone) tasks),
       mb_failed = length (filter (\<lambda>t. ot_status t = TFailed) tasks),
       mb_pending = length (filter queued tasks),
       mb_items = map (\<lambda>t. \<lparr> bi_prompt = bound_chars 160 (ot_prompt t), bi_result = bound_chars 400 (ot_result t),
           bi_status = task_wire (ot_status t) \<rparr>)
         (take BRIEF_ITEMS (filter (\<lambda>t. \<not> queued t) (rev tasks))) \<rparr>"

definition overnight_status_payload :: "bool \<Rightarrow> bool \<Rightarrow> morning_brief \<Rightarrow> json" where
  "overnight_status_payload enabled key_present b =
     JObj [(''cloud_key_present'', JBool key_present), (''dep_verified'', JBool key_present),
       (''dependency'', JStr ''an Anthropic API key (in the Keychain)''), (''done'', JInt (int (mb_done b))),
       (''enabled'', JBool enabled), (''failed'', JInt (int (mb_failed b))),
       (''items'', JArr (map (\<lambda>i. JObj [(''prompt'', JStr (bi_prompt i)), (''result'', JStr (bi_result i)), (''status'', JStr (bi_status i))])
          (mb_items b))),
       (''queued'', JInt (int (mb_pending b))), (''runs_tools'', JBool False)]"

section \<open>What the queue promises\<close>

lemma remove_first_filter: "remove_first P xs = Some ys \<Longrightarrow> filter (\<lambda>x. \<not> P x) ys = filter (\<lambda>x. \<not> P x) xs \<and> Suc (length ys) = length xs"
  by (induction xs arbitrary: ys) (auto split: if_splits)

lemma remove_first_None: "remove_first P xs = None \<longleftrightarrow> (\<forall>x \<in> set xs. \<not> P x)"
  by (induction xs) auto

text \<open>
  The backlog: an enqueue never drops a task that waits, adds exactly the new one, keeps the cap, and is
  refused exactly when the cap is reached and everything waits.
\<close>

theorem enqueue_keeps_the_backlog:
  "case plan_enqueue E tasks prompt agent now of
     None \<Rightarrow> 20 \<le> length tasks \<and> filter queued tasks = tasks
   | Some ts \<Rightarrow> filter queued ts = filter queued tasks @ [new_task E prompt agent now]
       \<and> length ts = (if length tasks < 20 then length tasks + 1 else length tasks)"
proof -
  have q: "queued (new_task E prompt agent now)" by (simp add: queued_def new_task_def)
  show ?thesis
  proof (cases "20 \<le> length tasks")
    case True
    show ?thesis
    proof (cases "remove_first (\<lambda>t. \<not> queued t) tasks")
      case None
      then show ?thesis using True remove_first_None [of "\<lambda>t. \<not> queued t" tasks]
        by (simp add: plan_enqueue_def MAX_QUEUE_def filter_id_conv)
    next
      case (Some ys)
      then show ?thesis using True q remove_first_filter [OF Some] by (simp add: plan_enqueue_def MAX_QUEUE_def)
    qed
  qed (use q in \<open>simp add: plan_enqueue_def MAX_QUEUE_def\<close>)
qed

lemma queued_new: "queued (new_task E prompt agent now)"
  by (simp add: queued_def new_task_def)

text \<open>What is stored of a text has no run of six digits.\<close>

lemma bound_chars_short: "short_runs 6 (bound_chars n s)"
proof -
  have "concat (take n (chars (redact s))) @ concat (drop n (chars (redact s))) = redact s"
    unfolding concat_append [symmetric] append_take_drop_id by (rule concat_chars)
  moreover have "short_runs 6 (redact s)"
    using short_runs_redact_runs by (simp add: redact_def redact_digit_runs_def DIGIT_RUN_MIN_def)
  ultimately show ?thesis
    using short_runs_part [of 6 "[]" "concat (take n (chars (redact s)))" "concat (drop n (chars (redact s)))"]
    by (simp add: bound_chars_def)
qed

definition finished :: "overnight_task \<Rightarrow> overnight_task \<Rightarrow> bool" where
  "finished t u \<longleftrightarrow> (if queued t then \<not> queued u \<and> short_runs 6 (ot_result u)
       \<and> u\<lparr> ot_status := TQueued, ot_result := ot_result t \<rparr> = t else u = t)"

lemma run_task_finished: "queued t \<Longrightarrow> finished t (fst (run_task run t w))"
  using bound_chars_short by (auto simp: finished_def run_task_def queued_def split: prod.splits sum.splits)

lemma run_tasks_finish:
  "list_all2 finished ts (fst (snd (run_tasks run ts w))) \<and> fst (run_tasks run ts w) = length (filter queued ts)"
proof (induction ts arbitrary: w)
  case (Cons t ts)
  have "finished t t" if "\<not> queued t" using that by (simp add: finished_def)
  then show ?case using Cons run_task_finished [of t run w] by (simp add: case_prod_beta)
qed simp

text \<open>The law of the codec, and a disk that keeps what is written.\<close>

definition overnight_ok :: "overnight_env \<Rightarrow> bool" where
  "overnight_ok E \<longleftrightarrow> (\<forall>ts. ov_read E (ov_text E ts) = Some ts) \<and> (\<forall>d p s. ov_write_ok E d p s \<longleftrightarrow> write_effect d p s = Some s)"

lemma paths_differ [simp]: "last_run_path root \<noteq> queue_path root" "queue_path root \<noteq> last_run_path root"
  by (simp_all add: last_run_path_def queue_path_def)

lemma run_stores:
  assumes "overnight_ok E" and "run_tasks run (load_queue E root (fst w)) w = (k, tasks, d, v)" and "0 < k"
    and "write_effect d = (\<lambda>p s. Some s)"
  shows "load_queue E root (fst (snd (run_pending E True root now run w))) = tasks"
  using assms by (simp add: run_pending_def save_queue_def write_last_run_def load_queue_def overnight_ok_def)

text \<open>
  A task enqueued while a run is awaiting a completion is acknowledged and then lost: the run saves the
  queue it loaded before.
\<close>

lemma enqueue_during_a_run_is_lost:
  assumes "overnight_ok E" and "write_effect d = (\<lambda>p s. Some s)" and "load_queue E root d = [t]" and "queued t"
    and "\<And>p w. run p w = (Inr ''a draft'', (snd (enqueue E root True True ''compare flights'' ''darwin'' now (fst w)), snd w))"
  shows "fst (enqueue E root True True ''compare flights'' ''darwin'' now d)
      = ''Queued for tonight, sir '' @ dash @ '' 2 tasks waiting for the next time you'' @ apos [] ''re away.''"
    and "\<exists>r. load_queue E root (fst (snd (run_pending E True root now run (d, v)))) = [t\<lparr> ot_result := r, ot_status := TDone \<rparr>]"
proof -
  have t: "trim ''compare flights'' = ''compare flights''" "nat_text 2 = ''2''" by code_simp+
  have "plan_enqueue E [t] ''compare flights'' ''darwin'' now = Some [t, new_task E ''compare flights'' ''darwin'' now]"
    by (simp add: plan_enqueue_def MAX_QUEUE_def)
  then have e: "enqueue E root True True ''compare flights'' ''darwin'' now d =
      (''Queued for tonight, sir '' @ dash @ '' 2 tasks waiting for the next time you'' @ apos [] ''re away.'',
       snd (save_queue E root [t, new_task E ''compare flights'' ''darwin'' now] d))"
    using assms(1-4) t by (simp add: enqueue_def Let_def save_queue_def overnight_ok_def queued_new numeral_2_eq_2 [symmetric])
  then show "fst (enqueue E root True True ''compare flights'' ''darwin'' now d)
      = ''Queued for tonight, sir '' @ dash @ '' 2 tasks waiting for the next time you'' @ apos [] ''re away.''" by simp
  let ?u = "t\<lparr> ot_result := bound_chars RESULT_MAX ''a draft'', ot_status := TDone \<rparr>"
  have "run_tasks run (load_queue E root (fst (d, v))) (d, v)
      = (1, [?u], (snd (save_queue E root [t, new_task E ''compare flights'' ''darwin'' now] d), v))"
    using assms(3-5) e by (simp add: run_task_def)
  then have "load_queue E root (fst (snd (run_pending E True root now run (d, v)))) = [?u]"
    by (rule run_stores [OF assms(1)]) (simp_all add: save_queue_def assms(2))
  then show "\<exists>r. load_queue E root (fst (snd (run_pending E True root now run (d, v)))) = [t\<lparr> ot_result := r, ot_status := TDone \<rparr>]"
    by blast
qed

text \<open>
  The gate of the tick: nothing runs while the owner is there, under the stop, without a key or within
  the gap; and once the gap is over an absence that lasts runs the queue again.
\<close>

lemma tick_is_gated:
  assumes "tv_presence T \<noteq> Away \<or> tv_locked T \<or> \<not> tv_key T \<or> \<not> tv_enabled T
    \<or> (\<exists>p. read_last_run E root (fst w) = Some p \<and> (tv_now T - p) sdiv 1000000000 < tv_min_gap T)"
  shows "overnight_tick E root T run w = (0, w)"
  using assms by (auto simp: overnight_tick_def should_run_now_def)

lemma long_absence_runs_again: "0 \<le> gap \<Longrightarrow> should_run_now Away (Some p) (p + gap * 1000000000) gap"
  by (simp add: should_run_now_def signed_divide_int_def sgn_if)

end
