(* ===== verification/Spec2Isabelle.thy ===== *)
theory Spec2Isabelle
  imports PlanBind ConfirmReply ConfirmMachine PolicyCommand AuditProofs LockdownStop ChokeFindings StandingUndo MacroReplay
    PanicTurn
    ChangeMirror ShellGuard DurableMission Overnight
begin

text \<open>
  A verification development of the consent and accountability core of Darwin's daemon.

  The program. A Rust daemon (\<open>daemon/src\<close>) hosts agents that call tools. A tool call passes one
  chokepoint, \<open>execute_tool\<close> in \<open>anthropic.rs\<close>. A call on the list of consequential tools is never
  run on the model's word: the chokepoint builds a dry-run preview, asks the user's policy store
  (\<open>policy.rs\<close>, hardened by the fleet floor of \<open>fleet.rs\<close>) and, if the answer is ask, parks it in the
  one confirmation slot (\<open>confirm.rs\<close>) with a digest of the state it was planned against
  (\<open>plan.rs\<close>). A spoken reply on a later turn is classified and, if it is a clear yes, the parked
  action is replayed. Every decision is a row of the hash chain of \<open>audit.rs\<close>, redacted by
  \<open>optimize.rs\<close>; every execution is an entry of the undo journal (\<open>journal.rs\<close>). The master switch
  (\<open>integrations/mod.rs\<close>), the emergency stop (\<open>lockdown.rs\<close>), the owner voice gate (\<open>voiceid.rs\<close>),
  the guest scope (\<open>threshold.rs\<close>, on the focus profiles of \<open>focus.rs\<close>) and the per-server allowlists
  of the MCP host (\<open>mcp.rs\<close>) each restrict what may run. Work that runs without a person in the loop
  goes through the same chokepoint: standing missions (\<open>standing.rs\<close>), runbooks (\<open>runbook.rs\<close>) and
  recorded macros (\<open>macros.rs\<close>), and so do the sub-tasks of a mission (\<open>mission.rs\<close>,
  \<open>durable_missions.rs\<close>). What the daemon proposes to change in itself waits in the change queue
  (\<open>changeq.rs\<close>); the shell tool runs its command in a sandbox (\<open>shell.rs\<close>); questions for the night wait
  in the overnight queue (\<open>overnight.rs\<close>). The front of \<open>route\<close> in \<open>router.rs\<close> joins them: it reads each
  utterance as a panic, an unlock, a reply to the parked action or a command, before any model runs.
\<close>

section \<open>The theories\<close>

text \<open>
  Foundations. \<open>Prelude\<close>: the rewrite collections, ordered maps and list lemmas. \<open>RustStr\<close>: Rust's
  \<open>str\<close> on UTF-8 bytes. \<open>JsonValue\<close>: \<open>serde_json::Value\<close> and the record \<open>externals\<close> of SHA-256 and
  JSON printing. \<open>Disk\<close>: whole-file reads and writes. \<open>Facts\<close>: the fact table of \<open>memory.rs\<close>.

  The gate. \<open>ConfirmGate\<close>: the slot and the reply classifier of \<open>confirm.rs\<close>; \<open>ConfirmReply\<close>: the
  classifier equals a grammar of replies; \<open>ConfirmMachine\<close>: the slot under any interleaving.
  \<open>PolicyStore\<close>, \<open>PolicyCommand\<close>: rules, precedence, phrases and their acknowledgements; \<open>FleetFloor\<close>:
  the baseline as a least upper bound. \<open>PlanBind\<close>: state-bound plans. \<open>Redact\<close>: the redactor.
  \<open>AuditChain\<close>, \<open>AuditProofs\<close>: the chain, its retention, its external anchor, and what they prove.
  \<open>LockdownStop\<close>: the stop, its marker and its phrases. \<open>VoiceGate\<close>, \<open>GuestScope\<close>, \<open>McpHost\<close>: the
  owner gate, guest scope and MCP host. \<open>ActionJournal\<close>: ledger, inverses and the armed undo.
  \<open>Chokepoint\<close> composes all of them into \<open>execute_tool\<close> and the confirmed replay on the record
  \<open>world\<close>; \<open>ChokeProofs\<close> shows what a tool call, the calls of a whole turn with those of missions nested in
  them (\<open>requests_run\<close>) and a confirmation let out, \<open>ChokeSafety\<close> what happens under the stop, for a
  guest and in the audit trail, and \<open>ChokeFindings\<close> where it does
  less than its comments say. The calls that leave are the list \<open>w_calls\<close>; \<open>fires\<close> picks those that
  act on the world.

  Unattended work. \<open>Schedule\<close>, \<open>Standing\<close>, \<open>StandingProofs\<close>, \<open>StandingPropose\<close>, \<open>StandingUndo\<close>: the
  schedules, store, schedulers, tools and undo of \<open>standing.rs\<close>. \<open>Runbook\<close>: parser, registry, checker
  and topological order of \<open>runbook.rs\<close>; \<open>RunbookOrder\<close>: the order is exact and its loop ends;
  \<open>RunbookCheck\<close>: the checker decides a typing judgement; \<open>RunbookRun\<close>, \<open>RunbookTypes\<close>: the executor
  routes only justified and well-typed steps; \<open>RunbookVoice\<close>, \<open>RunbookLive\<close>: the spoken command and the
  executor on the real chokepoint. \<open>Macros\<close>: the recorder and its store.

  Missions and queues. \<open>AgentSelect\<close>: the choice of the agent for an utterance, its cue tables and the
  shipped roster (\<open>agents.rs\<close>). \<open>Mission\<close>: plan bounds, routing, the dispatch loop and its depth, the
  report; a mission has a ceiling on its cost and its sub-tasks stay in the scope of their agents.
  \<open>DurableMission\<close>: the stored missions, their resume and their tools. \<open>Overnight\<close>: the overnight queue,
  its run and the tick of \<open>main.rs\<close>. \<open>ChangeQueue\<close>, \<open>ChangeMirror\<close>: the kinds, provenance trailers and
  bounded queue of \<open>changeq.rs\<close> with its tools, and the mirror onto the review branch as a sequence of git
  commands. \<open>ShellGuard\<close>: the denylist, the sandbox profile, the captured output and the tool of the shell.

  The turn. \<open>UndoTurn\<close>: the spoken undo. \<open>Roster\<close>: the acting agent (\<open>agents.rs\<close>). \<open>VaultMode\<close>:
  \<open>vault.rs\<close>. \<open>ModelTier\<close>: \<open>model_tier.rs\<close> and the brain of a turn. \<open>Whisper\<close>: the toggle of
  \<open>prosody.rs\<close>. \<open>CommandTurn\<close>: \<open>route\<close> from its entry to the undo command on the record \<open>daemon\<close>, with
  what one utterance may fire, what a guest may change and when the cloud may be used. \<open>MacroReplay\<close>:
  the replay of a macro in \<open>main.rs\<close> over that front. \<open>PanicTurn\<close>: what follows a panic, over any
  sequence of utterances, tool calls and confirmations.
\<close>

section \<open>Parameters, bounds and fuel\<close>

text \<open>
  What is not under \<open>daemon/src\<close> is an argument: SHA-256 and hexadecimal printing, \<open>serde_json\<close> and
  TOML text, \<open>to_lowercase\<close> and Unicode alphanumerics, \<open>f64\<close> arithmetic, the clock, the Keychain, the
  clients of third-party services (\<open>outside\<close>) and the inference server. A property that relies on one
  of them names it as a hypothesis, such as \<open>serde_objects\<close> (a gated argument struct is parsed from an
  object) or a codec that reads back its own text, and has a witness with a concrete instance. Two
  hypotheses describe the rest of a turn rather than outside code: \<open>no_unlock\<close> says that no other task
  lifts the emergency stop while a call is awaited, and \<open>lv_rest\<close> of \<open>MacroReplay\<close> is whatever \<open>route\<close>
  does after its modelled front. In the theories of missions, the change queue, the shell and the night,
  the planner and the cloud tool loop, git and the tree on disk, spawning a child and an awaited
  completion are functions that also change the world they are given.

  The dispatch of \<open>fury_mission\<close> and \<open>mission_resume\<close> is modelled twice. For the gate,
  \<open>dispatch_tool\<close> is the call alone, a plain one, and the tool loops it runs before it answers are
  further requests to the same chokepoint: \<open>requests_run\<close> makes them, nested, after the call that
  sets them off. What those loops are given is \<open>Mission\<close> and \<open>DurableMission\<close>.

  Counters. The numbers of the journal and of the change queue are 64-bit words and wrap. The sequence
  numbers of the audit log are unbounded integers where the code has \<open>i64\<close>; they part after \<open>2^63\<close>
  rows. The lower case of Rust treats the capital sigma by its context, every other character by
  itself (\<open>lowers_by_char\<close> in \<open>ShellGuard\<close>).

  Loops are structural recursion or functions with a termination proof: the peeling loops of the
  classifiers shrink the text and the string readers shrink their rest. The loop of Kahn carries fuel,
  the number of steps, which \<open>kahn_drains\<close> in \<open>RunbookOrder\<close> shows to be enough: its queue is always
  emptied. The engine of missions calls itself one level deeper for a mission asked for by a sub-task and
  ends by the depth bound. Retention and caps are the constants of the code (64 journal entries, 8 missions, 256
  captured commands).
\<close>

section \<open>Not modelled\<close>

text \<open>
  Audio, speech, inference transport, the integration clients, telemetry frames and panel text: they
  are I/O around the gate. Search and ranking stores, the spend ledger, prosody shaping, the size
  estimate and plan of warm local models: floating-point arithmetic. The classifiers of \<open>route\<close> after
  the undo command and the conversation: they end in the modelled chokepoint when they act. The
  self-heal, code and forge pipelines: long processes of model calls and system commands. What a
  dispatcher puts into a prompt, the semantic fallback of the roster and its spoken form. SQL errors: the stores are modelled as succeeding. Concurrency
  is modelled where tasks share state with the gate (the interleavings of \<open>ConfirmMachine\<close> and the
  stop or switch that changes while a call is awaited in \<open>Chokepoint\<close>) and where a completion of the
  night or a plan is awaited, not elsewhere; in particular the check of the stop and the request of
  \<open>mcp_call\<close> are one step, while the code may wait for a token in between. The HUD and the
  micro-apps are other programs.
\<close>

end
